(* ===== verification/Prelude.thy ===== *)
theory Prelude
  imports Main "HOL-Library.Word" "HOL-Library.Code_Target_Nat"
begin

text \<open>
  Shared vocabulary of the development: the outcome of a Rust function (value, error value
  or panic), the machine integers, the checked and saturating arithmetic the sources call,
  and the list operations (\<open>position\<close>, indexed reads and writes of a \<open>Vec\<close>) that the
  components share.

  Every function that can fail is modelled with the type \<open>('e, 'a) result\<close>: \<open>Ok\<close> and \<open>Err\<close>
  are the constructors of Rust's \<open>Result\<close>, and \<open>Panic\<close> stands for every way the source can
  abort (a failed \<open>expect\<close> or \<open>assert!\<close>, an index out of bounds, an arithmetic overflow in
  the debug profile, which is the profile the runner builds).  An \<open>Option\<close> whose
  computation can panic is \<open>(unit, 'a) result\<close>.  A method that takes \<open>&mut self\<close> returns
  its result paired with the new state, which on an error is the state that the code leaves
  behind.
\<close>

unbundle bit_operations_syntax

section \<open>Outcomes\<close>

datatype ('e, 'a) result = Ok 'a | Err 'e | Panic

named_theorems result_simps \<open>equations that decide the outcome of a composed computation\<close>
named_theorems inv_intros \<open>an operation keeps the invariant of its component\<close>

text \<open>The question-mark operator, for pure functions and for functions over a state.\<close>

fun rbind :: "('e, 'a) result \<Rightarrow> ('a \<Rightarrow> ('e, 'b) result) \<Rightarrow> ('e, 'b) result" where
  "rbind (Ok a) f = f a"
| "rbind (Err e) f = Err e"
| "rbind Panic f = Panic"

fun sbind :: "('e, 'a) result \<times> 's \<Rightarrow> ('a \<Rightarrow> 's \<Rightarrow> ('e, 'b) result \<times> 's) \<Rightarrow> ('e, 'b) result \<times> 's" where
  "sbind (Ok a, s) f = f a s"
| "sbind (Err e, s) f = (Err e, s)"
| "sbind (Panic, s) f = (Panic, s)"

text \<open>\<open>lift r s f\<close> runs the pure computation \<open>r\<close> and continues with its value in state \<open>s\<close>.\<close>

fun lift :: "('e, 'a) result \<Rightarrow> 's \<Rightarrow> ('a \<Rightarrow> ('e, 'b) result \<times> 's) \<Rightarrow> ('e, 'b) result \<times> 's" where
  "lift (Ok a) s f = f a"
| "lift (Err e) s f = (Err e, s)"
| "lift Panic s f = (Panic, s)"

text \<open>\<open>let _ = ..\<close>: the result is dropped, a panic is not.\<close>

fun discard :: "('e, 'a) result \<times> 's \<Rightarrow> ('f, unit) result \<times> 's" where
  "discard (Ok a, s) = (Ok (), s)"
| "discard (Err e, s) = (Ok (), s)"
| "discard (Panic, s) = (Panic, s)"

fun map_err :: "('e \<Rightarrow> 'f) \<Rightarrow> ('e, 'a) result \<Rightarrow> ('f, 'a) result" where
  "map_err g (Ok a) = Ok a"
| "map_err g (Err e) = Err (g e)"
| "map_err g Panic = Panic"

fun map_ok :: "('a \<Rightarrow> 'b) \<Rightarrow> ('e, 'a) result \<Rightarrow> ('e, 'b) result" where
  "map_ok g (Ok a) = Ok (g a)"
| "map_ok g (Err e) = Err e"
| "map_ok g Panic = Panic"

fun ok_or :: "'e \<Rightarrow> 'a option \<Rightarrow> ('e, 'a) result" where
  "ok_or e None = Err e"
| "ok_or e (Some a) = Ok a"

fun unwrap_or :: "'a option \<Rightarrow> 'a \<Rightarrow> 'a" where
  "unwrap_or None d = d"
| "unwrap_or (Some a) d = a"

text \<open>\<open>expect\<close> on an \<open>Option\<close> and on a \<open>Result\<close>: a missing value is a panic.\<close>

fun expect :: "'a option \<Rightarrow> ('e, 'a) result" where
  "expect None = Panic"
| "expect (Some a) = Ok a"

fun expect_ok :: "('f, 'a) result \<Rightarrow> ('e, 'a) result" where
  "expect_ok (Ok a) = Ok a"
| "expect_ok (Err e) = Panic"
| "expect_ok Panic = Panic"

definition assert_that :: "bool \<Rightarrow> ('e, unit) result" where
  "assert_that b = (if b then Ok () else Panic)"

definition ensure :: "bool \<Rightarrow> 'e \<Rightarrow> ('e, unit) result" where
  "ensure b e = (if b then Ok () else Err e)"

lemma rbind_eq_Ok [result_simps]: "rbind r f = Ok b \<longleftrightarrow> (\<exists>a. r = Ok a \<and> f a = Ok b)"
  by (cases r) auto

lemma rbind_eq_Err [result_simps]:
  "rbind r f = Err e \<longleftrightarrow> r = Err e \<or> (\<exists>a. r = Ok a \<and> f a = Err e)"
  by (cases r) auto

lemma rbind_eq_Panic [result_simps]:
  "rbind r f = Panic \<longleftrightarrow> r = Panic \<or> (\<exists>a. r = Ok a \<and> f a = Panic)"
  by (cases r) auto

lemma sbind_eq_Ok [result_simps]:
  "sbind x f = (Ok b, s') \<longleftrightarrow> (\<exists>a s. x = (Ok a, s) \<and> f a s = (Ok b, s'))"
  by (cases "(x, f)" rule: sbind.cases) auto

lemma lift_eq_Ok [result_simps]:
  "lift r s f = (Ok b, s') \<longleftrightarrow> (\<exists>a. r = Ok a \<and> f a = (Ok b, s'))"
  by (cases r) auto

lemma lift_eq_Err [result_simps]:
  "lift r s f = (Err e, s') \<longleftrightarrow> (r = Err e \<and> s' = s) \<or> (\<exists>a. r = Ok a \<and> f a = (Err e, s'))"
  by (cases r) auto

lemma lift_eq_Panic [result_simps]:
  "lift r s f = (Panic, s') \<longleftrightarrow> (r = Panic \<and> s' = s) \<or> (\<exists>a. r = Ok a \<and> f a = (Panic, s'))"
  by (cases r) auto

lemma map_err_eq [result_simps]:
  "map_err g r = Ok a \<longleftrightarrow> r = Ok a"
  "map_err g r = Panic \<longleftrightarrow> r = Panic"
  "map_err g r = Err e \<longleftrightarrow> (\<exists>d. r = Err d \<and> e = g d)"
  by (cases r; auto)+

lemma map_ok_eq [result_simps]:
  "map_ok h r = Ok b \<longleftrightarrow> (\<exists>a. r = Ok a \<and> b = h a)"
  "map_ok h r = Panic \<longleftrightarrow> r = Panic"
  "map_ok h r = Err e \<longleftrightarrow> r = Err e"
  by (cases r; auto)+

lemma ok_or_eq [result_simps]:
  "ok_or e x = Ok a \<longleftrightarrow> x = Some a"
  "ok_or e x = Err d \<longleftrightarrow> x = None \<and> d = e"
  "ok_or e x \<noteq> Panic"
  by (cases x; auto)+

lemma expect_eq [result_simps]:
  "expect x = Ok a \<longleftrightarrow> x = Some a"
  "expect x \<noteq> Err d"
  "expect x = Panic \<longleftrightarrow> x = None"
  by (cases x; auto)+

lemma expect_ok_eq [result_simps]:
  "expect_ok r = Ok a \<longleftrightarrow> r = Ok a"
  "expect_ok r \<noteq> Err d"
  "expect_ok r = Panic \<longleftrightarrow> (\<forall>a. r \<noteq> Ok a)"
  by (cases r; auto)+

lemma assert_that_eq [result_simps]:
  "assert_that b = Ok u \<longleftrightarrow> b"
  "assert_that b \<noteq> Err e"
  "assert_that b = Panic \<longleftrightarrow> \<not> b"
  by (auto simp: assert_that_def)

lemma ensure_eq [result_simps]:
  "ensure b e = Ok u \<longleftrightarrow> b"
  "ensure b e = Err d \<longleftrightarrow> \<not> b \<and> d = e"
  "ensure b e \<noteq> Panic"
  by (auto simp: ensure_def)

section \<open>Outcomes of a step\<close>

text \<open>
  \<open>after Q E x\<close>: the step does not panic; if it succeeds, its value and state satisfy \<open>Q\<close>, and if it
  fails, its error and state satisfy \<open>E\<close>.  The equations push it through the code's control flow.
\<close>

fun after :: "('a \<Rightarrow> 's \<Rightarrow> bool) \<Rightarrow> ('e \<Rightarrow> 's \<Rightarrow> bool) \<Rightarrow> ('e, 'a) result \<times> 's \<Rightarrow> bool" where
  "after Q E (Ok a, s) = Q a s"
| "after Q E (Err e, s) = E e s"
| "after Q E (Panic, s) = False"

lemma step_cases [case_names Ok Err Panic]:
  obtains a s where "x = (Ok a, s)" | e s where "x = (Err e, s)" | s where "x = (Panic, s)"
  by (metis result.exhaust surj_pair)

named_theorems after_simps \<open>how \<open>after\<close> passes through the code's control flow\<close>

lemma after_sbind [after_simps]: "after Q E (sbind x f) = after (\<lambda>a s. after Q E (f a s)) E x"
  by (cases "(x, f)" rule: sbind.cases) auto

lemma after_lift [after_simps]:
  "after Q E (lift r s f) = (case r of Ok a \<Rightarrow> after Q E (f a) | Err e \<Rightarrow> E e s | Panic \<Rightarrow> False)"
  by (cases r) auto

lemma after_discard [after_simps]: "after Q E (discard x) = after (\<lambda>_ s. Q () s) (\<lambda>_ s. Q () s) x"
  by (cases x rule: step_cases) auto

lemma after_apsnd [after_simps]: "after Q E (apsnd g x) = after (\<lambda>a s. Q a (g s)) (\<lambda>e s. E e (g s)) x"
  by (cases x rule: step_cases) auto

lemma after_map_ok [after_simps]: "after Q E (map_ok f r, s) = after (\<lambda>a. Q (f a)) E (r, s)"
  by (cases r) auto

lemma after_mono:
  assumes "after Q E x" and "\<And>a s. Q a s \<Longrightarrow> Q' a s" and "\<And>e s. E e s \<Longrightarrow> E' e s"
  shows "after Q' E' x"
  using assms by (cases x rule: step_cases) auto

lemma after_iff:
  "after Q E x \<longleftrightarrow> (\<forall>a s. x = (Ok a, s) \<longrightarrow> Q a s) \<and> (\<forall>e s. x = (Err e, s) \<longrightarrow> E e s) \<and> fst x \<noteq> Panic"
  by (cases x rule: step_cases) auto

text \<open>Taking a successful step apart: what each statement on the way must have returned.\<close>

lemma sbind_OkE: "sbind x f = (Ok b, s') \<Longrightarrow> (\<And>a s. x = (Ok a, s) \<Longrightarrow> f a s = (Ok b, s') \<Longrightarrow> thesis) \<Longrightarrow> thesis"
  by (cases x rule: step_cases) auto

lemma lift_OkE: "lift r s f = (Ok b, s') \<Longrightarrow> (\<And>a. r = Ok a \<Longrightarrow> f a = (Ok b, s') \<Longrightarrow> thesis) \<Longrightarrow> thesis"
  by (cases r) auto

lemma apsndE: "apsnd f x = (r, s) \<Longrightarrow> (\<And>s0. x = (r, s0) \<Longrightarrow> s = f s0 \<Longrightarrow> thesis) \<Longrightarrow> thesis"
  by (cases x) auto

lemma result_caseE: "(case r of Ok a \<Rightarrow> f a | Err e \<Rightarrow> g e | Panic \<Rightarrow> h) = y \<Longrightarrow> (\<And>a. r = Ok a \<Longrightarrow> f a = y \<Longrightarrow> thesis)
    \<Longrightarrow> (\<And>e. r = Err e \<Longrightarrow> g e = y \<Longrightarrow> thesis) \<Longrightarrow> (r = Panic \<Longrightarrow> h = y \<Longrightarrow> thesis) \<Longrightarrow> thesis"
  by (cases r) auto

lemma prod_caseE: "(case x of (a, b) \<Rightarrow> f a b) = y \<Longrightarrow> (\<And>a b. x = (a, b) \<Longrightarrow> f a b = y \<Longrightarrow> thesis) \<Longrightarrow> thesis"
  by (cases x) auto

lemmas step_elims = sbind_OkE lift_OkE apsndE result_caseE prod_caseE

section \<open>Machine integers\<close>

text \<open>
  \<open>u64\<close> values (addresses, generations, object identifiers, handle values) are 64-bit words.
  A \<open>usize\<close> that counts or indexes is a natural number: both targets are 64-bit, so it is
  bounded by \<open>usize_max\<close>, and each operation that could leave that range is written with its
  bound below.  A \<open>usize\<close> that is an address (\<open>Paddr\<close>) is a 64-bit word.
\<close>

type_synonym u8 = "8 word"
type_synonym u32 = "32 word"
type_synonym u64 = "64 word"
type_synonym usize = nat

definition usize_max :: nat where
  "usize_max = 18446744073709551615"

definition usize_add :: "usize \<Rightarrow> usize \<Rightarrow> ('e, usize) result" where
  "usize_add a b = (if a + b \<le> usize_max then Ok (a + b) else Panic)"

definition usize_sub :: "usize \<Rightarrow> usize \<Rightarrow> ('e, usize) result" where
  "usize_sub a b = (if b \<le> a then Ok (a - b) else Panic)"

definition usize_checked_add :: "usize \<Rightarrow> usize \<Rightarrow> usize option" where
  "usize_checked_add a b = (if a + b \<le> usize_max then Some (a + b) else None)"

definition usize_saturating_add :: "usize \<Rightarrow> usize \<Rightarrow> usize" where
  "usize_saturating_add a b = min (a + b) usize_max"

definition usize_saturating_sub :: "usize \<Rightarrow> usize \<Rightarrow> usize" where
  "usize_saturating_sub a b = a - b"

definition checked_add :: "u64 \<Rightarrow> u64 \<Rightarrow> u64 option" where
  "checked_add a b = (if unat a + unat b < 2 ^ 64 then Some (a + b) else None)"

text \<open>\<open>usize::try_from\<close> of a \<open>u64\<close>: both targets are 64-bit, so it always succeeds; and \<open>as usize\<close>.\<close>

definition usize_try_from :: "u64 \<Rightarrow> usize option" where
  "usize_try_from a = (if unat a \<le> usize_max then Some (unat a) else None)"

definition as_usize :: "u64 \<Rightarrow> usize" where
  "as_usize a = unat a"

definition as_u64 :: "usize \<Rightarrow> u64" where
  "as_u64 n = of_nat n"

text \<open>Addition, subtraction and multiplication of the debug profile: overflow is a panic.\<close>

definition u64_add :: "u64 \<Rightarrow> u64 \<Rightarrow> ('e, u64) result" where
  "u64_add a b = expect (checked_add a b)"

definition u64_sub :: "u64 \<Rightarrow> u64 \<Rightarrow> ('e, u64) result" where
  "u64_sub a b = (if b \<le> a then Ok (a - b) else Panic)"

definition u64_mul :: "u64 \<Rightarrow> u64 \<Rightarrow> ('e, u64) result" where
  "u64_mul a b = (if unat a * unat b < 2 ^ 64 then Ok (a * b) else Panic)"

text \<open>\<open>Generation::next\<close>: every generation newtype of the kernel has this body.\<close>

definition next_generation :: "u64 \<Rightarrow> ('e, u64) result" where
  "next_generation g = expect (checked_add g 1)"

lemma checked_add_eq_Some [result_simps]:
  "checked_add a b = Some c \<longleftrightarrow> unat a + unat b < 2 ^ 64 \<and> c = a + b"
  by (auto simp: checked_add_def)

lemma checked_add_eq_None [result_simps]:
  "checked_add a b = None \<longleftrightarrow> 2 ^ 64 \<le> unat a + unat b"
  by (auto simp: checked_add_def)

lemma unat_add_no_overflow:
  fixes a b :: u64
  assumes "unat a + unat b < 2 ^ 64"
  shows "unat (a + b) = unat a + unat b"
  using assms by (simp add: unat_word_ariths)

lemma unat_sub_le:
  fixes a b :: u64
  assumes "b \<le> a"
  shows "unat (a - b) = unat a - unat b"
  using assms by (simp add: unat_sub)

lemma usize_add_eq [result_simps]:
  "usize_add a b = Ok c \<longleftrightarrow> a + b \<le> usize_max \<and> c = a + b"
  "usize_add a b \<noteq> Err e"
  "usize_add a b = Panic \<longleftrightarrow> usize_max < a + b"
  by (auto simp: usize_add_def)

lemma usize_sub_eq [result_simps]:
  "usize_sub a b = Ok c \<longleftrightarrow> b \<le> a \<and> c = a - b"
  "usize_sub a b \<noteq> Err e"
  "usize_sub a b = Panic \<longleftrightarrow> a < b"
  by (auto simp: usize_sub_def)

lemma u64_sub_eq [result_simps]:
  "u64_sub a b = Ok c \<longleftrightarrow> b \<le> a \<and> c = a - b"
  "u64_sub a b \<noteq> Err e"
  "u64_sub a b = Panic \<longleftrightarrow> a < b"
  by (auto simp: u64_sub_def)

lemma u64_mul_eq [result_simps]:
  "u64_mul a b = Ok c \<longleftrightarrow> unat a * unat b < 2 ^ 64 \<and> c = a * b"
  "u64_mul a b \<noteq> Err e"
  "u64_mul a b = Panic \<longleftrightarrow> 2 ^ 64 \<le> unat a * unat b"
  by (auto simp: u64_mul_def)

lemma next_generation_eq [result_simps]:
  "next_generation g = Ok h \<longleftrightarrow> unat g + 1 < 2 ^ 64 \<and> h = g + 1"
  "next_generation g \<noteq> Err e"
  "next_generation g = Panic \<longleftrightarrow> 2 ^ 64 \<le> unat g + 1"
  by (auto simp: next_generation_def result_simps)

lemma next_generation_neq: "next_generation g = Ok h \<Longrightarrow> h \<noteq> g"
  by (auto simp: result_simps)

lemma unat_next_generation: "next_generation g = Ok h \<Longrightarrow> unat h = Suc (unat g)"
  by (auto simp: result_simps unat_word_ariths)

lemma unat_of_nat_u64:
  assumes "n \<le> usize_max"
  shows "unat (of_nat n :: u64) = n"
  using assms by (simp add: unat_of_nat usize_max_def)

lemma unat_u64_less: "unat (a :: u64) < 2 ^ 64"
proof -
  have "unat a < 2 ^ LENGTH(64)" by (rule unsigned_less)
  then show ?thesis by simp
qed

lemma usize_try_from_eq [result_simps]: "usize_try_from a = Some (unat a)"
  using unat_u64_less [of a] by (simp add: usize_try_from_def usize_max_def)

text \<open>Clearing the low bits of a word rounds it down.\<close>

lemma and_not_mask_eq: "v AND NOT (mask k) = v - take_bit k v" for v :: u64
proof -
  have "v AND NOT (mask k) = v AND NOT (take_bit k v)"
    by (rule bit_eqI) (auto simp: bit_simps)
  also have "\<dots> = v - take_bit k v"
    by (rule disjunctive_diff_eq_and_not [symmetric]) (rule bit_eqI, auto simp: bit_simps)
  finally show ?thesis .
qed

lemma unat_take_bit_mod: "unat (take_bit k v) = unat v mod 2 ^ k" for v :: u64
  by (simp only: unsigned_take_bit_eq) (simp add: take_bit_eq_mod)

lemma unat_exp_u64: "k < 64 \<Longrightarrow> unat (2 ^ k :: u64) = 2 ^ k"
proof -
  assume k: "k < 64"
  have "unat (of_nat (2 ^ k) :: u64) = 2 ^ k mod 2 ^ 64" by (simp only: unat_of_nat) simp
  also have "\<dots> = 2 ^ k" using k by (intro mod_less power_strict_increasing) simp_all
  finally show ?thesis by simp
qed

lemma take_bit_le: "take_bit k v \<le> v" for v :: u64
  by (simp add: word_le_nat_alt unat_take_bit_mod)

lemma unat_and_not_mask: "unat (v AND NOT (mask k)) = unat v div 2 ^ k * 2 ^ k" for v :: u64
proof -
  have "unat (v AND NOT (mask k)) = unat v - unat v mod 2 ^ k"
    by (simp add: and_not_mask_eq unat_sub take_bit_le unat_take_bit_mod)
  then show ?thesis by (simp add: minus_mod_eq_div_mult)
qed

section \<open>Vectors\<close>

text \<open>Indexed reads and writes of a \<open>Vec\<close> or an array: out of bounds is a panic.\<close>

definition vec_get :: "'a list \<Rightarrow> nat \<Rightarrow> ('e, 'a) result" where
  "vec_get xs i = (if i < length xs then Ok (xs ! i) else Panic)"

lemma vec_get_eq [result_simps]:
  "vec_get xs i = Ok x \<longleftrightarrow> i < length xs \<and> x = xs ! i"
  "vec_get xs i \<noteq> Err e"
  "vec_get xs i = Panic \<longleftrightarrow> length xs \<le> i"
  by (auto simp: vec_get_def)

lemma replicate_numeral: "replicate (numeral n) x = x # replicate (pred_numeral n) x"
  by (simp add: numeral_eq_Suc)

definition vec_set :: "'a list \<Rightarrow> nat \<Rightarrow> 'a \<Rightarrow> ('e, 'a list) result" where
  "vec_set xs i x = (if i < length xs then Ok (xs[i := x]) else Panic)"

lemma vec_set_eq [result_simps]:
  "vec_set xs i x = Ok ys \<longleftrightarrow> i < length xs \<and> ys = xs[i := x]"
  "vec_set xs i x \<noteq> Err e"
  "vec_set xs i x = Panic \<longleftrightarrow> length xs \<le> i"
  by (auto simp: vec_set_def)

text \<open>\<open>Iterator::position\<close>, and its form for a test that can panic.\<close>

fun position :: "('a \<Rightarrow> bool) \<Rightarrow> 'a list \<Rightarrow> nat option" where
  "position P [] = None"
| "position P (x # xs) = (if P x then Some 0 else map_option Suc (position P xs))"

fun position_r :: "('a \<Rightarrow> ('e, bool) result) \<Rightarrow> 'a list \<Rightarrow> ('e, nat option) result" where
  "position_r P [] = Ok None"
| "position_r P (x # xs) =
     rbind (P x) (\<lambda>b. if b then Ok (Some 0) else map_ok (map_option Suc) (position_r P xs))"

text \<open>\<open>Iterator::all\<close> for a test that can panic: it stops at the first failure.\<close>

fun all_r :: "('a \<Rightarrow> ('e, bool) result) \<Rightarrow> 'a list \<Rightarrow> ('e, bool) result" where
  "all_r P [] = Ok True"
| "all_r P (x # xs) = rbind (P x) (\<lambda>b. if b then all_r P xs else Ok False)"

text \<open>\<open>Iterator::any\<close> for a test that can panic.\<close>

fun any_r :: "('a \<Rightarrow> ('e, bool) result) \<Rightarrow> 'a list \<Rightarrow> ('e, bool) result" where
  "any_r P [] = Ok False"
| "any_r P (x # xs) = rbind (P x) (\<lambda>b. if b then Ok True else any_r P xs)"

lemma position_eq_Some:
  "position P xs = Some i \<longleftrightarrow> i < length xs \<and> P (xs ! i) \<and> (\<forall>j<i. \<not> P (xs ! j))"
proof (induction xs arbitrary: i)
  case Nil
  then show ?case by simp
next
  case (Cons x xs)
  then show ?case
    by (cases i) (auto simp: less_Suc_eq_0_disj)
qed

lemma position_eq_None: "position P xs = None \<longleftrightarrow> (\<forall>x \<in> set xs. \<not> P x)"
  by (induction xs) auto

lemma position_SomeD:
  assumes "position P xs = Some i"
  shows "i < length xs" and "P (xs ! i)" and "j < i \<Longrightarrow> \<not> P (xs ! j)"
  using assms by (auto simp: position_eq_Some)

lemma position_Some_ex: "(\<exists>i. position P xs = Some i) \<longleftrightarrow> (\<exists>x \<in> set xs. P x)"
proof (cases "position P xs")
  case None
  then show ?thesis by (auto simp: position_eq_None)
next
  case (Some i)
  then have "i < length xs" and "P (xs ! i)" by (rule position_SomeD)+
  then have "xs ! i \<in> set xs" by simp
  then show ?thesis using Some \<open>P (xs ! i)\<close> by auto
qed

lemma position_r_Ok: "(\<And>x. x \<in> set xs \<Longrightarrow> f x = Ok (P x)) \<Longrightarrow> position_r f xs = Ok (position P xs)"
  by (induction xs) auto

lemma all_r_Ok: "(\<And>x. x \<in> set xs \<Longrightarrow> f x = Ok (P x)) \<Longrightarrow> all_r f xs = Ok (list_all P xs)"
  by (induction xs) auto

lemma any_r_Ok: "(\<And>x. x \<in> set xs \<Longrightarrow> f x = Ok (P x)) \<Longrightarrow> any_r f xs = Ok (list_ex P xs)"
  by (induction xs) auto

text \<open>\<open>iter().filter(p).count()\<close>, and how one write changes it.\<close>

definition count_where :: "('a \<Rightarrow> bool) \<Rightarrow> 'a list \<Rightarrow> nat" where
  "count_where P xs = length (filter P xs)"

lemma count_where_Nil [simp]: "count_where P [] = 0"
  and count_where_Cons [simp]: "count_where P (x # xs) = (if P x then 1 else 0) + count_where P xs"
  and count_where_append [simp]: "count_where P (xs @ ys) = count_where P xs + count_where P ys"
  by (auto simp: count_where_def)

lemma count_where_le: "count_where P xs \<le> length xs"
  by (simp add: count_where_def)

lemma count_where_update:
  assumes "i < length xs"
  shows "count_where P (xs[i := y]) + (if P (xs ! i) then 1 else 0)
    = count_where P xs + (if P y then 1 else 0)"
  using assms
proof (induction xs arbitrary: i)
  case Nil
  then show ?case by simp
next
  case (Cons x xs)
  then show ?case by (cases i) auto
qed

lemma count_where_pos: "0 < count_where P xs \<longleftrightarrow> (\<exists>x \<in> set xs. P x)"
  by (induction xs) auto

lemma count_where_replicate: "count_where P (replicate n x) = (if P x then n else 0)"
  by (induction n) auto

lemma count_where_not: "count_where P xs + count_where (\<lambda>x. \<not> P x) xs = length xs"
  by (induction xs) auto

lemma sum_list_update:
  fixes f :: "'a \<Rightarrow> nat"
  assumes "i < length xs"
  shows "sum_list (map f (xs[i := y])) + f (xs ! i) = sum_list (map f xs) + f y"
  using assms
proof (induction xs arbitrary: i)
  case Nil
  then show ?case by simp
next
  case (Cons x xs)
  then show ?case by (cases i) auto
qed

end
