(* ===== verification/Aarch64.thy ===== *)
theory Aarch64
  imports Prelude
begin

text \<open>
  The AArch64 instructions that the boot and exception assembly of \<^verbatim>\<open>ostd\<close> uses, as a machine.  Code is a
  list of instructions per label, up to the end of the section.  Memory is accessed in double words; an access that is not aligned
  faults, as it does with the MMU off.  The addresses of symbols are those the linker chose.
\<close>

datatype sysreg =
    MPIDR_EL1 | CurrentEL | CPACR_EL1 | CPTR_EL2 | VBAR_EL1 | VBAR_EL2
  | ELR_EL1 | ESR_EL1 | FAR_EL1 | SPSR_EL1 | ELR_EL2 | ESR_EL2 | FAR_EL2 | SPSR_EL2

datatype symbol = BootStackEnd | ExceptionRegisters | VectorTable

record machine_state =
  ms_x :: "nat \<Rightarrow> u64"
  ms_sp :: u64
  ms_zero :: bool
  ms_sys :: "sysreg \<Rightarrow> u64"
  ms_mem :: "u64 \<Rightarrow> u64"

text \<open>The labels of the assembly; the last three are functions of the Rust code.\<close>

datatype label =
    Start | Park | SecondaryHold | EnableFpSimd | EnableFpEl1 | EnableFpEl2
  | Vector nat | Entry nat | EntryCommon
  | InstallVector | KernelMain | ExceptionHandler

datatype base = Xn nat | Sp

datatype instr =
    Stp nat nat base u64
  | StpPre nat nat u64
  | Str nat base u64
  | Ldr nat base u64
  | MovImm nat u64
  | Mov nat nat
  | MovFromSp nat
  | MovToSp nat
  | AddSp u64
  | Adrp nat symbol
  | AddLo12 nat nat symbol
  | LdrSym nat symbol
  | Mrs nat sysreg
  | Msr sysreg nat
  | AndImm nat nat u64
  | OrrImm nat nat u64
  | BicImm nat nat u64
  | Orr nat nat nat
  | LsrImm nat nat nat
  | CmpImm nat u64
  | Isb
  | Wfe
  | Br label
  | BEq label
  | Cbnz nat label
  | Bl label
  | Ret

fun base_value :: "base \<Rightarrow> machine_state \<Rightarrow> u64" where
  "base_value (Xn i) s = ms_x s i"
| "base_value Sp s = ms_sp s"

definition set_x :: "nat \<Rightarrow> u64 \<Rightarrow> machine_state \<Rightarrow> machine_state" where
  "set_x i v s = s\<lparr>ms_x := (ms_x s)(i := v)\<rparr>"

definition aligned :: "u64 \<Rightarrow> bool" where
  "aligned a \<longleftrightarrow> unat a mod 8 = 0"

definition store :: "u64 \<Rightarrow> u64 \<Rightarrow> machine_state \<Rightarrow> machine_state option" where
  "store a v s = (if aligned a then Some (s\<lparr>ms_mem := (ms_mem s)(a := v)\<rparr>) else None)"

definition load :: "nat \<Rightarrow> u64 \<Rightarrow> machine_state \<Rightarrow> machine_state option" where
  "load i a s = (if aligned a then Some (set_x i (ms_mem s a) s) else None)"

definition store_pair :: "nat \<Rightarrow> nat \<Rightarrow> u64 \<Rightarrow> machine_state \<Rightarrow> machine_state option" where
  "store_pair i j a s = Option.bind (store a (ms_x s i) s) (\<lambda>s'. store (a + 8) (ms_x s j) s')"

text \<open>The instructions that do not branch.\<close>

fun execute_instr :: "(symbol \<Rightarrow> u64) \<Rightarrow> instr \<Rightarrow> machine_state \<Rightarrow> machine_state option" where
  "execute_instr addr (Stp i j base offset) s = store_pair i j (base_value base s + offset) s"
| "execute_instr addr (StpPre i j offset) s =
     store_pair i j (ms_sp s + offset) (s\<lparr>ms_sp := ms_sp s + offset\<rparr>)"
| "execute_instr addr (Str i base offset) s = store (base_value base s + offset) (ms_x s i) s"
| "execute_instr addr (Ldr i base offset) s = load i (base_value base s + offset) s"
| "execute_instr addr (MovImm i v) s = Some (set_x i v s)"
| "execute_instr addr (Mov i j) s = Some (set_x i (ms_x s j) s)"
| "execute_instr addr (MovFromSp i) s = Some (set_x i (ms_sp s) s)"
| "execute_instr addr (MovToSp i) s = Some (s\<lparr>ms_sp := ms_x s i\<rparr>)"
| "execute_instr addr (AddSp v) s = Some (s\<lparr>ms_sp := ms_sp s + v\<rparr>)"
| "execute_instr addr (Adrp i l) s = Some (set_x i (addr l AND NOT 0xFFF) s)"
| "execute_instr addr (AddLo12 i j l) s = Some (set_x i (ms_x s j + (addr l AND 0xFFF)) s)"
| "execute_instr addr (LdrSym i l) s = Some (set_x i (addr l) s)"
| "execute_instr addr (Mrs i r) s = Some (set_x i (ms_sys s r) s)"
| "execute_instr addr (Msr r i) s = Some (s\<lparr>ms_sys := (ms_sys s)(r := ms_x s i)\<rparr>)"
| "execute_instr addr (AndImm i j v) s = Some (set_x i (ms_x s j AND v) s)"
| "execute_instr addr (OrrImm i j v) s = Some (set_x i (ms_x s j OR v) s)"
| "execute_instr addr (BicImm i j v) s = Some (set_x i (ms_x s j AND NOT v) s)"
| "execute_instr addr (Orr i j k) s = Some (set_x i (ms_x s j OR ms_x s k) s)"
| "execute_instr addr (LsrImm i j n) s = Some (set_x i (drop_bit n (ms_x s j)) s)"
| "execute_instr addr (CmpImm i v) s = Some (s\<lparr>ms_zero := (ms_x s i = v)\<rparr>)"
| "execute_instr addr _ s = Some s"

text \<open>
  A machine runs code, with the code to return to, or has entered a function that does not return, or has
  faulted.
\<close>

datatype machine =
    Running "instr list" "instr list" machine_state
  | Entered label machine_state
  | Faulted

definition next_instr :: "instr list \<Rightarrow> instr list \<Rightarrow> machine_state option \<Rightarrow> machine" where
  "next_instr code link s = (case s of Some s \<Rightarrow> Running code link s | None \<Rightarrow> Faulted)"

text \<open>Assembly is a list of labelled blocks; a block that does not branch at its end runs into the next one.\<close>

definition code_from :: "(label \<times> instr list) list \<Rightarrow> label \<Rightarrow> instr list" where
  "code_from blocks l = concat (map snd (dropWhile (\<lambda>b. fst b \<noteq> l) blocks))"

text \<open>\<open>code\<close> gives the instructions at a label, \<open>leaf\<close> the effect of a Rust function that returns.\<close>

definition enter :: "(label \<Rightarrow> instr list) \<Rightarrow> (machine_state \<Rightarrow> machine_state) \<Rightarrow> label \<Rightarrow> instr list \<Rightarrow> machine_state \<Rightarrow> machine" where
  "enter code leaf l link s =
     (case l of
        KernelMain \<Rightarrow> Entered l s
      | ExceptionHandler \<Rightarrow> Entered l s
      | InstallVector \<Rightarrow> Running link link (leaf s)
      | _ \<Rightarrow> Running (code l) link s)"

fun step :: "(symbol \<Rightarrow> u64) \<Rightarrow> (label \<Rightarrow> instr list) \<Rightarrow> (machine_state \<Rightarrow> machine_state) \<Rightarrow> machine \<Rightarrow> machine" where
  "step addr code leaf (Running (i # is) link s) =
     (case i of
        Br l \<Rightarrow> enter code leaf l link s
      | BEq l \<Rightarrow> if ms_zero s then enter code leaf l link s else Running is link s
      | Cbnz r l \<Rightarrow> if ms_x s r \<noteq> 0 then enter code leaf l link s else Running is link s
      | Bl l \<Rightarrow> enter code leaf l is s
      | Ret \<Rightarrow> Running link link s
      | i \<Rightarrow> next_instr is link (execute_instr addr i s))"
| "step addr code leaf (Running [] link s) = Faulted"
| "step addr code leaf m = m"

fun run :: "(symbol \<Rightarrow> u64) \<Rightarrow> (label \<Rightarrow> instr list) \<Rightarrow> (machine_state \<Rightarrow> machine_state) \<Rightarrow> nat \<Rightarrow> machine \<Rightarrow> machine" where
  "run addr code leaf 0 m = m"
| "run addr code leaf (Suc n) m = run addr code leaf n (step addr code leaf m)"

lemma run_numeral [simp]: "run addr code leaf (numeral n) m = run addr code leaf (pred_numeral n) (step addr code leaf m)"
  by (simp add: numeral_eq_Suc)

lemma run_add: "run addr code leaf (a + b) m = run addr code leaf b (run addr code leaf a m)"
  by (induction a arbitrary: m) simp_all

lemma run_fixed: "step addr code leaf m = m \<Longrightarrow> run addr code leaf n m = m"
  by (induction n) simp_all

lemma mask_parts: "(a AND NOT m) + (a AND m) = a" for a m :: u64
proof -
  have "(a AND NOT m) + (a AND m) = (a AND NOT m) OR (a AND m)"
    by (rule disjunctive_add) (simp add: bit_simps)
  also have "\<dots> = a" by (rule bit_eqI) (auto simp: bit_simps)
  finally show ?thesis .
qed

lemma page_lo12 [simp]: "(a AND - 4096) + (a AND 0xFFF) = a" for a :: u64
  using mask_parts [of a "0xFFF"] by simp

lemma aligned_add: "aligned a \<Longrightarrow> aligned (a + b) \<longleftrightarrow> aligned b"
proof -
  assume a: "aligned a"
  have "unat (a + b) mod 8 = (unat a + unat b) mod 2 ^ 64 mod 8" by (simp add: unat_word_ariths)
  also have "\<dots> = (unat a + unat b) mod 8" by (rule mod_mod_cancel) simp
  also have "\<dots> = unat b mod 8" using a by (simp add: aligned_def mod_add_eq [symmetric])
  finally show ?thesis by (simp add: aligned_def)
qed

lemma aligned_add_left: "aligned a \<Longrightarrow> aligned (b + a) \<longleftrightarrow> aligned b"
  using aligned_add [of a b] by (simp add: add.commute)

lemma aligned_numeral: "aligned 0" "aligned (numeral n) \<longleftrightarrow> (numeral n :: nat) mod 2 ^ 64 mod 8 = 0"
  by (simp_all add: aligned_def take_bit_eq_mod)

end
