(* ===== verification/Ostd_Aarch64.thy ===== *)
theory Ostd_Aarch64
  imports Aarch64
begin

text \<open>
  The AArch64 entry of the kernel and its exception entry: \<^verbatim>\<open>ostd/src/boot/aarch64.rs\<close> and
  \<^verbatim>\<open>ostd/src/arch/aarch64/exception.rs\<close>.  The assembly is given as code of the machine, one block per
  label of the source; the Rust functions it calls are functions of the machine state.
\<close>

section \<open>The assembly\<close>

definition boot_blocks :: "(label \<times> instr list) list" where
  "boot_blocks =
     [(Start,
       [Mrs 0 MPIDR_EL1, AndImm 1 0 0xFFFFFF, LsrImm 0 0 32, AndImm 0 0 0xFF, Orr 0 0 1, Cbnz 0 SecondaryHold,
        Bl EnableFpSimd, LdrSym 1 BootStackEnd, MovToSp 1, Bl InstallVector, Bl KernelMain]),
      (Park, [Wfe, Br Park]),
      (SecondaryHold, [Wfe, Br SecondaryHold]),
      (EnableFpSimd, [Mrs 0 CurrentEL, LsrImm 0 0 2, CmpImm 0 1, BEq EnableFpEl1, CmpImm 0 2, BEq EnableFpEl2, Ret]),
      (EnableFpEl1, [Mrs 0 CPACR_EL1, OrrImm 0 0 0x300000, Msr CPACR_EL1 0, Isb, Ret]),
      (EnableFpEl2, [Mrs 0 CPTR_EL2, BicImm 0 0 0x400, Msr CPTR_EL2 0, Isb, Ret])]"

definition boot_code :: "label \<Rightarrow> instr list" where
  "boot_code = code_from boot_blocks"

lemma boot_code_simps:
  "boot_code Start =
     [Mrs 0 MPIDR_EL1, AndImm 1 0 0xFFFFFF, LsrImm 0 0 32, AndImm 0 0 0xFF, Orr 0 0 1, Cbnz 0 SecondaryHold,
      Bl EnableFpSimd, LdrSym 1 BootStackEnd, MovToSp 1, Bl InstallVector, Bl KernelMain] @ boot_code Park"
  "boot_code Park = [Wfe, Br Park] @ boot_code SecondaryHold"
  "boot_code SecondaryHold = [Wfe, Br SecondaryHold] @ boot_code EnableFpSimd"
  "boot_code EnableFpSimd =
     [Mrs 0 CurrentEL, LsrImm 0 0 2, CmpImm 0 1, BEq EnableFpEl1, CmpImm 0 2, BEq EnableFpEl2, Ret] @ boot_code EnableFpEl1"
  "boot_code EnableFpEl1 = [Mrs 0 CPACR_EL1, OrrImm 0 0 0x300000, Msr CPACR_EL1 0, Isb, Ret] @ boot_code EnableFpEl2"
  "boot_code EnableFpEl2 = [Mrs 0 CPTR_EL2, BicImm 0 0 0x400, Msr CPTR_EL2 0, Isb, Ret]"
  by (simp_all add: boot_code_def code_from_def boot_blocks_def)

text \<open>The vector table branches to one entry per vector, and all entries go on in the common code; every block ends in a
  branch.\<close>

fun exception_code :: "label \<Rightarrow> instr list" where
  "exception_code (Vector i) = [Br (Entry i)]"
| "exception_code (Entry i) =
     [StpPre 15 16 (- 32), Str 17 Sp 16, MovImm 15 (of_nat i), Br EntryCommon]"
| "exception_code EntryCommon =
     [Adrp 16 ExceptionRegisters, AddLo12 16 16 ExceptionRegisters,
      Stp 0 1 (Xn 16) (16 * 0), Stp 2 3 (Xn 16) (16 * 1), Stp 4 5 (Xn 16) (16 * 2), Stp 6 7 (Xn 16) (16 * 3),
      Stp 8 9 (Xn 16) (16 * 4), Stp 10 11 (Xn 16) (16 * 5), Stp 12 13 (Xn 16) (16 * 6), Stp 14 15 (Xn 16) (16 * 7),
      Ldr 17 Sp 0, Str 17 (Xn 16) (8 * 15), Ldr 17 Sp 8, Str 17 (Xn 16) (8 * 16), Ldr 17 Sp 16, Str 17 (Xn 16) (8 * 17),
      AddSp 32,
      Stp 18 19 (Xn 16) (16 * 9), Stp 20 21 (Xn 16) (16 * 10), Stp 22 23 (Xn 16) (16 * 11), Stp 24 25 (Xn 16) (16 * 12),
      Stp 26 27 (Xn 16) (16 * 13), Stp 28 29 (Xn 16) (16 * 14), Str 30 (Xn 16) (8 * 30),
      MovFromSp 17, Str 17 (Xn 16) (8 * 31), Mov 0 15, Br ExceptionHandler]"
| "exception_code _ = []"

section \<open>The Rust functions\<close>

definition NUM_EXCEPTION_REGISTERS :: nat where
  "NUM_EXCEPTION_REGISTERS = 32"

definition current_exception_level :: "machine_state \<Rightarrow> u64" where
  "current_exception_level s = drop_bit 2 (ms_sys s CurrentEL) AND 3"

definition install_exception_vector :: "(symbol \<Rightarrow> u64) \<Rightarrow> machine_state \<Rightarrow> machine_state" where
  "install_exception_vector addr s =
     s\<lparr>ms_sys := (ms_sys s)((if current_exception_level s = 2 then VBAR_EL2 else VBAR_EL1) := addr VectorTable)\<rparr>"

record exception_snapshot =
  es_vector_index :: nat
  es_current_el :: u64
  es_elr :: u64
  es_esr :: u64
  es_far :: u64
  es_spsr :: u64
  es_registers :: "u64 list"

definition read_exception_registers :: "u64 \<Rightarrow> machine_state \<Rightarrow> u64 \<times> u64 \<times> u64 \<times> u64" where
  "read_exception_registers current_el s =
     (if current_el = 2 then (ms_sys s ELR_EL2, ms_sys s ESR_EL2, ms_sys s FAR_EL2, ms_sys s SPSR_EL2)
      else (ms_sys s ELR_EL1, ms_sys s ESR_EL1, ms_sys s FAR_EL1, ms_sys s SPSR_EL1))"

definition snapshot_read :: "nat \<Rightarrow> u64 list \<Rightarrow> machine_state \<Rightarrow> exception_snapshot" where
  "snapshot_read vector_index registers s =
     (let current_el = current_exception_level s;
          (elr, esr, far, spsr) = read_exception_registers current_el s
      in \<lparr>es_vector_index = vector_index, es_current_el = current_el, es_elr = elr, es_esr = esr,
          es_far = far, es_spsr = spsr, es_registers = registers\<rparr>)"

definition vector_names :: "string list" where
  "vector_names =
     [''sync current EL with SP0'', ''IRQ current EL with SP0'', ''FIQ current EL with SP0'', ''SError current EL with SP0'',
      ''sync current EL with SPx'', ''IRQ current EL with SPx'', ''FIQ current EL with SPx'', ''SError current EL with SPx'',
      ''sync lower EL AArch64'', ''IRQ lower EL AArch64'', ''FIQ lower EL AArch64'', ''SError lower EL AArch64'',
      ''sync lower EL AArch32'', ''IRQ lower EL AArch32'', ''FIQ lower EL AArch32'', ''SError lower EL AArch32'']"

definition vector_name :: "nat \<Rightarrow> string" where
  "vector_name i = (if i < 16 then vector_names ! i else ''corrupted vector index'')"

text \<open>The two number formats of the report: decimal, and hexadecimal filled up with zeros.\<close>

definition digit :: "nat \<Rightarrow> char" where
  "digit d = ''0123456789abcdef'' ! d"

fun decimal :: "nat \<Rightarrow> string" where
  "decimal n = (if n < 10 then [digit n] else decimal (n div 10) @ [digit (n mod 10)])"

definition hex18 :: "u64 \<Rightarrow> string" where
  "hex18 v = ''0x'' @ map (\<lambda>i. digit (unat v div 16 ^ i mod 16)) (rev [0..<16])"

definition newline :: char where
  "newline = CHR 10"

definition exception_report :: "exception_snapshot \<Rightarrow> string" where
  "exception_report e =
     ''Ousia AArch64 exception'' @ [newline] @ ''vector: '' @ vector_name (es_vector_index e) @ [newline]
     @ ''current_el: EL'' @ decimal (unat (es_current_el e)) @ [newline]
     @ ''elr: '' @ hex18 (es_elr e) @ [newline] @ ''esr: '' @ hex18 (es_esr e) @ [newline]
     @ ''far: '' @ hex18 (es_far e) @ [newline] @ ''spsr: '' @ hex18 (es_spsr e) @ [newline]
     @ concat (map (\<lambda>(i, v). ''x'' @ decimal i @ '': '' @ hex18 v @ [newline])
         (enumerate 0 (es_registers e)))"

text \<open>What the handler is called on: the vector index in \<open>x0\<close>, the registers in the static array.\<close>

definition exception_handler :: "(symbol \<Rightarrow> u64) \<Rightarrow> machine_state \<Rightarrow> exception_snapshot" where
  "exception_handler addr s =
     snapshot_read (unat (ms_x s 0))
       (map (\<lambda>i. ms_mem s (addr ExceptionRegisters + 8 * of_nat i)) [0..<NUM_EXCEPTION_REGISTERS]) s"

section \<open>Booting\<close>

definition affinity :: "u64 \<Rightarrow> u64" where
  "affinity mpidr = (mpidr AND 0xFFFFFF) OR (drop_bit 32 mpidr AND 0xFF)"

abbreviation boot_run :: "(symbol \<Rightarrow> u64) \<Rightarrow> nat \<Rightarrow> machine \<Rightarrow> machine" where
  "boot_run addr \<equiv> run addr boot_code (install_exception_vector addr)"

lemmas machine_simps = boot_code_simps enter_def next_instr_def set_x_def store_pair_def store_def load_def

lemma secondary_holds:
  assumes "affinity (ms_sys s MPIDR_EL1) \<noteq> 0"
  shows "\<exists>s'. boot_run addr 6 (Running (boot_code Start) [] s) = Running (boot_code SecondaryHold) [] s'
    \<and> ms_sp s' = ms_sp s \<and> ms_mem s' = ms_mem s \<and> ms_sys s' = ms_sys s"
  using assms by (simp add: machine_simps affinity_def or.commute)

lemma hold_forever:
  "boot_run addr (2 * n) (Running (boot_code SecondaryHold) [] s) = Running (Wfe # Br SecondaryHold # boot_code EnableFpSimd) [] s"
  "boot_run addr (2 * n + 1) (Running (boot_code SecondaryHold) [] s) = Running (Br SecondaryHold # boot_code EnableFpSimd) [] s"
proof -
  have code: "boot_code SecondaryHold = Wfe # Br SecondaryHold # boot_code EnableFpSimd" by (simp add: boot_code_simps(3))
  have "boot_run addr 2 (Running (boot_code SecondaryHold) [] s) = Running (boot_code SecondaryHold) [] s"
    by (simp add: code enter_def next_instr_def)
  then have loop: "boot_run addr (2 * n) (Running (boot_code SecondaryHold) [] s) = Running (boot_code SecondaryHold) [] s"
  proof (induction n)
    case (Suc n)
    have "2 * Suc n = 2 + 2 * n" by simp
    then show ?case using Suc by (simp only: run_add)
  qed simp
  show "boot_run addr (2 * n) (Running (boot_code SecondaryHold) [] s) = Running (Wfe # Br SecondaryHold # boot_code EnableFpSimd) [] s"
    using loop by (simp only: code)
  show "boot_run addr (2 * n + 1) (Running (boot_code SecondaryHold) [] s) = Running (Br SecondaryHold # boot_code EnableFpSimd) [] s"
    unfolding run_add loop by (simp add: code next_instr_def)
qed

text \<open>C27 (safety). Of all processors exactly the one with affinity 0 enters the kernel, on the boot stack, with the
  exception vector installed and floating point enabled at its exception level.  Every other one waits for ever: after six
  instructions, which leave its stack pointer, its system registers and the memory alone, all that it executes is the
  wait instruction and the branch back to it.\<close>

theorem only_the_primary_enters_the_kernel:
  "if affinity (ms_sys s MPIDR_EL1) = 0
   then \<exists>n s'. boot_run addr n (Running (boot_code Start) [] s) = Entered KernelMain s'
     \<and> ms_sp s' = addr BootStackEnd \<and> ms_mem s' = ms_mem s
     \<and> ms_sys s' = (if drop_bit 2 (ms_sys s CurrentEL) = 1
           then (ms_sys s)(CPACR_EL1 := ms_sys s CPACR_EL1 OR 0x300000, VBAR_EL1 := addr VectorTable)
         else if drop_bit 2 (ms_sys s CurrentEL) = 2
           then (ms_sys s)(CPTR_EL2 := ms_sys s CPTR_EL2 AND NOT 0x400, VBAR_EL2 := addr VectorTable)
         else (ms_sys s)((if current_exception_level s = 2 then VBAR_EL2 else VBAR_EL1) := addr VectorTable))
   else (\<exists>s' rest. ms_sp s' = ms_sp s \<and> ms_mem s' = ms_mem s \<and> ms_sys s' = ms_sys s
       \<and> (\<forall>n. boot_run addr (6 + 2 * n) (Running (boot_code Start) [] s) = Running (Wfe # Br SecondaryHold # rest) [] s'
            \<and> boot_run addr (6 + (2 * n + 1)) (Running (boot_code Start) [] s) = Running (Br SecondaryHold # rest) [] s'))
     \<and> (\<forall>n l s'. boot_run addr n (Running (boot_code Start) [] s) \<noteq> Entered l s')"
proof (cases "affinity (ms_sys s MPIDR_EL1) = 0")
  case True
  let ?el = "drop_bit 2 (ms_sys s CurrentEL)"
  note simps = machine_simps install_exception_vector_def current_exception_level_def
  have zero: "drop_bit 32 (ms_sys s MPIDR_EL1) AND 0xFF OR ms_sys s MPIDR_EL1 AND 0xFFFFFF = 0"
    using True by (simp add: affinity_def or.commute)
  consider "?el = 1" | "?el = 2" | "?el \<noteq> 1" "?el \<noteq> 2" by blast
  then show ?thesis
  proof cases
    case 1
    have "\<exists>s'. boot_run addr 30 (Running (boot_code Start) [] s) = Entered KernelMain s' \<and> ms_sp s' = addr BootStackEnd \<and> ms_mem s' = ms_mem s
      \<and> ms_sys s' = (ms_sys s)(CPACR_EL1 := ms_sys s CPACR_EL1 OR 0x300000, VBAR_EL1 := addr VectorTable)"
      by (simp add: simps zero 1)
    then show ?thesis using True 1 by (auto simp del: run_numeral)
  next
    case 2
    have "\<exists>s'. boot_run addr 30 (Running (boot_code Start) [] s) = Entered KernelMain s' \<and> ms_sp s' = addr BootStackEnd \<and> ms_mem s' = ms_mem s
      \<and> ms_sys s' = (ms_sys s)(CPTR_EL2 := ms_sys s CPTR_EL2 AND NOT 0x400, VBAR_EL2 := addr VectorTable)"
      by (simp add: simps zero 2)
    then show ?thesis using True 2 by (auto simp del: run_numeral)
  next
    case 3
    have "\<exists>s'. boot_run addr 30 (Running (boot_code Start) [] s) = Entered KernelMain s' \<and> ms_sp s' = addr BootStackEnd \<and> ms_mem s' = ms_mem s
      \<and> ms_sys s' = (ms_sys s)((if current_exception_level s = 2 then VBAR_EL2 else VBAR_EL1) := addr VectorTable)"
      using 3 by (simp add: simps zero)
    then show ?thesis unfolding if_P [OF True] if_not_P [OF 3(1)] if_not_P [OF 3(2)] by blast
  qed
next
  case False
  obtain s1 where s1: "boot_run addr 6 (Running (boot_code Start) [] s) = Running (boot_code SecondaryHold) [] s1"
    "ms_sp s1 = ms_sp s" "ms_mem s1 = ms_mem s" "ms_sys s1 = ms_sys s" using secondary_holds [OF False] by blast
  have hold: "boot_run addr (6 + 2 * n) (Running (boot_code Start) [] s) = Running (Wfe # Br SecondaryHold # boot_code EnableFpSimd) [] s1"
    "boot_run addr (6 + (2 * n + 1)) (Running (boot_code Start) [] s) = Running (Br SecondaryHold # boot_code EnableFpSimd) [] s1" for n
    unfolding run_add [of _ _ _ 6] s1(1) by (rule hold_forever)+
  have "boot_run addr n (Running (boot_code Start) [] s) \<noteq> Entered l s'" for n l s'
  proof
    assume e: "boot_run addr n (Running (boot_code Start) [] s) = Entered l s'"
    have "boot_run addr (n + (6 + n)) (Running (boot_code Start) [] s) = Entered l s'"
      unfolding run_add [of _ _ _ n] e by (rule run_fixed) simp
    moreover have "n + (6 + n) = 6 + 2 * n" by simp
    ultimately show False using hold(1) [of n] by simp
  qed
  then show ?thesis using False s1(2-4) hold by (auto simp only: if_False)
qed

section \<open>Exceptions\<close>

abbreviation exception_run :: "(symbol \<Rightarrow> u64) \<Rightarrow> nat \<Rightarrow> machine \<Rightarrow> machine" where
  "exception_run addr \<equiv> run addr exception_code id"

lemma upto_32: "[0..<32] = [0, 1, 2, 3, 4, 5, 6, 7, 8, 9, 10, 11, 12, 13, 14, 15, 16, 17, 18, 19, 20, 21, 22, 23, 24, 25, 26, 27,
    28, 29, 30, 31 :: nat]"
  by code_simp

lemma upto_31: "[0..<31] = [0, 1, 2, 3, 4, 5, 6, 7, 8, 9, 10, 11, 12, 13, 14, 15, 16, 17, 18, 19, 20, 21, 22, 23, 24, 25, 26, 27,
    28, 29, 30 :: nat]"
  by code_simp

lemma apart:
  assumes "\<And>i j. i < 256 \<Longrightarrow> j < 24 \<Longrightarrow> (t :: u64) + of_nat i \<noteq> p + of_nat j"
  shows "t \<noteq> p" "p \<noteq> t"
    "(numeral a :: nat) < 256 \<Longrightarrow> t + numeral a \<noteq> p" "(numeral a :: nat) < 256 \<Longrightarrow> numeral a + t \<noteq> p"
    "(numeral a :: nat) < 256 \<Longrightarrow> p \<noteq> t + numeral a" "(numeral a :: nat) < 256 \<Longrightarrow> p \<noteq> numeral a + t"
    "(numeral b :: nat) < 24 \<Longrightarrow> t \<noteq> p + numeral b" "(numeral b :: nat) < 24 \<Longrightarrow> t \<noteq> numeral b + p"
    "(numeral b :: nat) < 24 \<Longrightarrow> p + numeral b \<noteq> t" "(numeral b :: nat) < 24 \<Longrightarrow> numeral b + p \<noteq> t"
proof -
  show "t \<noteq> p" "p \<noteq> t" using assms [of 0 0] by auto
  show "(numeral a :: nat) < 256 \<Longrightarrow> t + numeral a \<noteq> p" "(numeral a :: nat) < 256 \<Longrightarrow> numeral a + t \<noteq> p"
    "(numeral a :: nat) < 256 \<Longrightarrow> p \<noteq> t + numeral a" "(numeral a :: nat) < 256 \<Longrightarrow> p \<noteq> numeral a + t"
    using assms [of "numeral a" 0] by (auto simp: add.commute)
  show "(numeral b :: nat) < 24 \<Longrightarrow> t \<noteq> p + numeral b" "(numeral b :: nat) < 24 \<Longrightarrow> t \<noteq> numeral b + p"
    "(numeral b :: nat) < 24 \<Longrightarrow> p + numeral b \<noteq> t" "(numeral b :: nat) < 24 \<Longrightarrow> numeral b + p \<noteq> t"
    using assms [of 0 "numeral b"] by (auto simp: add.commute)
qed

lemma entry_runs:
  assumes al: "aligned (addr ExceptionRegisters)" and sp: "aligned p" "ms_sp s = p + 32"
    and D: "\<And>i j. i < 256 \<Longrightarrow> j < 24 \<Longrightarrow> addr ExceptionRegisters + of_nat i \<noteq> p + of_nat j"
  shows "\<exists>s'. exception_run addr 35 (Running (exception_code (Vector v)) [] s) = Entered ExceptionHandler s'
    \<and> map (\<lambda>i. ms_mem s' (addr ExceptionRegisters + 8 * of_nat i)) [0..<32] = map (ms_x s) [0..<31] @ [ms_sp s]
    \<and> ms_x s' 0 = of_nat v \<and> ms_sp s' = ms_sp s \<and> ms_sys s' = ms_sys s"
  by (simp add: machine_simps aligned_add [OF al] aligned_add_left [OF al] aligned_add [OF sp(1)] aligned_add_left [OF sp(1)]
      aligned_numeral al sp apart [OF D] upto_32 upto_31)

text \<open>C26 (functional). Whatever vector is taken, the exception entry reaches the handler with the stack pointer restored,
  and the handler reports that vector, the system registers of the current exception level, and the values that all 31
  general registers and the stack pointer of that level had when the exception was taken; the stack of that level
  has to be aligned and apart from the array of the registers.  (For the vectors of SP0 and of lower levels the
  interrupted code ran on another stack pointer, which the report does not give.)\<close>

theorem exceptions_report_the_interrupted_state:
  assumes "v < 16" and al: "aligned (addr ExceptionRegisters)" and sp: "aligned (ms_sp s - 32)"
    and D: "\<And>i j. i < 256 \<Longrightarrow> j < 24 \<Longrightarrow> addr ExceptionRegisters + of_nat i \<noteq> ms_sp s - 32 + of_nat j"
  shows "\<exists>n s'. exception_run addr n (Running (exception_code (Vector v)) [] s) = Entered ExceptionHandler s'
    \<and> ms_sp s' = ms_sp s
    \<and> exception_handler addr s' = \<lparr>es_vector_index = v, es_current_el = current_exception_level s,
        es_elr = ms_sys s (if current_exception_level s = 2 then ELR_EL2 else ELR_EL1),
        es_esr = ms_sys s (if current_exception_level s = 2 then ESR_EL2 else ESR_EL1),
        es_far = ms_sys s (if current_exception_level s = 2 then FAR_EL2 else FAR_EL1),
        es_spsr = ms_sys s (if current_exception_level s = 2 then SPSR_EL2 else SPSR_EL1),
        es_registers = map (ms_x s) [0..<31] @ [ms_sp s]\<rparr>"
proof -
  have "ms_sp s = ms_sp s - 32 + 32" by simp
  from entry_runs [of addr, OF al sp this D, of v] obtain s' where s':
    "exception_run addr 35 (Running (exception_code (Vector v)) [] s) = Entered ExceptionHandler s'"
    "map (\<lambda>i. ms_mem s' (addr ExceptionRegisters + 8 * of_nat i)) [0..<32] = map (ms_x s) [0..<31] @ [ms_sp s]"
    "ms_x s' 0 = of_nat v" "ms_sp s' = ms_sp s" "ms_sys s' = ms_sys s" by auto
  have "unat (of_nat v :: u64) = v" using assms(1) by (simp add: unat_of_nat)
  then have "exception_handler addr s' = snapshot_read v (map (ms_x s) [0..<31] @ [ms_sp s]) s'"
    using s'(2,3) by (simp add: exception_handler_def NUM_EXCEPTION_REGISTERS_def)
  moreover have "current_exception_level s' = current_exception_level s" using s'(5) by (simp add: current_exception_level_def)
  ultimately show ?thesis
    using s' by (intro exI [of _ 35] exI [of _ s']) (simp add: snapshot_read_def read_exception_registers_def)
qed

definition demo_addr :: "symbol \<Rightarrow> u64" where
  "demo_addr l = (case l of BootStackEnd \<Rightarrow> 0x20000 | ExceptionRegisters \<Rightarrow> 0x1000 | VectorTable \<Rightarrow> 0x800)"

definition demo_machine :: machine_state where
  "demo_machine = \<lparr>ms_x = of_nat, ms_sp = 0x2000, ms_zero = False, ms_sys = (\<lambda>_. 4), ms_mem = (\<lambda>_. 0)\<rparr>"

theorem exceptions_report_the_interrupted_state_witness:
  "\<exists>n s'. exception_run demo_addr n (Running (exception_code (Vector 4)) [] demo_machine) = Entered ExceptionHandler s'
    \<and> es_registers (exception_handler demo_addr s') ! 30 = 30"
proof -
  have al: "aligned (demo_addr ExceptionRegisters)" "aligned (ms_sp demo_machine - 32)"
    by (simp_all add: demo_addr_def demo_machine_def aligned_def)
  have D: "demo_addr ExceptionRegisters + of_nat i \<noteq> ms_sp demo_machine - 32 + of_nat j" if "i < 256" "j < 24" for i j
    using that by (simp add: demo_addr_def demo_machine_def word_unat_eq_iff unat_word_ariths unat_of_nat)
  have v: "(4 :: nat) < 16" by simp
  obtain n s' where run: "exception_run demo_addr n (Running (exception_code (Vector 4)) [] demo_machine) = Entered ExceptionHandler s'"
    and e: "es_registers (exception_handler demo_addr s') = map (ms_x demo_machine) [0..<31] @ [ms_sp demo_machine]"
    using exceptions_report_the_interrupted_state [of 4 demo_addr demo_machine, OF v al D]
    by (metis (no_types, lifting) exception_snapshot.select_convs(7))
  have "es_registers (exception_handler demo_addr s') ! 30 = 30" unfolding e by (simp add: demo_machine_def nth_append)
  with run show ?thesis by blast
qed

section \<open>The diagnostic exception\<close>

text \<open>
  A breakpoint instruction at \<open>pc\<close>: the processor saves the address and its state, records the class of the
  exception with the immediate, and goes on at the synchronous vector of the current level, if the vector table
  is the one of the kernel.
\<close>

definition brk :: "u64 \<Rightarrow> u64 \<Rightarrow> u64 \<Rightarrow> machine_state \<Rightarrow> machine_state" where
  "brk imm pc pstate s =
     s\<lparr>ms_sys := if current_exception_level s = 2
       then (ms_sys s)(ELR_EL2 := pc, ESR_EL2 := 0xF2000000 OR imm, SPSR_EL2 := pstate)
       else (ms_sys s)(ELR_EL1 := pc, ESR_EL1 := 0xF2000000 OR imm, SPSR_EL1 := pstate)\<rparr>"

definition vector_base :: "machine_state \<Rightarrow> u64" where
  "vector_base s = ms_sys s (if current_exception_level s = 2 then VBAR_EL2 else VBAR_EL1)"

definition trigger_diagnostic_exception :: "(symbol \<Rightarrow> u64) \<Rightarrow> u64 \<Rightarrow> u64 \<Rightarrow> machine_state \<Rightarrow> machine" where
  "trigger_diagnostic_exception addr pc pstate s =
     (if vector_base s = addr VectorTable then Running (exception_code (Vector 4)) [] (brk 0x111 pc pstate s) else Faulted)"

lemma brk_level [simp]: "current_exception_level (brk imm pc pstate s) = current_exception_level s"
  by (simp add: current_exception_level_def brk_def)

text \<open>The exception smoke test reports the breakpoint: its vector, its address and its code, with all registers.\<close>

lemma diagnostic_exception_is_reported:
  assumes "vector_base s = addr VectorTable" and "aligned (addr ExceptionRegisters)" and "aligned (ms_sp s - 32)"
    and "\<And>i j. i < 256 \<Longrightarrow> j < 24 \<Longrightarrow> addr ExceptionRegisters + of_nat i \<noteq> ms_sp s - 32 + of_nat j"
  shows "\<exists>n s'. exception_run addr n (trigger_diagnostic_exception addr pc pstate s) = Entered ExceptionHandler s'
    \<and> es_vector_index (exception_handler addr s') = 4 \<and> es_elr (exception_handler addr s') = pc
    \<and> es_esr (exception_handler addr s') = 0xF2000111 \<and> es_spsr (exception_handler addr s') = pstate
    \<and> es_registers (exception_handler addr s') = map (ms_x s) [0..<31] @ [ms_sp s]"
proof -
  let ?s = "brk 0x111 pc pstate s"
  have sp: "ms_sp ?s = ms_sp s" "ms_x ?s = ms_x s" by (simp_all add: brk_def)
  have "ms_sp ?s = ms_sp s - 32 + 32" by (simp add: sp)
  from entry_runs [of addr "ms_sp s - 32" ?s, OF assms(2,3) this assms(4), of 4] obtain s' where s':
    "exception_run addr 35 (Running (exception_code (Vector 4)) [] ?s) = Entered ExceptionHandler s'"
    "map (\<lambda>i. ms_mem s' (addr ExceptionRegisters + 8 * of_nat i)) [0..<32] = map (ms_x s) [0..<31] @ [ms_sp s]"
    "ms_x s' 0 = 4" "ms_sys s' = ms_sys ?s" unfolding sp by auto
  have "trigger_diagnostic_exception addr pc pstate s = Running (exception_code (Vector 4)) [] ?s"
    using assms(1) by (simp add: trigger_diagnostic_exception_def)
  moreover have "current_exception_level s' = current_exception_level s" using s'(4) by (simp add: current_exception_level_def brk_def)
  moreover have "exception_handler addr s' = snapshot_read 4 (map (ms_x s) [0..<31] @ [ms_sp s]) s'"
    using s'(2,3) by (simp add: exception_handler_def NUM_EXCEPTION_REGISTERS_def)
  moreover have "snapshot_read 4 r s' = \<lparr>es_vector_index = 4, es_current_el = current_exception_level s, es_elr = pc,
      es_esr = 0xF2000111, es_far = es_far (snapshot_read 4 r s'), es_spsr = pstate, es_registers = r\<rparr>" for r
    using \<open>current_exception_level s' = _\<close> s'(4)
    by (cases "current_exception_level s = 2") (simp_all add: snapshot_read_def read_exception_registers_def brk_def)
  ultimately show ?thesis
    using s'(1) by (intro exI [of _ 35] exI [of _ s']) (metis exception_snapshot.select_convs)
qed

end
