(* ===== verification/Ostd_X86.thy ===== *)
theory Ostd_X86
  imports Prelude
begin

text \<open>
  The boot stub of x86, \<^verbatim>\<open>ostd/src/boot/x86_64.rs\<close>, on a machine for the four instructions that it uses.  The
  instructions of the stub have the addresses 0 to 3, and \<open>kernel_main\<close> is any address beyond them; what it
  does is not part of the stub, so a run of the machine ends where the kernel begins.
\<close>

datatype x86_instruction = LeaRsp u64 | Call u64 | Hlt | Jmp u64

record x86_state =
  x_rip :: u64
  x_rsp :: u64
  x_memory :: "u64 \<Rightarrow> u64"

definition BOOT_STACK_SIZE :: u64 where
  "BOOT_STACK_SIZE = 65536"

definition boot_stub :: "u64 \<Rightarrow> u64 \<Rightarrow> x86_instruction list" where
  "boot_stub stack_end kernel_main = [LeaRsp stack_end, Call kernel_main, Hlt, Jmp 2]"

fun x86_execute :: "x86_instruction \<Rightarrow> x86_state \<Rightarrow> x86_state" where
  "x86_execute (LeaRsp address) s = s\<lparr>x_rip := x_rip s + 1, x_rsp := address\<rparr>"
| "x86_execute (Call target) s = s\<lparr>x_rip := target, x_rsp := x_rsp s - 8, x_memory := (x_memory s)(x_rsp s - 8 := x_rip s + 1)\<rparr>"
| "x86_execute Hlt s = s\<lparr>x_rip := x_rip s + 1\<rparr>"
| "x86_execute (Jmp target) s = s\<lparr>x_rip := target\<rparr>"

text \<open>A processor that has halted stays so until an interrupt comes.\<close>

inductive x86_step :: "x86_instruction list \<Rightarrow> x86_state \<Rightarrow> x86_state \<Rightarrow> bool" for code where
  x86_runs: "unat (x_rip s) < length code \<Longrightarrow> x86_step code s (x86_execute (code ! unat (x_rip s)) s)"
| x86_waits: "unat (x_rip s) < length code \<Longrightarrow> code ! unat (x_rip s) = Hlt \<Longrightarrow> x86_step code s s"

inductive_cases x86_stepE: "x86_step code s s'"

abbreviation x86_steps :: "x86_instruction list \<Rightarrow> x86_state \<Rightarrow> x86_state \<Rightarrow> bool" where
  "x86_steps code \<equiv> (x86_step code)\<^sup>*\<^sup>*"

lemma x86_step_at:
  assumes "x86_step (boot_stub stack_end kernel_main) s s'"
  shows "x_rip s = 0 \<Longrightarrow> s' = s\<lparr>x_rip := 1, x_rsp := stack_end\<rparr>"
    and "x_rip s = 1 \<Longrightarrow> s' = s\<lparr>x_rip := kernel_main, x_rsp := x_rsp s - 8, x_memory := (x_memory s)(x_rsp s - 8 := 2)\<rparr>"
    and "x_rip s \<in> {2, 3} \<Longrightarrow> \<exists>i \<in> {2, 3}. s' = s\<lparr>x_rip := i\<rparr>"
    and "unat (x_rip s) < 4"
  using assms by (auto simp: boot_stub_def elim!: x86_stepE)

text \<open>The stub enters the kernel in two steps and in no other way: on the boot stack, with the stack pointer
  aligned as a function of the C calling convention expects it, and with the loop as the return address.\<close>

lemma x86_enters_the_kernel:
  assumes far: "4 \<le> unat kernel_main" and start: "x_rip s = 0" and steps: "x86_steps (boot_stub stack_end kernel_main) s s'"
  shows "s' \<in> {s, s\<lparr>x_rip := 1, x_rsp := stack_end\<rparr>,
    s\<lparr>x_rip := kernel_main, x_rsp := stack_end - 8, x_memory := (x_memory s)(stack_end - 8 := 2)\<rparr>}"
  using steps
proof (induction rule: rtranclp_induct)
  case (step t u)
  note at = x86_step_at [OF step.hyps(2)]
  from step.IH consider "t = s" | "t = s\<lparr>x_rip := 1, x_rsp := stack_end\<rparr>" | "x_rip t = kernel_main" by auto
  then show ?case
  proof cases
    case 1
    then show ?thesis using at(1) start by simp
  next
    case 2
    then have "u = s\<lparr>x_rip := kernel_main, x_rsp := stack_end - 8, x_memory := (x_memory s)(stack_end - 8 := 2)\<rparr>"
      using at(2) by simp
    then show ?thesis by blast
  qed (use at(4) far in simp)
qed simp

lemma x86_kernel_stack:
  assumes "stack_end = stack + BOOT_STACK_SIZE" and "unat stack mod 16 = 0" and "unat stack + 65536 < 2 ^ 64"
  shows "unat (stack_end - 8 + 8) mod 16 = 0" and "stack \<le> stack_end - 8" and "stack_end - 8 < stack_end"
proof -
  have e: "unat stack_end = unat stack + 65536"
    using assms(1,3) by (simp add: BOOT_STACK_SIZE_def unat_word_ariths)
  have "8 \<le> stack_end" using e by (simp add: word_le_nat_alt)
  then have "unat (stack_end - 8) = unat stack + 65528" using e by (simp add: unat_sub)
  then show "stack \<le> stack_end - 8" "stack_end - 8 < stack_end" using e by (simp_all add: word_le_nat_alt word_less_nat_alt)
  show "unat (stack_end - 8 + 8) mod 16 = 0" using assms(2) unfolding diff_add_cancel e by presburger
qed

text \<open>A kernel that returned would leave the processor halted for good, its stack and memory as they are.\<close>

lemma x86_halts_for_ever:
  assumes "x86_steps (boot_stub stack_end kernel_main) s s'" and "x_rip s \<in> {2, 3}"
  shows "\<exists>i \<in> {2, 3}. s' = s\<lparr>x_rip := i\<rparr>"
  using assms(1)
proof (induction rule: rtranclp_induct)
  case base
  then show ?case using assms(2) by (cases s) auto
next
  case (step t u)
  then obtain i where "i \<in> {2, 3}" "t = s\<lparr>x_rip := i\<rparr>" by blast
  then show ?case using x86_step_at(3) [OF step.hyps(2)] by auto
qed

end
