(* ===== verification/KTypes.thy ===== *)
theory KTypes
  imports Prelude
begin

text \<open>
  The kernel's shared vocabulary: the error enumeration of \<^verbatim>\<open>kernel/src/error/mod.rs\<close>, handle
  values, rights, lineages and table entries of \<^verbatim>\<open>kernel/src/handle/mod.rs\<close>, and the object kinds
  and references of \<^verbatim>\<open>kernel/src/object/mod.rs\<close>.  The newtypes over \<open>u64\<close> (\<open>ObjectId\<close>,
  \<open>ObjectGeneration\<close>, \<open>HandleGeneration\<close>, \<open>HandleValue\<close>, \<open>FrameId\<close>, \<open>FrameGeneration\<close>) are
  synonyms of \<^typ>\<open>u64\<close>: each wraps one integer and adds no check.
\<close>

section \<open>Errors\<close>

datatype kernel_error =
    InvalidHandle | WrongObjectType | MissingRights | StaleHandle | DeadObject | InvalidArgument
  | WouldBlock | NoCapacity | NoMemory | QuotaExceeded | PeerClosed | Canceled | TimedOut | Unsupported

type_synonym 'a kernel_result = "(kernel_error, 'a) result"

section \<open>The allocator behind the kernel's vectors\<close>

text \<open>
  Each \<open>try_reserve_exact\<close> can fail; the heap behind it is a third-party crate.  The outcome is a
  parameter of the operations that allocate: \<open>heap site n\<close> tells whether the call site gets room
  for \<open>n\<close> elements.  There is one site per call in the sources.
\<close>

datatype alloc_site =
    SiteFrames | SiteObjectEntries | SiteObjectGenerations | SiteHandleSlots | SiteProcesses
  | SiteRevoke | SiteSendEntries | SiteSendMoved | SiteRecvHandles

type_synonym heap = "alloc_site \<Rightarrow> usize \<Rightarrow> bool"

definition try_reserve_exact :: "heap \<Rightarrow> alloc_site \<Rightarrow> usize \<Rightarrow> unit kernel_result" where
  "try_reserve_exact heap site n = ensure (heap site n) NoMemory"

lemma try_reserve_exact_eq [result_simps]:
  "try_reserve_exact heap site n = Ok u \<longleftrightarrow> heap site n"
  "try_reserve_exact heap site n = Err e \<longleftrightarrow> \<not> heap site n \<and> e = NoMemory"
  "try_reserve_exact heap site n \<noteq> Panic"
  by (auto simp: try_reserve_exact_def result_simps)

section \<open>Handle values\<close>

type_synonym handle_value = u64
type_synonym handle_generation = u64
type_synonym object_id = u64
type_synonym object_generation = u64

definition INITIAL :: u64 where
  "INITIAL = 1"

definition INDEX_BITS :: nat where
  "INDEX_BITS = 32"

definition INDEX_MASK :: u64 where
  "INDEX_MASK = push_bit INDEX_BITS 1 - 1"

definition hv_new :: "u64 \<Rightarrow> handle_generation \<Rightarrow> handle_value" where
  "hv_new index generation = push_bit INDEX_BITS generation OR (index AND INDEX_MASK)"

definition hv_index :: "handle_value \<Rightarrow> u64" where
  "hv_index h = h AND INDEX_MASK"

definition hv_generation :: "handle_value \<Rightarrow> handle_generation" where
  "hv_generation h = drop_bit INDEX_BITS h"

lemma INDEX_MASK_eq: "INDEX_MASK = mask 32"
  by (simp add: INDEX_MASK_def INDEX_BITS_def mask_eq_exp_minus_1 push_bit_eq_mult)

lemma hv_code [code]:
  "INDEX_MASK = 0xFFFFFFFF"
  "hv_new i g = 0x100000000 * g OR (i AND INDEX_MASK)"
  "hv_generation h = h div 0x100000000"
  by (simp_all add: INDEX_MASK_def hv_new_def hv_generation_def INDEX_BITS_def push_bit_eq_mult drop_bit_eq_div mult.commute)

lemma take_bit_u64_id: "unat g < 2 ^ k \<Longrightarrow> take_bit k g = g" for g :: u64
  by (simp add: word_unat_eq_iff unat_take_bit_mod)

lemma hv_index_new_take: "hv_index (hv_new i g) = take_bit 32 i"
  by (rule bit_eqI) (auto simp: hv_index_def hv_new_def INDEX_MASK_eq INDEX_BITS_def bit_simps)

lemma hv_generation_new_take: "hv_generation (hv_new i g) = take_bit 32 g"
  by (rule bit_eqI) (auto simp: hv_generation_def hv_new_def INDEX_MASK_eq INDEX_BITS_def bit_simps)

lemma hv_index_new: "unat i < 2 ^ 32 \<Longrightarrow> hv_index (hv_new i g) = i"
  by (simp only: hv_index_new_take take_bit_u64_id)

lemma hv_generation_new: "unat g < 2 ^ 32 \<Longrightarrow> hv_generation (hv_new i g) = g"
  by (simp only: hv_generation_new_take take_bit_u64_id)

text \<open>The packing keeps 32 bits of the generation: reading it back gives the generation modulo
  \<open>2 ^ 32\<close>.\<close>

lemma unat_hv_generation: "unat (hv_generation h) < 2 ^ 32"
proof -
  have "unat (hv_generation h) = unat h div 2 ^ 32"
    by (simp add: hv_generation_def INDEX_BITS_def drop_bit_eq_div unat_div)
  then show ?thesis using unat_u64_less [of h] by (simp add: div_less_iff_less_mult)
qed

lemma unat_hv_index: "unat (hv_index h) < 2 ^ 32"
proof -
  have "hv_index h = take_bit 32 h"
    by (simp add: hv_index_def INDEX_MASK_eq take_bit_eq_mask)
  then show ?thesis by (simp add: unat_take_bit_mod)
qed

text \<open>A handle value is its index and its generation.\<close>

lemma hv_new_split: "hv_new (hv_index h) (hv_generation h) = h"
  by (rule bit_eqI) (auto simp: hv_new_def hv_index_def hv_generation_def INDEX_MASK_eq INDEX_BITS_def bit_simps)

lemma hv_eq_iff: "h = h' \<longleftrightarrow> hv_index h = hv_index h' \<and> hv_generation h = hv_generation h'"
  by (metis hv_new_split)

section \<open>Rights\<close>

text \<open>\<open>HandleRights\<close>: a \<open>bitflags\<close> type over \<open>u32\<close>; a value is its bits, \<open>contains\<close> is
  inclusion of bits.\<close>

type_synonym handle_rights = u32

definition HR_READ :: handle_rights where "HR_READ = 1"
definition HR_WRITE :: handle_rights where "HR_WRITE = 2"
definition HR_EXECUTE :: handle_rights where "HR_EXECUTE = 4"
definition HR_TRANSFER :: handle_rights where "HR_TRANSFER = 8"
definition HR_DUPLICATE :: handle_rights where "HR_DUPLICATE = 16"
definition HR_MANAGE :: handle_rights where "HR_MANAGE = 32"

definition rights_contain :: "handle_rights \<Rightarrow> handle_rights \<Rightarrow> bool" where
  "rights_contain a b \<longleftrightarrow> a AND b = b"

lemma rights_contain_bits: "rights_contain a b \<longleftrightarrow> (\<forall>n. bit b n \<longrightarrow> bit a n)"
proof -
  have "a AND b = b \<longleftrightarrow> (\<forall>n. bit (a AND b) n \<longleftrightarrow> bit b n)" by (metis bit_eqI)
  then show ?thesis by (auto simp: rights_contain_def bit_and_iff)
qed

lemma rights_contain_refl [simp]: "rights_contain a a"
  by (simp add: rights_contain_def)

lemma rights_contain_zero [simp]: "rights_contain a 0"
  by (simp add: rights_contain_def)

lemma rights_contain_trans: "rights_contain a b \<Longrightarrow> rights_contain b c \<Longrightarrow> rights_contain a c"
  by (simp add: rights_contain_bits)

section \<open>Objects\<close>

datatype object_kind =
    KindProcess | KindChannelEndpoint | KindEvent | KindMemoryObject | KindAddressSpace | KindThread

datatype thread_lifecycle = Initial | Runnable | Blocked | Exited

datatype event_state = Unsignaled | Signaled

record object_ref =
  or_id :: object_id
  or_generation :: object_generation

section \<open>Handle table entries\<close>

record handle_lineage =
  hl_handle :: handle_value
  hl_object :: object_id
  hl_object_generation :: object_generation

record handle_table_entry =
  hte_object :: object_id
  hte_object_generation :: object_generation
  hte_entry_generation :: handle_generation
  hte_parent :: "handle_lineage option"
  hte_kind :: object_kind
  hte_rights :: handle_rights

text \<open>A handle value packs an index and a generation into 32 bits each, and reads
  back exactly what it packed as long as both fit; a generation from \<open>2 ^ 32\<close> on is truncated.\<close>

lemma handle_value_roundtrip:
  "hv_index (hv_new i g) = take_bit 32 i \<and> hv_generation (hv_new i g) = take_bit 32 g
   \<and> hv_new (hv_index h) (hv_generation h) = h"
  by (simp add: hv_index_new_take hv_generation_new_take hv_new_split)

end
