(* ===== verification/Ostd_Frame.thy ===== *)
theory Ostd_Frame
  imports Prelude
begin

text \<open>
  The early frame allocator of \<^verbatim>\<open>ostd/src/mm/frame.rs\<close>: page ranges, the normalisation of the
  firmware memory map (usable regions trimmed to whole pages, reserved ranges subtracted), and
  the bump allocators over the result.  Physical addresses are 64-bit words, because the code
  aligns them with bit masks; the const generic \<open>N\<close> is the length of the arrays.
\<close>

section \<open>Data\<close>

definition PAGE_SIZE :: u64 where
  "PAGE_SIZE = 4096"

definition EARLY_FRAME_REGIONS :: nat where
  "EARLY_FRAME_REGIONS = 32"

type_synonym paddr = u64

datatype frame_alloc_error =
    EmptyRegion | UnalignedRegion | InvalidLayout | TooManyRegions
  | AlreadyInitialized | Uninitialized | Exhausted

datatype memory_region_kind = Usable | Reserved_Region

record memory_region =
  mr_start :: paddr
  mr_end :: paddr
  mr_kind :: memory_region_kind

record frame_range =
  fr_start :: paddr
  fr_end :: paddr

record normalized_memory_map =
  nmm_ranges :: "frame_range option list"
  nmm_len :: usize

record early_frame_allocator =
  efa_range :: frame_range
  efa_next :: paddr

record early_memory_map_allocator =
  ema_ranges :: "frame_range list"
  ema_next :: "paddr list"
  ema_active :: usize

record early_frame_allocator_state =
  efs_allocator :: "early_memory_map_allocator option"

text \<open>\<open>core::alloc::Layout\<close> and its constructor: a power of two, and a size whose rounding up
  to the alignment stays within \<open>isize::MAX\<close>.\<close>

record layout =
  ly_size :: u64
  ly_align :: u64

definition is_power_of_two :: "u64 \<Rightarrow> bool" where
  "is_power_of_two a = list_ex (\<lambda>n. a = push_bit n 1) [0..<64]"

definition layout_from_size_align :: "u64 \<Rightarrow> u64 \<Rightarrow> (unit, layout) result" where
  "layout_from_size_align sz align =
     (if is_power_of_two align \<and> unat sz + unat align \<le> 2 ^ 63
      then Ok \<lparr>ly_size = sz, ly_align = align\<rparr> else Err ())"

definition layout_ok :: "layout \<Rightarrow> bool" where
  "layout_ok l \<longleftrightarrow> layout_from_size_align (ly_size l) (ly_align l) = Ok l"

section \<open>Alignment\<close>

definition is_page_aligned :: "u64 \<Rightarrow> bool" where
  "is_page_aligned value = (value mod PAGE_SIZE = 0)"

text \<open>\<open>debug_assert!\<close> fires in the debug profile, hence the panic.\<close>

definition align_up :: "u64 \<Rightarrow> u64 \<Rightarrow> (unit, u64) result" where
  "align_up value align =
     rbind (assert_that (is_power_of_two align)) (\<lambda>_.
     rbind (u64_sub align 1) (\<lambda>mask.
     map_ok (\<lambda>v. v AND NOT mask) (ok_or () (checked_add value mask))))"

definition align_down :: "u64 \<Rightarrow> u64 \<Rightarrow> ('e, u64) result" where
  "align_down value align =
     rbind (assert_that (is_power_of_two align)) (\<lambda>_.
     map_ok (\<lambda>m. value AND NOT m) (u64_sub align 1))"

section \<open>Ranges\<close>

definition frame_range_new :: "paddr \<Rightarrow> paddr \<Rightarrow> (frame_alloc_error, frame_range) result" where
  "frame_range_new start end' =
     (if end' \<le> start then Err EmptyRegion
      else if \<not> is_page_aligned start \<or> \<not> is_page_aligned end' then Err UnalignedRegion
      else Ok \<lparr>fr_start = start, fr_end = end'\<rparr>)"

definition frame_range_len :: "frame_range \<Rightarrow> ('e, u64) result" where
  "frame_range_len r = u64_sub (fr_end r) (fr_start r)"

text \<open>\<open>Range\<close> is a pair of its bounds.\<close>

definition as_range :: "frame_range \<Rightarrow> paddr \<times> paddr" where
  "as_range r = (fr_start r, fr_end r)"

section \<open>Normalised memory maps\<close>

definition nmm_empty :: "nat \<Rightarrow> normalized_memory_map" where
  "nmm_empty n = \<lparr>nmm_ranges = replicate n None, nmm_len = 0\<rparr>"

definition nmm_is_empty :: "normalized_memory_map \<Rightarrow> bool" where
  "nmm_is_empty m = (nmm_len m = 0)"

definition nmm_range :: "normalized_memory_map \<Rightarrow> nat \<Rightarrow> ('e, frame_range option) result" where
  "nmm_range m index = (if nmm_len m \<le> index then Ok None else vec_get (nmm_ranges m) index)"

definition nmm_push ::
  "normalized_memory_map \<Rightarrow> frame_range \<Rightarrow> (frame_alloc_error, unit) result \<times> normalized_memory_map" where
  "nmm_push m rng =
     (if nmm_len m = length (nmm_ranges m) then (Err TooManyRegions, m)
      else if nmm_len m < length (nmm_ranges m)
      then (Ok (), m\<lparr>nmm_ranges := (nmm_ranges m)[nmm_len m := Some rng], nmm_len := nmm_len m + 1\<rparr>)
      else (Panic, m))"

text \<open>The bodies of the two scans over the reserved ranges, as updates of the running bound.\<close>

definition covering_step :: "paddr \<Rightarrow> paddr \<Rightarrow> frame_range \<Rightarrow> paddr \<Rightarrow> paddr" where
  "covering_step cursor limit rng end' =
     (if fr_start rng \<le> cursor \<and> end' < fr_end rng then min (fr_end rng) limit else end')"

definition covering_reserved_end :: "paddr \<Rightarrow> paddr \<Rightarrow> frame_range list \<Rightarrow> paddr option" where
  "covering_reserved_end cursor limit reserved =
     (let end' = fold (covering_step cursor limit) reserved cursor
      in if end' = cursor then None else Some end')"

definition next_step :: "paddr \<Rightarrow> paddr \<Rightarrow> frame_range \<Rightarrow> paddr \<Rightarrow> paddr" where
  "next_step cursor limit rng start =
     (if fr_end rng \<le> cursor \<or> fr_start rng \<le> cursor \<or> start \<le> fr_start rng
      then start else min (fr_start rng) limit)"

definition next_reserved_start :: "paddr \<Rightarrow> paddr \<Rightarrow> frame_range list \<Rightarrow> paddr option" where
  "next_reserved_start cursor limit reserved =
     (let start = fold (next_step cursor limit) reserved limit
      in if start = limit then None else Some start)"

text \<open>Both steps of the loop of \<open>push_available_range\<close> move the cursor forward, and never past
  the limit: the reason the loop ends.\<close>

lemma covering_fold_bounds:
  assumes "e \<le> limit"
  shows "e \<le> fold (covering_step cursor limit) reserved e
    \<and> fold (covering_step cursor limit) reserved e \<le> limit"
  using assms
proof (induction reserved arbitrary: e)
  case Nil
  then show ?case by simp
next
  case (Cons r rs)
  from Cons.prems have step: "e \<le> covering_step cursor limit r e" "covering_step cursor limit r e \<le> limit"
    by (auto simp: covering_step_def)
  note rest = Cons.IH [OF step(2)]
  from order_trans [OF step(1) conjunct1 [OF rest]] rest show ?case by simp
qed

lemma covering_reserved_end_bounds:
  assumes "cursor < limit" and "covering_reserved_end cursor limit reserved = Some e"
  shows "cursor < e \<and> e \<le> limit"
  using covering_fold_bounds [of cursor limit cursor reserved] assms
  by (auto simp: covering_reserved_end_def Let_def less_le split: if_splits)

lemma next_fold_bounds:
  assumes "cursor < limit" and "cursor < s" and "s \<le> limit"
  shows "cursor < fold (next_step cursor limit) reserved s
    \<and> fold (next_step cursor limit) reserved s \<le> s"
  using assms(2,3)
proof (induction reserved arbitrary: s)
  case Nil
  then show ?case by simp
next
  case (Cons r rs)
  from Cons.prems assms(1) have step: "cursor < next_step cursor limit r s" "next_step cursor limit r s \<le> s"
    by (auto simp: next_step_def)
  from order_trans [OF step(2) Cons.prems(2)] have "next_step cursor limit r s \<le> limit" .
  note rest = Cons.IH [OF step(1) this]
  from order_trans [OF conjunct2 [OF rest] step(2)] rest show ?case by simp
qed

lemma next_reserved_start_bounds:
  assumes "cursor < limit" and "next_reserved_start cursor limit reserved = Some s"
  shows "cursor < s \<and> s \<le> limit"
  using next_fold_bounds [OF assms(1), of limit reserved] assms
  by (auto simp: next_reserved_start_def Let_def split: if_splits)

lemma next_segment_bounds:
  assumes "cursor < limit"
  shows "cursor < unwrap_or (next_reserved_start cursor limit reserved) limit"
    and "unwrap_or (next_reserved_start cursor limit reserved) limit \<le> limit"
  using assms next_reserved_start_bounds [OF assms]
  by (cases "next_reserved_start cursor limit reserved"; auto)+

function push_available_loop ::
  "frame_range list \<Rightarrow> paddr \<Rightarrow> paddr \<Rightarrow> normalized_memory_map
     \<Rightarrow> (frame_alloc_error, unit) result \<times> normalized_memory_map" where
  "push_available_loop reserved limit cursor m =
     (if cursor < limit then
        (case covering_reserved_end cursor limit reserved of
           Some e \<Rightarrow> push_available_loop reserved limit e m
         | None \<Rightarrow>
             (let e = unwrap_or (next_reserved_start cursor limit reserved) limit in
              (case nmm_push m \<lparr>fr_start = cursor, fr_end = e\<rparr> of
                 (Ok _, m') \<Rightarrow> push_available_loop reserved limit e m'
               | (Err err, m') \<Rightarrow> (Err err, m')
               | (Panic, m') \<Rightarrow> (Panic, m'))))
      else (Ok (), m))"
  by pat_completeness auto
termination
proof (relation "measure (\<lambda>(reserved, limit, cursor, m). unat limit - unat cursor)", goal_cases)
  case 1
  then show ?case by simp
next
  case (2 reserved limit cursor m e)
  then have "cursor < e" and "e \<le> limit" by (simp_all add: next_segment_bounds)
  with 2 show ?case by (simp add: word_less_nat_alt word_le_nat_alt)
next
  case (3 reserved limit cursor m e)
  then have "cursor < e" and "e \<le> limit" by (auto dest: covering_reserved_end_bounds)
  with 3 show ?case by (simp add: word_less_nat_alt word_le_nat_alt)
qed

declare push_available_loop.simps [simp del]

definition push_available_range ::
  "normalized_memory_map \<Rightarrow> frame_range \<Rightarrow> frame_range list
     \<Rightarrow> (frame_alloc_error, unit) result \<times> normalized_memory_map" where
  "push_available_range m rng reserved = push_available_loop reserved (fr_end rng) (fr_start rng) m"

definition normalize_usable_region :: "memory_region \<Rightarrow> (unit, frame_range) result" where
  "normalize_usable_region region =
     rbind (align_up (mr_start region) PAGE_SIZE) (\<lambda>start.
     rbind (align_down (mr_end region) PAGE_SIZE) (\<lambda>end'.
     if end' \<le> start then Err () else map_err (\<lambda>_. ()) (frame_range_new start end')))"

fun normalize_loop ::
  "memory_region list \<Rightarrow> frame_range list \<Rightarrow> normalized_memory_map
     \<Rightarrow> (frame_alloc_error, normalized_memory_map) result" where
  "normalize_loop [] reserved m = Ok m"
| "normalize_loop (region # regions) reserved m =
     (if mr_kind region \<noteq> Usable then normalize_loop regions reserved m
      else (case normalize_usable_region region of
              Ok rng \<Rightarrow>
                (case push_available_range m rng reserved of
                   (Ok _, m') \<Rightarrow> normalize_loop regions reserved m'
                 | (Err e, _) \<Rightarrow> Err e
                 | (Panic, _) \<Rightarrow> Panic)
            | Err _ \<Rightarrow> normalize_loop regions reserved m
            | Panic \<Rightarrow> Panic))"

definition normalize_memory_regions_with_reserved ::
  "nat \<Rightarrow> memory_region list \<Rightarrow> frame_range list \<Rightarrow> (frame_alloc_error, normalized_memory_map) result" where
  "normalize_memory_regions_with_reserved n regions reserved = normalize_loop regions reserved (nmm_empty n)"

definition normalize_memory_regions ::
  "nat \<Rightarrow> memory_region list \<Rightarrow> (frame_alloc_error, normalized_memory_map) result" where
  "normalize_memory_regions n regions = normalize_memory_regions_with_reserved n regions []"

section \<open>Allocators\<close>

definition normalize_layout :: "layout \<Rightarrow> (frame_alloc_error, layout) result" where
  "normalize_layout l =
     (if ly_size l = 0 then Err InvalidLayout
      else rbind (map_err (\<lambda>_. InvalidLayout) (align_up (ly_size l) PAGE_SIZE)) (\<lambda>sz.
           map_err (\<lambda>_. InvalidLayout) (layout_from_size_align sz (max (ly_align l) PAGE_SIZE))))"

definition allocate_from_range :: "paddr \<Rightarrow> paddr \<Rightarrow> u64 \<Rightarrow> u64 \<Rightarrow> (unit, frame_range) result" where
  "allocate_from_range nxt limit sz align =
     rbind (align_up nxt align) (\<lambda>start.
     rbind (ok_or () (checked_add start sz)) (\<lambda>end'.
     if limit < end' then Err () else map_err (\<lambda>_. ()) (frame_range_new start end')))"

definition efa_new :: "frame_range \<Rightarrow> early_frame_allocator" where
  "efa_new rng = \<lparr>efa_range = rng, efa_next = fr_start rng\<rparr>"

definition efa_allocate ::
  "early_frame_allocator \<Rightarrow> layout \<Rightarrow> (frame_alloc_error, frame_range) result \<times> early_frame_allocator" where
  "efa_allocate a l =
     lift (normalize_layout l) a (\<lambda>request.
     lift (map_err (\<lambda>_. Exhausted)
             (allocate_from_range (efa_next a) (fr_end (efa_range a)) (ly_size request) (ly_align request))) a
       (\<lambda>allocated. (Ok allocated, a\<lparr>efa_next := fr_end allocated\<rparr>)))"

definition efa_remaining :: "early_frame_allocator \<Rightarrow> ('e, u64) result" where
  "efa_remaining a = u64_sub (fr_end (efa_range a)) (efa_next a)"

definition efa_allocated :: "early_frame_allocator \<Rightarrow> paddr \<times> paddr" where
  "efa_allocated a = (fr_start (efa_range a), efa_next a)"

definition ema_new_active :: "frame_range list \<Rightarrow> usize \<Rightarrow> early_memory_map_allocator" where
  "ema_new_active ranges active =
     \<lparr>ema_ranges = ranges, ema_next = map fr_start ranges, ema_active = active\<rparr>"

definition ema_new :: "frame_range list \<Rightarrow> early_memory_map_allocator" where
  "ema_new ranges = ema_new_active ranges (length ranges)"

function copy_active_ranges ::
  "frame_range option list \<Rightarrow> nat \<Rightarrow> nat \<Rightarrow> frame_range list \<Rightarrow> (frame_alloc_error, frame_range list) result" where
  "copy_active_ranges src len index ranges =
     (if index < len then
        rbind (vec_get src index) (\<lambda>slot.
          (case slot of
             Some rng \<Rightarrow> copy_active_ranges src len (Suc index) (ranges[index := rng])
           | None \<Rightarrow> Err Exhausted))
      else Ok ranges)"
  by pat_completeness auto
termination
  by (relation "measure (\<lambda>(src, len, index, ranges). len - index)") auto

declare copy_active_ranges.simps [simp del]

definition try_into_allocator ::
  "normalized_memory_map \<Rightarrow> (frame_alloc_error, early_memory_map_allocator) result" where
  "try_into_allocator m =
     (if nmm_len m = 0 then Err Exhausted
      else rbind (copy_active_ranges (nmm_ranges m) (nmm_len m) 0
                    (replicate (length (nmm_ranges m)) \<lparr>fr_start = 0, fr_end = PAGE_SIZE\<rparr>))
             (\<lambda>ranges. Ok (ema_new_active ranges (nmm_len m))))"

fun ema_allocate_loop ::
  "early_memory_map_allocator \<Rightarrow> layout \<Rightarrow> nat list
     \<Rightarrow> (frame_alloc_error, frame_range) result \<times> early_memory_map_allocator" where
  "ema_allocate_loop a request [] = (Err Exhausted, a)"
| "ema_allocate_loop a request (index # indices) =
     lift (vec_get (ema_next a) index) a (\<lambda>nxt.
     lift (vec_get (ema_ranges a) index) a (\<lambda>rng.
     (case allocate_from_range nxt (fr_end rng) (ly_size request) (ly_align request) of
        Ok allocated \<Rightarrow> (Ok allocated, a\<lparr>ema_next := (ema_next a)[index := fr_end allocated]\<rparr>)
      | Err _ \<Rightarrow> ema_allocate_loop a request indices
      | Panic \<Rightarrow> (Panic, a))))"

definition ema_allocate ::
  "early_memory_map_allocator \<Rightarrow> layout
     \<Rightarrow> (frame_alloc_error, frame_range) result \<times> early_memory_map_allocator" where
  "ema_allocate a l = lift (normalize_layout l) a (\<lambda>request. ema_allocate_loop a request [0..<ema_active a])"

definition ema_allocated_in :: "early_memory_map_allocator \<Rightarrow> nat \<Rightarrow> (unit, paddr \<times> paddr) result" where
  "ema_allocated_in a index =
     rbind (vec_get (ema_ranges a) index) (\<lambda>r.
     rbind (vec_get (ema_next a) index) (\<lambda>nxt. Ok (fr_start r, nxt)))"

definition ema_range :: "early_memory_map_allocator \<Rightarrow> nat \<Rightarrow> (unit, frame_range) result" where
  "ema_range a index = vec_get (ema_ranges a) index"

definition efs_uninitialized :: early_frame_allocator_state where
  "efs_uninitialized = \<lparr>efs_allocator = None\<rparr>"

definition efs_is_initialized :: "early_frame_allocator_state \<Rightarrow> bool" where
  "efs_is_initialized s = (efs_allocator s \<noteq> None)"

text \<open>The const generic of \<open>EarlyFrameAllocatorState\<close> is the argument \<open>n\<close>; the global
  \<open>EARLY_FRAME_ALLOCATOR\<close> is the instance with \<open>n = EARLY_FRAME_REGIONS\<close>, its mutex held for the
  whole of each call, so its two entry points are the methods on the state it guards.\<close>

definition init_from_regions ::
  "nat \<Rightarrow> early_frame_allocator_state \<Rightarrow> memory_region list \<Rightarrow> frame_range list
     \<Rightarrow> (frame_alloc_error, unit) result \<times> early_frame_allocator_state" where
  "init_from_regions n s regions reserved =
     (if efs_allocator s \<noteq> None then (Err AlreadyInitialized, s)
      else lift (normalize_memory_regions_with_reserved n regions reserved) s (\<lambda>m.
           lift (try_into_allocator m) s (\<lambda>allocator. (Ok (), s\<lparr>efs_allocator := Some allocator\<rparr>))))"

definition efs_allocate ::
  "early_frame_allocator_state \<Rightarrow> layout
     \<Rightarrow> (frame_alloc_error, frame_range) result \<times> early_frame_allocator_state" where
  "efs_allocate s l =
     (case efs_allocator s of
        None \<Rightarrow> (Err Uninitialized, s)
      | Some a \<Rightarrow> (let (r, a') = ema_allocate a l in (r, s\<lparr>efs_allocator := Some a'\<rparr>)))"

definition init_early_frame_allocator_from_regions ::
  "early_frame_allocator_state \<Rightarrow> memory_region list \<Rightarrow> frame_range list
     \<Rightarrow> (frame_alloc_error, unit) result \<times> early_frame_allocator_state" where
  "init_early_frame_allocator_from_regions = init_from_regions EARLY_FRAME_REGIONS"

definition try_allocate_early_frame ::
  "early_frame_allocator_state \<Rightarrow> layout
     \<Rightarrow> (frame_alloc_error, frame_range) result \<times> early_frame_allocator_state" where
  "try_allocate_early_frame = efs_allocate"

text \<open>The definitions, for evaluation on concrete memory maps.\<close>

lemmas early_frame_defs =
  PAGE_SIZE_def is_power_of_two_def layout_from_size_align_def layout_ok_def is_page_aligned_def
  align_up_def align_down_def frame_range_new_def nmm_empty_def nmm_push_def covering_step_def
  covering_reserved_end_def next_step_def next_reserved_start_def push_available_range_def
  push_available_loop.simps normalize_usable_region_def normalize_memory_regions_with_reserved_def
  normalize_layout_def allocate_from_range_def ema_new_active_def copy_active_ranges.simps
  try_into_allocator_def ema_allocate_def efs_uninitialized_def init_from_regions_def efs_allocate_def
  assert_that_def u64_sub_def checked_add_def vec_get_def upt_rec

section \<open>Rounding\<close>

lemma power_of_twoE:
  assumes "is_power_of_two a"
  obtains k where "k < 64" and "a = 2 ^ k" and "unat a = 2 ^ k" and "a - 1 = mask k" and "unat (mask k :: u64) = 2 ^ k - 1"
proof -
  from assms obtain k where k: "k < 64" "a = 2 ^ k"
    by (auto simp: is_power_of_two_def list_ex_iff)
  moreover from k have "unat a = 2 ^ k" by (simp add: unat_exp_u64)
  moreover from k have "a - 1 = mask k" by (simp add: mask_eq_exp_minus_1)
  moreover have "unat (mask k :: u64) = 2 ^ k - 1"
  proof -
    have "(1 :: u64) \<le> 2 ^ k" using k by (simp add: word_le_nat_alt unat_exp_u64)
    then show ?thesis using k by (simp add: mask_eq_exp_minus_1 unat_sub unat_exp_u64)
  qed
  ultimately show thesis by (rule that)
qed

lemma align_up_Ok:
  assumes "is_power_of_two align"
  shows "align_up v align = Ok w \<longleftrightarrow>
    unat v + (unat align - 1) < 2 ^ 64 \<and> unat w = (unat v + (unat align - 1)) div unat align * unat align"
proof -
  from assms obtain k where k: "k < 64" "unat align = 2 ^ k" "align - 1 = mask k" "unat (mask k :: u64) = 2 ^ k - 1"
    by (rule power_of_twoE)
  have le: "1 \<le> align" using k(2) by (simp add: word_le_nat_alt)
  have sub: "u64_sub align 1 = Ok (mask k)" using le k(3) by (simp add: u64_sub_def)
  have "align_up v align = Ok w \<longleftrightarrow>
     unat v + (2 ^ k - 1) < 2 ^ 64 \<and> w = (v + mask k) AND NOT (mask k)"
    using assms k(4) by (auto simp: align_up_def sub result_simps)
  moreover have "unat v + (2 ^ k - 1) < 2 ^ 64 \<Longrightarrow>
     unat ((v + mask k) AND NOT (mask k)) = (unat v + (2 ^ k - 1)) div 2 ^ k * 2 ^ k"
    using k(4) by (simp add: unat_and_not_mask unat_add_no_overflow)
  ultimately show ?thesis unfolding k(2) by (metis word_unat_eq_iff)
qed

lemma align_up_Err:
  assumes "is_power_of_two align"
  shows "align_up v align = Err u \<longleftrightarrow> 2 ^ 64 \<le> unat v + (unat align - 1)"
proof -
  from assms obtain k where k: "k < 64" "unat align = 2 ^ k" "align - 1 = mask k" "unat (mask k :: u64) = 2 ^ k - 1"
    by (rule power_of_twoE)
  have "1 \<le> align" using k(2) by (simp add: word_le_nat_alt)
  then have sub: "u64_sub align 1 = Ok (mask k)" using k(3) by (simp add: u64_sub_def)
  show ?thesis using assms k(2,4) by (auto simp: align_up_def sub result_simps)
qed

lemma align_up_not_Panic: "is_power_of_two align \<Longrightarrow> align_up v align \<noteq> Panic"
proof -
  assume a: "is_power_of_two align"
  then obtain k where k: "k < 64" "unat align = 2 ^ k" by (rule power_of_twoE)
  then have "1 \<le> align" by (simp add: word_le_nat_alt)
  with a show ?thesis by (auto simp: align_up_def result_simps)
qed

lemma align_down_Ok:
  assumes "is_power_of_two align"
  shows "align_down v align = Ok w \<longleftrightarrow> unat w = unat v div unat align * unat align"
proof -
  from assms obtain k where k: "k < 64" "unat align = 2 ^ k" "align - 1 = mask k"
    by (rule power_of_twoE)
  have "1 \<le> align" using k(2) by (simp add: word_le_nat_alt)
  with assms k(3) have "align_down v align = Ok w \<longleftrightarrow> w = v AND NOT (mask k)"
    by (auto simp: align_down_def result_simps)
  also have "\<dots> \<longleftrightarrow> unat w = unat (v AND NOT (mask k))" by (simp add: word_unat_eq_iff)
  finally show ?thesis by (simp add: unat_and_not_mask k(2))
qed

lemma align_down_total: "is_power_of_two align \<Longrightarrow> \<exists>w. align_down v align = Ok w"
proof -
  assume a: "is_power_of_two align"
  then obtain k where k: "k < 64" "unat align = 2 ^ k" by (rule power_of_twoE)
  then have "1 \<le> align" by (simp add: word_le_nat_alt)
  with a show ?thesis by (auto simp: align_down_def result_simps)
qed

lemma page_size_power [simp]: "is_power_of_two PAGE_SIZE"
proof -
  have "(4096 :: u64) = push_bit 12 1" by simp
  then have "\<exists>n \<in> set [0..<64]. (4096 :: u64) = push_bit n 1"
    by (intro bexI [of _ 12]) simp_all
  then show ?thesis by (simp only: is_power_of_two_def PAGE_SIZE_def list_ex_iff)
qed

lemma unat_page_size [simp]: "unat PAGE_SIZE = 4096"
  by (simp add: PAGE_SIZE_def)

lemma page_aligned_iff: "is_page_aligned v \<longleftrightarrow> unat v mod 4096 = 0"
proof -
  have "unat (v mod PAGE_SIZE) = unat v mod 4096" by (simp add: unat_mod)
  then show ?thesis by (metis is_page_aligned_def unat_0 unat_eq_zero)
qed

lemma page_alignedI: "unat v = q * 4096 \<Longrightarrow> is_page_aligned v"
  by (simp add: page_aligned_iff)

lemma frame_range_new_Ok [result_simps]:
  "frame_range_new s e = Ok r \<longleftrightarrow>
     s < e \<and> is_page_aligned s \<and> is_page_aligned e \<and> r = \<lparr>fr_start = s, fr_end = e\<rparr>"
  "frame_range_new s e \<noteq> Panic"
  by (auto simp: frame_range_new_def)

definition range_addrs :: "frame_range \<Rightarrow> paddr set" where
  "range_addrs r = {a. fr_start r \<le> a \<and> a < fr_end r}"

definition whole_pages :: "memory_region \<Rightarrow> paddr set" where
  "whole_pages region =
     {a. unat (mr_start region) \<le> unat a div 4096 * 4096
       \<and> unat a div 4096 * 4096 + 4096 \<le> unat (mr_end region)}"

lemma page_floor_le: "a * 4096 \<le> b \<longleftrightarrow> a * 4096 \<le> b div 4096 * (4096::nat)"
proof -
  have "a * 4096 \<le> b \<longleftrightarrow> a \<le> b div 4096" by (simp add: less_eq_div_iff_mult_less_eq)
  then show ?thesis by simp
qed

lemma page_floor_less: "b < a * 4096 \<longleftrightarrow> b div 4096 * 4096 + 4096 \<le> a * (4096::nat)"
proof -
  have "b < a * 4096 \<longleftrightarrow> b div 4096 < a" by (simp add: div_less_iff_less_mult)
  also have "\<dots> \<longleftrightarrow> (b div 4096 + 1) * 4096 \<le> a * 4096" by auto
  finally show ?thesis by (simp add: algebra_simps)
qed

lemma ceil_le_iff: "(s + 4095) div 4096 * 4096 \<le> a * 4096 \<longleftrightarrow> s \<le> a * (4096::nat)"
proof -
  have "(s + 4095) div 4096 \<le> a \<longleftrightarrow> (s + 4095) div 4096 < a + 1" by auto
  also have "\<dots> \<longleftrightarrow> s + 4095 < (a + 1) * 4096" by (simp add: div_less_iff_less_mult)
  also have "\<dots> \<longleftrightarrow> s \<le> a * 4096" by auto
  finally show ?thesis by simp
qed

lemma page_end_bound: "unat a div 4096 * 4096 + 4096 \<le> 2 ^ 64" for a :: u64
  using page_floor_less [of "unat a" "2 ^ 52"] unat_u64_less [of a] by simp

lemma normalize_usable_region_spec:
  shows "normalize_usable_region region \<noteq> Panic"
    and "normalize_usable_region region = Ok r \<Longrightarrow>
      range_addrs r = whole_pages region \<and> fr_start r < fr_end r
      \<and> is_page_aligned (fr_start r) \<and> is_page_aligned (fr_end r)"
    and "normalize_usable_region region = Err u \<Longrightarrow> whole_pages region = {}"
proof -
  obtain e where e: "(align_down (mr_end region) PAGE_SIZE :: (unit, u64) result) = Ok e"
    using align_down_total [OF page_size_power] by blast
  then have ue: "unat e = unat (mr_end region) div 4096 * 4096"
    by (simp add: align_down_Ok)
  have below: "a * 4096 + 4096 \<le> unat (mr_end region) \<longleftrightarrow> a * 4096 + 4096 \<le> unat e" for a
    using page_floor_le [of "a + 1" "unat (mr_end region)"] ue by (simp add: add.commute)
  show "normalize_usable_region region \<noteq> Panic"
    using e align_up_not_Panic [OF page_size_power]
    by (auto simp: normalize_usable_region_def result_simps)
  {
    fix s assume s: "align_up (mr_start region) PAGE_SIZE = Ok s"
    then have us: "unat s = (unat (mr_start region) + 4095) div 4096 * 4096"
      by (simp add: align_up_Ok)
    have "whole_pages region = {a. s \<le> a \<and> a < e}"
    proof (intro set_eqI, simp add: whole_pages_def)
      fix a :: paddr
      have "unat (mr_start region) \<le> unat a div 4096 * 4096 \<longleftrightarrow> unat s \<le> unat a"
        using us ceil_le_iff [of "unat (mr_start region)" "unat a div 4096"]
          page_floor_le [of "(unat (mr_start region) + 4095) div 4096" "unat a"] by simp
      moreover have "unat a div 4096 * 4096 + 4096 \<le> unat (mr_end region) \<longleftrightarrow> unat a < unat e"
        using below [of "unat a div 4096"] page_floor_less [of "unat a"] ue by simp
      ultimately show "unat (mr_start region) \<le> unat a div 4096 * 4096 \<and>
          unat a div 4096 * 4096 + 4096 \<le> unat (mr_end region) \<longleftrightarrow> s \<le> a \<and> a < e"
        by (simp add: word_le_nat_alt word_less_nat_alt)
    qed
  } note pages = this
  show "range_addrs r = whole_pages region \<and> fr_start r < fr_end r
      \<and> is_page_aligned (fr_start r) \<and> is_page_aligned (fr_end r)"
    if "normalize_usable_region region = Ok r"
    using that e pages
    by (auto simp: normalize_usable_region_def result_simps range_addrs_def split: if_splits)
  show "whole_pages region = {}" if err: "normalize_usable_region region = Err u"
  proof (cases "align_up (mr_start region) PAGE_SIZE")
    case (Ok s)
    from Ok have "unat s = (unat (mr_start region) + 4095) div 4096 * 4096" by (simp add: align_up_Ok)
    then have al: "is_page_aligned s" by (rule page_alignedI)
    from ue have "is_page_aligned e" by (rule page_alignedI)
    with al have "\<not> s < e"
      using err e Ok by (auto simp: normalize_usable_region_def frame_range_new_def split: if_splits)
    then show ?thesis unfolding pages [OF Ok] by (auto simp: word_less_nat_alt word_le_nat_alt)
  next
    case (Err u')
    then have "2 ^ 64 \<le> unat (mr_start region) + 4095" by (simp add: align_up_Err)
    then have "unat a div 4096 * 4096 < unat (mr_start region)" for a :: paddr
      using page_end_bound [of a] by linarith
    then show ?thesis by (auto simp: whole_pages_def not_le)
  next
    case Panic
    then show ?thesis using align_up_not_Panic [OF page_size_power] by blast
  qed
qed

section \<open>What the normalised map covers\<close>

definition nmm_wf :: "normalized_memory_map \<Rightarrow> bool" where
  "nmm_wf m \<longleftrightarrow> nmm_len m \<le> length (nmm_ranges m) \<and> (\<forall>i < nmm_len m. nmm_ranges m ! i \<noteq> None)"

definition nmm_list :: "normalized_memory_map \<Rightarrow> frame_range list" where
  "nmm_list m = map the (take (nmm_len m) (nmm_ranges m))"

definition addrs_of :: "frame_range list \<Rightarrow> paddr set" where
  "addrs_of rs = (\<Union>r \<in> set rs. range_addrs r)"

lemma addrs_of_simps [simp]:
  "addrs_of [] = {}"
  "addrs_of (r # rs) = range_addrs r \<union> addrs_of rs"
  "addrs_of (rs @ ss) = addrs_of rs \<union> addrs_of ss"
  by (auto simp: addrs_of_def)

lemma nmm_empty_wf [simp]: "nmm_wf (nmm_empty n)" "nmm_list (nmm_empty n) = []"
  by (simp_all add: nmm_wf_def nmm_list_def nmm_empty_def)

lemma nmm_push_cases:
  assumes "nmm_wf m"
  shows "(nmm_push m r = (Err TooManyRegions, m) \<and> nmm_len m = length (nmm_ranges m))
    \<or> (\<exists>m'. nmm_push m r = (Ok (), m') \<and> nmm_wf m' \<and> nmm_list m' = nmm_list m @ [r])"
proof (cases "nmm_len m = length (nmm_ranges m)")
  case True
  then show ?thesis by (simp add: nmm_push_def)
next
  case False
  with assms have "nmm_len m < length (nmm_ranges m)" by (simp add: nmm_wf_def)
  with assms show ?thesis
    by (auto simp: nmm_push_def nmm_wf_def nmm_list_def take_Suc_conv_app_nth nth_list_update less_Suc_eq)
qed

lemma covering_fold_witness:
  assumes "e \<le> limit"
  shows "fold (covering_step cursor limit) reserved e = e
    \<or> (\<exists>r \<in> set reserved. fr_start r \<le> cursor \<and> fold (covering_step cursor limit) reserved e \<le> fr_end r)"
  using assms
proof (induction reserved arbitrary: e)
  case Nil
  then show ?case by simp
next
  case (Cons r rs)
  then have "covering_step cursor limit r e \<le> limit" by (auto simp: covering_step_def)
  from Cons.IH [OF this] show ?case by (auto simp: covering_step_def)
qed

lemma covering_fold_above:
  assumes "r \<in> set reserved" and "fr_start r \<le> cursor" and "e \<le> limit"
  shows "min (fr_end r) limit \<le> fold (covering_step cursor limit) reserved e"
  using assms(1,3)
proof (induction reserved arbitrary: e)
  case Nil
  then show ?case by simp
next
  case (Cons x xs)
  have le: "covering_step cursor limit x e \<le> limit" using Cons.prems by (auto simp: covering_step_def)
  show ?case
  proof (cases "r \<in> set xs")
    case True
    from Cons.IH [OF True le] show ?thesis by simp
  next
    case False
    with Cons.prems assms(2) have "min (fr_end r) limit \<le> covering_step cursor limit x e"
      by (auto simp: covering_step_def)
    also have "\<dots> \<le> fold (covering_step cursor limit) xs (covering_step cursor limit x e)"
      using covering_fold_bounds [OF le] by blast
    finally show ?thesis by simp
  qed
qed

lemma covering_reserved_end_Some:
  assumes "cursor < limit" and "covering_reserved_end cursor limit reserved = Some e"
  shows "{cursor..<e} \<subseteq> addrs_of reserved"
proof -
  have e: "e \<noteq> cursor" "e = fold (covering_step cursor limit) reserved cursor"
    using assms by (auto simp: covering_reserved_end_def Let_def split: if_splits)
  with covering_fold_witness [OF less_imp_le [OF assms(1)], of cursor reserved]
  obtain r where r: "r \<in> set reserved" "fr_start r \<le> cursor" "e \<le> fr_end r" by auto
  show ?thesis
  proof
    fix a assume "a \<in> {cursor..<e}"
    then have "cursor \<le> a" "a < e" by simp_all
    with r have "a \<in> range_addrs r" unfolding range_addrs_def by (intro CollectI conjI) order+
    with r(1) show "a \<in> addrs_of reserved" by (auto simp: addrs_of_def)
  qed
qed

lemma covering_reserved_end_None:
  assumes "cursor < limit" and "covering_reserved_end cursor limit reserved = None"
  shows "cursor \<notin> addrs_of reserved"
proof
  assume "cursor \<in> addrs_of reserved"
  then obtain r where r: "r \<in> set reserved" "fr_start r \<le> cursor" "cursor < fr_end r"
    by (auto simp: addrs_of_def range_addrs_def)
  have "min (fr_end r) limit \<le> cursor"
    using covering_fold_above [OF r(1,2), of cursor limit] assms
    by (auto simp: covering_reserved_end_def Let_def split: if_splits)
  with r(3) assms(1) show False by (auto simp: min_le_iff_disj)
qed

lemma next_fold_below:
  assumes "r \<in> set reserved" and "cursor < fr_end r" and "cursor < fr_start r"
    and "cursor < limit" and "cursor < s" and "s \<le> limit"
  shows "fold (next_step cursor limit) reserved s \<le> fr_start r"
  using assms(1,5,6)
proof (induction reserved arbitrary: s)
  case Nil
  then show ?case by simp
next
  case (Cons x xs)
  have le: "cursor < next_step cursor limit x s" "next_step cursor limit x s \<le> limit"
    using Cons.prems assms(4) by (auto simp: next_step_def)
  show ?case
  proof (cases "r \<in> set xs")
    case True
    from Cons.IH [OF True le] show ?thesis by simp
  next
    case False
    have "fold (next_step cursor limit) xs (next_step cursor limit x s) \<le> next_step cursor limit x s"
      using next_fold_bounds [OF assms(4) le] by blast
    also have "\<dots> \<le> fr_start r" using False Cons.prems assms(2,3) by (auto simp: next_step_def)
    finally show ?thesis by simp
  qed
qed

lemma next_segment_free:
  assumes "cursor < limit" and "cursor \<notin> addrs_of reserved"
  shows "{cursor..<unwrap_or (next_reserved_start cursor limit reserved) limit} \<inter> addrs_of reserved = {}"
proof -
  have seg: "unwrap_or (next_reserved_start cursor limit reserved) limit
      = fold (next_step cursor limit) reserved limit"
    by (simp add: next_reserved_start_def Let_def)
  {
    fix a r
    assume a: "cursor \<le> a" "a < fold (next_step cursor limit) reserved limit"
      and r: "r \<in> set reserved" "fr_start r \<le> a" "a < fr_end r"
    have end': "cursor < fr_end r" using a r by simp
    have "cursor < fr_start r"
    proof (rule ccontr)
      assume "\<not> cursor < fr_start r"
      with end' r(1) have "cursor \<in> addrs_of reserved"
        by (auto simp: addrs_of_def range_addrs_def not_less)
      with assms(2) show False ..
    qed
    from next_fold_below [OF r(1) end' this assms(1), of limit] assms(1) a r have False by simp
  }
  then show ?thesis unfolding seg addrs_of_def range_addrs_def by fastforce
qed

text \<open>The loop of \<open>push_available_range\<close>: the segments it appends are exactly the addresses from
  the cursor to the limit that no reserved range covers, in increasing order.\<close>

definition ascending :: "frame_range list \<Rightarrow> bool" where
  "ascending rs \<longleftrightarrow> (\<forall>r \<in> set rs. fr_start r < fr_end r) \<and> sorted_wrt (\<lambda>r s. fr_end r \<le> fr_start s) rs"

definition page_bounds :: "frame_range \<Rightarrow> bool" where
  "page_bounds r \<longleftrightarrow> is_page_aligned (fr_start r) \<and> is_page_aligned (fr_end r)"

lemma push_available_loop_spec:
  assumes "nmm_wf m"
  shows "fst (push_available_loop reserved limit cursor m) = Err TooManyRegions
      \<or> (\<exists>m' rs. push_available_loop reserved limit cursor m = (Ok (), m') \<and> nmm_wf m'
            \<and> nmm_list m' = nmm_list m @ rs \<and> addrs_of rs = {cursor..<limit} - addrs_of reserved
            \<and> ascending rs \<and> (\<forall>r \<in> set rs. cursor \<le> fr_start r \<and> fr_end r \<le> limit))"
  using assms
proof (induction reserved limit cursor m rule: push_available_loop.induct)
  case (1 reserved limit cursor m)
  note unfold = push_available_loop.simps [of reserved limit cursor m]
  show ?case
  proof (cases "cursor < limit")
    case False
    then show ?thesis using "1.prems" by (auto simp: unfold ascending_def)
  next
    case lt: True
    show ?thesis
    proof (cases "covering_reserved_end cursor limit reserved")
      case (Some e)
      have e: "cursor < e" "e \<le> limit" using covering_reserved_end_bounds [OF lt Some] by auto
      have cut: "{cursor..<limit} - addrs_of reserved = {e..<limit} - addrs_of reserved"
      proof (rule set_eqI)
        fix a
        have "cursor \<le> a \<Longrightarrow> a < e \<Longrightarrow> a \<in> addrs_of reserved"
          using covering_reserved_end_Some [OF lt Some] by auto
        moreover have "e \<le> a \<Longrightarrow> cursor \<le> a" using e by order
        ultimately show "a \<in> {cursor..<limit} - addrs_of reserved \<longleftrightarrow> a \<in> {e..<limit} - addrs_of reserved"
          by (cases "a < e") (auto simp: not_less)
      qed
      from "1.IH"(2) [OF lt Some "1.prems"] e show ?thesis
        unfolding unfold using lt Some by (fastforce simp: cut)
    next
      case None
      define e where "e = unwrap_or (next_reserved_start cursor limit reserved) limit"
      have e: "cursor < e" "e \<le> limit" using lt by (simp_all add: e_def next_segment_bounds)
      have free: "{cursor..<e} \<inter> addrs_of reserved = {}"
        unfolding e_def by (rule next_segment_free [OF lt covering_reserved_end_None [OF lt None]])
      from nmm_push_cases [OF "1.prems", of "\<lparr>fr_start = cursor, fr_end = e\<rparr>"]
      show ?thesis
      proof (elim disjE exE conjE)
        assume "nmm_push m \<lparr>fr_start = cursor, fr_end = e\<rparr> = (Err TooManyRegions, m)"
        then show ?thesis unfolding unfold using lt None by (simp add: e_def [symmetric])
      next
        fix m1
        assume push: "nmm_push m \<lparr>fr_start = cursor, fr_end = e\<rparr> = (Ok (), m1)"
          and wf: "nmm_wf m1" and l1: "nmm_list m1 = nmm_list m @ [\<lparr>fr_start = cursor, fr_end = e\<rparr>]"
        have step: "push_available_loop reserved limit cursor m = push_available_loop reserved limit e m1"
          unfolding unfold using lt None push by (simp add: e_def [symmetric])
        have cut: "{cursor..<limit} - addrs_of reserved = {cursor..<e} \<union> ({e..<limit} - addrs_of reserved)"
          using free e by (auto simp: not_less)
        have IH: "fst (push_available_loop reserved limit e m1) = Err TooManyRegions
          \<or> (\<exists>m' rs. push_available_loop reserved limit e m1 = (Ok (), m') \<and> nmm_wf m'
            \<and> nmm_list m' = nmm_list m1 @ rs \<and> addrs_of rs = {e..<limit} - addrs_of reserved
            \<and> ascending rs \<and> (\<forall>r \<in> set rs. e \<le> fr_start r \<and> fr_end r \<le> limit))"
          by (rule "1.IH"(1) [OF lt None e_def push [symmetric] refl wf])
        then show ?thesis
        proof (elim disjE exE conjE)
          fix m' rs
          assume rs: "push_available_loop reserved limit e m1 = (Ok (), m')" "nmm_wf m'"
            "nmm_list m' = nmm_list m1 @ rs" "addrs_of rs = {e..<limit} - addrs_of reserved"
            "ascending rs" "\<forall>r \<in> set rs. e \<le> fr_start r \<and> fr_end r \<le> limit"
          let ?r = "\<lparr>fr_start = cursor, fr_end = e\<rparr>"
          have "addrs_of (?r # rs) = {cursor..<limit} - addrs_of reserved"
            using cut rs(4) by (auto simp: range_addrs_def)
          moreover have "ascending (?r # rs)" using rs(5,6) e by (auto simp: ascending_def)
          moreover have "\<forall>r \<in> set (?r # rs). cursor \<le> fr_start r \<and> fr_end r \<le> limit"
            using rs(6) e by (auto intro: less_imp_le order_trans)
          moreover have "nmm_list m' = nmm_list m @ (?r # rs)" using rs(3) l1 by simp
          ultimately show ?thesis using step rs(1,2) by metis
        qed (simp add: step)
      qed
    qed
  qed
qed

lemma covering_fold_member:
  "fold (covering_step cursor limit) reserved e = e \<or> fold (covering_step cursor limit) reserved e = limit
    \<or> fold (covering_step cursor limit) reserved e \<in> fr_end ` set reserved"
proof (induction reserved arbitrary: e)
  case (Cons r rs)
  from Cons.IH [of "covering_step cursor limit r e"] show ?case
    by (auto simp: covering_step_def min_def)
qed simp

lemma next_fold_member:
  "fold (next_step cursor limit) reserved s = s \<or> fold (next_step cursor limit) reserved s = limit
    \<or> fold (next_step cursor limit) reserved s \<in> fr_start ` set reserved"
proof (induction reserved arbitrary: s)
  case (Cons r rs)
  from Cons.IH [of "next_step cursor limit r s"] show ?case
    by (auto simp: next_step_def min_def)
qed simp

lemma push_available_loop_aligned:
  assumes "push_available_loop reserved limit cursor m = (Ok (), m')" and "nmm_wf m"
    and "is_page_aligned cursor" and "is_page_aligned limit" and "list_all page_bounds reserved"
    and "list_all page_bounds (nmm_list m)"
  shows "list_all page_bounds (nmm_list m')"
  using assms
proof (induction reserved limit cursor m rule: push_available_loop.induct)
  case (1 reserved limit cursor m)
  note unfold = push_available_loop.simps [of reserved limit cursor m]
  show ?case
  proof (cases "cursor < limit")
    case False
    with "1.prems" show ?thesis by (simp add: unfold)
  next
    case lt: True
    show ?thesis
    proof (cases "covering_reserved_end cursor limit reserved")
      case (Some e)
      with covering_fold_member [of cursor limit reserved cursor] "1.prems"
      have "is_page_aligned e"
        by (auto simp: covering_reserved_end_def Let_def list_all_iff page_bounds_def split: if_splits)
      with "1.IH"(2) [OF lt Some] "1.prems" lt Some show ?thesis by (simp add: unfold)
    next
      case None
      define e where "e = unwrap_or (next_reserved_start cursor limit reserved) limit"
      have "e = fold (next_step cursor limit) reserved limit"
        by (simp add: e_def next_reserved_start_def Let_def)
      with next_fold_member [of cursor limit reserved limit] "1.prems" have al: "is_page_aligned e"
        by (auto simp: list_all_iff page_bounds_def)
      let ?r = "\<lparr>fr_start = cursor, fr_end = e\<rparr>"
      from "1.prems"(1) lt None obtain m1 where m1: "nmm_push m ?r = (Ok (), m1)"
        and rest: "push_available_loop reserved limit e m1 = (Ok (), m')"
        by (auto simp: unfold e_def [symmetric] Let_def split: prod.splits result.splits)
      with nmm_push_cases [OF "1.prems"(2), of ?r]
      have wf: "nmm_wf m1" and l1: "nmm_list m1 = nmm_list m @ [?r]" by auto
      have "page_bounds ?r" using "1.prems"(3) al by (simp add: page_bounds_def)
      with "1.prems"(6) have "list_all page_bounds (nmm_list m1)" by (simp add: l1)
      from "1.IH"(1) [OF lt None e_def m1 [symmetric] refl rest wf al "1.prems"(4,5) this]
      show ?thesis .
    qed
  qed
qed

definition usable_addrs :: "memory_region list \<Rightarrow> paddr set" where
  "usable_addrs regions = (\<Union>r \<in> {r \<in> set regions. mr_kind r = Usable}. whole_pages r)"

definition disjoint_ranges :: "frame_range list \<Rightarrow> bool" where
  "disjoint_ranges rs \<longleftrightarrow> sorted_wrt (\<lambda>r s. range_addrs r \<inter> range_addrs s = {}) rs"

definition disjoint_regions :: "memory_region list \<Rightarrow> bool" where
  "disjoint_regions regions \<longleftrightarrow>
     sorted_wrt (\<lambda>r s. whole_pages r \<inter> whole_pages s = {}) (filter (\<lambda>r. mr_kind r = Usable) regions)"

lemma usable_addrs_simps [simp]:
  "usable_addrs [] = {}"
  "usable_addrs (r # rs) = (if mr_kind r = Usable then whole_pages r else {}) \<union> usable_addrs rs"
  by (auto simp: usable_addrs_def)

lemma disjoint_ranges_append:
  "disjoint_ranges (rs @ ss) \<longleftrightarrow> disjoint_ranges rs \<and> disjoint_ranges ss \<and> addrs_of rs \<inter> addrs_of ss = {}"
  by (auto simp: disjoint_ranges_def sorted_wrt_append addrs_of_def)

lemma ascending_disjoint: "ascending rs \<Longrightarrow> disjoint_ranges rs"
proof (induction rs)
  case (Cons r rs)
  have "range_addrs r \<inter> range_addrs x = {}" if "fr_end r \<le> fr_start x" for x
    using that by (auto simp: range_addrs_def word_le_nat_alt word_less_nat_alt)
  with Cons show ?case by (simp add: ascending_def disjoint_ranges_def)
qed (simp add: disjoint_ranges_def)

lemma push_available_range_cases:
  assumes "nmm_wf m"
  obtains "fst (push_available_range m r reserved) = Err TooManyRegions"
  | m' rs where "push_available_range m r reserved = (Ok (), m')" and "nmm_wf m'"
      and "nmm_list m' = nmm_list m @ rs" and "addrs_of rs = range_addrs r - addrs_of reserved"
      and "ascending rs"
proof -
  have "{fr_start r..<fr_end r} = range_addrs r" by (auto simp: range_addrs_def)
  with push_available_loop_spec [OF assms, of reserved "fr_end r" "fr_start r"] that
  show thesis by (auto simp: push_available_range_def)
qed

lemma normalize_loop_spec:
  assumes "nmm_wf m"
  shows "normalize_loop regions reserved m = Err TooManyRegions
    \<or> (\<exists>m' rs. normalize_loop regions reserved m = Ok m' \<and> nmm_wf m' \<and> nmm_list m' = nmm_list m @ rs
          \<and> addrs_of rs = usable_addrs regions - addrs_of reserved \<and> (\<forall>r \<in> set rs. fr_start r < fr_end r)
          \<and> (disjoint_regions regions \<longrightarrow> disjoint_ranges rs)
          \<and> (list_all page_bounds (nmm_list m) \<and> list_all page_bounds reserved
               \<longrightarrow> list_all page_bounds (nmm_list m')))"
  using assms
proof (induction regions arbitrary: m)
  case Nil
  then show ?case by (simp add: disjoint_ranges_def)
next
  case (Cons region regions)
  note nur = normalize_usable_region_spec [of region]
  show ?case
  proof (cases "mr_kind region = Usable")
    case False
    with Cons.IH [OF Cons.prems] show ?thesis by (simp add: disjoint_regions_def)
  next
    case usable: True
    show ?thesis
    proof (cases "normalize_usable_region region")
      case Panic
      with nur show ?thesis by simp
    next
      case (Err u)
      with nur(3) have empty: "whole_pages region = {}" by simp
      from Cons.IH [OF Cons.prems] Err usable empty show ?thesis by (simp add: disjoint_regions_def)
    next
      case (Ok r)
      with nur(2) have r: "range_addrs r = whole_pages region" "is_page_aligned (fr_start r)" "is_page_aligned (fr_end r)"
        by auto
      from Cons.prems show ?thesis
      proof (cases rule: push_available_range_cases [of m r reserved])
        case 1
        with Ok usable show ?thesis by (cases "push_available_range m r reserved") simp
      next
        case (2 m1 rs1)
        from Cons.IH [OF 2(2)] show ?thesis
        proof (elim disjE exE conjE)
          assume "normalize_loop regions reserved m1 = Err TooManyRegions"
          with Ok usable 2(1) show ?thesis by simp
        next
          fix m' rs
          assume rest: "normalize_loop regions reserved m1 = Ok m'" "nmm_wf m'" "nmm_list m' = nmm_list m1 @ rs"
            "addrs_of rs = usable_addrs regions - addrs_of reserved" "\<forall>r \<in> set rs. fr_start r < fr_end r"
            "disjoint_regions regions \<longrightarrow> disjoint_ranges rs"
            "list_all page_bounds (nmm_list m1) \<and> list_all page_bounds reserved \<longrightarrow> list_all page_bounds (nmm_list m')"
          have "normalize_loop (region # regions) reserved m = Ok m'" using Ok usable 2(1) rest(1) by simp
          moreover have "nmm_list m' = nmm_list m @ (rs1 @ rs)" using 2(3) rest(3) by simp
          moreover have "addrs_of (rs1 @ rs) = usable_addrs (region # regions) - addrs_of reserved"
            using 2(4) rest(4) r(1) usable by auto
          moreover have "\<forall>r \<in> set (rs1 @ rs). fr_start r < fr_end r"
            using 2(5) rest(5) by (auto simp: ascending_def)
          moreover have "disjoint_regions (region # regions) \<longrightarrow> disjoint_ranges (rs1 @ rs)"
          proof
            assume dis: "disjoint_regions (region # regions)"
            then have "whole_pages region \<inter> usable_addrs regions = {}"
              using usable by (auto simp: disjoint_regions_def usable_addrs_def)
            moreover have "disjoint_ranges rs" using rest(6) dis usable by (simp add: disjoint_regions_def)
            ultimately show "disjoint_ranges (rs1 @ rs)"
              using ascending_disjoint [OF 2(5)] 2(4) rest(4) r(1) by (auto simp: disjoint_ranges_append)
          qed
          moreover have "list_all page_bounds (nmm_list m) \<and> list_all page_bounds reserved \<longrightarrow> list_all page_bounds (nmm_list m')"
            using rest(7) push_available_loop_aligned [OF 2(1) [unfolded push_available_range_def] Cons.prems r(2,3)]
            by blast
          ultimately show ?thesis using rest(2) by metis
        qed
      qed
    qed
  qed
qed

section \<open>What the allocators hand out\<close>

lemma layout_from_size_align_Ok:
  "layout_from_size_align s a = Ok l \<longleftrightarrow>
     is_power_of_two a \<and> unat s + unat a \<le> 2 ^ 63 \<and> l = \<lparr>ly_size = s, ly_align = a\<rparr>"
  "layout_from_size_align s a \<noteq> Panic"
  by (auto simp: layout_from_size_align_def)

lemma normalize_layout_spec:
  assumes "layout_ok l"
  shows "normalize_layout l \<noteq> Panic"
    and "normalize_layout l = Ok q \<Longrightarrow>
      is_power_of_two (ly_align q) \<and> unat (ly_size l) \<le> unat (ly_size q) \<and> unat (ly_size q) mod 4096 = 0
      \<and> 0 < unat (ly_size q) \<and> 4096 dvd unat (ly_align q) \<and> unat (ly_align l) dvd unat (ly_align q)"
proof -
  from assms have al: "is_power_of_two (ly_align l)"
    by (simp add: layout_ok_def layout_from_size_align_Ok)
  show "normalize_layout l \<noteq> Panic"
    using align_up_not_Panic [OF page_size_power]
    by (auto simp: normalize_layout_def result_simps layout_from_size_align_Ok)
  assume q: "normalize_layout l = Ok q"
  then obtain sz where nz: "ly_size l \<noteq> 0" and sz: "align_up (ly_size l) PAGE_SIZE = Ok sz"
    and q2: "is_power_of_two (max (ly_align l) PAGE_SIZE)" "q = \<lparr>ly_size = sz, ly_align = max (ly_align l) PAGE_SIZE\<rparr>"
    by (auto simp: normalize_layout_def result_simps layout_from_size_align_Ok split: if_splits)
  from sz have usz: "unat sz = (unat (ly_size l) + 4095) div 4096 * 4096" by (simp add: align_up_Ok)
  have "unat (ly_size l) \<le> unat sz" unfolding usz using ceil_le_iff [of "unat (ly_size l)"] by simp
  moreover have "0 < unat (ly_size l)" using nz by (simp add: unat_gt_0)
  moreover obtain k where k: "k < 64" "unat (ly_align l) = 2 ^ k" using al by (rule power_of_twoE)
  have "4096 dvd unat (max (ly_align l) PAGE_SIZE) \<and> unat (ly_align l) dvd unat (max (ly_align l) PAGE_SIZE)"
  proof (cases "PAGE_SIZE \<le> ly_align l")
    case True
    then have "(2::nat) ^ 12 \<le> 2 ^ k" using k by (simp add: word_le_nat_alt)
    then have "(12::nat) \<le> k" by (simp only: power_increasing_iff)
    then have "(2::nat) ^ 12 dvd 2 ^ k" by (rule le_imp_power_dvd)
    with True k show ?thesis by (simp add: max_absorb1)
  next
    case False
    then have "(2::nat) ^ k < 2 ^ 12" using k by (simp add: word_le_nat_alt)
    then have "k < 12" by (rule power_less_imp_less_exp [rotated]) simp
    then have "k \<le> 12" by simp
    then have "(2::nat) ^ k dvd 2 ^ 12" by (rule le_imp_power_dvd)
    moreover have "ly_align l \<le> PAGE_SIZE" using False by (simp add: not_le less_imp_le)
    ultimately show ?thesis using k by (simp add: max_absorb2)
  qed
  ultimately show "is_power_of_two (ly_align q) \<and> unat (ly_size l) \<le> unat (ly_size q) \<and> unat (ly_size q) mod 4096 = 0
      \<and> 0 < unat (ly_size q) \<and> 4096 dvd unat (ly_align q) \<and> unat (ly_align l) dvd unat (ly_align q)"
    using q2 usz by simp
qed

lemma allocate_from_range_spec:
  assumes "is_power_of_two align"
  shows "allocate_from_range nxt limit sz align \<noteq> Panic"
    and "allocate_from_range nxt limit sz align = Ok r \<Longrightarrow>
      nxt \<le> fr_start r \<and> fr_start r < fr_end r \<and> fr_end r \<le> limit
      \<and> unat (fr_end r) = unat (fr_start r) + unat sz \<and> unat (fr_start r) mod unat align = 0 \<and> page_bounds r"
proof -
  show "allocate_from_range nxt limit sz align \<noteq> Panic"
    using align_up_not_Panic [OF assms] by (auto simp: allocate_from_range_def result_simps)
  assume "allocate_from_range nxt limit sz align = Ok r"
  then obtain s where s: "align_up nxt align = Ok s" and ov: "unat s + unat sz < 2 ^ 64"
    and lim: "\<not> limit < s + sz" and new: "frame_range_new s (s + sz) = Ok r"
    by (auto simp: allocate_from_range_def result_simps split: if_splits)
  obtain k where k: "k < 64" "unat align = 2 ^ k" using assms by (rule power_of_twoE)
  from s assms have us: "unat s = (unat nxt + (unat align - 1)) div unat align * unat align"
    by (simp add: align_up_Ok)
  have "unat nxt \<le> unat s"
  proof -
    have "unat nxt + (unat align - 1) = unat s + (unat nxt + (unat align - 1)) mod unat align"
      unfolding us by simp
    moreover have "(unat nxt + (unat align - 1)) mod unat align \<le> unat align - 1"
      using k by (simp add: less_Suc_eq_le [symmetric])
    ultimately show ?thesis by linarith
  qed
  then show "nxt \<le> fr_start r \<and> fr_start r < fr_end r \<and> fr_end r \<le> limit
      \<and> unat (fr_end r) = unat (fr_start r) + unat sz \<and> unat (fr_start r) mod unat align = 0 \<and> page_bounds r"
    using new lim us ov by (auto simp: result_simps page_bounds_def word_le_nat_alt unat_add_no_overflow not_less)
qed

definition ema_inv :: "early_memory_map_allocator \<Rightarrow> bool" where
  "ema_inv a \<longleftrightarrow> ema_active a \<le> length (ema_ranges a) \<and> length (ema_next a) = length (ema_ranges a)
     \<and> (\<forall>i < ema_active a. fr_start (ema_ranges a ! i) \<le> ema_next a ! i)"

definition ema_disjoint :: "early_memory_map_allocator \<Rightarrow> bool" where
  "ema_disjoint a \<longleftrightarrow> disjoint_ranges (take (ema_active a) (ema_ranges a))"

definition ema_free :: "early_memory_map_allocator \<Rightarrow> paddr set" where
  "ema_free a = (\<Union>i < ema_active a. {ema_next a ! i..<fr_end (ema_ranges a ! i)})"

lemma disjoint_nth:
  assumes "disjoint_ranges rs" and "i < length rs" and "j < length rs" and "i \<noteq> j"
  shows "range_addrs (rs ! i) \<inter> range_addrs (rs ! j) = {}"
  using assms by (auto simp: disjoint_ranges_def sorted_wrt_iff_nth_less linorder_neq_iff)

lemma ema_allocate_step:
  assumes "ema_inv a" and "i < ema_active a" and "layout_ok l" and "normalize_layout l = Ok q"
    and "allocate_from_range (ema_next a ! i) (fr_end (ema_ranges a ! i)) (ly_size q) (ly_align q) = Ok r"
  defines "a' \<equiv> a\<lparr>ema_next := (ema_next a)[i := fr_end r]\<rparr>"
  shows "ema_inv a'" and "range_addrs r \<subseteq> ema_free a" and "ema_free a' \<subseteq> ema_free a"
    and "ema_disjoint a \<Longrightarrow> range_addrs r \<inter> ema_free a' = {}"
proof -
  have q: "is_power_of_two (ly_align q)" using normalize_layout_spec(2) [OF assms(3,4)] by blast
  note r = allocate_from_range_spec(2) [OF q assms(5)]
  have len: "i < length (ema_next a)" "i < length (ema_ranges a)" using assms(1,2) by (auto simp: ema_inv_def)
  have up: "fr_start (ema_ranges a ! i) \<le> fr_end r" using assms(1,2) r by (fastforce simp: ema_inv_def)
  show "ema_inv a'" using assms(1) up len by (auto simp: ema_inv_def a'_def nth_list_update)
  have "range_addrs r \<subseteq> {ema_next a ! i..<fr_end (ema_ranges a ! i)}"
    using r by (auto simp: range_addrs_def word_le_nat_alt word_less_nat_alt)
  then show "range_addrs r \<subseteq> ema_free a" using assms(2) by (auto simp: ema_free_def)
  have later: "{fr_end r..<fr_end (ema_ranges a ! i)} \<subseteq> {ema_next a ! i..<fr_end (ema_ranges a ! i)}"
    using r by (auto simp: word_le_nat_alt word_less_nat_alt)
  show "ema_free a' \<subseteq> ema_free a"
    using later len by (fastforce simp: ema_free_def a'_def nth_list_update split: if_splits)
  assume dis: "ema_disjoint a"
  {
    fix j x
    assume j: "j < ema_active a" and x: "x \<in> range_addrs r"
      and fx: "ema_next a' ! j \<le> x" "x < fr_end (ema_ranges a ! j)"
    have "i \<noteq> j" using x fx(1) len by (auto simp: a'_def range_addrs_def)
    then have "x \<in> range_addrs (ema_ranges a ! j)"
      using fx assms(1) j len by (fastforce simp: a'_def range_addrs_def ema_inv_def)
    moreover have "x \<in> range_addrs (ema_ranges a ! i)"
      using x r assms(1,2) by (fastforce simp: range_addrs_def ema_inv_def)
    moreover have "range_addrs (ema_ranges a ! i) \<inter> range_addrs (ema_ranges a ! j) = {}"
      using disjoint_nth [OF dis [unfolded ema_disjoint_def], of i j] assms(1,2) j \<open>i \<noteq> j\<close>
      by (simp add: ema_inv_def)
    ultimately have False by blast
  }
  then show "range_addrs r \<inter> ema_free a' = {}" by (auto simp: ema_free_def a'_def)
qed

definition fits_layout :: "layout \<Rightarrow> frame_range \<Rightarrow> bool" where
  "fits_layout l r \<longleftrightarrow> page_bounds r \<and> unat (fr_start r) mod unat (ly_align l) = 0
     \<and> unat (fr_start r) + unat (ly_size l) \<le> unat (fr_end r)"

lemma allocate_from_range_fits:
  assumes "layout_ok l" and "normalize_layout l = Ok q"
    and "allocate_from_range nxt limit (ly_size q) (ly_align q) = Ok r"
  shows "fits_layout l r"
proof -
  note q = normalize_layout_spec(2) [OF assms(1,2)]
  then have "is_power_of_two (ly_align q)" by blast
  note r = allocate_from_range_spec(2) [OF this assms(3)]
  from q have "unat (ly_align l) dvd unat (ly_align q)" by blast
  moreover from r have "unat (ly_align q) dvd unat (fr_start r)" by auto
  ultimately have "unat (ly_align l) dvd unat (fr_start r)" by (rule dvd_trans)
  with q r show ?thesis by (simp add: fits_layout_def)
qed

lemma ema_allocate_loop_spec:
  assumes "ema_inv a" and "layout_ok l" and "normalize_layout l = Ok q" and "\<forall>i \<in> set is. i < ema_active a"
  shows "ema_allocate_loop a q is = (Err Exhausted, a)
    \<or> (\<exists>r a'. ema_allocate_loop a q is = (Ok r, a') \<and> ema_inv a' \<and> range_addrs r \<subseteq> ema_free a
          \<and> ema_free a' \<subseteq> ema_free a \<and> fits_layout l r \<and> ema_ranges a' = ema_ranges a
          \<and> ema_active a' = ema_active a \<and> (ema_disjoint a \<longrightarrow> range_addrs r \<inter> ema_free a' = {}))"
  using assms(4)
proof (induction "is")
  case Nil
  then show ?case by simp
next
  case (Cons i rest)
  from Cons.prems have i: "i < ema_active a" by simp
  with assms(1) have gets: "i < length (ema_next a)" "i < length (ema_ranges a)"
    by (auto simp: ema_inv_def)
  have q: "is_power_of_two (ly_align q)" using normalize_layout_spec(2) [OF assms(2,3)] by blast
  show ?case
  proof (cases "allocate_from_range (ema_next a ! i) (fr_end (ema_ranges a ! i)) (ly_size q) (ly_align q)")
    case (Ok r)
    note step = ema_allocate_step [OF assms(1) i assms(2,3) Ok]
    show ?thesis
      using step allocate_from_range_fits [OF assms(2,3) Ok] Ok gets by (simp add: vec_get_def)
  next
    case (Err u)
    with Cons gets show ?thesis by (simp add: vec_get_def)
  next
    case Panic
    with allocate_from_range_spec(1) [OF q] show ?thesis by blast
  qed
qed

lemma ema_allocate_spec:
  assumes "ema_inv a" and "layout_ok l"
  shows "(\<exists>e. ema_allocate a l = (Err e, a) \<and> e \<in> {InvalidLayout, Exhausted})
    \<or> (\<exists>r a'. ema_allocate a l = (Ok r, a') \<and> ema_inv a' \<and> range_addrs r \<subseteq> ema_free a
          \<and> ema_free a' \<subseteq> ema_free a \<and> fits_layout l r \<and> ema_ranges a' = ema_ranges a
          \<and> ema_active a' = ema_active a \<and> (ema_disjoint a \<longrightarrow> range_addrs r \<inter> ema_free a' = {}))"
proof (cases "normalize_layout l")
  case (Ok q)
  then have "ema_allocate a l = ema_allocate_loop a q [0..<ema_active a]"
    by (simp add: ema_allocate_def)
  moreover have "\<forall>i \<in> set [0..<ema_active a]. i < ema_active a" by simp
  note ema_allocate_loop_spec [OF assms Ok this]
  ultimately show ?thesis by (elim disjE) auto
next
  case (Err e)
  then have "e = InvalidLayout"
    by (auto simp: normalize_layout_def result_simps split: if_splits)
  with Err show ?thesis by (simp add: ema_allocate_def)
next
  case Panic
  with normalize_layout_spec(1) [OF assms(2)] show ?thesis by blast
qed

text \<open>A boot sequence: requests in order, the granted ranges in order.\<close>

fun run_allocations ::
  "early_frame_allocator_state \<Rightarrow> layout list \<Rightarrow> frame_range list \<times> early_frame_allocator_state" where
  "run_allocations s [] = ([], s)"
| "run_allocations s (l # ls) =
     (case efs_allocate s l of
        (Ok r, s') \<Rightarrow> (let (rs, s'') = run_allocations s' ls in (r # rs, s''))
      | (_, s') \<Rightarrow> run_allocations s' ls)"

lemma run_allocations_spec:
  assumes "efs_allocator s = Some a" and "ema_inv a" and "list_all layout_ok ls" and "run_allocations s ls = (rs, s')"
  shows "addrs_of rs \<subseteq> ema_free a \<and> (ema_disjoint a \<longrightarrow> disjoint_ranges rs)"
  using assms
proof (induction ls arbitrary: s a rs)
  case Nil
  then show ?case by (simp add: disjoint_ranges_def)
next
  case (Cons l ls)
  then have l: "layout_ok l" by simp
  from ema_allocate_spec [OF Cons.prems(2) l] show ?case
  proof (elim disjE exE conjE)
    fix e assume "ema_allocate a l = (Err e, a)"
    with Cons.prems(1,4) have "run_allocations (s\<lparr>efs_allocator := Some a\<rparr>) ls = (rs, s')"
      by (simp add: efs_allocate_def)
    from Cons.IH [OF _ Cons.prems(2) _ this] Cons.prems(3) show ?thesis by simp
  next
    fix r a'
    assume a': "ema_allocate a l = (Ok r, a')" "ema_inv a'" "range_addrs r \<subseteq> ema_free a"
      "ema_free a' \<subseteq> ema_free a" "ema_ranges a' = ema_ranges a" "ema_active a' = ema_active a"
      "ema_disjoint a \<longrightarrow> range_addrs r \<inter> ema_free a' = {}"
    from Cons.prems(1,4) a'(1) obtain rest where rs: "rs = r # rest"
      and run: "run_allocations (s\<lparr>efs_allocator := Some a'\<rparr>) ls = (rest, s')"
      by (auto simp: efs_allocate_def split: prod.splits)
    have dis: "ema_disjoint a' = ema_disjoint a" using a'(5,6) by (simp add: ema_disjoint_def)
    from Cons.IH [OF _ a'(2) _ run] Cons.prems(3) dis
    have "ema_disjoint a \<longrightarrow> disjoint_ranges rest" "addrs_of rest \<subseteq> ema_free a'" by simp_all
    then show ?thesis
      using a' disjoint_ranges_append [of "[r]" rest] by (auto simp: rs disjoint_ranges_def)
  qed
qed

lemma copy_active_ranges_Ok:
  assumes "copy_active_ranges src len i ranges = Ok rs" and "length ranges = length src"
  shows "length rs = length src \<and> (\<forall>j. i \<le> j \<and> j < len \<longrightarrow> j < length src \<and> src ! j = Some (rs ! j))
     \<and> (\<forall>j < i. rs ! j = ranges ! j)"
  using assms
proof (induction src len i ranges rule: copy_active_ranges.induct)
  case (1 src len i ranges)
  note unfold = copy_active_ranges.simps [of src len i ranges]
  show ?case
  proof (cases "i < len")
    case False
    with "1.prems" show ?thesis by (auto simp: unfold)
  next
    case True
    with "1.prems"(1) obtain r where i: "i < length src" and r: "src ! i = Some r"
      and rest: "copy_active_ranges src len (Suc i) (ranges[i := r]) = Ok rs"
      by (auto simp: unfold result_simps split: option.splits)
    have "length (ranges[i := r]) = length src" using "1.prems"(2) by simp
    from "1.IH" [OF True rest this] "1.prems"(2)
    have IH: "length rs = length src"
      "\<forall>j. Suc i \<le> j \<and> j < len \<longrightarrow> j < length src \<and> src ! j = Some (rs ! j)"
      "\<forall>j < Suc i. rs ! j = ranges[i := r] ! j" by auto
    have "rs ! i = r" using IH(3) i "1.prems"(2) by simp
    moreover have "\<forall>j < i. rs ! j = ranges ! j" using IH(3) by simp
    ultimately show ?thesis using IH(1,2) i r by (metis Suc_leI le_neq_implies_less)
  qed
qed

lemma copy_active_ranges_not_Panic:
  assumes "len \<le> length src"
  shows "copy_active_ranges src len i ranges \<noteq> Panic"
  using assms
proof (induction src len i ranges rule: copy_active_ranges.induct)
  case (1 src len i ranges)
  then show ?case
    by (subst copy_active_ranges.simps) (auto simp: result_simps split: option.splits)
qed

lemma try_into_allocator_Ok:
  assumes "try_into_allocator m = Ok a" and "nmm_wf m"
  shows "ema_inv a" and "take (ema_active a) (ema_ranges a) = nmm_list m" and "ema_free a = addrs_of (nmm_list m)"
proof -
  from assms(1) obtain rs where rs: "a = ema_new_active rs (nmm_len m)"
    and copy: "copy_active_ranges (nmm_ranges m) (nmm_len m) 0
       (replicate (length (nmm_ranges m)) \<lparr>fr_start = 0, fr_end = PAGE_SIZE\<rparr>) = Ok rs"
    by (auto simp: try_into_allocator_def result_simps split: if_splits)
  from copy_active_ranges_Ok [OF copy] have spec: "length rs = length (nmm_ranges m)"
    "\<forall>j < nmm_len m. nmm_ranges m ! j = Some (rs ! j)" by auto
  then show "ema_inv a" using assms(2) by (auto simp: ema_inv_def rs ema_new_active_def nmm_wf_def)
  show "take (ema_active a) (ema_ranges a) = nmm_list m"
    using spec assms(2) by (auto simp: nmm_list_def rs ema_new_active_def nmm_wf_def intro!: nth_equalityI)
  have "ema_free a = (\<Union>i < nmm_len m. range_addrs (rs ! i))"
    using spec assms(2) by (auto simp: ema_free_def rs ema_new_active_def nmm_wf_def range_addrs_def)
  also have "\<dots> = addrs_of (nmm_list m)"
    using spec assms(2) by (auto simp: addrs_of_def nmm_list_def nmm_wf_def set_conv_nth)
  finally show "ema_free a = addrs_of (nmm_list m)" .
qed

section \<open>Properties\<close>

text \<open>C38 (functional).  Normalising a firmware memory map, with page-aligned reserved ranges, never
  panics; its only error is a full map; and on success the map covers exactly the addresses whose
  whole page lies in a usable region and that no reserved range contains, in non-empty, page-aligned
  segments.\<close>

theorem normalize_covers_usable_minus_reserved:
  assumes "list_all page_bounds reserved"
  shows "case normalize_memory_regions_with_reserved n regions reserved of
     Ok m \<Rightarrow> addrs_of (nmm_list m) = usable_addrs regions - addrs_of reserved
             \<and> list_all (\<lambda>r. fr_start r < fr_end r \<and> page_bounds r) (nmm_list m)
   | Err e \<Rightarrow> e = TooManyRegions
   | Panic \<Rightarrow> False"
  using normalize_loop_spec [of "nmm_empty n" regions reserved] assms
  by (auto simp: normalize_memory_regions_with_reserved_def list_all_iff)

theorem normalize_covers_usable_minus_reserved_witness:
  "addrs_of [\<lparr>fr_start = 0x2000, fr_end = 0x3000\<rparr>, \<lparr>fr_start = 0x6000, fr_end = 0x9000\<rparr>]
   = usable_addrs [\<lparr>mr_start = 0x1003, mr_end = 0x9fff, mr_kind = Usable\<rparr>]
     - addrs_of [\<lparr>fr_start = 0x3000, fr_end = 0x6000\<rparr>]"
proof -
  let ?regions = "[\<lparr>mr_start = 0x1003, mr_end = 0x9fff, mr_kind = Usable\<rparr>]"
  let ?reserved = "[\<lparr>fr_start = 0x3000, fr_end = 0x6000\<rparr>] :: frame_range list"
  have run: "normalize_memory_regions_with_reserved (Suc (Suc 0)) ?regions ?reserved =
      Ok \<lparr>nmm_ranges = [Some \<lparr>fr_start = 0x2000, fr_end = 0x3000\<rparr>, Some \<lparr>fr_start = 0x6000, fr_end = 0x9000\<rparr>],
          nmm_len = Suc (Suc 0)\<rparr>"
    by (simp add: early_frame_defs)
  have "list_all page_bounds ?reserved" by (simp add: page_bounds_def page_aligned_iff)
  from normalize_covers_usable_minus_reserved [OF this, where n = "Suc (Suc 0)" and regions = ?regions]
  show ?thesis by (simp add: run nmm_list_def)
qed

text \<open>C37 (safety).  After a successful initialisation, whatever early allocation requests follow, every range
  granted lies inside usable pages and touches no reserved range; and the ranges are pairwise disjoint if the usable
  regions of the firmware map are.  The code does not check that they are: from overlapping ones it grants a page twice.\<close>

theorem early_frames_never_shared:
  assumes "init_from_regions n efs_uninitialized regions reserved = (Ok (), s)"
    and "list_all layout_ok requests" and "run_allocations s requests = (granted, s')"
  shows "addrs_of granted \<subseteq> usable_addrs regions - addrs_of reserved
    \<and> (disjoint_regions regions \<longrightarrow> disjoint_ranges granted)"
proof -
  from assms(1) obtain m a where m: "normalize_memory_regions_with_reserved n regions reserved = Ok m"
    and a: "try_into_allocator m = Ok a" and s: "efs_allocator s = Some a"
    by (auto simp: init_from_regions_def efs_uninitialized_def result_simps)
  from m normalize_loop_spec [of "nmm_empty n" regions reserved]
  have wf: "nmm_wf m" and cover: "addrs_of (nmm_list m) = usable_addrs regions - addrs_of reserved"
    and dis: "disjoint_regions regions \<longrightarrow> disjoint_ranges (nmm_list m)"
    by (auto simp: normalize_memory_regions_with_reserved_def)
  note a' = try_into_allocator_Ok [OF a wf]
  from dis have "disjoint_regions regions \<longrightarrow> ema_disjoint a" by (simp add: ema_disjoint_def a'(2))
  with run_allocations_spec [OF s a'(1) assms(2,3)] cover show ?thesis by (simp add: a'(3))
qed

text \<open>A firmware map with two overlapping usable regions, and the page granted twice.\<close>

lemma overlapping_regions_share_a_page:
  assumes "regions = [\<lparr>mr_start = 0x1000, mr_end = 0x2000, mr_kind = Usable\<rparr>, \<lparr>mr_start = 0x1000, mr_end = 0x2000, mr_kind = Usable\<rparr>]"
    and "init_from_regions (Suc (Suc 0)) efs_uninitialized regions [] = (r, s)"
  shows "r = Ok () \<and> fst (run_allocations s [\<lparr>ly_size = 4096, ly_align = 4096\<rparr>, \<lparr>ly_size = 4096, ly_align = 4096\<rparr>])
    = [\<lparr>fr_start = 0x1000, fr_end = 0x2000\<rparr>, \<lparr>fr_start = 0x1000, fr_end = 0x2000\<rparr>]"
proof -
  let ?s = "\<lparr>efs_allocator = Some \<lparr>ema_ranges = [\<lparr>fr_start = 0x1000, fr_end = 0x2000\<rparr>, \<lparr>fr_start = 0x1000, fr_end = 0x2000\<rparr>],
    ema_next = [0x1000, 0x1000], ema_active = Suc (Suc 0)\<rparr>\<rparr>"
  have "init_from_regions (Suc (Suc 0)) efs_uninitialized regions [] = (Ok (), ?s)"
    by (simp add: assms(1) early_frame_defs)
  moreover have "fst (run_allocations ?s [\<lparr>ly_size = 4096, ly_align = 4096\<rparr>, \<lparr>ly_size = 4096, ly_align = 4096\<rparr>])
    = [\<lparr>fr_start = 0x1000, fr_end = 0x2000\<rparr>, \<lparr>fr_start = 0x1000, fr_end = 0x2000\<rparr>]"
    by (simp add: early_frame_defs)
  ultimately show ?thesis using assms(2) by simp
qed

theorem early_frames_never_shared_witness:
  "disjoint_ranges [\<lparr>fr_start = 0x2000, fr_end = 0x3000\<rparr>, \<lparr>fr_start = 0x6000, fr_end = 0x8000\<rparr>]"
proof -
  let ?regions = "[\<lparr>mr_start = 0x1003, mr_end = 0x9fff, mr_kind = Usable\<rparr>]"
  let ?reserved = "[\<lparr>fr_start = 0x3000, fr_end = 0x6000\<rparr>] :: frame_range list"
  let ?requests = "[\<lparr>ly_size = 1, ly_align = 1\<rparr>, \<lparr>ly_size = 0x1800, ly_align = 4096\<rparr>] :: layout list"
  let ?s = "\<lparr>efs_allocator = Some \<lparr>ema_ranges = [\<lparr>fr_start = 0x2000, fr_end = 0x3000\<rparr>,
     \<lparr>fr_start = 0x6000, fr_end = 0x9000\<rparr>], ema_next = [0x2000, 0x6000], ema_active = Suc (Suc 0)\<rparr>\<rparr>"
  have i: "init_from_regions (Suc (Suc 0)) efs_uninitialized ?regions ?reserved = (Ok (), ?s)"
    by (simp add: early_frame_defs)
  have d: "disjoint_regions ?regions" by (simp add: disjoint_regions_def)
  have l: "list_all layout_ok ?requests" by (simp add: early_frame_defs)
  have r: "fst (run_allocations ?s ?requests) =
      [\<lparr>fr_start = 0x2000, fr_end = 0x3000\<rparr>, \<lparr>fr_start = 0x6000, fr_end = 0x8000\<rparr>]"
    by (simp add: early_frame_defs)
  then obtain s' where "run_allocations ?s ?requests =
      ([\<lparr>fr_start = 0x2000, fr_end = 0x3000\<rparr>, \<lparr>fr_start = 0x6000, fr_end = 0x8000\<rparr>], s')"
    by (cases "run_allocations ?s ?requests") simp
  from early_frames_never_shared [OF i l this] d show ?thesis by blast
qed

end
