(* ===== verification/Slot_Arena.thy ===== *)
theory Slot_Arena
  imports Prelude
begin

text \<open>
  The naming discipline that the handle table, the object manager and the frame allocator share:
  a fixed array of slots, each with a generation; a name is an index and a generation, and it
  resolves while the slot is occupied and carries that generation.  Releasing a slot advances its
  generation, so a name that was released never resolves again, however often the slot is reused.
\<close>

locale slot_arena =
  fixes occupied :: "'s \<Rightarrow> nat \<Rightarrow> bool"
    and slot_generation :: "'s \<Rightarrow> nat \<Rightarrow> u64"
    and step :: "'s \<Rightarrow> 's \<Rightarrow> bool"
  assumes generation_mono: "step s s' \<Longrightarrow> slot_generation s i \<le> slot_generation s' i"
    and release_advances:
      "step s s' \<Longrightarrow> occupied s i \<Longrightarrow> \<not> occupied s' i \<Longrightarrow> slot_generation s i < slot_generation s' i"
    and held_keeps:
      "step s s' \<Longrightarrow> occupied s i \<Longrightarrow> occupied s' i \<Longrightarrow> slot_generation s' i = slot_generation s i"
begin

definition resolves :: "'s \<Rightarrow> nat \<Rightarrow> u64 \<Rightarrow> bool" where
  "resolves s i g \<longleftrightarrow> occupied s i \<and> slot_generation s i = g"

lemma generation_mono_run: "step\<^sup>*\<^sup>* s s' \<Longrightarrow> slot_generation s i \<le> slot_generation s' i"
proof (induction rule: rtranclp_induct)
  case base
  show ?case by simp
next
  case (step y z)
  have "slot_generation s i \<le> slot_generation y i" by (rule step.IH)
  also have "\<dots> \<le> slot_generation z i" using step.hyps(2) by (rule generation_mono)
  finally show ?case .
qed

lemma resolves_or_passed:
  assumes "step\<^sup>*\<^sup>* s s'" and "resolves s i g"
  shows "resolves s' i g \<or> g < slot_generation s' i"
  using assms
proof (induction rule: rtranclp_induct)
  case base
  then show ?case by simp
next
  case (step y z)
  then show ?case
    using generation_mono [of y z i] release_advances [of y z i] held_keeps [of y z i]
    unfolding resolves_def by (metis order.strict_trans2)
qed

lemma released_name_never_resolves:
  assumes "step\<^sup>*\<^sup>* s s'" and "resolves s i g" and "\<not> resolves s' i g" and "step\<^sup>*\<^sup>* s' s''"
  shows "\<not> resolves s'' i g"
proof -
  have "g < slot_generation s' i" using resolves_or_passed [OF assms(1,2)] assms(3) by simp
  also have "slot_generation s' i \<le> slot_generation s'' i" using assms(4) by (rule generation_mono_run)
  finally have "g < slot_generation s'' i" .
  then show ?thesis by (auto simp: resolves_def)
qed

end

end
