(* ===== verification/Memory_Frame.thy ===== *)
theory Memory_Frame
  imports KTypes Ostd_Frame Slot_Arena
begin

text \<open>
  The kernel's physical frame allocator, \<^verbatim>\<open>kernel/src/memory/frame.rs\<close>: one entry per page of the
  available ranges, sorted by address, each with its state and its generation.  The abstract
  view of an allocator is the partial map from page numbers to frame states.
\<close>

section \<open>Data\<close>

definition MEM_PAGE_SIZE :: u64 where
  "MEM_PAGE_SIZE = 4096"

type_synonym frame_id = u64
type_synonym frame_generation = u64

datatype frame_owner =
    OwnerKernel | OwnerProcess u64 | OwnerMemoryObject u64 u64 | OwnerPageTable u64 | OwnerDevice u64

datatype frame_state = Free | Reserved | Allocated frame_owner

record frame_ref =
  fref_id :: frame_id
  fref_generation :: frame_generation
  fref_paddr :: u64
  fref_owner :: frame_owner

record memory_frame_range =
  mfr_start :: u64
  mfr_end :: u64

record frame_entry =
  fe_paddr :: u64
  fe_generation :: frame_generation
  fe_state :: frame_state

record frame_allocator =
  fa_frames :: "frame_entry list"

section \<open>Operations\<close>

definition mem_is_page_aligned :: "u64 \<Rightarrow> bool" where
  "mem_is_page_aligned v \<longleftrightarrow> v mod MEM_PAGE_SIZE = 0"

definition mfr_new :: "u64 \<Rightarrow> u64 \<Rightarrow> memory_frame_range kernel_result" where
  "mfr_new s e =
     (if e \<le> s \<or> \<not> mem_is_page_aligned s \<or> \<not> mem_is_page_aligned e then Err InvalidArgument
      else Ok \<lparr>mfr_start = s, mfr_end = e\<rparr>)"

definition mfr_len :: "memory_frame_range \<Rightarrow> ('e, u64) result" where
  "mfr_len r = u64_sub (mfr_end r) (mfr_start r)"

definition mfr_frame_count :: "memory_frame_range \<Rightarrow> ('e, u64) result" where
  "mfr_frame_count r = map_ok (\<lambda>n. n div MEM_PAGE_SIZE) (mfr_len r)"

definition frame_count_for_size :: "u64 \<Rightarrow> usize kernel_result" where
  "frame_count_for_size size_bytes =
     (if size_bytes = 0 \<or> \<not> mem_is_page_aligned size_bytes then Err InvalidArgument
      else ok_or NoCapacity (usize_try_from (size_bytes div MEM_PAGE_SIZE)))"

fun total_frame_count_from :: "usize \<Rightarrow> memory_frame_range list \<Rightarrow> usize kernel_result" where
  "total_frame_count_from acc [] = Ok acc"
| "total_frame_count_from acc (r # rs) =
     rbind (mfr_frame_count r) (\<lambda>c.
     rbind (ok_or NoCapacity (usize_try_from c)) (\<lambda>n.
     rbind (ok_or NoCapacity (usize_checked_add acc n)) (\<lambda>acc'.
     total_frame_count_from acc' rs)))"

definition total_frame_count :: "memory_frame_range list \<Rightarrow> usize kernel_result" where
  "total_frame_count ranges = total_frame_count_from 0 ranges"

fun ensure_non_overlapping :: "memory_frame_range list \<Rightarrow> unit kernel_result" where
  "ensure_non_overlapping [] = Ok ()"
| "ensure_non_overlapping (r # rs) =
     (if list_ex (\<lambda>other. mfr_start r < mfr_end other \<and> mfr_start other < mfr_end r) rs
      then Err InvalidArgument else ensure_non_overlapping rs)"

text \<open>The two nested loops of \<open>from_available_ranges\<close>.\<close>

function push_frames :: "u64 \<Rightarrow> u64 \<Rightarrow> frame_entry list \<Rightarrow> ('e, frame_entry list) result" where
  "push_frames paddr e frames =
     (if paddr < e then
        (let frames' = frames @ [\<lparr>fe_paddr = paddr, fe_generation = INITIAL, fe_state = Free\<rparr>] in
         (case checked_add paddr MEM_PAGE_SIZE of
            None \<Rightarrow> Panic
          | Some paddr' \<Rightarrow> push_frames paddr' e frames'))
      else Ok frames)"
  by pat_completeness auto
termination
proof (relation "measure (\<lambda>(paddr, e, frames). 2 ^ 64 - unat paddr)", goal_cases)
  case 1
  then show ?case by simp
next
  case (2 paddr e frames frames' paddr')
  then have "unat paddr' = unat paddr + 4096"
    by (auto simp: result_simps MEM_PAGE_SIZE_def unat_add_no_overflow)
  then show ?case using unat_u64_less [of paddr'] by simp
qed

declare push_frames.simps [simp del]

fun push_ranges :: "memory_frame_range list \<Rightarrow> frame_entry list \<Rightarrow> ('e, frame_entry list) result" where
  "push_ranges [] frames = Ok frames"
| "push_ranges (r # rs) frames =
     rbind (push_frames (mfr_start r) (mfr_end r) frames) (\<lambda>frames'. push_ranges rs frames')"

definition fa_from_available_ranges :: "heap \<Rightarrow> memory_frame_range list \<Rightarrow> frame_allocator kernel_result" where
  "fa_from_available_ranges heap ranges =
     rbind (ensure_non_overlapping ranges) (\<lambda>_.
     rbind (total_frame_count ranges) (\<lambda>frame_count.
     rbind (try_reserve_exact heap SiteFrames frame_count) (\<lambda>_.
     rbind (push_ranges ranges []) (\<lambda>frames.
     if frames = [] then Err NoMemory
     else Ok \<lparr>fa_frames = sort_key fe_paddr frames\<rparr>))))"

definition fa_capacity :: "frame_allocator \<Rightarrow> usize" where
  "fa_capacity fa = length (fa_frames fa)"

definition fa_free_count :: "frame_allocator \<Rightarrow> usize" where
  "fa_free_count fa = count_where (\<lambda>e. fe_state e = Free) (fa_frames fa)"

definition fa_reserve_one :: "frame_owner \<Rightarrow> frame_allocator \<Rightarrow> frame_ref kernel_result \<times> frame_allocator" where
  "fa_reserve_one owner fa =
     (case position (\<lambda>e. fe_state e = Free) (fa_frames fa) of
        None \<Rightarrow> (Err NoMemory, fa)
      | Some i \<Rightarrow>
          (let e = (fa_frames fa ! i)\<lparr>fe_state := Allocated owner\<rparr> in
           (Ok \<lparr>fref_id = as_u64 i, fref_generation = fe_generation e, fref_paddr = fe_paddr e,
               fref_owner = owner\<rparr>,
            fa\<lparr>fa_frames := (fa_frames fa)[i := e]\<rparr>)))"

text \<open>\<open>slice::windows(n)\<close>, and the test of one window of \<open>contiguous_free_run\<close>.\<close>

definition windows :: "nat \<Rightarrow> 'a list \<Rightarrow> 'a list list" where
  "windows n xs = map (\<lambda>i. take n (drop i xs)) [0..<Suc (length xs) - n]"

definition window_entry_ok :: "frame_entry list \<Rightarrow> nat \<times> frame_entry \<Rightarrow> ('e, bool) result" where
  "window_entry_ok window = (\<lambda>(offset, e).
     if fe_state e \<noteq> Free then Ok False
     else rbind (vec_get window 0) (\<lambda>first.
          rbind (u64_mul (as_u64 offset) MEM_PAGE_SIZE) (\<lambda>d.
          rbind (expect (checked_add (fe_paddr first) d)) (\<lambda>p.
          Ok (fe_paddr e = p)))))"

definition contiguous_free_run :: "frame_allocator \<Rightarrow> usize \<Rightarrow> ('e, usize option) result" where
  "contiguous_free_run fa frame_count =
     (if frame_count = 0 \<or> length (fa_frames fa) < frame_count then Ok None
      else position_r (\<lambda>window. all_r (window_entry_ok window) (enumerate 0 window))
             (windows frame_count (fa_frames fa)))"

fun set_allocated :: "frame_owner \<Rightarrow> nat list \<Rightarrow> frame_entry list \<Rightarrow> ('e, frame_entry list) result" where
  "set_allocated owner [] frames = Ok frames"
| "set_allocated owner (i # is) frames =
     rbind (vec_get frames i) (\<lambda>e.
     set_allocated owner is (frames[i := e\<lparr>fe_state := Allocated owner\<rparr>]))"

definition fa_reserve_contiguous ::
  "frame_owner \<Rightarrow> u64 \<Rightarrow> frame_allocator \<Rightarrow> memory_frame_range kernel_result \<times> frame_allocator" where
  "fa_reserve_contiguous owner size_bytes fa =
     lift (frame_count_for_size size_bytes) fa (\<lambda>frame_count.
     lift (contiguous_free_run fa frame_count) fa (\<lambda>run.
     case run of
       None \<Rightarrow> (Err NoMemory, fa)
     | Some start_index \<Rightarrow>
         lift (vec_get (fa_frames fa) start_index) fa (\<lambda>first.
         lift (ok_or InvalidArgument (checked_add (fe_paddr first) size_bytes)) fa (\<lambda>e.
         lift (set_allocated owner [start_index ..< start_index + frame_count] (fa_frames fa)) fa (\<lambda>frames.
         (mfr_new (fe_paddr first) e, fa\<lparr>fa_frames := frames\<rparr>))))))"

definition fa_index :: "frame_allocator \<Rightarrow> frame_id \<Rightarrow> usize kernel_result" where
  "fa_index fa i =
     (if length (fa_frames fa) \<le> as_usize i then Err InvalidArgument else Ok (as_usize i))"

definition fa_free :: "frame_ref \<Rightarrow> frame_allocator \<Rightarrow> unit kernel_result \<times> frame_allocator" where
  "fa_free frame fa =
     lift (fa_index fa (fref_id frame)) fa (\<lambda>i.
       (let e = fa_frames fa ! i in
        if fe_generation e \<noteq> fref_generation frame then (Err StaleHandle, fa)
        else
          (case fe_state e of
             Allocated owner \<Rightarrow>
               if owner = fref_owner frame then
                 lift (next_generation (fe_generation e)) fa (\<lambda>g.
                   (Ok (), fa\<lparr>fa_frames := (fa_frames fa)[i := e\<lparr>fe_state := Free, fe_generation := g\<rparr>]\<rparr>))
               else (Err MissingRights, fa)
           | Free \<Rightarrow> (Err InvalidArgument, fa)
           | Reserved \<Rightarrow> (Err InvalidArgument, fa))))"

definition in_frame_range :: "memory_frame_range \<Rightarrow> frame_entry \<Rightarrow> bool" where
  "in_frame_range r e \<longleftrightarrow> mfr_start r \<le> fe_paddr e \<and> fe_paddr e < mfr_end r"

fun free_matching :: "memory_frame_range \<Rightarrow> frame_entry list \<Rightarrow> ('e, frame_entry list) result" where
  "free_matching r [] = Ok []"
| "free_matching r (e # es) =
     (if in_frame_range r e then
        rbind (next_generation (fe_generation e)) (\<lambda>g.
        map_ok (\<lambda>es'. e\<lparr>fe_state := Free, fe_generation := g\<rparr> # es') (free_matching r es))
      else map_ok (\<lambda>es'. e # es') (free_matching r es))"

definition fa_free_range ::
  "memory_frame_range \<Rightarrow> frame_owner \<Rightarrow> frame_allocator \<Rightarrow> unit kernel_result \<times> frame_allocator" where
  "fa_free_range r owner fa =
     lift (mfr_frame_count r) fa (\<lambda>c.
     lift (ok_or NoCapacity (usize_try_from c)) fa (\<lambda>frame_count.
     if count_where (in_frame_range r) (fa_frames fa) \<noteq> frame_count then (Err InvalidArgument, fa)
     else if list_ex (\<lambda>e. fe_state e \<noteq> Allocated owner) (filter (in_frame_range r) (fa_frames fa))
       then (Err MissingRights, fa)
     else lift (free_matching r (fa_frames fa)) fa (\<lambda>frames. (Ok (), fa\<lparr>fa_frames := frames\<rparr>))))"

definition fa_state :: "frame_allocator \<Rightarrow> frame_id \<Rightarrow> frame_state kernel_result" where
  "fa_state fa i = rbind (fa_index fa i) (\<lambda>k. map_ok fe_state (vec_get (fa_frames fa) k))"

section \<open>Pages and the abstract view\<close>

definition fe_page :: "frame_entry \<Rightarrow> nat" where
  "fe_page e = unat (fe_paddr e) div 4096"

definition mfr_ok :: "memory_frame_range \<Rightarrow> bool" where
  "mfr_ok r \<longleftrightarrow> mfr_start r < mfr_end r \<and> unat (mfr_start r) mod 4096 = 0 \<and> unat (mfr_end r) mod 4096 = 0"

definition mfr_pages :: "memory_frame_range \<Rightarrow> nat set" where
  "mfr_pages r = {unat (mfr_start r) div 4096 ..< unat (mfr_end r) div 4096}"

definition entry_ok :: "frame_entry \<Rightarrow> bool" where
  "entry_ok e \<longleftrightarrow> unat (fe_paddr e) mod 4096 = 0 \<and> unat (fe_paddr e) + 4096 < 2 ^ 64"

definition fa_wf :: "frame_allocator \<Rightarrow> bool" where
  "fa_wf fa \<longleftrightarrow> list_all entry_ok (fa_frames fa) \<and> sorted_wrt (<) (map fe_page (fa_frames fa))"

definition fa_view :: "frame_allocator \<Rightarrow> nat \<rightharpoonup> frame_state" where
  "fa_view fa = map_of (map (\<lambda>e. (fe_page e, fe_state e)) (fa_frames fa))"

lemma mem_page_aligned_iff: "mem_is_page_aligned v \<longleftrightarrow> unat v mod 4096 = 0"
  using page_aligned_iff [of v] by (simp add: mem_is_page_aligned_def is_page_aligned_def MEM_PAGE_SIZE_def PAGE_SIZE_def)

lemma mfr_new_eq [result_simps]:
  "mfr_new s e = Ok r \<longleftrightarrow> r = \<lparr>mfr_start = s, mfr_end = e\<rparr> \<and> mfr_ok r"
  "mfr_new s e \<noteq> Panic"
  "mfr_new s e = Err d \<longleftrightarrow> d = InvalidArgument \<and> \<not> mfr_ok \<lparr>mfr_start = s, mfr_end = e\<rparr>"
  by (auto simp: mfr_new_def mfr_ok_def mem_page_aligned_iff not_le)

lemma unat_div_page: "unat (n div MEM_PAGE_SIZE) = unat n div 4096"
  by (simp add: MEM_PAGE_SIZE_def unat_div)

lemma aligned_unat: "unat v mod 4096 = 0 \<Longrightarrow> unat v = unat v div 4096 * 4096" for v :: u64
  by (simp add: mod_0_imp_dvd)

lemma page_le: "x mod 4096 = 0 \<Longrightarrow> y mod 4096 = 0 \<Longrightarrow> x \<le> y \<longleftrightarrow> x div 4096 \<le> y div (4096::nat)"
  and page_less: "x mod 4096 = 0 \<Longrightarrow> y mod 4096 = 0 \<Longrightarrow> x < y \<longleftrightarrow> x div 4096 < y div (4096::nat)"
  by (auto elim!: dvdE dest!: mod_0_imp_dvd)

lemma mfr_okD: "mfr_ok r \<Longrightarrow> unat (mfr_start r) mod 4096 = 0" "mfr_ok r \<Longrightarrow> unat (mfr_end r) mod 4096 = 0"
  and entry_okD: "entry_ok e \<Longrightarrow> unat (fe_paddr e) mod 4096 = 0"
  by (simp_all add: mfr_ok_def entry_ok_def)

definition mfr_count :: "memory_frame_range \<Rightarrow> u64" where
  "mfr_count r = (mfr_end r - mfr_start r) div MEM_PAGE_SIZE"

lemma mfr_frame_count_ok: "mfr_ok r \<Longrightarrow> mfr_frame_count r = Ok (mfr_count r)"
  by (auto simp: mfr_frame_count_def mfr_len_def u64_sub_def mfr_ok_def mfr_count_def)

lemma unat_mfr_count:
  assumes "mfr_ok r"
  shows "unat (mfr_count r) = card (mfr_pages r)"
proof -
  let ?s = "unat (mfr_start r) div 4096" and ?e = "unat (mfr_end r) div 4096"
  note se = aligned_unat [OF mfr_okD(1) [OF assms]] aligned_unat [OF mfr_okD(2) [OF assms]]
  from assms have "mfr_start r < mfr_end r" by (simp add: mfr_ok_def)
  then have le: "mfr_start r \<le> mfr_end r" by order
  then have "unat (mfr_end r - mfr_start r) = ?e * 4096 - ?s * 4096"
    using se by (simp only: unat_sub_le)
  also have "\<dots> = (?e - ?s) * 4096" by (simp only: diff_mult_distrib)
  finally have "unat ((mfr_end r - mfr_start r) div MEM_PAGE_SIZE) = ?e - ?s"
    by (simp only: unat_div_page) simp
  then show ?thesis by (simp add: mfr_count_def mfr_pages_def)
qed

lemma in_frame_range_page:
  assumes "mfr_ok r" and "entry_ok e"
  shows "in_frame_range r e \<longleftrightarrow> fe_page e \<in> mfr_pages r"
proof -
  note page_le = page_le [OF mfr_okD(1) [OF assms(1)] entry_okD [OF assms(2)]]
    and page_less = page_less [OF entry_okD [OF assms(2)] mfr_okD(2) [OF assms(1)]]
  show ?thesis
    by (simp only: in_frame_range_def word_le_nat_alt word_less_nat_alt page_le page_less
        mfr_pages_def fe_page_def atLeastLessThan_iff)
qed

lemma entry_ok_paddr: "entry_ok e \<Longrightarrow> unat (fe_paddr e) = fe_page e * 4096"
  using aligned_unat [of "fe_paddr e"] by (simp add: entry_ok_def fe_page_def)

lemma fa_wf_distinct: "fa_wf fa \<Longrightarrow> distinct (map fe_page (fa_frames fa))"
  unfolding fa_wf_def using strict_sorted_iff by blast

lemma fa_wf_nth_ok: "fa_wf fa \<Longrightarrow> i < length (fa_frames fa) \<Longrightarrow> entry_ok (fa_frames fa ! i)"
  by (simp add: fa_wf_def list_all_length)

lemma fa_wf_page_inj:
  "fa_wf fa \<Longrightarrow> i < length (fa_frames fa) \<Longrightarrow> j < length (fa_frames fa)
    \<Longrightarrow> fe_page (fa_frames fa ! i) = fe_page (fa_frames fa ! j) \<longleftrightarrow> i = j"
  using fa_wf_distinct [of fa] nth_eq_iff_index_eq [of "map fe_page (fa_frames fa)" i j] by simp

lemma fa_view_Some:
  assumes "fa_wf fa"
  shows "fa_view fa p = Some st \<longleftrightarrow>
    (\<exists>i<length (fa_frames fa). fe_page (fa_frames fa ! i) = p \<and> fe_state (fa_frames fa ! i) = st)"
proof -
  have "map fst (map (\<lambda>e. (fe_page e, fe_state e)) (fa_frames fa)) = map fe_page (fa_frames fa)" by simp
  then have "distinct (map fst (map (\<lambda>e. (fe_page e, fe_state e)) (fa_frames fa)))"
    using fa_wf_distinct [OF assms] by (simp only:)
  then have "fa_view fa p = Some st \<longleftrightarrow> (p, st) \<in> set (map (\<lambda>e. (fe_page e, fe_state e)) (fa_frames fa))"
    unfolding fa_view_def by (rule map_of_eq_Some_iff)
  also have "\<dots> \<longleftrightarrow> (\<exists>e \<in> set (fa_frames fa). fe_page e = p \<and> fe_state e = st)" by auto
  also have "\<dots> \<longleftrightarrow> (\<exists>i<length (fa_frames fa). fe_page (fa_frames fa ! i) = p \<and> fe_state (fa_frames fa ! i) = st)"
    by (metis in_set_conv_nth)
  finally show ?thesis .
qed

lemma fa_view_nth: "fa_wf fa \<Longrightarrow> i < length (fa_frames fa)
    \<Longrightarrow> fa_view fa (fe_page (fa_frames fa ! i)) = Some (fe_state (fa_frames fa ! i))"
  by (auto simp: fa_view_Some)

lemma fa_wf_same_paddrs:
  assumes "fa_wf fa" and "map fe_paddr fs = map fe_paddr (fa_frames fa)"
  shows "fa_wf \<lparr>fa_frames = fs\<rparr>"
proof -
  have len: "length fs = length (fa_frames fa)" using assms(2) by (metis length_map)
  have nth: "fe_paddr (fs ! i) = fe_paddr (fa_frames fa ! i)" if "i < length fs" for i
    using assms(2) that len by (metis nth_map)
  then have "map fe_page fs = map fe_page (fa_frames fa)"
    using len by (intro nth_equalityI) (simp_all add: fe_page_def)
  moreover have "list_all entry_ok fs"
    using assms(1) nth len by (simp add: fa_wf_def list_all_length entry_ok_def)
  ultimately show ?thesis using assms(1) by (simp add: fa_wf_def)
qed

text \<open>Rewriting the states of the pages of \<open>S\<close> rewrites the view there and nowhere else.\<close>

lemma fa_view_update:
  assumes wf: "fa_wf fa" and "map fe_paddr fs = map fe_paddr (fa_frames fa)"
    and st: "\<And>j. j < length fs \<Longrightarrow> fe_state (fs ! j) =
      (if fe_page (fa_frames fa ! j) \<in> S then st else fe_state (fa_frames fa ! j))"
    and dom: "S \<subseteq> dom (fa_view fa)"
  shows "fa_view \<lparr>fa_frames = fs\<rparr> = (\<lambda>p. if p \<in> S then Some st else fa_view fa p)"
proof
  fix p
  let ?fa = "\<lparr>fa_frames = fs\<rparr>"
  have wf': "fa_wf ?fa" by (rule fa_wf_same_paddrs [OF assms(1,2)])
  have len: "length fs = length (fa_frames fa)" using assms(2) by (metis length_map)
  have page: "fe_page (fs ! i) = fe_page (fa_frames fa ! i)" if "i < length fs" for i
    using assms(2) that len unfolding fe_page_def by (metis nth_map)
  show "fa_view ?fa p = (if p \<in> S then Some st else fa_view fa p)"
  proof (cases "fa_view fa p")
    case None
    then have nin: "p \<notin> S" using dom by auto
    have "fa_view ?fa p \<noteq> Some x" for x
    proof
      assume "fa_view ?fa p = Some x"
      then obtain i where "i < length fs" and "fe_page (fs ! i) = p"
        by (auto simp: fa_view_Some [OF wf'])
      then have "fa_view fa p = Some (fe_state (fa_frames fa ! i))"
        using page len by (auto simp: fa_view_Some [OF wf])
      with None show False by simp
    qed
    with None nin show ?thesis by auto
  next
    case (Some x)
    then obtain i where i: "i < length (fa_frames fa)" "fe_page (fa_frames fa ! i) = p" "fe_state (fa_frames fa ! i) = x"
      by (auto simp: fa_view_Some [OF wf])
    then have "fa_view ?fa p = Some (fe_state (fs ! i))"
      using page len by (auto simp: fa_view_Some [OF wf'])
    with i Some st len show ?thesis by auto
  qed
qed

section \<open>Construction\<close>

definition fresh_entry :: "nat \<Rightarrow> frame_entry" where
  "fresh_entry p = \<lparr>fe_paddr = of_nat (p * 4096), fe_generation = INITIAL, fe_state = Free\<rparr>"

lemma unat_le_usize_max: "unat (a :: u64) \<le> usize_max"
  using unat_u64_less [of a] by (simp add: usize_max_def)

lemma push_frames_step:
  assumes "unat s = k * 4096" and "unat e = n * 4096"
  shows "push_frames s e fs =
    (if k < n then push_frames (s + 4096) e (fs @ [fresh_entry k]) else Ok fs)"
proof -
  have "s < e \<longleftrightarrow> k < n" using assms by (simp add: word_less_nat_alt)
  moreover have s: "of_nat (k * 4096) = s" using assms(1) by (metis word_unat_eq_iff unat_of_nat_u64 unat_le_usize_max)
  moreover have "k < n \<Longrightarrow> (k + 1) * 4096 \<le> n * 4096" by (intro mult_le_mono1) simp
  then have "k < n \<Longrightarrow> unat s + 4096 < 2 ^ 64" using assms unat_u64_less [of e] by simp
  then have "k < n \<Longrightarrow> checked_add s MEM_PAGE_SIZE = Some (s + 4096)"
    by (simp add: checked_add_def MEM_PAGE_SIZE_def)
  ultimately show ?thesis
    by (simp add: push_frames.simps [of s e fs] Let_def fresh_entry_def)
qed

lemma push_frames_spec:
  assumes "unat s = k * 4096" and "unat e = n * 4096"
  shows "(push_frames s e fs :: ('e, frame_entry list) result) = Ok (fs @ map fresh_entry [k..<n])"
  using assms
proof (induction "n - k" arbitrary: s k fs)
  case 0
  then show ?case by (simp add: push_frames_step [OF 0(2,3)])
next
  case (Suc d)
  then have kn: "k < n" by simp
  have "(k + 1) * 4096 \<le> n * 4096" using kn by (intro mult_le_mono1) simp
  then have "unat s + unat (4096 :: u64) < 2 ^ 64" using Suc.prems unat_u64_less [of e] by simp
  then have "unat (s + 4096) = Suc k * 4096" using Suc.prems(1) by (simp add: unat_add_no_overflow)
  moreover have "d = n - Suc k" using Suc.hyps(2) by simp
  ultimately have "(push_frames (s + 4096) e (fs @ [fresh_entry k]) :: ('e, frame_entry list) result) = Ok (fs @ map fresh_entry (k # [Suc k..<n]))"
    using Suc.hyps(1) [of "Suc k" "s + 4096" "fs @ [fresh_entry k]"] Suc.prems(2) by simp
  moreover have "k # [Suc k..<n] = [k..<n]" using kn by (simp add: upt_conv_Cons)
  ultimately show ?case using kn by (simp only: push_frames_step [OF Suc.prems] if_True)
qed

definition pages_of :: "memory_frame_range \<Rightarrow> nat list" where
  "pages_of r = [unat (mfr_start r) div 4096 ..< unat (mfr_end r) div 4096]"

lemma set_pages_of [simp]: "set (pages_of r) = mfr_pages r"
  by (simp add: pages_of_def mfr_pages_def)

lemma pages_of_nonempty: "mfr_ok r \<Longrightarrow> mfr_pages r \<noteq> {}"
  using page_less [of "unat (mfr_start r)" "unat (mfr_end r)"]
  by (auto simp: mfr_ok_def mfr_pages_def word_less_nat_alt)

lemma push_range_spec:
  "mfr_ok r \<Longrightarrow> push_frames (mfr_start r) (mfr_end r) fs = Ok (fs @ map fresh_entry (pages_of r))"
  unfolding pages_of_def by (rule push_frames_spec; rule aligned_unat; rule mfr_okD)

lemma push_ranges_spec:
  "list_all mfr_ok rs \<Longrightarrow> push_ranges rs fs = Ok (fs @ map fresh_entry (concat (map pages_of rs)))"
proof (induction rs arbitrary: fs)
  case Nil
  then show ?case by simp
next
  case (Cons r rs)
  then show ?case by (simp add: push_range_spec)
qed

definition ranges_disjoint :: "memory_frame_range list \<Rightarrow> bool" where
  "ranges_disjoint rs \<longleftrightarrow> sorted_wrt (\<lambda>r r'. mfr_pages r \<inter> mfr_pages r' = {}) rs"

lemma overlap_pages:
  assumes "mfr_ok r" and "mfr_ok r'"
  shows "mfr_start r < mfr_end r' \<and> mfr_start r' < mfr_end r \<longleftrightarrow> mfr_pages r \<inter> mfr_pages r' \<noteq> {}"
proof -
  let ?a = "unat (mfr_start r) div 4096" and ?b = "unat (mfr_end r) div 4096"
    and ?c = "unat (mfr_start r') div 4096" and ?d = "unat (mfr_end r') div 4096"
  have ne: "?a < ?b" "?c < ?d" using pages_of_nonempty assms by (auto simp: mfr_pages_def)
  have "mfr_start r < mfr_end r' \<and> mfr_start r' < mfr_end r \<longleftrightarrow> ?a < ?d \<and> ?c < ?b"
    using assms by (simp only: word_less_nat_alt page_less mfr_okD)
  also have "\<dots> \<longleftrightarrow> max ?a ?c < min ?b ?d" using ne by auto
  also have "\<dots> \<longleftrightarrow> mfr_pages r \<inter> mfr_pages r' \<noteq> {}" by (auto simp: mfr_pages_def)
  finally show ?thesis .
qed

lemma ensure_non_overlapping_spec:
  "list_all mfr_ok rs \<Longrightarrow>
    ensure_non_overlapping rs = (if ranges_disjoint rs then Ok () else Err InvalidArgument)"
proof (induction rs)
  case Nil
  then show ?case by (simp add: ranges_disjoint_def)
next
  case (Cons r rs)
  then have ok: "mfr_ok r" and oks: "\<forall>x\<in>set rs. mfr_ok x" by (simp_all add: list_all_iff)
  have "list_ex (\<lambda>x. mfr_start r < mfr_end x \<and> mfr_start x < mfr_end r) rs
    \<longleftrightarrow> (\<exists>x\<in>set rs. mfr_pages r \<inter> mfr_pages x \<noteq> {})"
    unfolding list_ex_iff using overlap_pages [OF ok] oks by blast
  then show ?case using Cons by (auto simp: ranges_disjoint_def)
qed

lemma total_frame_count_from_spec:
  "list_all mfr_ok rs \<Longrightarrow> total_frame_count_from acc rs =
     (if acc + sum_list (map (card \<circ> mfr_pages) rs) \<le> usize_max \<or> rs = []
      then Ok (acc + sum_list (map (card \<circ> mfr_pages) rs)) else Err NoCapacity)"
proof (induction rs arbitrary: acc)
  case Nil
  then show ?case by simp
next
  case (Cons r rs)
  then show ?case
    by (cases rs) (simp_all add: mfr_frame_count_ok unat_mfr_count usize_try_from_eq usize_checked_add_def add.assoc comp_def)
qed

lemma mfr_pages_bound: "mfr_pages r \<subseteq> {..<2 ^ 52}"
proof
  fix p assume "p \<in> mfr_pages r"
  then have "p < unat (mfr_end r) div 4096" by (simp add: mfr_pages_def)
  also have "\<dots> < 2 ^ 52" using unat_u64_less [of "mfr_end r"] by (simp add: div_less_iff_less_mult)
  finally show "p \<in> {..<2 ^ 52}" by simp
qed

lemma sum_card_pages:
  "ranges_disjoint rs \<Longrightarrow> sum_list (map (card \<circ> mfr_pages) rs) = card (\<Union> (mfr_pages ` set rs))"
proof (induction rs)
  case Nil
  then show ?case by simp
next
  case (Cons r rs)
  then have "mfr_pages r \<inter> \<Union> (mfr_pages ` set rs) = {}" by (auto simp: ranges_disjoint_def)
  then have "card (mfr_pages r \<union> \<Union> (mfr_pages ` set rs)) = card (mfr_pages r) + card (\<Union> (mfr_pages ` set rs))"
    by (intro card_Un_disjoint) (auto simp: mfr_pages_def)
  with Cons show ?case by (simp add: ranges_disjoint_def)
qed

lemma total_frame_count_spec:
  assumes "list_all mfr_ok rs" and "ranges_disjoint rs"
  shows "total_frame_count rs = Ok (card (\<Union> (mfr_pages ` set rs)))"
proof -
  have "card (\<Union> (mfr_pages ` set rs)) \<le> card {..<2 ^ 52 :: nat}"
    using mfr_pages_bound by (intro card_mono) auto
  also have "\<dots> \<le> usize_max" by (simp add: usize_max_def)
  finally show ?thesis
    using total_frame_count_from_spec [OF assms(1), of 0] by (simp add: total_frame_count_def sum_card_pages assms(2))
qed

lemma fresh_entry_ok:
  assumes "p < 2 ^ 52 - 1"
  shows "fe_page (fresh_entry p) = p" and "entry_ok (fresh_entry p)"
proof -
  have "p * 4096 \<le> usize_max" using assms by (simp add: usize_max_def)
  then have "unat (fe_paddr (fresh_entry p)) = p * 4096"
    unfolding fresh_entry_def by (simp only: frame_entry.simps unat_of_nat_u64)
  then show "fe_page (fresh_entry p) = p" and "entry_ok (fresh_entry p)"
    using assms by (simp_all add: fe_page_def entry_ok_def)
qed

lemma mfr_pages_top: "mfr_ok r \<Longrightarrow> p \<in> mfr_pages r \<Longrightarrow> p < 2 ^ 52 - 1"
proof -
  assume "mfr_ok r" and "p \<in> mfr_pages r"
  then have "p < unat (mfr_end r) div 4096" by (simp add: mfr_pages_def)
  moreover have "unat (mfr_end r) div 4096 < 2 ^ 52"
    using unat_u64_less [of "mfr_end r"] by (simp add: div_less_iff_less_mult)
  ultimately show ?thesis by simp
qed

lemma distinct_pages_of: "ranges_disjoint rs \<Longrightarrow> distinct (concat (map pages_of rs))"
proof (induction rs)
  case Nil
  then show ?case by simp
next
  case (Cons r rs)
  then have "\<forall>x\<in>set rs. mfr_pages r \<inter> mfr_pages x = {}" by (simp add: ranges_disjoint_def)
  with Cons show ?case by (auto simp: ranges_disjoint_def pages_of_def mfr_pages_def)
qed

lemma sorted_frames_wf:
  assumes "list_all entry_ok fs" and "distinct (map fe_page fs)"
  shows "fa_wf \<lparr>fa_frames = sort_key fe_paddr fs\<rparr>"
proof -
  let ?s = "sort_key fe_paddr fs"
  have "distinct (map fe_page ?s)" using assms(2) by (simp add: distinct_map)
  moreover have "sorted (map fe_paddr ?s)" by simp
  then have "sorted (map fe_page ?s)"
    by (simp add: sorted_iff_nth_mono fe_page_def word_le_nat_alt div_le_mono)
  ultimately have "sorted_wrt (<) (map fe_page ?s)" by (simp add: strict_sorted_iff)
  then show ?thesis using assms(1) by (simp add: fa_wf_def list_all_iff)
qed

lemma fa_from_available_ranges_cases:
  assumes "list_all mfr_ok ranges"
  shows "case fa_from_available_ranges heap ranges of
      Ok fa \<Rightarrow> ranges_disjoint ranges \<and> fa_wf fa
        \<and> fa_view fa = (\<lambda>p. if p \<in> \<Union> (mfr_pages ` set ranges) then Some Free else None)
        \<and> (\<forall>e \<in> set (fa_frames fa). fe_generation e = INITIAL)
    | Err InvalidArgument \<Rightarrow> \<not> ranges_disjoint ranges
    | Err NoMemory \<Rightarrow> ranges = [] \<or> \<not> heap SiteFrames (card (\<Union> (mfr_pages ` set ranges)))
    | _ \<Rightarrow> False"
proof (cases "ranges_disjoint ranges \<and> heap SiteFrames (card (\<Union> (mfr_pages ` set ranges)))")
  case False
  then show ?thesis
    using assms
    by (cases "ranges_disjoint ranges")
      (simp_all add: fa_from_available_ranges_def ensure_non_overlapping_spec total_frame_count_spec
        try_reserve_exact_def ensure_def)
next
  case True
  define ps where "ps = concat (map pages_of ranges)"
  let ?fs = "map fresh_entry ps"
  have top: "\<forall>p\<in>set ps. p < 2 ^ 52 - 1"
    using assms mfr_pages_top by (auto simp: ps_def list_all_iff)
  have pages: "map fe_page ?fs = ps"
    using top by (auto simp: fresh_entry_ok intro!: map_idI)
  have "list_all entry_ok ?fs" using top fresh_entry_ok by (auto simp: list_all_iff)
  moreover have "distinct (map fe_page ?fs)"
    unfolding pages using True by (simp add: ps_def distinct_pages_of)
  ultimately have wf: "fa_wf \<lparr>fa_frames = sort_key fe_paddr ?fs\<rparr>" by (rule sorted_frames_wf)
  have setps: "set ps = \<Union> (mfr_pages ` set ranges)" by (auto simp: ps_def)
  have "fa_view \<lparr>fa_frames = sort_key fe_paddr ?fs\<rparr> p = (if p \<in> set ps then Some Free else None)" for p
  proof (cases "p \<in> set ps")
    case True
    then have "fresh_entry p \<in> set (sort_key fe_paddr ?fs)" by simp
    then obtain i where "i < length (sort_key fe_paddr ?fs)" "sort_key fe_paddr ?fs ! i = fresh_entry p"
      by (metis in_set_conv_nth)
    then show ?thesis using fa_view_nth [OF wf, of i] top True by (simp add: fresh_entry_ok) (simp add: fresh_entry_def)
  next
    case False
    have "fa_view \<lparr>fa_frames = sort_key fe_paddr ?fs\<rparr> p \<noteq> Some st" for st
    proof
      assume "fa_view \<lparr>fa_frames = sort_key fe_paddr ?fs\<rparr> p = Some st"
      then obtain e where "e \<in> set ?fs" and "fe_page e = p"
        by (auto simp: fa_view_Some [OF wf] simp del: set_map length_map) (metis nth_mem length_sort set_sort)
      then have "p \<in> set (map fe_page ?fs)" by auto
      with False show False unfolding pages by simp
    qed
    then show ?thesis using False by auto
  qed
  then have view: "fa_view \<lparr>fa_frames = sort_key fe_paddr ?fs\<rparr>
      = (\<lambda>p. if p \<in> \<Union> (mfr_pages ` set ranges) then Some Free else None)"
    unfolding setps by (rule ext)
  have "fa_from_available_ranges heap ranges =
      (if ?fs = [] then Err NoMemory else Ok \<lparr>fa_frames = sort_key fe_paddr ?fs\<rparr>)"
    using assms True
    by (simp add: fa_from_available_ranges_def ensure_non_overlapping_spec total_frame_count_spec
        try_reserve_exact_def ensure_def push_ranges_spec ps_def)
  moreover have "?fs = [] \<longleftrightarrow> ranges = []"
    using setps assms pages_of_nonempty by (auto simp: list_all_iff)
  ultimately show ?thesis using wf view True by (auto simp: fresh_entry_def)
qed

text \<open>From valid available ranges the allocator is built with exactly their pages,
  each free and in its first generation, in the well-formed order the other operations rely on;
  overlapping ranges, a failed allocation and an empty list are refused, and nothing panics.\<close>

lemma fa_from_available_ranges_spec:
  assumes "list_all mfr_ok ranges"
  shows "case fa_from_available_ranges heap ranges of
      Ok fa \<Rightarrow> ranges_disjoint ranges \<and> fa_wf fa
        \<and> fa_view fa = (\<lambda>p. if p \<in> \<Union> (mfr_pages ` set ranges) then Some Free else None)
        \<and> (\<forall>e \<in> set (fa_frames fa). fe_generation e = INITIAL)
    | Err InvalidArgument \<Rightarrow> \<not> ranges_disjoint ranges
    | Err NoMemory \<Rightarrow> ranges = [] \<or> \<not> heap SiteFrames (card (\<Union> (mfr_pages ` set ranges)))
    | _ \<Rightarrow> False"
  by (rule fa_from_available_ranges_cases [OF assms])

section \<open>Contiguous runs\<close>

definition run_at :: "frame_entry list \<Rightarrow> nat \<Rightarrow> nat \<Rightarrow> bool" where
  "run_at fs n i \<longleftrightarrow> i + n \<le> length fs
    \<and> (\<forall>k<n. fe_state (fs ! (i + k)) = Free \<and> fe_page (fs ! (i + k)) = fe_page (fs ! i) + k)"

lemma length_windows: "length (windows n xs) = Suc (length xs) - n"
  by (simp add: windows_def)

lemma nth_windows: "i < Suc (length xs) - n \<Longrightarrow> windows n xs ! i = take n (drop i xs)"
  by (simp add: windows_def del: upt_Suc)

lemma sorted_gap:
  fixes xs :: "nat list"
  assumes "sorted_wrt (<) xs" and "i + k < length xs"
  shows "xs ! i + k \<le> xs ! (i + k)"
  using assms(2)
proof (induction k)
  case 0
  then show ?case by simp
next
  case (Suc k)
  then have "xs ! (i + k) < xs ! (i + Suc k)" using assms(1) by (simp add: sorted_wrt_iff_nth_less)
  with Suc show ?case by simp
qed

lemma fa_wf_gap:
  "fa_wf fa \<Longrightarrow> i + k < length (fa_frames fa)
    \<Longrightarrow> fe_page (fa_frames fa ! i) + k \<le> fe_page (fa_frames fa ! (i + k))"
  using sorted_gap [of "map fe_page (fa_frames fa)" i k] by (simp add: fa_wf_def)

lemma entry_ok_page: "entry_ok e \<Longrightarrow> fe_page e < 2 ^ 52 - 1"
  by (simp add: entry_ok_def fe_page_def div_less_iff_less_mult)

text \<open>The test of one window never overflows: its pages ascend from its first page.\<close>

lemma window_entry_ok_eq:
  assumes ok: "entry_ok first" "entry_ok e" and "window \<noteq> []" and "window ! 0 = first"
    and gap: "fe_page first + k \<le> fe_page e"
  shows "(window_entry_ok window (k, e) :: ('e, bool) result) = Ok (fe_state e = Free \<and> fe_page e = fe_page first + k)"
proof -
  have lt: "fe_page e < 2 ^ 52 - 1" using ok(2) by (rule entry_ok_page)
  then have k: "k < 2 ^ 52" using gap by simp
  then have uk: "unat (as_u64 k) = k" unfolding as_u64_def by (intro unat_of_nat_u64) (simp add: usize_max_def)
  then have "unat (as_u64 k) * unat MEM_PAGE_SIZE < 2 ^ 64" using k by (simp add: MEM_PAGE_SIZE_def)
  then have mul: "(u64_mul (as_u64 k) MEM_PAGE_SIZE :: ('e, u64) result) = Ok (as_u64 k * MEM_PAGE_SIZE)"
    by (simp add: u64_mul_def)
  have d: "unat (as_u64 k * MEM_PAGE_SIZE) = k * 4096"
    using \<open>unat (as_u64 k) * unat MEM_PAGE_SIZE < 2 ^ 64\<close> uk by (simp add: unat_word_ariths MEM_PAGE_SIZE_def)
  have sum: "unat (fe_paddr first) + unat (as_u64 k * MEM_PAGE_SIZE) = (fe_page first + k) * 4096"
    unfolding d entry_ok_paddr [OF ok(1)] by (simp only: add_mult_distrib)
  also have "\<dots> \<le> fe_page e * 4096" using gap by (intro mult_le_mono1)
  also have "\<dots> < 2 ^ 64" using unat_u64_less [of "fe_paddr e"] by (simp only: entry_ok_paddr [OF ok(2)])
  finally have no: "unat (fe_paddr first) + unat (as_u64 k * MEM_PAGE_SIZE) < 2 ^ 64" .
  then have add: "checked_add (fe_paddr first) (as_u64 k * MEM_PAGE_SIZE)
      = Some (fe_paddr first + as_u64 k * MEM_PAGE_SIZE)" by (simp add: checked_add_def)
  have "unat (fe_paddr first + as_u64 k * MEM_PAGE_SIZE) = (fe_page first + k) * 4096"
    using sum unat_add_no_overflow [OF no] by simp
  then have "fe_paddr e = fe_paddr first + as_u64 k * MEM_PAGE_SIZE \<longleftrightarrow> fe_page e * 4096 = (fe_page first + k) * 4096"
    using entry_ok_paddr [OF ok(2)] by (simp add: word_unat_eq_iff)
  then have "fe_paddr e = fe_paddr first + as_u64 k * MEM_PAGE_SIZE \<longleftrightarrow> fe_page e = fe_page first + k"
    unfolding mult_cancel2 by simp
  with assms(3,4) mul add show ?thesis
    by (cases "fe_state e") (simp_all add: window_entry_ok_def vec_get_def)
qed

lemma window_run:
  assumes wf: "fa_wf fa" and "0 < n" and le: "i + n \<le> length (fa_frames fa)"
  defines "w \<equiv> take n (drop i (fa_frames fa))"
  shows "all_r (window_entry_ok w) (enumerate 0 w) = Ok (run_at (fa_frames fa) n i)"
proof -
  let ?fs = "fa_frames fa"
  have len: "length w = n" and nth: "w ! k = ?fs ! (i + k)" if "k < n" for k
    using le that by (simp_all add: w_def)
  have lenw: "length w = n" using le by (simp add: w_def)
  let ?P = "\<lambda>(k, e). fe_state e = Free \<and> fe_page e = fe_page (?fs ! i) + k"
  have "all_r (window_entry_ok w) (enumerate 0 w) = Ok (list_all ?P (enumerate 0 w))"
  proof (rule all_r_Ok)
    fix x assume x: "x \<in> set (enumerate 0 w)"
    obtain k y where xy: "x = (k, y)" by (cases x)
    with x have k: "x = (k, w ! k)" "k < n" by (auto simp: in_set_enumerate_eq lenw)
    have "window_entry_ok w (k, w ! k)
      = Ok (fe_state (w ! k) = Free \<and> fe_page (w ! k) = fe_page (?fs ! i) + k)"
      using k(2) nth [of k] nth [of 0] assms(2) le lenw fa_wf_gap [OF wf, of i k]
      by (intro window_entry_ok_eq) (auto intro!: fa_wf_nth_ok [OF wf])
    then show "window_entry_ok w x = Ok (?P x)" using k(1) by simp
  qed
  moreover have "list_all ?P (enumerate 0 w) \<longleftrightarrow> run_at ?fs n i"
    using nth le lenw by (auto simp: list_all_length nth_enumerate_eq run_at_def)
  ultimately show ?thesis by simp
qed

lemma contiguous_free_run_spec:
  assumes wf: "fa_wf fa" and "0 < n"
  shows "\<exists>x. (contiguous_free_run fa n :: ('e, usize option) result) = Ok x
    \<and> (\<forall>i. x = Some i \<longrightarrow> run_at (fa_frames fa) n i)
    \<and> (x = None \<longleftrightarrow> (\<forall>i. \<not> run_at (fa_frames fa) n i))"
proof (cases "length (fa_frames fa) < n")
  case True
  then have "\<not> run_at (fa_frames fa) n i" for i by (simp add: run_at_def)
  then show ?thesis using True by (simp add: contiguous_free_run_def)
next
  case False
  let ?ws = "windows n (fa_frames fa)"
  let ?Q = "\<lambda>w. \<exists>i. i + n \<le> length (fa_frames fa) \<and> w = take n (drop i (fa_frames fa))
    \<and> run_at (fa_frames fa) n i"
  have test: "(all_r (window_entry_ok w) (enumerate 0 w) :: ('e, bool) result) = Ok (?Q w)" if "w \<in> set ?ws" for w
  proof -
    obtain i where i: "i < Suc (length (fa_frames fa)) - n" "w = ?ws ! i"
      using \<open>w \<in> set ?ws\<close> unfolding in_set_conv_nth length_windows by blast
    then have le: "i + n \<le> length (fa_frames fa)" and w: "w = take n (drop i (fa_frames fa))"
      by (auto simp: nth_windows)
    have "?Q w \<longleftrightarrow> run_at (fa_frames fa) n i"
    proof
      assume "?Q w"
      then obtain j where j: "j + n \<le> length (fa_frames fa)" "w = take n (drop j (fa_frames fa))"
        "run_at (fa_frames fa) n j" by blast
      have "w ! 0 = fa_frames fa ! i" unfolding w using le assms(2) by simp
      moreover have "w ! 0 = fa_frames fa ! j" unfolding j(2) using j(1) assms(2) by simp
      ultimately have "i = j" using fa_wf_page_inj [OF wf, of i j] le j(1) assms(2) by simp
      with j(3) show "run_at (fa_frames fa) n i" by simp
    qed (use le w in blast)
    with window_run [OF wf assms(2) le] show ?thesis unfolding w by simp
  qed
  have "(position_r (\<lambda>w. all_r (window_entry_ok w) (enumerate 0 w)) ?ws :: ('e, usize option) result)
      = Ok (position ?Q ?ws)"
    by (rule position_r_Ok) (rule test)
  then have eq: "(contiguous_free_run fa n :: ('e, usize option) result) = Ok (position ?Q ?ws)"
    using False assms(2) by (simp add: contiguous_free_run_def)
  have at: "?Q (?ws ! i) \<longleftrightarrow> run_at (fa_frames fa) n i" if "i < length ?ws" for i
  proof -
    have le: "i + n \<le> length (fa_frames fa)" and w: "?ws ! i = take n (drop i (fa_frames fa))"
      using that by (auto simp: nth_windows length_windows)
    have "Ok (?Q (?ws ! i)) = (Ok (run_at (fa_frames fa) n i) :: ('e, bool) result)"
      using test [of "?ws ! i"] window_run [OF wf assms(2) le] that w by (metis nth_mem result.inject(1))
    then show ?thesis by simp
  qed
  have range: "i < length ?ws" if "run_at (fa_frames fa) n i" for i
  proof -
    have "i + n \<le> length (fa_frames fa)" using that unfolding run_at_def by blast
    then show ?thesis unfolding length_windows by linarith
  qed
  have found: "run_at (fa_frames fa) n i" if "position ?Q ?ws = Some i" for i
  proof -
    have "?Q (?ws ! i)" and "i < length ?ws" using position_SomeD(1,2) [OF that] by (simp_all only:)
    then show ?thesis using at [of i] by (simp only:)
  qed
  have "position ?Q ?ws = None \<longleftrightarrow> (\<forall>i<length ?ws. \<not> ?Q (?ws ! i))"
    by (simp only: position_eq_None all_set_conv_all_nth)
  also have "\<dots> \<longleftrightarrow> (\<forall>i<length ?ws. \<not> run_at (fa_frames fa) n i)" using at by (simp cong: imp_cong)
  also have "\<dots> \<longleftrightarrow> (\<forall>i. \<not> run_at (fa_frames fa) n i)" using range by blast
  finally have none: "position ?Q ?ws = None \<longleftrightarrow> (\<forall>i. \<not> run_at (fa_frames fa) n i)" .
  show ?thesis
    by (rule exI [of _ "position ?Q ?ws"]) (intro conjI allI impI eq none found)
qed

section \<open>Reserving and freeing ranges\<close>

definition allocated_at :: "frame_owner \<Rightarrow> nat set \<Rightarrow> frame_entry list \<Rightarrow> frame_entry list" where
  "allocated_at owner I fs =
     map (\<lambda>j. if j \<in> I then (fs ! j)\<lparr>fe_state := Allocated owner\<rparr> else fs ! j) [0..<length fs]"

lemma allocated_at_nth [simp]:
  "length (allocated_at owner I fs) = length fs"
  "j < length fs \<Longrightarrow> allocated_at owner I fs ! j =
     (if j \<in> I then (fs ! j)\<lparr>fe_state := Allocated owner\<rparr> else fs ! j)"
  by (simp_all add: allocated_at_def)

lemma allocated_at_step:
  "i < length fs \<Longrightarrow> allocated_at owner I (fs[i := (fs ! i)\<lparr>fe_state := Allocated owner\<rparr>])
     = allocated_at owner (insert i I) fs"
  by (rule nth_equalityI) (auto simp: nth_list_update)

lemma set_allocated_spec:
  "\<forall>i \<in> set is. i < length fs \<Longrightarrow> set_allocated owner is fs = Ok (allocated_at owner (set is) fs)"
proof (induction "is" arbitrary: fs)
  case Nil
  have "allocated_at owner {} fs = fs" by (rule nth_equalityI) simp_all
  then show ?case by simp
next
  case (Cons i "is")
  then show ?case by (simp add: vec_get_def allocated_at_step)
qed

definition fa_generations :: "frame_allocator \<Rightarrow> u64 list" where
  "fa_generations fa = map fe_generation (fa_frames fa)"

lemma size_frames:
  "frame_count_for_size size_bytes = Ok n \<longleftrightarrow>
     0 < n \<and> unat size_bytes = n * 4096"
  "frame_count_for_size size_bytes = Err e \<longleftrightarrow>
     e = InvalidArgument \<and> (size_bytes = 0 \<or> unat size_bytes mod 4096 \<noteq> 0)"
  "frame_count_for_size size_bytes \<noteq> Panic"
proof -
  have z: "size_bytes = 0 \<longleftrightarrow> unat size_bytes = 0" by (simp add: unat_eq_0)
  show "frame_count_for_size size_bytes = Ok n \<longleftrightarrow> 0 < n \<and> unat size_bytes = n * 4096"
    unfolding frame_count_for_size_def usize_try_from_eq unat_div_page mem_page_aligned_iff z
    by auto
  show "frame_count_for_size size_bytes = Err e \<longleftrightarrow>
     e = InvalidArgument \<and> (size_bytes = 0 \<or> unat size_bytes mod 4096 \<noteq> 0)"
    "frame_count_for_size size_bytes \<noteq> Panic"
    unfolding frame_count_for_size_def usize_try_from_eq mem_page_aligned_iff by auto
qed

text \<open>A run of \<open>n\<close> pages from page \<open>p\<close>, all free in the view.\<close>

definition free_run :: "(nat \<rightharpoonup> frame_state) \<Rightarrow> nat \<Rightarrow> nat \<Rightarrow> bool" where
  "free_run view p n \<longleftrightarrow> (\<forall>k<n. view (p + k) = Some Free)"

lemma run_at_free_run:
  assumes wf: "fa_wf fa" and n: "0 < n"
  shows "run_at (fa_frames fa) n i \<Longrightarrow> free_run (fa_view fa) (fe_page (fa_frames fa ! i)) n"
    and "free_run (fa_view fa) p n \<Longrightarrow> \<exists>i. run_at (fa_frames fa) n i \<and> fe_page (fa_frames fa ! i) = p"
proof -
  assume run: "run_at (fa_frames fa) n i"
  show "free_run (fa_view fa) (fe_page (fa_frames fa ! i)) n"
    unfolding free_run_def
  proof (intro allI impI)
    fix k assume "k < n"
    then have "i + k < length (fa_frames fa)" "fe_state (fa_frames fa ! (i + k)) = Free"
      "fe_page (fa_frames fa ! (i + k)) = fe_page (fa_frames fa ! i) + k"
      using run by (auto simp: run_at_def)
    then show "fa_view fa (fe_page (fa_frames fa ! i) + k) = Some Free"
      using fa_view_nth [OF wf, of "i + k"] by simp
  qed
next
  assume free: "free_run (fa_view fa) p n"
  have idx: "\<exists>j<length (fa_frames fa). fe_page (fa_frames fa ! j) = p + k \<and> fe_state (fa_frames fa ! j) = Free"
    if "k < n" for k
    using free that by (simp add: free_run_def fa_view_Some [OF wf])
  from idx [OF n] obtain i where i: "i < length (fa_frames fa)" "fe_page (fa_frames fa ! i) = p"
    "fe_state (fa_frames fa ! i) = Free" by auto
  have step: "i + k < length (fa_frames fa) \<and> fe_page (fa_frames fa ! (i + k)) = p + k" if "k < n" for k
    using that
  proof (induction k)
    case 0
    then show ?case using i by simp
  next
    case (Suc k)
    then have IH: "i + k < length (fa_frames fa)" "fe_page (fa_frames fa ! (i + k)) = p + k" by auto
    obtain j where j: "j < length (fa_frames fa)" "fe_page (fa_frames fa ! j) = p + Suc k"
      using idx [OF Suc.prems] by blast
    have mono: "a \<le> b \<Longrightarrow> b < length (fa_frames fa) \<Longrightarrow> fe_page (fa_frames fa ! a) + (b - a) \<le> fe_page (fa_frames fa ! b)" for a b
      using fa_wf_gap [OF wf, of a "b - a"] by simp
    have "i + k < j"
    proof (rule ccontr)
      assume "\<not> i + k < j"
      then have "fe_page (fa_frames fa ! j) \<le> fe_page (fa_frames fa ! (i + k))" using mono [of j "i + k"] IH by simp
      with j IH show False by simp
    qed
    moreover have "\<not> i + k + 1 < j"
    proof
      assume "i + k + 1 < j"
      then have "fe_page (fa_frames fa ! (i + k)) + (j - (i + k)) \<le> fe_page (fa_frames fa ! j)" using mono [of "i + k" j] j by simp
      with j IH \<open>i + k + 1 < j\<close> show False by simp
    qed
    ultimately have "j = i + Suc k" by simp
    with j show ?case by simp
  qed
  have "fe_state (fa_frames fa ! (i + k)) = Free" if "k < n" for k
  proof -
    have "fa_view fa (p + k) = Some Free" using free that by (simp add: free_run_def)
    with fa_view_nth [OF wf, of "i + k"] step [OF that] show ?thesis by simp
  qed
  with step i(2) n have "run_at (fa_frames fa) n i"
    unfolding run_at_def using step [of "n - 1"] by auto
  with i(2) show "\<exists>i. run_at (fa_frames fa) n i \<and> fe_page (fa_frames fa ! i) = p" by blast
qed

text \<open>The range of a run: its end does not overflow, and its pages are the run's entries.\<close>

lemma run_range:
  assumes wf: "fa_wf fa" and n: "0 < n" and run: "run_at (fa_frames fa) n i"
    and sz: "unat size_bytes = n * 4096"
  defines "first \<equiv> fa_frames fa ! i"
  shows "checked_add (fe_paddr first) size_bytes = Some (fe_paddr first + size_bytes)"
    and "mfr_ok \<lparr>mfr_start = fe_paddr first, mfr_end = fe_paddr first + size_bytes\<rparr>"
    and "mfr_pages \<lparr>mfr_start = fe_paddr first, mfr_end = fe_paddr first + size_bytes\<rparr>
      = {fe_page first ..< fe_page first + n}"
    and "unat (fe_paddr first + size_bytes) = unat (fe_paddr first) + unat size_bytes"
proof -
  have le: "i + n \<le> length (fa_frames fa)" using run unfolding run_at_def by blast
  then have ok: "entry_ok first" using n fa_wf_nth_ok [OF wf, of i] by (simp add: first_def)
  have "n - 1 < n" using n by simp
  then have "fe_page (fa_frames fa ! (i + (n - 1))) = fe_page first + (n - 1)"
    using run unfolding run_at_def first_def by blast
  moreover have "fe_page (fa_frames fa ! (i + (n - 1))) < 2 ^ 52 - 1"
    using le n by (intro entry_ok_page fa_wf_nth_ok [OF wf]) simp
  ultimately have top: "fe_page first + n < 2 ^ 52" using n by simp
  have start: "unat (fe_paddr first) = fe_page first * 4096" using ok by (rule entry_ok_paddr)
  have sum: "unat (fe_paddr first) + unat size_bytes = (fe_page first + n) * 4096"
    unfolding start sz by (simp only: add_mult_distrib)
  also have "\<dots> < 2 ^ 64" using top by simp
  finally have no: "unat (fe_paddr first) + unat size_bytes < 2 ^ 64" .
  then show "checked_add (fe_paddr first) size_bytes = Some (fe_paddr first + size_bytes)"
    by (simp add: checked_add_def)
  show e: "unat (fe_paddr first + size_bytes) = unat (fe_paddr first) + unat size_bytes"
    using no by (rule unat_add_no_overflow)
  show "mfr_ok \<lparr>mfr_start = fe_paddr first, mfr_end = fe_paddr first + size_bytes\<rparr>"
    using n by (simp add: mfr_ok_def word_less_nat_alt e start sz)
  show "mfr_pages \<lparr>mfr_start = fe_paddr first, mfr_end = fe_paddr first + size_bytes\<rparr>
      = {fe_page first ..< fe_page first + n}"
    by (simp add: mfr_pages_def e start sz)
qed

lemma run_indices:
  assumes wf: "fa_wf fa" and run: "run_at (fa_frames fa) n i" and j: "j < length (fa_frames fa)"
  defines "p \<equiv> fe_page (fa_frames fa ! i)"
  shows "j \<in> {i..<i + n} \<longleftrightarrow> fe_page (fa_frames fa ! j) \<in> {p..<p + n}"
proof
  assume "j \<in> {i..<i + n}"
  then obtain k where k: "j = i + k" "k < n" by (auto simp: nat_le_iff_add)
  then have "fe_page (fa_frames fa ! j) = p + k" using run unfolding run_at_def p_def by blast
  with k(2) show "fe_page (fa_frames fa ! j) \<in> {p..<p + n}" by simp
next
  assume "fe_page (fa_frames fa ! j) \<in> {p..<p + n}"
  then obtain k where k: "k < n" "fe_page (fa_frames fa ! j) = p + k"
    by (auto simp: nat_le_iff_add)
  then have "fe_page (fa_frames fa ! (i + k)) = p + k" and "i + k < length (fa_frames fa)"
    using run by (auto simp: run_at_def p_def)
  then have "j = i + k" using k fa_wf_page_inj [OF wf j, of "i + k"] by simp
  with k(1) show "j \<in> {i..<i + n}" by simp
qed

definition view_set :: "(nat \<rightharpoonup> frame_state) \<Rightarrow> memory_frame_range \<Rightarrow> frame_state \<Rightarrow> nat \<rightharpoonup> frame_state" where
  "view_set view r st = (\<lambda>p. if p \<in> mfr_pages r then Some st else view p)"

lemma fa_reserve_contiguous_run:
  fixes owner :: frame_owner
  assumes wf: "fa_wf fa" and n: "0 < n" and sz: "unat size_bytes = n * 4096"
    and run: "contiguous_free_run fa n = (Ok (Some i) :: usize option kernel_result)" and at: "run_at (fa_frames fa) n i"
  defines "r \<equiv> \<lparr>mfr_start = fe_paddr (fa_frames fa ! i), mfr_end = fe_paddr (fa_frames fa ! i) + size_bytes\<rparr>"
    and "fa' \<equiv> \<lparr>fa_frames = allocated_at owner {i..<i + n} (fa_frames fa)\<rparr>"
  shows "fa_reserve_contiguous owner size_bytes fa = (Ok r, fa')"
    and "mfr_ok r" and "unat (mfr_end r) = unat (mfr_start r) + unat size_bytes"
    and "\<forall>p \<in> mfr_pages r. fa_view fa p = Some Free"
    and "fa_view fa' = view_set (fa_view fa) r (Allocated owner)"
    and "fa_wf fa'" and "fa_generations fa' = fa_generations fa"
proof -
  have le: "i + n \<le> length (fa_frames fa)" using at unfolding run_at_def by blast
  note rr = run_range [OF wf n at sz, folded r_def]
  show ok: "mfr_ok r" using rr(2) by (simp add: r_def)
  show "unat (mfr_end r) = unat (mfr_start r) + unat size_bytes" using rr(4) by (simp add: r_def)
  have pages: "mfr_pages r = {fe_page (fa_frames fa ! i) ..< fe_page (fa_frames fa ! i) + n}"
    using rr(3) by (simp add: r_def)
  have fc: "frame_count_for_size size_bytes = Ok n" using n sz by (simp add: size_frames)
  have "set_allocated owner [i..<i + n] (fa_frames fa)
      = (Ok (allocated_at owner {i..<i + n} (fa_frames fa)) :: frame_entry list kernel_result)"
    using set_allocated_spec [of "[i..<i + n]" "fa_frames fa"] le by simp
  moreover have "mfr_new (fe_paddr (fa_frames fa ! i)) (fe_paddr (fa_frames fa ! i) + size_bytes) = Ok r"
    using ok by (simp add: result_simps r_def)
  ultimately show "fa_reserve_contiguous owner size_bytes fa = (Ok r, fa')"
    using fc run rr(1) le n by (simp add: fa_reserve_contiguous_def vec_get_def fa'_def)
  show free: "\<forall>p \<in> mfr_pages r. fa_view fa p = Some Free"
    using run_at_free_run(1) [OF wf n at] unfolding pages free_run_def by (auto simp: nat_le_iff_add)
  have paddrs: "map fe_paddr (allocated_at owner {i..<i + n} (fa_frames fa)) = map fe_paddr (fa_frames fa)"
    by (rule nth_equalityI) auto
  then show "fa_wf fa'" unfolding fa'_def by (rule fa_wf_same_paddrs [OF wf])
  show "fa_generations fa' = fa_generations fa"
    unfolding fa_generations_def fa'_def by (rule nth_equalityI) auto
  show "fa_view fa' = view_set (fa_view fa) r (Allocated owner)"
    unfolding fa'_def view_set_def
  proof (rule fa_view_update [OF wf paddrs])
    fix j assume "j < length (allocated_at owner {i..<i + n} (fa_frames fa))"
    then show "fe_state (allocated_at owner {i..<i + n} (fa_frames fa) ! j) =
        (if fe_page (fa_frames fa ! j) \<in> mfr_pages r then Allocated owner else fe_state (fa_frames fa ! j))"
      using run_indices [OF wf at, of j] unfolding pages by simp
  next
    show "mfr_pages r \<subseteq> dom (fa_view fa)" using free by auto
  qed
qed

lemma fa_reserve_contiguous_cases:
  assumes wf: "fa_wf fa"
  obtains (ok) r fa' where "fa_reserve_contiguous owner size_bytes fa = (Ok r, fa')"
      "mfr_ok r" "unat (mfr_end r) = unat (mfr_start r) + unat size_bytes"
      "\<forall>p \<in> mfr_pages r. fa_view fa p = Some Free"
      "fa_view fa' = view_set (fa_view fa) r (Allocated owner)"
      "fa_wf fa'" "fa_generations fa' = fa_generations fa" "size_bytes \<noteq> 0" "unat size_bytes mod 4096 = 0"
  | (bad) "fa_reserve_contiguous owner size_bytes fa = (Err InvalidArgument, fa)"
      "size_bytes = 0 \<or> unat size_bytes mod 4096 \<noteq> 0"
  | (full) "fa_reserve_contiguous owner size_bytes fa = (Err NoMemory, fa)"
      "size_bytes \<noteq> 0" "unat size_bytes mod 4096 = 0"
      "\<forall>p. \<not> free_run (fa_view fa) p (unat size_bytes div 4096)"
proof (cases "frame_count_for_size size_bytes")
  case (Ok n)
  then have n: "0 < n" and sz: "unat size_bytes = n * 4096" by (simp_all add: size_frames)
  then have nz: "size_bytes \<noteq> 0" "unat size_bytes mod 4096 = 0" by auto
  obtain x where x: "contiguous_free_run fa n = (Ok x :: usize option kernel_result)"
    "\<forall>i. x = Some i \<longrightarrow> run_at (fa_frames fa) n i" "x = None \<longleftrightarrow> (\<forall>i. \<not> run_at (fa_frames fa) n i)"
    using contiguous_free_run_spec [OF wf n] by blast
  show ?thesis
  proof (cases x)
    case None
    then have "fa_reserve_contiguous owner size_bytes fa = (Err NoMemory, fa)"
      using Ok x(1) by (simp add: fa_reserve_contiguous_def)
    moreover have "\<forall>p. \<not> free_run (fa_view fa) p (unat size_bytes div 4096)"
      using None x(3) run_at_free_run(2) [OF wf n] sz by fastforce
    ultimately show ?thesis using nz by (rule_tac full)
  next
    case (Some i)
    with x have run: "contiguous_free_run fa n = (Ok (Some i) :: usize option kernel_result)"
      and at: "run_at (fa_frames fa) n i" by auto
    show ?thesis by (rule ok [OF fa_reserve_contiguous_run [OF wf n sz run at] nz])
  qed
next
  case (Err e)
  then have fc: "frame_count_for_size size_bytes = Err InvalidArgument"
    and cond: "size_bytes = 0 \<or> unat size_bytes mod 4096 \<noteq> 0" by (simp_all only: size_frames)
  from fc have "fa_reserve_contiguous owner size_bytes fa = (Err InvalidArgument, fa)"
    by (simp add: fa_reserve_contiguous_def)
  then show ?thesis using cond by (rule bad)
next
  case Panic
  then show ?thesis by (simp add: size_frames)
qed

definition fa_headroom :: "frame_allocator \<Rightarrow> bool" where
  "fa_headroom fa \<longleftrightarrow> list_all (\<lambda>g. unat g + 1 < 2 ^ 64) (fa_generations fa)"

definition released_entry :: "frame_entry \<Rightarrow> frame_entry" where
  "released_entry e = e\<lparr>fe_state := Free, fe_generation := fe_generation e + 1\<rparr>"

lemma free_matching_spec:
  "free_matching r es =
     (if list_ex (\<lambda>e. in_frame_range r e \<and> 2 ^ 64 \<le> unat (fe_generation e) + 1) es then Panic
      else Ok (map (\<lambda>e. if in_frame_range r e then released_entry e else e) es))"
proof (induction es)
  case Nil
  then show ?case by simp
next
  case (Cons e es)
  then show ?case
    by (auto simp: next_generation_def checked_add_def released_entry_def)
qed

lemma free_matching_headroom:
  assumes "fa_headroom fa"
  shows "free_matching r (fa_frames fa)
    = Ok (map (\<lambda>e. if in_frame_range r e then released_entry e else e) (fa_frames fa))"
proof -
  have "\<not> list_ex (\<lambda>e. in_frame_range r e \<and> 2 ^ 64 \<le> unat (fe_generation e) + 1) (fa_frames fa)"
    using assms by (auto simp: fa_headroom_def fa_generations_def list_all_iff list_ex_iff not_le)
  then show ?thesis by (simp only: free_matching_spec if_False)
qed

text \<open>The entries in a range are counted by its pages.\<close>

lemma count_in_range:
  assumes wf: "fa_wf fa" and r: "mfr_ok r"
  shows "count_where (in_frame_range r) (fa_frames fa) = card (mfr_pages r)
    \<longleftrightarrow> mfr_pages r \<subseteq> dom (fa_view fa)"
proof -
  have "filter (in_frame_range r) (fa_frames fa) = filter (\<lambda>e. fe_page e \<in> mfr_pages r) (fa_frames fa)"
    using wf in_frame_range_page [OF r] by (intro filter_cong) (auto simp: fa_wf_def list_all_iff)
  then have "count_where (in_frame_range r) (fa_frames fa)
      = length (map fe_page (filter (\<lambda>e. fe_page e \<in> mfr_pages r) (fa_frames fa)))"
    by (simp add: count_where_def)
  also have "map fe_page (filter (\<lambda>e. fe_page e \<in> mfr_pages r) (fa_frames fa))
      = filter (\<lambda>p. p \<in> mfr_pages r) (map fe_page (fa_frames fa))"
    by (simp add: filter_map comp_def)
  also have "length \<dots> = card (mfr_pages r \<inter> set (map fe_page (fa_frames fa)))"
    using fa_wf_distinct [OF wf] distinct_card [of "filter (\<lambda>p. p \<in> mfr_pages r) (map fe_page (fa_frames fa))"]
    by (simp only: distinct_filter set_filter Int_def) (simp add: conj_commute)
  also have "set (map fe_page (fa_frames fa)) = dom (fa_view fa)"
    by (simp add: fa_view_def dom_map_of_conv_image_fst image_image)
  finally have "count_where (in_frame_range r) (fa_frames fa) = card (mfr_pages r \<inter> dom (fa_view fa))" .
  moreover have "finite (mfr_pages r)" by (simp add: mfr_pages_def)
  then have "card (mfr_pages r \<inter> dom (fa_view fa)) = card (mfr_pages r)
      \<longleftrightarrow> mfr_pages r \<inter> dom (fa_view fa) = mfr_pages r"
    using card_subset_eq [of "mfr_pages r" "mfr_pages r \<inter> dom (fa_view fa)"] by auto
  ultimately show ?thesis by auto
qed

lemma others_in_range:
  assumes wf: "fa_wf fa" and r: "mfr_ok r" and cover: "mfr_pages r \<subseteq> dom (fa_view fa)"
  shows "list_ex (\<lambda>e. fe_state e \<noteq> Allocated owner) (filter (in_frame_range r) (fa_frames fa))
    \<longleftrightarrow> (\<exists>p \<in> mfr_pages r. fa_view fa p \<noteq> Some (Allocated owner))"
proof -
  have e: "fa_view fa (fe_page e) = Some (fe_state e) \<and> (in_frame_range r e \<longleftrightarrow> fe_page e \<in> mfr_pages r)"
    if "e \<in> set (fa_frames fa)" for e
    using that wf in_frame_range_page [OF r] fa_view_nth [OF wf]
    by (auto simp: fa_wf_def list_all_iff in_set_conv_nth)
  have some_entry: "\<exists>e \<in> set (fa_frames fa). fe_page e = p" if "p \<in> mfr_pages r" for p
  proof -
    obtain st where "fa_view fa p = Some st" using cover \<open>p \<in> mfr_pages r\<close> by blast
    then show ?thesis using fa_view_Some [OF wf, of p st] nth_mem by blast
  qed
  show ?thesis
  proof
    assume "list_ex (\<lambda>e. fe_state e \<noteq> Allocated owner) (filter (in_frame_range r) (fa_frames fa))"
    then obtain x where "x \<in> set (fa_frames fa)" "in_frame_range r x" "fe_state x \<noteq> Allocated owner"
      by (auto simp: list_ex_iff)
    then have "fe_page x \<in> mfr_pages r" and "fa_view fa (fe_page x) \<noteq> Some (Allocated owner)"
      using e [of x] by auto
    then show "\<exists>p \<in> mfr_pages r. fa_view fa p \<noteq> Some (Allocated owner)" by blast
  next
    assume "\<exists>p \<in> mfr_pages r. fa_view fa p \<noteq> Some (Allocated owner)"
    then obtain p where p: "p \<in> mfr_pages r" "fa_view fa p \<noteq> Some (Allocated owner)" by blast
    then obtain x where "x \<in> set (fa_frames fa)" "fe_page x = p" using some_entry by blast
    then show "list_ex (\<lambda>e. fe_state e \<noteq> Allocated owner) (filter (in_frame_range r) (fa_frames fa))"
      using e [of x] p by (auto simp: list_ex_iff)
  qed
qed

definition fa_release :: "memory_frame_range \<Rightarrow> frame_allocator \<Rightarrow> frame_allocator" where
  "fa_release r fa =
     \<lparr>fa_frames = map (\<lambda>e. if in_frame_range r e then released_entry e else e) (fa_frames fa)\<rparr>"

lemma fa_free_range_spec:
  assumes wf: "fa_wf fa" and head: "fa_headroom fa" and r: "mfr_ok r"
  shows "fa_free_range r owner fa =
    (if \<not> mfr_pages r \<subseteq> dom (fa_view fa) then (Err InvalidArgument, fa)
     else if \<exists>p \<in> mfr_pages r. fa_view fa p \<noteq> Some (Allocated owner) then (Err MissingRights, fa)
     else (Ok (), fa_release r fa))"
proof -
  note count = count_in_range [OF wf r]
  have *: "fa_free_range r owner fa =
    (if \<not> mfr_pages r \<subseteq> dom (fa_view fa) then (Err InvalidArgument, fa)
     else if list_ex (\<lambda>e. fe_state e \<noteq> Allocated owner) (filter (in_frame_range r) (fa_frames fa))
       then (Err MissingRights, fa)
     else (Ok (), fa_release r fa))"
    using count by (simp add: fa_free_range_def mfr_frame_count_ok [OF r] usize_try_from_eq
        unat_mfr_count [OF r] free_matching_headroom [OF head] fa_release_def)
  show ?thesis
  proof (cases "mfr_pages r \<subseteq> dom (fa_view fa)")
    case True
    then show ?thesis unfolding * others_in_range [OF wf r True] by simp
  next
    case False
    then show ?thesis unfolding * by simp
  qed
qed

lemma fa_release_spec:
  assumes wf: "fa_wf fa" and r: "mfr_ok r" and cover: "mfr_pages r \<subseteq> dom (fa_view fa)"
  shows "fa_wf (fa_release r fa)" and "fa_view (fa_release r fa) = view_set (fa_view fa) r Free"
proof -
  let ?fs = "map (\<lambda>e. if in_frame_range r e then released_entry e else e) (fa_frames fa)"
  have paddrs: "map fe_paddr ?fs = map fe_paddr (fa_frames fa)"
    by (simp add: released_entry_def)
  then show "fa_wf (fa_release r fa)" unfolding fa_release_def by (rule fa_wf_same_paddrs [OF wf])
  show "fa_view (fa_release r fa) = view_set (fa_view fa) r Free"
    unfolding fa_release_def view_set_def
  proof (rule fa_view_update [OF wf paddrs _ cover])
    fix j assume j: "j < length ?fs"
    then have "in_frame_range r (fa_frames fa ! j) \<longleftrightarrow> fe_page (fa_frames fa ! j) \<in> mfr_pages r"
      using in_frame_range_page [OF r] fa_wf_nth_ok [OF wf] by simp
    with j show "fe_state (?fs ! j) =
        (if fe_page (fa_frames fa ! j) \<in> mfr_pages r then Free else fe_state (fa_frames fa ! j))"
      by (simp add: released_entry_def)
  qed
qed

section \<open>The interface the kernel's objects rely on\<close>

text \<open>
  A source of frame ranges: what a reservation and a release do to the view of the pages.  A lease is
  a range together with its owner; the client lemmas say that a new lease never overlaps an existing
  one and that ending a lease leaves the others intact.
\<close>

locale frame_source =
  fixes wf :: "'s \<Rightarrow> bool"
    and headroom :: "'s \<Rightarrow> bool"
    and view :: "'s \<Rightarrow> nat \<rightharpoonup> frame_state"
    and reserve :: "frame_owner \<Rightarrow> u64 \<Rightarrow> 's \<Rightarrow> memory_frame_range kernel_result \<times> 's"
    and release :: "memory_frame_range \<Rightarrow> frame_owner \<Rightarrow> 's \<Rightarrow> unit kernel_result \<times> 's"
  assumes reserve_Ok: "wf s \<Longrightarrow> reserve owner n s = (Ok r, s') \<Longrightarrow>
      wf s' \<and> mfr_ok r \<and> unat (mfr_end r) = unat (mfr_start r) + unat n
      \<and> (\<forall>p \<in> mfr_pages r. view s p = Some Free) \<and> view s' = view_set (view s) r (Allocated owner)
      \<and> (headroom s \<longrightarrow> headroom s')"
    and reserve_Err: "wf s \<Longrightarrow> reserve owner n s = (Err e, s') \<Longrightarrow> s' = s"
    and reserve_total: "wf s \<Longrightarrow> reserve owner n s \<noteq> (Panic, s')"
    and release_owned: "wf s \<Longrightarrow> headroom s \<Longrightarrow> mfr_ok r
      \<Longrightarrow> \<forall>p \<in> mfr_pages r. view s p = Some (Allocated owner)
      \<Longrightarrow> \<exists>s'. release r owner s = (Ok (), s') \<and> wf s' \<and> view s' = view_set (view s) r Free"
    and release_foreign: "wf s \<Longrightarrow> headroom s \<Longrightarrow> mfr_ok r \<Longrightarrow> p \<in> mfr_pages r
      \<Longrightarrow> view s p \<noteq> Some (Allocated owner)
      \<Longrightarrow> release r owner s = (Err InvalidArgument, s) \<or> release r owner s = (Err MissingRights, s)"
begin

definition leased :: "'s \<Rightarrow> (frame_owner \<times> memory_frame_range) set \<Rightarrow> bool" where
  "leased s L \<longleftrightarrow>
     (\<forall>(owner, r) \<in> L. mfr_ok r \<and> (\<forall>p \<in> mfr_pages r. view s p = Some (Allocated owner)))
     \<and> (\<forall>p owner. view s p = Some (Allocated owner) \<longrightarrow> (\<exists>r. (owner, r) \<in> L \<and> p \<in> mfr_pages r))"

lemma leasedI:
  "(\<And>o' r'. (o', r') \<in> L \<Longrightarrow> mfr_ok r')
    \<Longrightarrow> (\<And>o' r' p. (o', r') \<in> L \<Longrightarrow> p \<in> mfr_pages r' \<Longrightarrow> view s p = Some (Allocated o'))
    \<Longrightarrow> (\<And>p o'. view s p = Some (Allocated o') \<Longrightarrow> \<exists>r'. (o', r') \<in> L \<and> p \<in> mfr_pages r')
    \<Longrightarrow> leased s L"
  unfolding leased_def by blast

lemma leased_empty: "leased s {} \<longleftrightarrow> (\<forall>p owner. view s p \<noteq> Some (Allocated owner))"
  by (simp add: leased_def)

lemma leased_page: "leased s L \<Longrightarrow> view s p = Some (Allocated owner) \<Longrightarrow> \<exists>r. (owner, r) \<in> L \<and> p \<in> mfr_pages r"
  unfolding leased_def by blast

lemma leased_view_eq: "view s' = view s \<Longrightarrow> leased s' L \<longleftrightarrow> leased s L"
  by (simp add: leased_def)

lemma leased_disjoint:
  assumes "leased s L" and "(o1, r1) \<in> L" and "(o2, r2) \<in> L" and "o1 \<noteq> o2"
  shows "mfr_pages r1 \<inter> mfr_pages r2 = {}"
proof (rule ccontr)
  assume "mfr_pages r1 \<inter> mfr_pages r2 \<noteq> {}"
  then obtain p where "p \<in> mfr_pages r1" and "p \<in> mfr_pages r2" by blast
  then have "view s p = Some (Allocated o1)" and "view s p = Some (Allocated o2)"
    using assms(1-3) unfolding leased_def by blast+
  with assms(4) show False by simp
qed

lemma reserve_leased:
  assumes "wf s" and "reserve owner n s = (Ok r, s')" and "leased s L"
  shows "wf s'" and "leased s' (insert (owner, r) L)"
    and "(o', r') \<in> L \<Longrightarrow> mfr_pages r \<inter> mfr_pages r' = {}"
proof -
  note res = reserve_Ok [OF assms(1,2)]
  show "wf s'" using res by blast
  have apart: "mfr_pages r \<inter> mfr_pages r' = {}" if "(o', r') \<in> L" for o' r'
  proof (rule ccontr)
    assume "mfr_pages r \<inter> mfr_pages r' \<noteq> {}"
    then obtain p where "p \<in> mfr_pages r" and "p \<in> mfr_pages r'" by blast
    then have "view s p = Some Free" and "view s p = Some (Allocated o')"
      using that assms(3) res unfolding leased_def by blast+
    then show False by simp
  qed
  then show "(o', r') \<in> L \<Longrightarrow> mfr_pages r \<inter> mfr_pages r' = {}" .
  show "leased s' (insert (owner, r) L)"
  proof (rule leasedI)
    fix o' r' assume "(o', r') \<in> insert (owner, r) L"
    then show "mfr_ok r'" using res assms(3) by (auto simp: leased_def)
  next
    fix o' r' p assume in_ins: "(o', r') \<in> insert (owner, r) L" and p: "p \<in> mfr_pages r'"
    show "view s' p = Some (Allocated o')"
    proof (cases "(o', r') = (owner, r)")
      case True
      then show ?thesis using res p by (simp add: view_set_def)
    next
      case False
      then have L: "(o', r') \<in> L" using in_ins by auto
      then have "p \<notin> mfr_pages r" using apart p by blast
      then show ?thesis using res L p assms(3) by (auto simp: view_set_def leased_def)
    qed
  next
    fix p o' assume "view s' p = Some (Allocated o')"
    then show "\<exists>r'. (o', r') \<in> insert (owner, r) L \<and> p \<in> mfr_pages r'"
      using res leased_page [OF assms(3), of p o'] by (cases "p \<in> mfr_pages r") (auto simp: view_set_def)
  qed
qed

lemma release_leased:
  assumes "wf s" and "headroom s" and "leased s L" and "(owner, r) \<in> L"
    and only: "\<And>r'. (owner, r') \<in> L \<Longrightarrow> r' = r"
  shows "\<exists>s'. release r owner s = (Ok (), s') \<and> wf s' \<and> view s' = view_set (view s) r Free
    \<and> leased s' (L - {(owner, r)})"
proof -
  have own: "mfr_ok r" "\<forall>p \<in> mfr_pages r. view s p = Some (Allocated owner)"
    using assms(3,4) by (auto simp: leased_def)
  obtain s' where s': "release r owner s = (Ok (), s')" "wf s'" "view s' = view_set (view s) r Free"
    using release_owned [OF assms(1,2) own] by blast
  have "leased s' (L - {(owner, r)})"
  proof (rule leasedI)
    fix o' r' assume "(o', r') \<in> L - {(owner, r)}"
    then show "mfr_ok r'" using assms(3) by (auto simp: leased_def)
  next
    fix o' r' p assume "(o', r') \<in> L - {(owner, r)}" and p: "p \<in> mfr_pages r'"
    then have L: "(o', r') \<in> L" "\<not> (o' = owner \<and> r' = r)" by auto
    then have "o' \<noteq> owner" using only by blast
    then have "p \<notin> mfr_pages r" using leased_disjoint [OF assms(3) L(1) assms(4)] p by blast
    then show "view s' p = Some (Allocated o')"
      using assms(3) L(1) p s'(3) by (auto simp: leased_def view_set_def)
  next
    fix p o' assume at: "view s' p = Some (Allocated o')"
    then have p: "p \<notin> mfr_pages r" "view s p = Some (Allocated o')"
      using s'(3) by (auto simp: view_set_def split: if_splits)
    then show "\<exists>r'. (o', r') \<in> L - {(owner, r)} \<and> p \<in> mfr_pages r'"
      using leased_page [OF assms(3) p(2)] by blast
  qed
  with s' show ?thesis by blast
qed

text \<open>Reserving and releasing a range is the identity on the view.\<close>

lemma reserve_release:
  assumes "wf s" and "headroom s" and "reserve owner n s = (Ok r, s')"
  shows "\<exists>s''. release r owner s' = (Ok (), s'') \<and> wf s'' \<and> view s'' = view s"
proof -
  note res = reserve_Ok [OF assms(1,3)]
  obtain s'' where "release r owner s' = (Ok (), s'')" "wf s''" "view s'' = view_set (view s') r Free"
    using release_owned [of s' r owner] res assms(2) by (auto simp: view_set_def)
  moreover from this have "view s'' = view s" using res by (auto simp: view_set_def fun_eq_iff)
  ultimately show ?thesis by blast
qed

end

interpretation frames: frame_source fa_wf fa_headroom fa_view fa_reserve_contiguous fa_free_range
proof unfold_locales
  fix s :: frame_allocator and owner n r s'
  assume wf: "fa_wf s" and "fa_reserve_contiguous owner n s = (Ok r, s')"
  then show "fa_wf s' \<and> mfr_ok r \<and> unat (mfr_end r) = unat (mfr_start r) + unat n
      \<and> (\<forall>p \<in> mfr_pages r. fa_view s p = Some Free) \<and> fa_view s' = view_set (fa_view s) r (Allocated owner)
      \<and> (fa_headroom s \<longrightarrow> fa_headroom s')"
    by (cases rule: fa_reserve_contiguous_cases [OF wf, of owner n]) (auto simp: fa_headroom_def)
next
  fix s :: frame_allocator and owner n e s'
  assume wf: "fa_wf s" and "fa_reserve_contiguous owner n s = (Err e, s')"
  then show "s' = s" by (cases rule: fa_reserve_contiguous_cases [OF wf, of owner n]) auto
next
  fix s :: frame_allocator and owner n s'
  assume wf: "fa_wf s"
  then show "fa_reserve_contiguous owner n s \<noteq> (Panic, s')"
    by (cases rule: fa_reserve_contiguous_cases [OF wf, of owner n]) auto
next
  fix s :: frame_allocator and r owner
  assume a: "fa_wf s" "fa_headroom s" "mfr_ok r" "\<forall>p \<in> mfr_pages r. fa_view s p = Some (Allocated owner)"
  then have cover: "mfr_pages r \<subseteq> dom (fa_view s)" by auto
  then show "\<exists>s'. fa_free_range r owner s = (Ok (), s') \<and> fa_wf s' \<and> fa_view s' = view_set (fa_view s) r Free"
    using a fa_release_spec [OF a(1,3) cover] by (simp add: fa_free_range_spec)
next
  fix s :: frame_allocator and r p owner
  assume "fa_wf s" "fa_headroom s" "mfr_ok r" "p \<in> mfr_pages r" "fa_view s p \<noteq> Some (Allocated owner)"
  then show "fa_free_range r owner s = (Err InvalidArgument, s) \<or> fa_free_range r owner s = (Err MissingRights, s)"
    by (auto simp: fa_free_range_spec)
qed

section \<open>Frame references as names\<close>

inductive fa_step :: "frame_allocator \<Rightarrow> frame_allocator \<Rightarrow> bool" where
  step_one: "fa_reserve_one owner fa = (r, fa') \<Longrightarrow> fa_step fa fa'"
| step_contiguous: "fa_reserve_contiguous owner size_bytes fa = (rng, fa') \<Longrightarrow> fa_step fa fa'"
| step_free: "fa_free frame fa = (u, fa') \<Longrightarrow> fa_step fa fa'"
| step_free_range: "fa_free_range rr owner fa = (u, fa') \<Longrightarrow> fa_step fa fa'"

inductive_cases fa_stepE: "fa_step fa fa'"

definition is_allocated :: "frame_entry \<Rightarrow> bool" where
  "is_allocated e \<longleftrightarrow> (\<exists>owner. fe_state e = Allocated owner)"

definition entry_evolves :: "frame_entry \<Rightarrow> frame_entry \<Rightarrow> bool" where
  "entry_evolves e e' \<longleftrightarrow>
     fe_generation e' = fe_generation e \<and> (is_allocated e \<longrightarrow> is_allocated e')
     \<or> fe_generation e < fe_generation e' \<and> fe_state e' = Free"

lemma entry_evolves_simps [simp]:
  "entry_evolves e e"
  "entry_evolves e (e\<lparr>fe_state := Allocated owner\<rparr>)"
  by (auto simp: entry_evolves_def is_allocated_def)

lemma entry_evolves_release:
  "fe_generation e = g \<Longrightarrow> unat g < 18446744073709551615
    \<Longrightarrow> entry_evolves e (e\<lparr>fe_state := Free, fe_generation := g + 1\<rparr>)"
  by (simp add: entry_evolves_def word_less_nat_alt unat_word_ariths)

lemma set_allocated_evolves:
  "set_allocated owner is fs = Ok fs' \<Longrightarrow> list_all2 (\<lambda>e e'. e' = e \<or> e' = e\<lparr>fe_state := Allocated owner\<rparr>) fs fs'"
proof (induction "is" arbitrary: fs fs')
  case Nil
  then show ?case by (simp add: list_all2_same)
next
  case (Cons i "is")
  then have i: "i < length fs"
    and "list_all2 (\<lambda>e e'. e' = e \<or> e' = e\<lparr>fe_state := Allocated owner\<rparr>) (fs[i := (fs ! i)\<lparr>fe_state := Allocated owner\<rparr>]) fs'"
    by (auto simp: result_simps)
  then show ?case by (auto simp: list_all2_conv_all_nth nth_list_update split: if_splits)
qed

lemma free_matching_evolves: "free_matching r fs = Ok fs' \<Longrightarrow> list_all2 entry_evolves fs fs'"
proof (induction fs arbitrary: fs')
  case Nil
  then show ?case by simp
next
  case (Cons e fs)
  then show ?case
    by (auto simp: result_simps intro: entry_evolves_release split: if_splits)
qed

lemma list_all2_evolves_update:
  "(i < length fs \<Longrightarrow> entry_evolves (fs ! i) e) \<Longrightarrow> list_all2 entry_evolves fs (fs[i := e])"
  by (cases "i < length fs") (auto simp: list_all2_conv_all_nth nth_list_update)

lemma list_all2_evolves_refl [simp]: "list_all2 entry_evolves fs fs"
  by (simp add: list_all2_same)

lemma fa_step_evolves: "fa_step fa fa' \<Longrightarrow> list_all2 entry_evolves (fa_frames fa) (fa_frames fa')"
proof (induction rule: fa_step.induct)
  case (step_one owner fa r fa')
  then show ?case
    by (auto simp: fa_reserve_one_def Let_def intro!: list_all2_evolves_update split: option.splits)
next
  case (step_contiguous owner size_bytes fa rng fa')
  have "list_all2 entry_evolves fs fs'" if "set_allocated owner is fs = (Ok fs' :: frame_entry list kernel_result)" for "is" fs fs'
    using set_allocated_evolves [OF that] by (rule list_all2_mono) auto
  with step_contiguous show ?case
    unfolding fa_reserve_contiguous_def
    by (cases rng) (auto simp: result_simps split: option.splits)
next
  case (step_free frame fa u fa')
  show ?case
  proof (cases "fa_index fa (fref_id frame)")
    case (Ok i)
    with step_free show ?thesis
      by (cases "fe_state (fa_frames fa ! i)"; cases u)
        (auto simp: fa_free_def result_simps Let_def intro!: list_all2_evolves_update entry_evolves_release
          split: if_splits)
  qed (use step_free in \<open>simp_all add: fa_free_def\<close>)
next
  case (step_free_range rr owner fa u fa')
  then show ?case
    by (cases u) (auto simp: fa_free_range_def result_simps free_matching_evolves split: if_splits)
qed

definition fa_occupied :: "frame_allocator \<Rightarrow> nat \<Rightarrow> bool" where
  "fa_occupied fa i \<longleftrightarrow> i < length (fa_frames fa) \<and> is_allocated (fa_frames fa ! i)"

definition fa_slot_generation :: "frame_allocator \<Rightarrow> nat \<Rightarrow> u64" where
  "fa_slot_generation fa i = (if i < length (fa_frames fa) then fe_generation (fa_frames fa ! i) else 0)"

lemma fa_step_nth:
  assumes "fa_step fa fa'" and "i < length (fa_frames fa)"
  shows "entry_evolves (fa_frames fa ! i) (fa_frames fa' ! i)"
  using fa_step_evolves [OF assms(1)] assms(2) by (simp add: list_all2_conv_all_nth)

lemma fa_step_length: "fa_step fa fa' \<Longrightarrow> length (fa_frames fa') = length (fa_frames fa)"
  using fa_step_evolves list_all2_lengthD by metis

interpretation frame_names: slot_arena fa_occupied fa_slot_generation fa_step
proof unfold_locales
  fix s s' i assume step: "fa_step s s'"
  note len = fa_step_length [OF step]
  show "fa_slot_generation s i \<le> fa_slot_generation s' i"
    using fa_step_nth [OF step, of i] len
    by (auto simp: fa_slot_generation_def entry_evolves_def)
next
  fix s s' i assume step: "fa_step s s'" and "fa_occupied s i" "\<not> fa_occupied s' i"
  then show "fa_slot_generation s i < fa_slot_generation s' i"
    using fa_step_nth [OF step, of i] fa_step_length [OF step]
    by (auto simp: fa_slot_generation_def fa_occupied_def entry_evolves_def)
next
  fix s s' i assume step: "fa_step s s'" and "fa_occupied s i" "fa_occupied s' i"
  then show "fa_slot_generation s' i = fa_slot_generation s i"
    using fa_step_nth [OF step, of i] fa_step_length [OF step]
    by (auto simp: fa_slot_generation_def fa_occupied_def entry_evolves_def is_allocated_def)
qed

lemma fa_steps_length: "fa_step\<^sup>*\<^sup>* fa fa' \<Longrightarrow> length (fa_frames fa') = length (fa_frames fa)"
  by (induction rule: rtranclp_induct) (auto dest: fa_step_length)

section \<open>Properties\<close>

text \<open>C30 (functional).  On a well-formed allocator a contiguous reservation returns a valid range of
  the requested size all of whose pages were free, gives exactly these pages to the owner, and keeps
  every other page and every generation; it fails exactly on an empty or unaligned size and when no
  run of free pages is long enough, changing nothing; and it never panics.\<close>

theorem reserve_contiguous_takes_a_free_run:
  assumes "fa_wf fa"
  shows "case fa_reserve_contiguous owner size_bytes fa of
      (Ok r, fa') \<Rightarrow> mfr_ok r \<and> unat (mfr_end r) = unat (mfr_start r) + unat size_bytes
        \<and> (\<forall>p \<in> mfr_pages r. fa_view fa p = Some Free)
        \<and> fa_view fa' = view_set (fa_view fa) r (Allocated owner)
        \<and> fa_wf fa' \<and> fa_generations fa' = fa_generations fa
    | (Err InvalidArgument, fa') \<Rightarrow> fa' = fa \<and> (size_bytes = 0 \<or> unat size_bytes mod 4096 \<noteq> 0)
    | (Err NoMemory, fa') \<Rightarrow> fa' = fa \<and> size_bytes \<noteq> 0 \<and> unat size_bytes mod 4096 = 0
        \<and> (\<forall>p. \<not> free_run (fa_view fa) p (unat size_bytes div 4096))
    | _ \<Rightarrow> False"
  by (cases rule: fa_reserve_contiguous_cases [OF assms, of owner size_bytes]) simp_all

text \<open>Freeing a valid range succeeds exactly when every page of it is allocated to
  the given owner, and then frees these pages and no other; otherwise nothing changes.\<close>

lemma free_range_frees_exactly_the_owners_pages:
  assumes "fa_wf fa" and "fa_headroom fa" and "mfr_ok r"
  shows "case fa_free_range r owner fa of
      (Ok _, fa') \<Rightarrow> (\<forall>p \<in> mfr_pages r. fa_view fa p = Some (Allocated owner))
        \<and> fa_view fa' = view_set (fa_view fa) r Free \<and> fa_wf fa'
    | (Err MissingRights, fa') \<Rightarrow> fa' = fa \<and> mfr_pages r \<subseteq> dom (fa_view fa)
        \<and> (\<exists>p \<in> mfr_pages r. fa_view fa p \<noteq> Some (Allocated owner))
    | (Err InvalidArgument, fa') \<Rightarrow> fa' = fa \<and> \<not> mfr_pages r \<subseteq> dom (fa_view fa)
    | _ \<Rightarrow> False"
  using fa_release_spec [OF assms(1,3)] by (auto simp: fa_free_range_spec [OF assms])

text \<open>Freeing a range just reserved gives back the same view of memory.\<close>

lemma reserve_then_free_restores:
  assumes "fa_wf fa" and "fa_headroom fa" and "fa_reserve_contiguous owner size_bytes fa = (Ok r, fa')"
  shows "\<exists>fa''. fa_free_range r owner fa' = (Ok (), fa'') \<and> fa_wf fa'' \<and> fa_view fa'' = fa_view fa"
  using assms by (rule frames.reserve_release)

text \<open>C34 (safety).  Once a frame reference has been freed it is stale for ever: no sequence of
  reservations and releases, with however much reuse of the frame, makes it free the frame again.\<close>

theorem freed_frame_reference_is_stale:
  assumes "fa_free frame fa = (Ok (), fa1)" and "fa_step\<^sup>*\<^sup>* fa1 fa2"
  shows "fa_free frame fa2 = (Err StaleHandle, fa2)"
proof -
  let ?i = "as_usize (fref_id frame)"
  from assms(1) have i: "?i < length (fa_frames fa)"
    and res: "frame_names.resolves fa ?i (fref_generation frame)"
    and free: "fe_state (fa_frames fa1 ! ?i) = Free"
    by (auto simp: fa_free_def fa_index_def Let_def result_simps frame_names.resolves_def fa_occupied_def
        is_allocated_def fa_slot_generation_def split: if_splits frame_state.splits)
  have s1: "fa_step fa fa1" using assms(1) by (rule step_free)
  have "\<not> frame_names.resolves fa1 ?i (fref_generation frame)"
    using free by (simp add: frame_names.resolves_def fa_occupied_def is_allocated_def)
  with frame_names.resolves_or_passed [OF r_into_rtranclp [of fa_step fa fa1, OF s1] res]
  have "fref_generation frame < fa_slot_generation fa1 ?i" by simp
  also have "\<dots> \<le> fa_slot_generation fa2 ?i"
    using assms(2) by (rule frame_names.generation_mono_run)
  finally have "fref_generation frame \<noteq> fa_slot_generation fa2 ?i" by simp
  moreover have "?i < length (fa_frames fa2)"
    using i fa_step_length [OF s1] fa_steps_length [OF assms(2)] by simp
  ultimately show ?thesis
    by (simp add: fa_free_def fa_index_def fa_slot_generation_def Let_def)
qed

section \<open>Instances\<close>

definition demo_frames :: frame_allocator where
  "demo_frames = \<lparr>fa_frames = map (\<lambda>p. \<lparr>fe_paddr = of_nat (p * 4096), fe_generation = 1, fe_state = Free\<rparr>) [1, 2, 4]\<rparr>"

lemma demo_frames_ok: "fa_wf demo_frames" "fa_headroom demo_frames"
  by (simp_all add: demo_frames_def fa_wf_def fa_headroom_def fa_generations_def entry_ok_def fe_page_def)

definition demo_reserved :: frame_allocator where
  "demo_reserved = \<lparr>fa_frames = [\<lparr>fe_paddr = 4096, fe_generation = 1, fe_state = Allocated OwnerKernel\<rparr>,
     \<lparr>fe_paddr = 8192, fe_generation = 1, fe_state = Allocated OwnerKernel\<rparr>,
     \<lparr>fe_paddr = 16384, fe_generation = 1, fe_state = Free\<rparr>]\<rparr>"

definition demo_range :: memory_frame_range where
  "demo_range = \<lparr>mfr_start = 4096, mfr_end = 12288\<rparr>"

lemma demo_reserve: "fa_reserve_contiguous OwnerKernel 8192 demo_frames = (Ok demo_range, demo_reserved)"
  by code_simp

lemma demo_reserved_ok: "fa_wf demo_reserved" "fa_headroom demo_reserved" "mfr_ok demo_range"
  by (simp_all add: demo_reserved_def fa_wf_def fa_headroom_def fa_generations_def entry_ok_def fe_page_def
      demo_range_def mfr_ok_def)

lemma fa_from_available_ranges_spec_witness:
  "\<exists>fa. fa_from_available_ranges (\<lambda>_ _. True) [demo_range] = Ok fa \<and> fa_wf fa \<and> fa_view fa 2 = Some Free"
proof -
  have "fa_from_available_ranges (\<lambda>_ _. True) [demo_range] =
      Ok \<lparr>fa_frames = [\<lparr>fe_paddr = 4096, fe_generation = 1, fe_state = Free\<rparr>,
        \<lparr>fe_paddr = 8192, fe_generation = 1, fe_state = Free\<rparr>]\<rparr>" by code_simp
  moreover have "2 \<in> mfr_pages demo_range" by (simp add: mfr_pages_def demo_range_def)
  ultimately show ?thesis
    using fa_from_available_ranges_spec [of "[demo_range]" "\<lambda>_ _. True"] demo_reserved_ok(3) by simp
qed

theorem reserve_contiguous_takes_a_free_run_witness:
  "fa_view demo_reserved = view_set (fa_view demo_frames) demo_range (Allocated OwnerKernel)"
  using reserve_contiguous_takes_a_free_run [OF demo_frames_ok(1), where owner = OwnerKernel and size_bytes = 8192]
  by (simp add: demo_reserve)

lemma free_range_frees_exactly_the_owners_pages_witness:
  "\<exists>fa'. fa_free_range demo_range OwnerKernel demo_reserved = (Ok (), fa')
     \<and> fa_view fa' = view_set (fa_view demo_reserved) demo_range Free"
proof -
  have "fst (fa_free_range demo_range OwnerKernel demo_reserved) = Ok ()" by code_simp
  then show ?thesis
    using free_range_frees_exactly_the_owners_pages [OF demo_reserved_ok, where owner = OwnerKernel]
    by (cases "fa_free_range demo_range OwnerKernel demo_reserved") simp
qed

lemma reserve_then_free_restores_witness:
  "\<exists>fa''. fa_free_range demo_range OwnerKernel demo_reserved = (Ok (), fa'') \<and> fa_wf fa''
     \<and> fa_view fa'' = fa_view demo_frames"
  by (rule reserve_then_free_restores [OF demo_frames_ok demo_reserve])

theorem freed_frame_reference_is_stale_witness:
  "fa_free \<lparr>fref_id = 0, fref_generation = 1, fref_paddr = 4096, fref_owner = OwnerKernel\<rparr>
     (snd (fa_reserve_one OwnerKernel
       (snd (fa_free \<lparr>fref_id = 0, fref_generation = 1, fref_paddr = 4096, fref_owner = OwnerKernel\<rparr> demo_reserved))))
   = (Err StaleHandle, snd (fa_reserve_one OwnerKernel
       (snd (fa_free \<lparr>fref_id = 0, fref_generation = 1, fref_paddr = 4096, fref_owner = OwnerKernel\<rparr> demo_reserved))))"
    (is "fa_free ?f ?fa2 = _")
proof -
  let ?fa1 = "snd (fa_free ?f demo_reserved)"
  have "fst (fa_free ?f demo_reserved) = Ok ()" by code_simp
  then have free: "fa_free ?f demo_reserved = (Ok (), ?fa1)" by (simp add: prod_eq_iff)
  have "fa_step ?fa1 ?fa2" by (rule step_one [of OwnerKernel _ "fst (fa_reserve_one OwnerKernel ?fa1)"]) simp
  then show ?thesis by (intro freed_frame_reference_is_stale [OF free] r_into_rtranclp)
qed

end
