(* ===== verification/Ostd_Cpu.thy ===== *)
theory Ostd_Cpu
  imports Prelude
begin

text \<open>
  Processor topology of \<^verbatim>\<open>ostd/src/cpu.rs\<close>: the snapshot of the active processors, the target
  sets that a request names, and their expansion to concrete processors.  The const generic \<open>N\<close>
  is an argument where an array is created and the length of the array elsewhere.
\<close>

type_synonym cpu_id = u32
type_synonym cpu_generation = u64

datatype cpu_set = AllActive | One cpu_id

datatype cpu_topology_error = EmptyTopology | TooManyCpus | DuplicateCpu | UnknownCpu

record topology_snapshot =
  ts_active :: "cpu_id option list"
  ts_active_count :: usize

record target_cpu_set =
  tcs_cpus :: "cpu_id option list"
  tcs_count :: usize

text \<open>The loop of \<open>from_active\<close> over the processors and their indices.\<close>

fun from_active_loop ::
  "cpu_id list \<Rightarrow> nat \<Rightarrow> cpu_id option list \<Rightarrow> (cpu_topology_error, cpu_id option list) result" where
  "from_active_loop [] index active = Ok active"
| "from_active_loop (cpu # cpus) index active =
     (if length active < index then Panic
      else if Some cpu \<in> set (take index active) then Err DuplicateCpu
      else if index < length active then from_active_loop cpus (Suc index) (active[index := Some cpu])
      else Panic)"

definition from_active :: "nat \<Rightarrow> cpu_id list \<Rightarrow> (cpu_topology_error, topology_snapshot) result" where
  "from_active n cpus =
     (if cpus = [] then Err EmptyTopology
      else if n < length cpus then Err TooManyCpus
      else rbind (from_active_loop cpus 0 (replicate n None)) (\<lambda>active.
           Ok \<lparr>ts_active = active, ts_active_count = length cpus\<rparr>))"

definition active_cpus :: "topology_snapshot \<Rightarrow> cpu_id list" where
  "active_cpus t = List.map_filter id (take (ts_active_count t) (ts_active t))"

definition expand :: "topology_snapshot \<Rightarrow> cpu_set \<Rightarrow> (cpu_topology_error, target_cpu_set) result" where
  "expand t cs =
     (case cs of
        AllActive \<Rightarrow> Ok \<lparr>tcs_cpus = ts_active t, tcs_count = ts_active_count t\<rparr>
      | One cpu \<Rightarrow>
          (if \<not> list_ex (\<lambda>active. active = cpu) (active_cpus t) then Err UnknownCpu
           else if length (ts_active t) = 0 then Panic
           else Ok \<lparr>tcs_cpus = (replicate (length (ts_active t)) None)[0 := Some cpu], tcs_count = 1\<rparr>))"

definition target_cpus :: "target_cpu_set \<Rightarrow> cpu_id list" where
  "target_cpus t = List.map_filter id (take (tcs_count t) (tcs_cpus t))"

definition target_contains :: "target_cpu_set \<Rightarrow> cpu_id \<Rightarrow> bool" where
  "target_contains t cpu = list_ex (\<lambda>target. target = cpu) (target_cpus t)"

section \<open>A snapshot holds exactly the processors it was built from\<close>

lemma map_filter_id_Some [simp]: "List.map_filter id (map Some xs) = xs"
  by (simp add: List.map_filter_def comp_def)

lemma from_active_loop_spec:
  assumes "index = length done'" and "index + length cpus \<le> n" and "distinct done'"
  shows "from_active_loop cpus index (map Some done' @ replicate (n - index) None) =
    (if distinct (done' @ cpus) then Ok (map Some (done' @ cpus) @ replicate (n - index - length cpus) None)
     else Err DuplicateCpu)"
  using assms
proof (induction cpus arbitrary: index done')
  case Nil
  then show ?case by simp
next
  case (Cons cpu cpus)
  let ?a = "map Some done' @ replicate (n - index) None"
  have mem: "Some cpu \<in> set (take index ?a) \<longleftrightarrow> cpu \<in> set done'" using Cons.prems(1) by auto
  show ?case
  proof (cases "cpu \<in> set done'")
    case True
    with mem Cons.prems show ?thesis by simp
  next
    case False
    obtain k where k: "n - index = Suc k" using Cons.prems(2) by (cases "n - index") auto
    then have "?a[index := Some cpu] = map Some (done' @ [cpu]) @ replicate (n - Suc index) None"
      using Cons.prems(1) by (simp add: list_update_append)
    moreover have "k = n - Suc index" using k by simp
    ultimately show ?thesis
      using Cons.IH [of "Suc index" "done' @ [cpu]"] Cons.prems False mem k by simp
  qed
qed

lemma from_active_eq:
  "from_active n cpus =
     (if cpus = [] then Err EmptyTopology
      else if n < length cpus then Err TooManyCpus
      else if \<not> distinct cpus then Err DuplicateCpu
      else Ok \<lparr>ts_active = map Some cpus @ replicate (n - length cpus) None, ts_active_count = length cpus\<rparr>)"
  using from_active_loop_spec [of 0 "[]" cpus n] by (auto simp: from_active_def)

lemma from_active_cpus: "from_active n cpus = Ok t \<Longrightarrow> active_cpus t = cpus"
  by (auto simp: from_active_eq active_cpus_def split: if_splits)

text \<open>A topology snapshot is built exactly from a non-empty list of at most \<open>N\<close>
  distinct processors, each other input is refused with its own error and none panics; and the
  snapshot lists the processors it was given, in order.\<close>

lemma from_active_spec:
  "from_active n cpus =
     (if cpus = [] then Err EmptyTopology
      else if n < length cpus then Err TooManyCpus
      else if \<not> distinct cpus then Err DuplicateCpu
      else Ok \<lparr>ts_active = map Some cpus @ replicate (n - length cpus) None, ts_active_count = length cpus\<rparr>)
   \<and> (case from_active n cpus of Ok t \<Rightarrow> active_cpus t = cpus | _ \<Rightarrow> True)"
  using from_active_cpus [of n cpus] by (auto simp: from_active_eq)

text \<open>On a snapshot of active processors, \<open>AllActive\<close> expands to all of them and
  \<open>One\<close> to the named processor alone, which is refused when it is not active.\<close>

lemma expand_spec:
  assumes "from_active n cpus = Ok t"
  shows "map_ok target_cpus (expand t AllActive) = Ok cpus
    \<and> map_ok target_cpus (expand t (One cpu)) = (if cpu \<in> set cpus then Ok [cpu] else Err UnknownCpu)"
proof -
  from assms have t: "t = \<lparr>ts_active = map Some cpus @ replicate (n - length cpus) None, ts_active_count = length cpus\<rparr>"
    and ne: "cpus \<noteq> []" by (auto simp: from_active_eq split: if_splits)
  have act: "active_cpus t = cpus" using assms by (rule from_active_cpus)
  have "list_ex (\<lambda>active. active = cpu) cpus \<longleftrightarrow> cpu \<in> set cpus" by (auto simp: list_ex_iff)
  moreover obtain k where "length (ts_active t) = Suc k" using ne t by (cases cpus) auto
  ultimately show ?thesis
    using act t by (auto simp: expand_def target_cpus_def List.map_filter_def)
qed

lemma expand_spec_witness:
  "map_ok target_cpus (expand \<lparr>ts_active = [Some 3, Some 5], ts_active_count = 2\<rparr> (One 7)) = Err UnknownCpu"
proof -
  have "from_active 2 [3, 5] = Ok \<lparr>ts_active = [Some 3, Some 5], ts_active_count = 2\<rparr>" by code_simp
  from expand_spec [OF this, of 7] show ?thesis by simp
qed

end
