(* ===== verification/Ostd_PageTable.thy ===== *)
theory Ostd_PageTable
  imports Ostd_Frame Ostd_Cpu
begin

text \<open>
  The page-table boundary of \<^verbatim>\<open>ostd/src/mm/page_table.rs\<close>: validated virtual ranges, the mapping and
  unmapping intents the kernel hands over, and the TLB invalidation intents.
\<close>

datatype page_table_intent_error =
    EmptyRange | UnalignedRange | RangeOverflow | RangeSizeMismatch | RightsEmpty

record virtual_range =
  vr_base :: u64
  vr_size_bytes :: u64

text \<open>\<open>PageTableRights\<close>: a \<open>bitflags\<close> type over \<open>u8\<close>; a value is its bits.\<close>

type_synonym page_table_rights = u8

definition PT_READ :: page_table_rights where "PT_READ = 1"
definition PT_WRITE :: page_table_rights where "PT_WRITE = 2"
definition PT_EXECUTE :: page_table_rights where "PT_EXECUTE = 4"

datatype page_table_update =
    MapUpdate virtual_range frame_range page_table_rights
  | UnmapUpdate virtual_range

record page_table_update_intent =
  pti_update :: page_table_update

record tlb_invalidation_intent =
  tli_range :: virtual_range
  tli_target :: cpu_set
  tli_generation :: cpu_generation

definition validate_page_range :: "u64 \<Rightarrow> u64 \<Rightarrow> (page_table_intent_error, unit) result" where
  "validate_page_range base size_bytes =
     (if size_bytes = 0 then Err EmptyRange
      else if \<not> is_page_aligned base \<or> \<not> is_page_aligned size_bytes then Err UnalignedRange
      else if checked_add base size_bytes = None then Err RangeOverflow
      else Ok ())"

definition virtual_range_new :: "u64 \<Rightarrow> u64 \<Rightarrow> (page_table_intent_error, virtual_range) result" where
  "virtual_range_new base size_bytes =
     rbind (validate_page_range base size_bytes) (\<lambda>_. Ok \<lparr>vr_base = base, vr_size_bytes = size_bytes\<rparr>)"

definition virtual_range_end :: "virtual_range \<Rightarrow> ('e, u64) result" where
  "virtual_range_end v = u64_add (vr_base v) (vr_size_bytes v)"

definition intent_map ::
  "virtual_range \<Rightarrow> frame_range \<Rightarrow> page_table_rights \<Rightarrow> (page_table_intent_error, page_table_update_intent) result" where
  "intent_map v f rights =
     (if rights = 0 then Err RightsEmpty
      else rbind (frame_range_len f) (\<lambda>n.
           if vr_size_bytes v \<noteq> n then Err RangeSizeMismatch
           else Ok \<lparr>pti_update = MapUpdate v f rights\<rparr>))"

definition intent_unmap :: "virtual_range \<Rightarrow> page_table_update_intent" where
  "intent_unmap v = \<lparr>pti_update = UnmapUpdate v\<rparr>"

definition intent_virtual_range :: "page_table_update_intent \<Rightarrow> virtual_range" where
  "intent_virtual_range i = (case pti_update i of MapUpdate v _ _ \<Rightarrow> v | UnmapUpdate v \<Rightarrow> v)"

definition tlb_intent_new :: "virtual_range \<Rightarrow> cpu_set \<Rightarrow> cpu_generation \<Rightarrow> tlb_invalidation_intent" where
  "tlb_intent_new r target generation = \<lparr>tli_range = r, tli_target = target, tli_generation = generation\<rparr>"

definition vrange_ok :: "u64 \<Rightarrow> u64 \<Rightarrow> bool" where
  "vrange_ok base size_bytes \<longleftrightarrow>
     0 < unat size_bytes \<and> unat base mod 4096 = 0 \<and> unat size_bytes mod 4096 = 0
     \<and> unat base + unat size_bytes < 2 ^ 64"

lemma virtual_range_new_Ok [result_simps]:
  "virtual_range_new b s = Ok v \<longleftrightarrow> vrange_ok b s \<and> v = \<lparr>vr_base = b, vr_size_bytes = s\<rparr>"
  "virtual_range_new b s \<noteq> Panic"
  by (auto simp: virtual_range_new_def validate_page_range_def vrange_ok_def page_aligned_iff
      result_simps unat_gt_0 not_le split: if_splits)

lemma vrange_ok_end:
  "vrange_ok b s \<Longrightarrow> virtual_range_end \<lparr>vr_base = b, vr_size_bytes = s\<rparr> = Ok (b + s)
     \<and> unat (b + s) = unat b + unat s \<and> b < b + s"
  by (auto simp: vrange_ok_def virtual_range_end_def u64_add_def checked_add_def unat_add_no_overflow
      word_less_nat_alt)

lemma intent_map_Ok [result_simps]:
  "intent_map v f rights = Ok i \<longleftrightarrow>
     rights \<noteq> 0 \<and> fr_start f \<le> fr_end f \<and> vr_size_bytes v = fr_end f - fr_start f
     \<and> i = \<lparr>pti_update = MapUpdate v f rights\<rparr>"
  "intent_map v f rights = Panic \<longleftrightarrow> rights \<noteq> 0 \<and> fr_end f < fr_start f"
  by (auto simp: intent_map_def frame_range_len_def result_simps not_le split: if_splits)

end
