(* ===== verification/Fifo_Spec.thy ===== *)
theory Fifo_Spec
  imports Prelude
begin

text \<open>
  The contract of a first-in, first-out queue, over its two operations seen as relations: what goes
  in comes out in the same order.  The queue of pending TLB invalidations of an address space is an
  instance.
\<close>

locale fifo_queue =
  fixes inv :: "'s \<Rightarrow> bool"
    and abs_queue :: "'s \<Rightarrow> 'x list"
    and put :: "'s \<Rightarrow> 'x \<Rightarrow> 's \<Rightarrow> bool"
    and take_first :: "'s \<Rightarrow> 'x \<Rightarrow> 's \<Rightarrow> bool"
    and other :: "'s \<Rightarrow> 's \<Rightarrow> bool"
  assumes put_law: "inv s \<Longrightarrow> put s x s' \<Longrightarrow> inv s' \<and> abs_queue s' = abs_queue s @ [x]"
    and take_law: "inv s \<Longrightarrow> take_first s x s' \<Longrightarrow> inv s' \<and> abs_queue s = x # abs_queue s'"
    and other_law: "inv s \<Longrightarrow> other s s' \<Longrightarrow> inv s' \<and> abs_queue s' = abs_queue s"
begin

inductive queue_run :: "'s \<Rightarrow> 'x list \<Rightarrow> 'x list \<Rightarrow> 's \<Rightarrow> bool" where
  run_done: "queue_run s [] [] s"
| run_put: "queue_run s ins outs s' \<Longrightarrow> put s' x s'' \<Longrightarrow> queue_run s (ins @ [x]) outs s''"
| run_take: "queue_run s ins outs s' \<Longrightarrow> take_first s' x s'' \<Longrightarrow> queue_run s ins (outs @ [x]) s''"
| run_other: "queue_run s ins outs s' \<Longrightarrow> other s' s'' \<Longrightarrow> queue_run s ins outs s''"

lemma run_in_order:
  "queue_run s ins outs s' \<Longrightarrow> inv s \<Longrightarrow> inv s' \<and> abs_queue s @ ins = outs @ abs_queue s'"
proof (induction rule: queue_run.induct)
  case (run_done s)
  then show ?case by simp
next
  case (run_put s ins outs s' x s'')
  then have "inv s'" and "abs_queue s @ ins = outs @ abs_queue s'" by blast+
  then show ?case using put_law [OF \<open>inv s'\<close> run_put.hyps(2)]
    by (metis append.assoc)
next
  case (run_take s ins outs s' x s'')
  then have "inv s'" and "abs_queue s @ ins = outs @ abs_queue s'" by blast+
  then show ?case using take_law [OF \<open>inv s'\<close> run_take.hyps(2)] by simp
next
  case (run_other s ins outs s' s'')
  then have "inv s'" and "abs_queue s @ ins = outs @ abs_queue s'" by blast+
  then show ?case using other_law [OF \<open>inv s'\<close> run_other.hyps(2)] by simp
qed

text \<open>From an empty queue, the outputs are a prefix of the inputs.\<close>

lemma outputs_prefix:
  "queue_run s ins outs s' \<Longrightarrow> inv s \<Longrightarrow> abs_queue s = [] \<Longrightarrow> outs = take (length outs) ins"
  using run_in_order [of s ins outs s'] by simp

end

end
