(* ===== verification/Vm.thy ===== *)
theory Vm
  imports Memory_Frame Ostd_PageTable Fifo_Spec
begin

text \<open>
  Memory objects and address spaces, \<^verbatim>\<open>kernel/src/vm/mod.rs\<close>: what a mapping may expose, the
  fixed-capacity set of mapped ranges with its two-phase reservations, and the queue of pending TLB
  invalidations.  A reservation of the source borrows the address space exclusively until it is
  committed; here it is a value, and committing it takes the address space it was made for.
\<close>

section \<open>Data\<close>

definition MAX_PENDING_TLB_INVALIDATIONS :: nat where
  "MAX_PENDING_TLB_INVALIDATIONS = 8"

definition DEFAULT_VM_RANGE_CAPACITY :: nat where
  "DEFAULT_VM_RANGE_CAPACITY = 8"

record mapping_policy =
  mp_max_rights :: handle_rights

record memory_object =
  mo_size_bytes :: u64
  mo_mapping_policy :: mapping_policy
  mo_frame_range :: memory_frame_range
  mo_active_mappings :: usize

record vm_mapping =
  vm_base :: u64
  vm_size_bytes :: u64
  vm_memory :: object_ref
  vm_memory_offset :: u64
  vm_rights :: handle_rights

record vm_map_descriptor =
  vd_base :: u64
  vd_size_bytes :: u64
  vd_memory_offset :: u64
  vd_rights :: handle_rights

record vm_range_set =
  rs_mappings :: "vm_mapping option list"
  rs_count :: usize

record pending_tlb_invalidation =
  pti_sequence :: u64
  pti_intent :: tlb_invalidation_intent
  pti_deferred_reclaim :: object_ref

record pending_tlb_invalidations =
  pts_count :: usize
  pts_next_sequence :: u64
  pts_work :: "pending_tlb_invalidation option list"

record pending_tlb_invalidation_work =
  ptw_intent :: tlb_invalidation_intent
  ptw_deferred_reclaim :: object_ref

record pending_tlb_invalidation_reservation =
  ptr_index :: usize
  ptr_sequence :: u64
  ptr_intent :: tlb_invalidation_intent
  ptr_deferred_reclaim :: object_ref

record address_space_object =
  as_pending :: pending_tlb_invalidations
  as_range_set :: vm_range_set

record vm_map_reservation =
  vmr_index :: usize
  vmr_mapping :: vm_mapping
  vmr_page_table :: page_table_update_intent

record vm_unmap_reservation =
  vur_index :: usize
  vur_memory :: object_ref
  vur_page_table :: page_table_update_intent
  vur_tlb_slot :: pending_tlb_invalidation_reservation

section \<open>Memory objects\<close>

definition validate_size :: "u64 \<Rightarrow> unit kernel_result" where
  "validate_size size_bytes =
     rbind (map_err (\<lambda>_. InvalidArgument) (virtual_range_new 0 size_bytes)) (\<lambda>_. Ok ())"

definition memory_object_new ::
  "u64 \<Rightarrow> mapping_policy \<Rightarrow> memory_frame_range \<Rightarrow> memory_object kernel_result" where
  "memory_object_new size_bytes policy r =
     rbind (validate_size size_bytes) (\<lambda>_.
     rbind (mfr_len r) (\<lambda>n.
     if n \<noteq> size_bytes then Err InvalidArgument
     else Ok \<lparr>mo_size_bytes = size_bytes, mo_mapping_policy = policy, mo_frame_range = r,
              mo_active_mappings = 0\<rparr>))"

definition validate_mapping :: "memory_object \<Rightarrow> vm_map_descriptor \<Rightarrow> unit kernel_result" where
  "validate_mapping m d =
     (if \<not> rights_contain (mp_max_rights (mo_mapping_policy m)) (vd_rights d) then Err MissingRights
      else rbind (ok_or InvalidArgument (checked_add (vd_memory_offset d) (vd_size_bytes d))) (\<lambda>memory_end.
           if mo_size_bytes m < memory_end then Err InvalidArgument else Ok ()))"

definition add_mapping :: "memory_object \<Rightarrow> memory_object kernel_result" where
  "add_mapping m =
     map_ok (\<lambda>n. m\<lparr>mo_active_mappings := n\<rparr>)
       (ok_or NoCapacity (usize_checked_add (mo_active_mappings m) 1))"

definition remove_mapping :: "memory_object \<Rightarrow> memory_object kernel_result" where
  "remove_mapping m =
     (if mo_active_mappings m = 0 then Err InvalidArgument
      else Ok (m\<lparr>mo_active_mappings := mo_active_mappings m - 1\<rparr>))"

definition can_reclaim :: "memory_object \<Rightarrow> bool" where
  "can_reclaim m \<longleftrightarrow> mo_active_mappings m = 0"

text \<open>\<open>usize::try_from(start)\<close> for a physical address: an address is a 64-bit word on both targets.\<close>

definition paddr_try_from :: "u64 \<Rightarrow> paddr option" where
  "paddr_try_from a = Some a"

definition page_table_frame_range :: "memory_object \<Rightarrow> vm_map_descriptor \<Rightarrow> frame_range kernel_result" where
  "page_table_frame_range m d =
     rbind (ok_or InvalidArgument (checked_add (mfr_start (mo_frame_range m)) (vd_memory_offset d))) (\<lambda>s.
     rbind (ok_or InvalidArgument (checked_add s (vd_size_bytes d))) (\<lambda>e.
     rbind (ok_or InvalidArgument (paddr_try_from s)) (\<lambda>ps.
     rbind (ok_or InvalidArgument (paddr_try_from e)) (\<lambda>pe.
     map_err (\<lambda>_. InvalidArgument) (frame_range_new ps pe)))))"

section \<open>The set of mapped ranges\<close>

definition vm_end :: "vm_mapping \<Rightarrow> u64 kernel_result" where
  "vm_end m = expect (checked_add (vm_base m) (vm_size_bytes m))"

definition ranges_overlap :: "u64 \<Rightarrow> u64 \<Rightarrow> vm_mapping \<Rightarrow> bool kernel_result" where
  "ranges_overlap base e m = map_ok (\<lambda>m_end. base < m_end \<and> vm_base m < e) (vm_end m)"

definition live :: "'a option list \<Rightarrow> 'a list" where
  "live xs = List.map_filter id xs"

definition rs_new :: vm_range_set where
  "rs_new = \<lparr>rs_mappings = replicate DEFAULT_VM_RANGE_CAPACITY None, rs_count = 0\<rparr>"

definition reserve_map :: "vm_range_set \<Rightarrow> vm_mapping \<Rightarrow> usize kernel_result" where
  "reserve_map rs m =
     (if rs_count rs = DEFAULT_VM_RANGE_CAPACITY then Err NoCapacity
      else rbind (any_r (\<lambda>existing. rbind (vm_end m) (\<lambda>e. ranges_overlap (vm_base m) e existing))
                   (live (rs_mappings rs))) (\<lambda>overlap.
           if overlap then Err InvalidArgument
           else ok_or NoCapacity (position (\<lambda>slot. slot = None) (rs_mappings rs))))"

definition commit_map :: "vm_range_set \<Rightarrow> usize \<Rightarrow> vm_mapping \<Rightarrow> vm_range_set kernel_result" where
  "commit_map rs i m =
     rbind (assert_that (i < DEFAULT_VM_RANGE_CAPACITY)) (\<lambda>_.
     rbind (vec_get (rs_mappings rs) i) (\<lambda>slot.
     rbind (assert_that (slot = None)) (\<lambda>_.
     rbind (usize_add (rs_count rs) 1) (\<lambda>n.
     Ok \<lparr>rs_mappings = (rs_mappings rs)[i := Some m], rs_count = n\<rparr>))))"

definition reserve_unmap :: "vm_range_set \<Rightarrow> u64 \<Rightarrow> u64 \<Rightarrow> usize kernel_result" where
  "reserve_unmap rs base size_bytes =
     rbind (ok_or InvalidArgument (checked_add base size_bytes)) (\<lambda>e.
     rbind (position_r (\<lambda>slot. case slot of
               None \<Rightarrow> Ok False
             | Some m \<Rightarrow> if vm_base m = base then map_ok (\<lambda>m_end. m_end = e) (vm_end m) else Ok False)
             (rs_mappings rs)) (\<lambda>i.
     ok_or InvalidArgument i))"

definition reserved_mapping :: "vm_range_set \<Rightarrow> usize \<Rightarrow> vm_mapping kernel_result" where
  "reserved_mapping rs i = rbind (vec_get (rs_mappings rs) i) (\<lambda>slot. expect slot)"

definition commit_unmap :: "vm_range_set \<Rightarrow> usize \<Rightarrow> vm_range_set kernel_result" where
  "commit_unmap rs i =
     rbind (vec_get (rs_mappings rs) i) (\<lambda>slot.
     rbind (expect slot) (\<lambda>_.
     rbind (usize_sub (rs_count rs) 1) (\<lambda>n.
     Ok \<lparr>rs_mappings = (rs_mappings rs)[i := None], rs_count = n\<rparr>)))"

section \<open>Pending TLB invalidations\<close>

definition pts_empty :: pending_tlb_invalidations where
  "pts_empty = \<lparr>pts_count = 0, pts_next_sequence = 0, pts_work = replicate MAX_PENDING_TLB_INVALIDATIONS None\<rparr>"

definition pts_reserve ::
  "pending_tlb_invalidations \<Rightarrow> virtual_range \<Rightarrow> object_ref
     \<Rightarrow> pending_tlb_invalidation_reservation kernel_result" where
  "pts_reserve p rng deferred_reclaim =
     rbind (ok_or NoCapacity (position (\<lambda>slot. slot = None) (pts_work p))) (\<lambda>i.
     Ok \<lparr>ptr_index = i, ptr_sequence = pts_next_sequence p,
         ptr_intent = tlb_intent_new rng AllActive (pts_next_sequence p),
         ptr_deferred_reclaim = deferred_reclaim\<rparr>)"

definition pts_commit ::
  "pending_tlb_invalidations \<Rightarrow> pending_tlb_invalidation_reservation
     \<Rightarrow> pending_tlb_invalidations kernel_result" where
  "pts_commit p r =
     rbind (assert_that (ptr_index r < MAX_PENDING_TLB_INVALIDATIONS)) (\<lambda>_.
     rbind (vec_get (pts_work p) (ptr_index r)) (\<lambda>slot.
     rbind (assert_that (slot = None)) (\<lambda>_.
     rbind (expect (checked_add (pts_next_sequence p) 1)) (\<lambda>next_sequence.
     rbind (usize_add (pts_count p) 1) (\<lambda>n.
     Ok \<lparr>pts_count = n, pts_next_sequence = next_sequence,
         pts_work = (pts_work p)[ptr_index r := Some
           \<lparr>pti_sequence = ptr_sequence r, pti_intent = ptr_intent r,
            pti_deferred_reclaim = ptr_deferred_reclaim r\<rparr>]\<rparr>)))))"

text \<open>\<open>min_by_key\<close> over the occupied slots: the first slot with the least sequence.\<close>

fun min_by_sequence :: "(nat \<times> u64) list \<Rightarrow> (nat \<times> u64) option" where
  "min_by_sequence [] = None"
| "min_by_sequence (x # xs) =
     (case min_by_sequence xs of
        None \<Rightarrow> Some x
      | Some y \<Rightarrow> Some (if snd x \<le> snd y then x else y))"

definition occupied_sequences :: "pending_tlb_invalidation option list \<Rightarrow> (nat \<times> u64) list" where
  "occupied_sequences work =
     List.map_filter (\<lambda>(i, slot). map_option (\<lambda>pending. (i, pti_sequence pending)) slot) (enumerate 0 work)"

definition pts_take_next ::
  "pending_tlb_invalidations
     \<Rightarrow> (pending_tlb_invalidation_work option \<times> pending_tlb_invalidations) kernel_result" where
  "pts_take_next p =
     (case min_by_sequence (occupied_sequences (pts_work p)) of
        None \<Rightarrow> Ok (None, p)
      | Some (i, _) \<Rightarrow>
          rbind (vec_get (pts_work p) i) (\<lambda>slot.
          rbind (expect slot) (\<lambda>pending.
          rbind (usize_sub (pts_count p) 1) (\<lambda>n.
          Ok (Some \<lparr>ptw_intent = pti_intent pending, ptw_deferred_reclaim = pti_deferred_reclaim pending\<rparr>,
              p\<lparr>pts_count := n, pts_work := (pts_work p)[i := None]\<rparr>)))))"

section \<open>Address spaces\<close>

definition as_new :: address_space_object where
  "as_new = \<lparr>as_pending = pts_empty, as_range_set = rs_new\<rparr>"

definition mapping_count :: "address_space_object \<Rightarrow> usize" where
  "mapping_count a = rs_count (as_range_set a)"

definition as_mappings :: "address_space_object \<Rightarrow> vm_mapping list" where
  "as_mappings a = live (rs_mappings (as_range_set a))"

definition can_destroy :: "address_space_object \<Rightarrow> bool" where
  "can_destroy a \<longleftrightarrow> mapping_count a = 0 \<and> pts_count (as_pending a) = 0"

definition descriptor_virtual_range :: "vm_map_descriptor \<Rightarrow> virtual_range kernel_result" where
  "descriptor_virtual_range d =
     map_err (\<lambda>_. InvalidArgument) (virtual_range_new (vd_base d) (vd_size_bytes d))"

definition descriptor_validate :: "vm_map_descriptor \<Rightarrow> unit kernel_result" where
  "descriptor_validate d =
     (if vd_rights d = 0 \<or> \<not> rights_contain (HR_READ OR HR_WRITE OR HR_EXECUTE) (vd_rights d)
      then Err InvalidArgument
      else rbind (descriptor_virtual_range d) (\<lambda>_.
           if vd_memory_offset d mod PAGE_SIZE \<noteq> 0 then Err InvalidArgument
           else rbind (ok_or InvalidArgument (checked_add (vd_memory_offset d) (vd_size_bytes d))) (\<lambda>_.
           Ok ())))"

definition page_table_rights_of :: "handle_rights \<Rightarrow> page_table_rights" where
  "page_table_rights_of rights =
     (let r0 = 0;
          r1 = (if rights_contain rights HR_READ then r0 OR PT_READ else r0);
          r2 = (if rights_contain rights HR_WRITE then r1 OR PT_WRITE else r1);
          r3 = (if rights_contain rights HR_EXECUTE then r2 OR PT_EXECUTE else r2)
      in r3)"

definition prepare_map ::
  "address_space_object \<Rightarrow> object_ref \<Rightarrow> memory_object \<Rightarrow> vm_map_descriptor
     \<Rightarrow> vm_map_reservation kernel_result" where
  "prepare_map a memory m d =
     rbind (descriptor_validate d) (\<lambda>_.
     rbind (validate_mapping m d) (\<lambda>_.
     rbind (descriptor_virtual_range d) (\<lambda>rng.
     let mapping = \<lparr>vm_base = vd_base d, vm_size_bytes = vd_size_bytes d, vm_memory = memory,
                    vm_memory_offset = vd_memory_offset d, vm_rights = vd_rights d\<rparr> in
     rbind (reserve_map (as_range_set a) mapping) (\<lambda>i.
     rbind (page_table_frame_range m d) (\<lambda>fr.
     rbind (map_err (\<lambda>_. InvalidArgument) (intent_map rng fr (page_table_rights_of (vd_rights d)))) (\<lambda>page_table.
     Ok \<lparr>vmr_index = i, vmr_mapping = mapping, vmr_page_table = page_table\<rparr>))))))"

definition map_reservation_commit ::
  "vm_map_reservation \<Rightarrow> address_space_object \<Rightarrow> address_space_object kernel_result" where
  "map_reservation_commit r a =
     map_ok (\<lambda>rs. a\<lparr>as_range_set := rs\<rparr>) (commit_map (as_range_set a) (vmr_index r) (vmr_mapping r))"

definition prepare_unmap ::
  "address_space_object \<Rightarrow> u64 \<Rightarrow> u64 \<Rightarrow> vm_unmap_reservation kernel_result" where
  "prepare_unmap a base size_bytes =
     (if size_bytes = 0 then Err InvalidArgument
      else rbind (reserve_unmap (as_range_set a) base size_bytes) (\<lambda>i.
           rbind (map_err (\<lambda>_. InvalidArgument) (virtual_range_new base size_bytes)) (\<lambda>rng.
           rbind (reserved_mapping (as_range_set a) i) (\<lambda>mapping.
           rbind (pts_reserve (as_pending a) rng (vm_memory mapping)) (\<lambda>tlb_slot.
           Ok \<lparr>vur_index = i, vur_memory = vm_memory mapping, vur_page_table = intent_unmap rng,
               vur_tlb_slot = tlb_slot\<rparr>)))))"

definition unmap_reservation_commit ::
  "vm_unmap_reservation \<Rightarrow> address_space_object \<Rightarrow> address_space_object kernel_result" where
  "unmap_reservation_commit r a =
     rbind (commit_unmap (as_range_set a) (vur_index r)) (\<lambda>rs.
     rbind (pts_commit (as_pending a) (vur_tlb_slot r)) (\<lambda>p.
     Ok \<lparr>as_pending = p, as_range_set = rs\<rparr>))"

definition take_pending_tlb_invalidation ::
  "address_space_object \<Rightarrow> (pending_tlb_invalidation_work option \<times> address_space_object) kernel_result" where
  "take_pending_tlb_invalidation a =
     map_ok (\<lambda>(work, p). (work, a\<lparr>as_pending := p\<rparr>)) (pts_take_next (as_pending a))"

section \<open>Slots\<close>

lemma live_simps [simp]:
  "live [] = []" "live (None # xs) = live xs" "live (Some x # xs) = x # live xs"
  by (simp_all add: live_def List.map_filter_def)

lemma live_append [simp]: "live (xs @ ys) = live xs @ live ys"
  by (simp add: live_def List.map_filter_def)

lemma in_live: "x \<in> set (live xs) \<longleftrightarrow> Some x \<in> set xs"
proof (induction xs)
  case Nil
  then show ?case by simp
next
  case (Cons y xs)
  then show ?case by (cases y) auto
qed

lemma in_live_nth: "x \<in> set (live xs) \<longleftrightarrow> (\<exists>i<length xs. xs ! i = Some x)"
  by (simp only: in_live) (simp only: in_set_conv_nth)

lemma set_live: "set (live xs) = {x. \<exists>i<length xs. xs ! i = Some x}"
  by (rule set_eqI) (simp only: in_live_nth mem_Collect_eq)

lemma length_live: "length (live xs) = count_where (\<lambda>slot. slot \<noteq> None) xs"
proof (induction xs)
  case Nil
  then show ?case by simp
next
  case (Cons y xs)
  then show ?case by (cases y) auto
qed

lemma live_replicate_None [simp]: "live (replicate n None) = []"
  by (induction n) auto

lemma free_slot:
  assumes "count_where (\<lambda>slot. slot \<noteq> None) xs < length xs"
  obtains i where "position (\<lambda>slot. slot = None) xs = Some i" "i < length xs" "xs ! i = None"
proof -
  have "0 < count_where (\<lambda>slot. slot = None) xs"
    using assms count_where_not [of "\<lambda>slot. slot = None" xs] by simp
  then have "\<exists>x \<in> set xs. x = None" by (simp add: count_where_pos)
  then obtain i where "position (\<lambda>slot. slot = None) xs = Some i"
    unfolding position_Some_ex [symmetric] by blast
  with position_SomeD(1,2) [OF this] show thesis by (intro that) simp_all
qed

lemma no_free_slot: "position (\<lambda>slot. slot = None) xs = None \<Longrightarrow> count_where (\<lambda>slot. slot \<noteq> None) xs = length xs"
  by (induction xs) (auto split: if_splits)

text \<open>Filling a free slot adds one live element, clearing an occupied one removes it.\<close>

lemma live_fill:
  assumes "i < length xs" and "xs ! i = None"
  shows "set (live (xs[i := Some y])) = insert y (set (live xs))"
    and "count_where (\<lambda>slot. slot \<noteq> None) (xs[i := Some y]) = Suc (count_where (\<lambda>slot. slot \<noteq> None) xs)"
proof -
  show "set (live (xs[i := Some y])) = insert y (set (live xs))"
  proof (intro equalityI subsetI)
    fix x assume "x \<in> set (live (xs[i := Some y]))"
    then show "x \<in> insert y (set (live xs))"
      using assms by (auto simp: in_live_nth nth_list_update split: if_splits)
  next
    fix x assume "x \<in> insert y (set (live xs))"
    then consider "x = y" | j where "j < length xs" "xs ! j = Some x" by (auto simp: in_live_nth)
    then show "x \<in> set (live (xs[i := Some y]))"
    proof cases
      case 1
      then show ?thesis unfolding in_live_nth using assms(1) by (intro exI [of _ i]) simp
    next
      case 2
      then show ?thesis unfolding in_live_nth using assms by (intro exI [of _ j]) (auto simp: nth_list_update)
    qed
  qed
  show "count_where (\<lambda>slot. slot \<noteq> None) (xs[i := Some y]) = Suc (count_where (\<lambda>slot. slot \<noteq> None) xs)"
    using count_where_update [OF assms(1), of "\<lambda>slot. slot \<noteq> None" "Some y"] assms(2) by simp
qed

lemma live_clear:
  assumes "i < length xs" and "xs ! i = Some y"
  shows "set (live (xs[i := None])) = {x. \<exists>j<length xs. j \<noteq> i \<and> xs ! j = Some x}"
    and "count_where (\<lambda>slot. slot \<noteq> None) xs = Suc (count_where (\<lambda>slot. slot \<noteq> None) (xs[i := None]))"
proof -
  show "set (live (xs[i := None])) = {x. \<exists>j<length xs. j \<noteq> i \<and> xs ! j = Some x}"
    unfolding set_live using assms(1) by (auto simp: nth_list_update split: if_splits)
  show "count_where (\<lambda>slot. slot \<noteq> None) xs = Suc (count_where (\<lambda>slot. slot \<noteq> None) (xs[i := None]))"
    using count_where_update [OF assms(1), of "\<lambda>slot. slot \<noteq> None" None] assms(2) by simp
qed

section \<open>Mapped ranges never overlap\<close>

definition mapping_addrs :: "vm_mapping \<Rightarrow> nat set" where
  "mapping_addrs m = {unat (vm_base m) ..< unat (vm_base m) + unat (vm_size_bytes m)}"

definition mapping_ok :: "vm_mapping \<Rightarrow> bool" where
  "mapping_ok m \<longleftrightarrow> vrange_ok (vm_base m) (vm_size_bytes m)"

definition slots_disjoint :: "vm_mapping option list \<Rightarrow> bool" where
  "slots_disjoint xs \<longleftrightarrow>
     (\<forall>i j mi mj. i < length xs \<and> j < length xs \<and> i \<noteq> j \<and> xs ! i = Some mi \<and> xs ! j = Some mj
        \<longrightarrow> mapping_addrs mi \<inter> mapping_addrs mj = {})"

lemma slots_disjoint_fill:
  assumes "slots_disjoint xs" and "\<forall>x \<in> set (live xs). mapping_addrs m \<inter> mapping_addrs x = {}"
  shows "slots_disjoint (xs[i := Some m])"
  unfolding slots_disjoint_def
proof (intro allI impI, elim conjE)
  fix j k a b
  assume jk: "j < length (xs[i := Some m])" "k < length (xs[i := Some m])" "j \<noteq> k"
    and ab: "xs[i := Some m] ! j = Some a" "xs[i := Some m] ! k = Some b"
  consider "j = i" | "k = i" | "j \<noteq> i" "k \<noteq> i" by blast
  then show "mapping_addrs a \<inter> mapping_addrs b = {}"
  proof cases
    case 1
    then have "a = m" and "xs ! k = Some b" using jk ab by auto
    moreover from this have "b \<in> set (live xs)" using jk(2) by (auto simp: in_live_nth)
    ultimately show ?thesis using assms(2) by blast
  next
    case 2
    then have "b = m" and "xs ! j = Some a" using jk ab by auto
    moreover from this have "a \<in> set (live xs)" using jk(1) by (auto simp: in_live_nth)
    ultimately show ?thesis using assms(2) by blast
  next
    case 3
    then have "xs ! j = Some a" "xs ! k = Some b" using ab by simp_all
    then show ?thesis using assms(1) jk unfolding slots_disjoint_def by simp
  qed
qed

lemma slots_disjoint_clear: "slots_disjoint xs \<Longrightarrow> slots_disjoint (xs[i := None])"
  unfolding slots_disjoint_def
  by (intro allI impI, elim conjE) (metis length_list_update nth_list_update_eq nth_list_update_neq option.distinct(1))

definition rs_wf :: "vm_range_set \<Rightarrow> bool" where
  "rs_wf rs \<longleftrightarrow> length (rs_mappings rs) = DEFAULT_VM_RANGE_CAPACITY
     \<and> rs_count rs = count_where (\<lambda>slot. slot \<noteq> None) (rs_mappings rs)
     \<and> (\<forall>m \<in> set (live (rs_mappings rs)). mapping_ok m)
     \<and> slots_disjoint (rs_mappings rs)"

lemma rs_wf_new: "rs_wf rs_new"
  by (auto simp: rs_wf_def rs_new_def count_where_replicate slots_disjoint_def)

lemma vm_end_ok:
  assumes "mapping_ok m"
  shows "vm_end m = Ok (vm_base m + vm_size_bytes m)"
    and "unat (vm_base m + vm_size_bytes m) = unat (vm_base m) + unat (vm_size_bytes m)"
  using assms vrange_ok_end [of "vm_base m" "vm_size_bytes m"]
  by (auto simp: mapping_ok_def vrange_ok_def vm_end_def checked_add_def)

lemma mapping_ok_nonempty: "mapping_ok m \<Longrightarrow> 0 < unat (vm_size_bytes m)"
  by (simp add: mapping_ok_def vrange_ok_def)

lemma ranges_overlap_addrs:
  assumes "mapping_ok m" and "mapping_ok x"
  shows "rbind (vm_end m) (\<lambda>e. ranges_overlap (vm_base m) e x)
    = Ok (mapping_addrs m \<inter> mapping_addrs x \<noteq> {})"
proof -
  let ?a = "unat (vm_base m)" and ?b = "unat (vm_size_bytes m)"
    and ?c = "unat (vm_base x)" and ?d = "unat (vm_size_bytes x)"
  have pos: "0 < ?b" "0 < ?d" using assms by (simp_all add: mapping_ok_nonempty)
  have "vm_base m < vm_base x + vm_size_bytes x \<and> vm_base x < vm_base m + vm_size_bytes m
      \<longleftrightarrow> ?a < ?c + ?d \<and> ?c < ?a + ?b"
    using vm_end_ok(2) [OF assms(1)] vm_end_ok(2) [OF assms(2)] by (simp add: word_less_nat_alt)
  also have "\<dots> \<longleftrightarrow> max ?a ?c < min (?a + ?b) (?c + ?d)" using pos by auto
  also have "\<dots> \<longleftrightarrow> mapping_addrs m \<inter> mapping_addrs x \<noteq> {}" by (auto simp: mapping_addrs_def)
  finally show ?thesis
    by (simp add: ranges_overlap_def vm_end_ok(1) [OF assms(1)] vm_end_ok(1) [OF assms(2)])
qed

lemma reserve_map_cases:
  assumes wf: "rs_wf rs" and m: "mapping_ok m"
  obtains (ok) i where "reserve_map rs m = Ok i" "i < DEFAULT_VM_RANGE_CAPACITY" "rs_mappings rs ! i = None"
      "\<forall>x \<in> set (live (rs_mappings rs)). mapping_addrs m \<inter> mapping_addrs x = {}"
  | (full) "reserve_map rs m = Err NoCapacity" "rs_count rs = DEFAULT_VM_RANGE_CAPACITY"
  | (overlap) x where "reserve_map rs m = Err InvalidArgument" "x \<in> set (live (rs_mappings rs))"
      "mapping_addrs m \<inter> mapping_addrs x \<noteq> {}"
proof (cases "rs_count rs = DEFAULT_VM_RANGE_CAPACITY")
  case True
  then show ?thesis by (intro full) (simp_all add: reserve_map_def)
next
  case False
  have "any_r (\<lambda>existing. rbind (vm_end m) (\<lambda>e. ranges_overlap (vm_base m) e existing)) (live (rs_mappings rs))
    = (Ok (list_ex (\<lambda>x. mapping_addrs m \<inter> mapping_addrs x \<noteq> {}) (live (rs_mappings rs))) :: bool kernel_result)"
    using wf by (intro any_r_Ok ranges_overlap_addrs [OF m]) (auto simp: rs_wf_def)
  then have eq: "reserve_map rs m =
      (if list_ex (\<lambda>x. mapping_addrs m \<inter> mapping_addrs x \<noteq> {}) (live (rs_mappings rs)) then Err InvalidArgument
       else ok_or NoCapacity (position (\<lambda>slot. slot = None) (rs_mappings rs)))"
    using False by (simp add: reserve_map_def)
  have "count_where (\<lambda>slot. slot \<noteq> None) (rs_mappings rs) < length (rs_mappings rs)"
    using False wf count_where_le [of "\<lambda>slot. slot \<noteq> None" "rs_mappings rs"] by (auto simp: rs_wf_def)
  then obtain i where i: "position (\<lambda>slot. slot = None) (rs_mappings rs) = Some i"
    "i < length (rs_mappings rs)" "rs_mappings rs ! i = None" by (rule free_slot)
  show ?thesis
  proof (cases "list_ex (\<lambda>x. mapping_addrs m \<inter> mapping_addrs x \<noteq> {}) (live (rs_mappings rs))")
    case True
    then obtain x where "x \<in> set (live (rs_mappings rs))" "mapping_addrs m \<inter> mapping_addrs x \<noteq> {}"
      by (auto simp: list_ex_iff)
    then show ?thesis using eq True by (intro overlap) simp_all
  next
    case False
    then have "\<forall>x \<in> set (live (rs_mappings rs)). mapping_addrs m \<inter> mapping_addrs x = {}"
      by (auto simp: list_ex_iff)
    moreover have "reserve_map rs m = Ok i" using eq False i(1) by simp
    moreover have "i < DEFAULT_VM_RANGE_CAPACITY" using i(2) wf by (simp add: rs_wf_def)
    ultimately show ?thesis using i(3) by (intro ok)
  qed
qed

lemma commit_map_ok:
  assumes wf: "rs_wf rs" and m: "mapping_ok m" and i: "i < DEFAULT_VM_RANGE_CAPACITY" "rs_mappings rs ! i = None"
    and free: "\<forall>x \<in> set (live (rs_mappings rs)). mapping_addrs m \<inter> mapping_addrs x = {}"
  defines "rs' \<equiv> \<lparr>rs_mappings = (rs_mappings rs)[i := Some m], rs_count = Suc (rs_count rs)\<rparr>"
  shows "commit_map rs i m = Ok rs'" and "rs_wf rs'"
proof -
  have len: "length (rs_mappings rs) = DEFAULT_VM_RANGE_CAPACITY" using wf by (simp add: rs_wf_def)
  have "rs_count rs \<le> 8" using wf count_where_le [of "\<lambda>slot. slot \<noteq> None" "rs_mappings rs"]
    by (simp add: rs_wf_def DEFAULT_VM_RANGE_CAPACITY_def)
  then show "commit_map rs i m = Ok rs'"
    using i len by (simp add: commit_map_def assert_that_def vec_get_def usize_add_def usize_max_def rs'_def)
  have il: "i < length (rs_mappings rs)" using i len by simp
  show "rs_wf rs'"
    unfolding rs_wf_def rs'_def
    using wf m live_fill [OF il i(2), of m] slots_disjoint_fill [of "rs_mappings rs" m i] free
    by (simp add: rs_wf_def)
qed

lemma mapping_slot_unique:
  assumes "rs_wf rs" and "i < length (rs_mappings rs)" "rs_mappings rs ! i = Some m"
    and "j < length (rs_mappings rs)" "rs_mappings rs ! j = Some m"
  shows "i = j"
proof (rule ccontr)
  assume "i \<noteq> j"
  then have "mapping_addrs m = {}" using assms unfolding rs_wf_def slots_disjoint_def by blast
  moreover have "m \<in> set (live (rs_mappings rs))" using assms(2,3) by (auto simp: in_live_nth)
  then have "0 < unat (vm_size_bytes m)" using assms(1) by (intro mapping_ok_nonempty) (simp add: rs_wf_def)
  ultimately show False by (simp add: mapping_addrs_def)
qed

lemma reserve_unmap_cases:
  assumes wf: "rs_wf rs"
  obtains (ok) i m where "reserve_unmap rs base size_bytes = Ok i" "i < DEFAULT_VM_RANGE_CAPACITY"
      "rs_mappings rs ! i = Some m" "vm_base m = base" "vm_size_bytes m = size_bytes"
  | (none) "reserve_unmap rs base size_bytes = Err InvalidArgument"
      "\<forall>m \<in> set (live (rs_mappings rs)). \<not> (vm_base m = base \<and> vm_size_bytes m = size_bytes)"
proof (cases "checked_add base size_bytes")
  case None
  then have over: "2 ^ 64 \<le> unat base + unat size_bytes" by (simp only: checked_add_eq_None)
  have "\<not> (vm_base m = base \<and> vm_size_bytes m = size_bytes)" if "m \<in> set (live (rs_mappings rs))" for m
    using that wf over by (auto simp: rs_wf_def mapping_ok_def vrange_ok_def)
  then show ?thesis using None by (intro none) (simp_all add: reserve_unmap_def)
next
  case (Some e)
  let ?P = "\<lambda>slot. \<exists>m. slot = Some m \<and> vm_base m = base \<and> vm_size_bytes m = size_bytes"
  let ?f = "\<lambda>slot. case slot of None \<Rightarrow> Ok False
    | Some m \<Rightarrow> if vm_base m = base then map_ok (\<lambda>m_end. m_end = e) (vm_end m) else Ok False"
  have e: "e = base + size_bytes" using Some by (simp add: checked_add_eq_Some)
  have "?f slot = (Ok (?P slot) :: bool kernel_result)" if "slot \<in> set (rs_mappings rs)" for slot
  proof (cases slot)
    case (Some m)
    then have "mapping_ok m" using that wf by (simp add: rs_wf_def in_live)
    then show ?thesis using Some e by (auto simp: vm_end_ok(1))
  qed simp
  then have "position_r ?f (rs_mappings rs) = (Ok (position ?P (rs_mappings rs)) :: usize option kernel_result)"
    by (rule position_r_Ok)
  then have eq: "reserve_unmap rs base size_bytes = ok_or InvalidArgument (position ?P (rs_mappings rs))"
    using Some by (simp add: reserve_unmap_def)
  show ?thesis
  proof (cases "position ?P (rs_mappings rs)")
    case None
    then have "reserve_unmap rs base size_bytes = Err InvalidArgument" using eq by simp
    then show ?thesis using None by (rule_tac none) (auto simp: position_eq_None in_live)
  next
    case (Some i)
    then have "?P (rs_mappings rs ! i)" and "i < length (rs_mappings rs)" using position_SomeD by blast+
    then show ?thesis using eq Some wf by (elim exE conjE) (rule ok [of i], simp_all add: rs_wf_def)
  qed
qed

lemma commit_unmap_ok:
  assumes wf: "rs_wf rs" and i: "i < DEFAULT_VM_RANGE_CAPACITY" "rs_mappings rs ! i = Some m"
  defines "rs' \<equiv> \<lparr>rs_mappings = (rs_mappings rs)[i := None], rs_count = rs_count rs - 1\<rparr>"
  shows "commit_unmap rs i = Ok rs'" and "rs_wf rs'"
    and "set (live (rs_mappings rs')) = set (live (rs_mappings rs)) - {m}"
proof -
  have il: "i < length (rs_mappings rs)" using wf i by (simp add: rs_wf_def)
  note clear = live_clear [OF il i(2)]
  show "commit_unmap rs i = Ok rs'"
    using il i clear(2) wf
    by (simp add: commit_unmap_def vec_get_def usize_sub_def rs'_def rs_wf_def)
  show set: "set (live (rs_mappings rs')) = set (live (rs_mappings rs)) - {m}"
  proof (intro equalityI subsetI)
    fix x assume "x \<in> set (live (rs_mappings rs'))"
    then obtain j where j: "j < length (rs_mappings rs)" "j \<noteq> i" "rs_mappings rs ! j = Some x"
      using clear(1) by (auto simp: rs'_def)
    then have "x \<noteq> m" using mapping_slot_unique [OF wf il i(2), of j] by blast
    with j show "x \<in> set (live (rs_mappings rs)) - {m}" by (auto simp: in_live_nth)
  next
    fix x assume "x \<in> set (live (rs_mappings rs)) - {m}"
    then obtain j where "j < length (rs_mappings rs)" "rs_mappings rs ! j = Some x" "x \<noteq> m"
      by (auto simp: in_live_nth)
    with i(2) show "x \<in> set (live (rs_mappings rs'))" unfolding rs'_def using clear(1) by auto
  qed
  show "rs_wf rs'"
    unfolding rs_wf_def
    using wf set clear(2) slots_disjoint_clear [of "rs_mappings rs" i] by (auto simp: rs_wf_def rs'_def)
qed

section \<open>The pending queue is first in, first out\<close>

text \<open>Lists sorted strictly by a key are determined by their elements.\<close>

lemma strict_key_unique:
  "sorted_wrt (\<lambda>a b. (f a :: u64) < f b) xs \<Longrightarrow> sorted_wrt (\<lambda>a b. f a < f b) ys \<Longrightarrow> set xs = set ys \<Longrightarrow> xs = ys"
proof (induction xs arbitrary: ys)
  case Nil
  then show ?case by simp
next
  case (Cons x xs)
  from Cons.prems(3) obtain y ys' where ys: "ys = y # ys'" by (cases ys) auto
  have "x = y"
  proof (rule ccontr)
    assume "x \<noteq> y"
    then have "x \<in> set ys'" and "y \<in> set xs" using Cons.prems(3) ys by auto
    then have "f x < f y" and "f y < f x" using Cons.prems(1,2) ys by auto
    then show False by order
  qed
  moreover have "x \<notin> set xs" and "y \<notin> set ys'" using Cons.prems(1,2) ys by auto
  then have "set xs = set ys'" using Cons.prems(3) ys \<open>x = y\<close> by auto
  then have "xs = ys'" using Cons.prems(1,2) ys by (intro Cons.IH) simp_all
  ultimately show ?case using ys by simp
qed

lemma sort_key_strict:
  assumes "distinct (map f xs)"
  shows "sorted_wrt (\<lambda>a b. (f a :: u64) < f b) (sort_key f xs)"
proof -
  have "distinct (map f (sort_key f xs))" using assms by (simp add: distinct_map)
  moreover have "sorted (map f (sort_key f xs))" by simp
  ultimately have "sorted_wrt (<) (map f (sort_key f xs))" by (simp add: strict_sorted_iff)
  then show ?thesis by (simp add: sorted_wrt_map)
qed

lemma live_split:
  assumes "i < length xs"
  shows "live xs = live (take i xs) @ live [xs ! i] @ live (drop (Suc i) xs)"
    and "live (xs[i := y]) = live (take i xs) @ live [y] @ live (drop (Suc i) xs)"
proof -
  have "xs = take i xs @ [xs ! i] @ drop (Suc i) xs" using assms by (simp add: id_take_nth_drop)
  then show "live xs = live (take i xs) @ live [xs ! i] @ live (drop (Suc i) xs)"
    by (metis live_append)
  have "xs[i := y] = take i xs @ [y] @ drop (Suc i) xs" using assms by (simp add: upd_conv_take_nth_drop)
  then show "live (xs[i := y]) = live (take i xs) @ live [y] @ live (drop (Suc i) xs)"
    by (metis live_append)
qed

definition pts_wf :: "pending_tlb_invalidations \<Rightarrow> bool" where
  "pts_wf p \<longleftrightarrow> length (pts_work p) = MAX_PENDING_TLB_INVALIDATIONS
     \<and> pts_count p = count_where (\<lambda>slot. slot \<noteq> None) (pts_work p)
     \<and> (\<forall>x \<in> set (live (pts_work p)). pti_sequence x < pts_next_sequence p)
     \<and> distinct (map pti_sequence (live (pts_work p)))"

definition work_of :: "pending_tlb_invalidation \<Rightarrow> pending_tlb_invalidation_work" where
  "work_of x = \<lparr>ptw_intent = pti_intent x, ptw_deferred_reclaim = pti_deferred_reclaim x\<rparr>"

definition pts_queue :: "pending_tlb_invalidations \<Rightarrow> pending_tlb_invalidation_work list" where
  "pts_queue p = map work_of (sort_key pti_sequence (live (pts_work p)))"

lemma pts_wf_empty: "pts_wf pts_empty" "pts_queue pts_empty = []"
  by (simp_all add: pts_wf_def pts_empty_def pts_queue_def count_where_replicate)

lemma set_pts_queue: "set (pts_queue p) = work_of ` set (live (pts_work p))"
  by (simp add: pts_queue_def)

lemma length_pts_queue: "length (pts_queue p) = count_where (\<lambda>slot. slot \<noteq> None) (pts_work p)"
  by (simp add: pts_queue_def length_live)

lemma pts_reserve_cases:
  assumes "pts_wf p"
  obtains (ok) i where "pts_reserve p rng deferred = Ok \<lparr>ptr_index = i, ptr_sequence = pts_next_sequence p,
      ptr_intent = tlb_intent_new rng AllActive (pts_next_sequence p), ptr_deferred_reclaim = deferred\<rparr>"
      "i < MAX_PENDING_TLB_INVALIDATIONS" "pts_work p ! i = None"
  | (full) "pts_reserve p rng deferred = Err NoCapacity" "pts_count p = MAX_PENDING_TLB_INVALIDATIONS"
proof (cases "position (\<lambda>slot. slot = None) (pts_work p)")
  case None
  then show ?thesis
    using assms no_free_slot [OF None] by (intro full) (simp_all add: pts_reserve_def pts_wf_def)
next
  case (Some i)
  then show ?thesis
    using assms position_SomeD(1,2) [OF Some] by (intro ok [of i]) (simp_all add: pts_reserve_def pts_wf_def)
qed

lemma pts_commit_ok:
  fixes intent :: tlb_invalidation_intent and deferred :: object_ref
  assumes wf: "pts_wf p" and i: "i < MAX_PENDING_TLB_INVALIDATIONS" "pts_work p ! i = None"
    and head: "unat (pts_next_sequence p) + 1 < 2 ^ 64"
  defines "x \<equiv> \<lparr>pti_sequence = pts_next_sequence p, pti_intent = intent, pti_deferred_reclaim = deferred\<rparr>"
  defines "p' \<equiv> \<lparr>pts_count = Suc (pts_count p), pts_next_sequence = pts_next_sequence p + 1,
    pts_work = (pts_work p)[i := Some x]\<rparr>"
  shows "pts_commit p \<lparr>ptr_index = i, ptr_sequence = pts_next_sequence p, ptr_intent = intent,
      ptr_deferred_reclaim = deferred\<rparr> = Ok p'"
    and "pts_wf p'" and "pts_queue p' = pts_queue p @ [work_of x]"
proof -
  have il: "i < length (pts_work p)" using wf i by (simp add: pts_wf_def)
  have "pts_count p \<le> 8" using wf count_where_le [of "\<lambda>slot. slot \<noteq> None" "pts_work p"]
    by (simp add: pts_wf_def MAX_PENDING_TLB_INVALIDATIONS_def)
  then show "pts_commit p \<lparr>ptr_index = i, ptr_sequence = pts_next_sequence p, ptr_intent = intent,
      ptr_deferred_reclaim = deferred\<rparr> = Ok p'"
    using i il head by (simp add: pts_commit_def assert_that_def vec_get_def checked_add_def usize_add_def
        usize_max_def p'_def x_def)
  have less: "pts_next_sequence p < pts_next_sequence p + 1"
    using head by (simp add: word_less_nat_alt unat_word_ariths)
  have below: "\<forall>y \<in> set (live (pts_work p)). pti_sequence y < pti_sequence x"
    using wf by (simp add: pts_wf_def x_def)
  let ?A = "live (take i (pts_work p))" and ?B = "live (drop (Suc i) (pts_work p))"
  have old: "live (pts_work p) = ?A @ ?B" using live_split(1) [OF il] i(2) by simp
  have new: "live (pts_work p') = ?A @ x # ?B" using live_split(2) [OF il, of "Some x"] by (simp add: p'_def)
  have dist: "distinct (map pti_sequence (?A @ ?B))" using wf old by (simp add: pts_wf_def)
  have nin: "pti_sequence x \<notin> pti_sequence ` set (?A @ ?B)" using below old by auto
  then have dist': "distinct (map pti_sequence (?A @ x # ?B))" using dist by auto
  have "\<forall>y \<in> set (live (pts_work p')). pti_sequence y < pts_next_sequence p + 1"
  proof
    fix y assume "y \<in> set (live (pts_work p'))"
    then have "pti_sequence y \<le> pts_next_sequence p" using below old new by (auto simp: x_def less_imp_le)
    with less show "pti_sequence y < pts_next_sequence p + 1" by order
  qed
  then show "pts_wf p'"
    using wf live_fill(2) [OF il i(2), of x] dist' new by (simp add: pts_wf_def p'_def)
  have "sort_key pti_sequence (?A @ x # ?B) = sort_key pti_sequence (?A @ ?B) @ [x]"
  proof (rule strict_key_unique [of pti_sequence])
    show "sorted_wrt (\<lambda>a b. pti_sequence a < pti_sequence b) (sort_key pti_sequence (?A @ x # ?B))"
      using dist' by (rule sort_key_strict)
    have "\<forall>y \<in> set (?A @ ?B). pti_sequence y < pti_sequence x" using below old by simp
    then show "sorted_wrt (\<lambda>a b. pti_sequence a < pti_sequence b) (sort_key pti_sequence (?A @ ?B) @ [x])"
      using sort_key_strict [OF dist] by (simp add: sorted_wrt_append)
    show "set (sort_key pti_sequence (?A @ x # ?B)) = set (sort_key pti_sequence (?A @ ?B) @ [x])"
      by auto
  qed
  then show "pts_queue p' = pts_queue p @ [work_of x]"
    unfolding pts_queue_def old new by simp
qed

lemma min_by_sequence_None: "min_by_sequence xs = None \<longleftrightarrow> xs = []"
  by (cases xs) (auto split: option.splits)

lemma min_by_sequence_Some:
  "min_by_sequence xs = Some x \<Longrightarrow> x \<in> set xs \<and> (\<forall>y \<in> set xs. snd x \<le> snd y)"
proof (induction xs arbitrary: x)
  case Nil
  then show ?case by simp
next
  case (Cons z zs)
  show ?case
  proof (cases "min_by_sequence zs")
    case None
    then show ?thesis using Cons.prems by (simp add: min_by_sequence_None)
  next
    case (Some y)
    note y = Cons.IH [OF Some]
    show ?thesis
    proof (cases "snd z \<le> snd y")
      case True
      then have "x = z" using Cons.prems Some by simp
      with True y show ?thesis by (auto intro: order_trans)
    next
      case False
      then have "x = y" and "snd y \<le> snd z" using Cons.prems Some by auto
      with y show ?thesis by auto
    qed
  qed
qed

lemma occupied_sequences_iff:
  "(i, q) \<in> set (occupied_sequences work) \<longleftrightarrow>
     i < length work \<and> (\<exists>x. work ! i = Some x \<and> pti_sequence x = q)"
proof -
  have "(i, q) \<in> set (occupied_sequences work) \<longleftrightarrow>
      (\<exists>slot. (i, slot) \<in> set (enumerate 0 work) \<and> (\<exists>x. slot = Some x \<and> pti_sequence x = q))"
    by (force simp: occupied_sequences_def List.map_filter_def)
  also have "\<dots> \<longleftrightarrow> i < length work \<and> (\<exists>x. work ! i = Some x \<and> pti_sequence x = q)"
    by (auto simp: in_set_enumerate_eq)
  finally show ?thesis .
qed

lemma pts_take_next_cases:
  assumes wf: "pts_wf p"
  obtains (empty) "pts_take_next p = Ok (None, p)" "pts_queue p = []" "pts_count p = 0"
  | (taken) x p' where "pts_take_next p = Ok (Some (work_of x), p')" "pts_queue p = work_of x # pts_queue p'"
      "pts_wf p'" "pts_next_sequence p' = pts_next_sequence p"
      "\<exists>i<length (pts_work p). pts_work p ! i = Some x \<and> pts_work p' = (pts_work p)[i := None]"
proof (cases "min_by_sequence (occupied_sequences (pts_work p))")
  case None
  then have "occupied_sequences (pts_work p) = []" by (simp add: min_by_sequence_None)
  then have "\<And>i q. (i, q) \<notin> set (occupied_sequences (pts_work p))" by simp
  then have "set (live (pts_work p)) = {}" by (auto simp: occupied_sequences_iff set_live)
  then have "live (pts_work p) = []" by simp
  then have "pts_queue p = []" and "pts_count p = 0"
    using wf length_live [of "pts_work p"] by (simp_all add: pts_queue_def pts_wf_def)
  then show ?thesis using None by (intro empty) (simp_all add: pts_take_next_def)
next
  case (Some iq)
  obtain i q where iq: "iq = (i, q)" by (cases iq)
  with min_by_sequence_Some [OF Some] have mem: "(i, q) \<in> set (occupied_sequences (pts_work p))"
    and least: "\<forall>y \<in> set (occupied_sequences (pts_work p)). q \<le> snd y" by auto
  from mem obtain x where il: "i < length (pts_work p)" and xi: "pts_work p ! i = Some x"
    and q: "pti_sequence x = q" by (auto simp: occupied_sequences_iff)
  define p' where "p' = p\<lparr>pts_count := pts_count p - 1, pts_work := (pts_work p)[i := None]\<rparr>"
  have count: "pts_count p = Suc (count_where (\<lambda>slot. slot \<noteq> None) ((pts_work p)[i := None]))"
    using wf live_clear(2) [OF il xi] by (simp add: pts_wf_def)
  have take: "pts_take_next p = Ok (Some (work_of x), p')"
    using Some iq il xi count by (simp add: pts_take_next_def vec_get_def usize_sub_def p'_def work_of_def)
  let ?A = "live (take i (pts_work p))" and ?B = "live (drop (Suc i) (pts_work p))"
  have old: "live (pts_work p) = ?A @ x # ?B" using live_split(1) [OF il] xi by simp
  have new: "live (pts_work p') = ?A @ ?B" using live_split(2) [OF il, of None] by (simp add: p'_def)
  have dist: "distinct (map pti_sequence (?A @ x # ?B))" using wf old by (simp add: pts_wf_def)
  then have dist': "distinct (map pti_sequence (?A @ ?B))" by auto
  have wf': "pts_wf p'"
    using wf count dist' new old by (auto simp: pts_wf_def p'_def)
  have first: "pti_sequence x < pti_sequence y" if "y \<in> set (?A @ ?B)" for y
  proof -
    have "y \<in> set (live (pts_work p))" using that old by auto
    then obtain j where "j < length (pts_work p)" "pts_work p ! j = Some y" by (auto simp: in_live_nth)
    then have "(j, pti_sequence y) \<in> set (occupied_sequences (pts_work p))" by (auto simp: occupied_sequences_iff)
    then have "pti_sequence x \<le> pti_sequence y" using least q by force
    moreover have "pti_sequence x \<noteq> pti_sequence y" using dist that by auto
    ultimately show ?thesis by order
  qed
  have "sort_key pti_sequence (?A @ x # ?B) = x # sort_key pti_sequence (?A @ ?B)"
  proof (rule strict_key_unique [of pti_sequence])
    show "sorted_wrt (\<lambda>a b. pti_sequence a < pti_sequence b) (sort_key pti_sequence (?A @ x # ?B))"
      using dist by (rule sort_key_strict)
    show "sorted_wrt (\<lambda>a b. pti_sequence a < pti_sequence b) (x # sort_key pti_sequence (?A @ ?B))"
      using sort_key_strict [OF dist'] first by simp
    show "set (sort_key pti_sequence (?A @ x # ?B)) = set (x # sort_key pti_sequence (?A @ ?B))" by auto
  qed
  then have "pts_queue p = work_of x # pts_queue p'"
    unfolding pts_queue_def old new by simp
  moreover have "\<exists>i<length (pts_work p). pts_work p ! i = Some x \<and> pts_work p' = (pts_work p)[i := None]"
    using il xi by (auto simp: p'_def)
  moreover have "pts_next_sequence p' = pts_next_sequence p" by (simp add: p'_def)
  ultimately show ?thesis using take wf' by (rule_tac taken)
qed

section \<open>Address spaces\<close>

definition as_wf :: "address_space_object \<Rightarrow> bool" where
  "as_wf a \<longleftrightarrow> rs_wf (as_range_set a) \<and> pts_wf (as_pending a)"

definition as_queue :: "address_space_object \<Rightarrow> pending_tlb_invalidation_work list" where
  "as_queue a = pts_queue (as_pending a)"

definition as_headroom :: "address_space_object \<Rightarrow> bool" where
  "as_headroom a \<longleftrightarrow> unat (pts_next_sequence (as_pending a)) + 1 < 2 ^ 64"

definition memory_ok :: "memory_object \<Rightarrow> bool" where
  "memory_ok m \<longleftrightarrow> mfr_ok (mo_frame_range m)
     \<and> unat (mfr_end (mo_frame_range m)) = unat (mfr_start (mo_frame_range m)) + unat (mo_size_bytes m)"

lemma as_wf_new: "as_wf as_new" "as_mappings as_new = []" "as_queue as_new = []"
  using rs_wf_new pts_wf_empty
  by (simp_all add: as_wf_def as_new_def as_mappings_def as_queue_def) (simp add: rs_new_def)

lemma can_destroy_iff:
  assumes "as_wf a"
  shows "can_destroy a \<longleftrightarrow> as_mappings a = [] \<and> as_queue a = []"
proof -
  have "as_mappings a = [] \<longleftrightarrow> rs_count (as_range_set a) = 0"
    using assms length_live [of "rs_mappings (as_range_set a)"]
    by (simp add: as_wf_def rs_wf_def as_mappings_def flip: length_0_conv)
  moreover have "as_queue a = [] \<longleftrightarrow> pts_count (as_pending a) = 0"
    using assms length_pts_queue [of "as_pending a"]
    by (simp add: as_wf_def pts_wf_def as_queue_def flip: length_0_conv)
  ultimately show ?thesis by (simp add: can_destroy_def mapping_count_def)
qed

lemma rights_bits:
  "rights_contain r HR_READ \<longleftrightarrow> bit r 0"
  "rights_contain r HR_WRITE \<longleftrightarrow> bit r 1"
  "rights_contain r HR_EXECUTE \<longleftrightarrow> bit r 2"
proof -
  have one: "bit (2 ^ k :: u32) n \<longleftrightarrow> n = k" if "k < 32" for k n
    using that by (auto simp: bit_exp_iff)
  have "bit HR_READ n \<longleftrightarrow> n = 0" "bit HR_WRITE n \<longleftrightarrow> n = 1" "bit HR_EXECUTE n \<longleftrightarrow> n = 2" for n
    using one [of 0 n] one [of 1 n] one [of 2 n] by (simp_all add: HR_READ_def HR_WRITE_def HR_EXECUTE_def)
  then show "rights_contain r HR_READ \<longleftrightarrow> bit r 0" "rights_contain r HR_WRITE \<longleftrightarrow> bit r 1"
    "rights_contain r HR_EXECUTE \<longleftrightarrow> bit r 2" by (simp_all add: rights_contain_bits)
qed

lemma mapping_rights_nonzero:
  assumes "r \<noteq> 0" and "rights_contain (HR_READ OR HR_WRITE OR HR_EXECUTE) r"
  shows "page_table_rights_of r \<noteq> 0"
proof -
  have m: "HR_READ OR HR_WRITE OR HR_EXECUTE = mask 3"
    by (simp add: HR_READ_def HR_WRITE_def HR_EXECUTE_def mask_numeral)
  from assms(1) obtain n where n: "bit r n" by (metis bit_eqI bit_0_eq bot_apply bot_bool_def)
  with assms(2) have "n < 3" by (auto simp: m rights_contain_bits bit_mask_iff)
  then consider "n = 0" | "n = 1" | "n = 2" by linarith
  then have "rights_contain r HR_READ \<or> rights_contain r HR_WRITE \<or> rights_contain r HR_EXECUTE"
    using n by cases (simp_all add: rights_bits)
  then show ?thesis
    by (auto simp: page_table_rights_of_def Let_def PT_READ_def PT_WRITE_def PT_EXECUTE_def)
qed

text \<open>The conditions under which a mapping is accepted.\<close>

definition descriptor_ok :: "vm_map_descriptor \<Rightarrow> bool" where
  "descriptor_ok d \<longleftrightarrow> vd_rights d \<noteq> 0
     \<and> rights_contain (HR_READ OR HR_WRITE OR HR_EXECUTE) (vd_rights d)
     \<and> vrange_ok (vd_base d) (vd_size_bytes d) \<and> unat (vd_memory_offset d) mod 4096 = 0"

definition within_memory :: "memory_object \<Rightarrow> vm_map_descriptor \<Rightarrow> bool" where
  "within_memory m d \<longleftrightarrow> unat (vd_memory_offset d) + unat (vd_size_bytes d) \<le> unat (mo_size_bytes m)"

definition mapping_of :: "object_ref \<Rightarrow> vm_map_descriptor \<Rightarrow> vm_mapping" where
  "mapping_of memory d = \<lparr>vm_base = vd_base d, vm_size_bytes = vd_size_bytes d, vm_memory = memory,
     vm_memory_offset = vd_memory_offset d, vm_rights = vd_rights d\<rparr>"

lemma page_offset_aligned: "v mod PAGE_SIZE = 0 \<longleftrightarrow> unat v mod 4096 = 0"
  using page_aligned_iff [of v] by (simp add: is_page_aligned_def)

lemma descriptor_virtual_range_eq:
  "descriptor_virtual_range d =
    (if vrange_ok (vd_base d) (vd_size_bytes d)
     then Ok \<lparr>vr_base = vd_base d, vr_size_bytes = vd_size_bytes d\<rparr> else Err InvalidArgument)"
proof (cases "virtual_range_new (vd_base d) (vd_size_bytes d)")
  case (Ok v)
  moreover from this have "vrange_ok (vd_base d) (vd_size_bytes d)"
    and "v = \<lparr>vr_base = vd_base d, vr_size_bytes = vd_size_bytes d\<rparr>"
    by (simp_all add: virtual_range_new_Ok)
  ultimately show ?thesis by (simp add: descriptor_virtual_range_def)
next
  case (Err e)
  then have "\<not> vrange_ok (vd_base d) (vd_size_bytes d)"
    using virtual_range_new_Ok(1) [of "vd_base d" "vd_size_bytes d"] by auto
  then show ?thesis using Err by (simp add: descriptor_virtual_range_def)
next
  case Panic
  then show ?thesis by (simp add: virtual_range_new_Ok)
qed

lemma checks_eq:
  "rbind (descriptor_validate d) (\<lambda>_. validate_mapping m d) =
    (if \<not> descriptor_ok d \<or> 2 ^ 64 \<le> unat (vd_memory_offset d) + unat (vd_size_bytes d) then Err InvalidArgument
     else if \<not> rights_contain (mp_max_rights (mo_mapping_policy m)) (vd_rights d) then Err MissingRights
     else if \<not> within_memory m d then Err InvalidArgument
     else Ok ())"
  using unat_add_no_overflow [of "vd_memory_offset d" "vd_size_bytes d"]
  by (auto simp: descriptor_validate_def validate_mapping_def descriptor_virtual_range_eq descriptor_ok_def
      page_offset_aligned checked_add_def within_memory_def word_less_nat_alt)

text \<open>The frames behind a mapping lie inside the memory object.\<close>

definition mapped_frames :: "memory_object \<Rightarrow> vm_map_descriptor \<Rightarrow> frame_range" where
  "mapped_frames m d = \<lparr>fr_start = mfr_start (mo_frame_range m) + vd_memory_offset d,
     fr_end = mfr_start (mo_frame_range m) + vd_memory_offset d + vd_size_bytes d\<rparr>"

lemma mapped_frames_bounds:
  assumes "memory_ok m" and "within_memory m d" and "descriptor_ok d"
  shows "unat (fr_start (mapped_frames m d)) = unat (mfr_start (mo_frame_range m)) + unat (vd_memory_offset d)"
    and "unat (fr_end (mapped_frames m d)) = unat (fr_start (mapped_frames m d)) + unat (vd_size_bytes d)"
    and "unat (fr_end (mapped_frames m d)) \<le> unat (mfr_end (mo_frame_range m))"
    and "page_table_frame_range m d = Ok (mapped_frames m d)"
proof -
  let ?s = "mfr_start (mo_frame_range m)" and ?o = "vd_memory_offset d" and ?n = "vd_size_bytes d"
  have le: "unat ?s + unat ?o + unat ?n \<le> unat (mfr_end (mo_frame_range m))"
    using assms(1,2) by (simp add: memory_ok_def within_memory_def)
  then have lt: "unat ?s + unat ?o + unat ?n < 2 ^ 64"
    using unat_u64_less [of "mfr_end (mo_frame_range m)"] by linarith
  then have so: "unat (?s + ?o) = unat ?s + unat ?o" by (intro unat_add_no_overflow) linarith
  then have son: "unat (?s + ?o + ?n) = unat ?s + unat ?o + unat ?n"
    using unat_add_no_overflow [of "?s + ?o" ?n] lt by simp
  show start: "unat (fr_start (mapped_frames m d)) = unat ?s + unat ?o" using so by (simp add: mapped_frames_def)
  show "unat (fr_end (mapped_frames m d)) = unat (fr_start (mapped_frames m d)) + unat ?n"
    using so son by (simp add: mapped_frames_def)
  show "unat (fr_end (mapped_frames m d)) \<le> unat (mfr_end (mo_frame_range m))"
    using son le by (simp add: mapped_frames_def)
  have pos: "0 < unat ?n" using assms(3) by (simp add: descriptor_ok_def vrange_ok_def)
  have "4096 dvd unat ?s" "4096 dvd unat ?o" "4096 dvd unat ?n"
    using assms(1,3) by (auto simp: memory_ok_def mfr_ok_def descriptor_ok_def vrange_ok_def)
  then have al: "is_page_aligned (?s + ?o)" "is_page_aligned (?s + ?o + ?n)"
    unfolding page_aligned_iff so son by (metis dvd_add dvd_imp_mod_0)+
  have "?s + ?o < ?s + ?o + ?n" using pos so son by (simp add: word_less_nat_alt)
  with al have "frame_range_new (?s + ?o) (?s + ?o + ?n) = Ok (mapped_frames m d)"
    by (simp add: frame_range_new_def mapped_frames_def)
  moreover have "checked_add ?s ?o = Some (?s + ?o)" "checked_add (?s + ?o) ?n = Some (?s + ?o + ?n)"
    using lt so by (simp_all add: checked_add_def)
  ultimately show "page_table_frame_range m d = Ok (mapped_frames m d)"
    by (simp add: page_table_frame_range_def paddr_try_from_def)
qed

definition map_intent :: "memory_object \<Rightarrow> vm_map_descriptor \<Rightarrow> page_table_update_intent" where
  "map_intent m d = \<lparr>pti_update = MapUpdate \<lparr>vr_base = vd_base d, vr_size_bytes = vd_size_bytes d\<rparr>
     (mapped_frames m d) (page_table_rights_of (vd_rights d))\<rparr>"

lemma intent_map_ok:
  assumes "memory_ok m" and "within_memory m d" and "descriptor_ok d"
  shows "intent_map \<lparr>vr_base = vd_base d, vr_size_bytes = vd_size_bytes d\<rparr> (mapped_frames m d)
    (page_table_rights_of (vd_rights d)) = Ok (map_intent m d)"
proof -
  note b = mapped_frames_bounds [OF assms]
  have le: "fr_start (mapped_frames m d) \<le> fr_end (mapped_frames m d)" using b(2) by (simp add: word_le_nat_alt)
  then have "unat (fr_end (mapped_frames m d) - fr_start (mapped_frames m d)) = unat (vd_size_bytes d)"
    using b(2) by (simp add: unat_sub_le)
  then have "vd_size_bytes d = fr_end (mapped_frames m d) - fr_start (mapped_frames m d)"
    by (simp add: word_unat_eq_iff)
  moreover have "page_table_rights_of (vd_rights d) \<noteq> 0"
    using assms(3) by (intro mapping_rights_nonzero) (simp_all add: descriptor_ok_def)
  ultimately show ?thesis using le by (simp add: intent_map_Ok map_intent_def)
qed

definition descriptor_addrs :: "vm_map_descriptor \<Rightarrow> nat set" where
  "descriptor_addrs d = {unat (vd_base d) ..< unat (vd_base d) + unat (vd_size_bytes d)}"

definition map_ready :: "address_space_object \<Rightarrow> memory_object \<Rightarrow> vm_map_descriptor \<Rightarrow> bool" where
  "map_ready a m d \<longleftrightarrow> descriptor_ok d \<and> within_memory m d
     \<and> rights_contain (mp_max_rights (mo_mapping_policy m)) (vd_rights d)
     \<and> mapping_count a < DEFAULT_VM_RANGE_CAPACITY
     \<and> (\<forall>x \<in> set (as_mappings a). descriptor_addrs d \<inter> mapping_addrs x = {})"

lemma mapping_of_simps [simp]:
  "mapping_addrs (mapping_of memory d) = descriptor_addrs d"
  "descriptor_ok d \<Longrightarrow> mapping_ok (mapping_of memory d)"
  "vm_memory (mapping_of memory d) = memory"
  by (simp_all add: mapping_addrs_def descriptor_addrs_def mapping_of_def mapping_ok_def descriptor_ok_def)

lemma rbind_assoc: "rbind (rbind r f) g = rbind r (\<lambda>x. rbind (f x) g)"
  by (cases r) auto

lemma within_memory_no_overflow:
  "within_memory m d \<Longrightarrow> unat (vd_memory_offset d) + unat (vd_size_bytes d) < 2 ^ 64"
  using unat_u64_less [of "mo_size_bytes m"] by (simp add: within_memory_def)

lemma prepare_map_unfold:
  "prepare_map a memory m d =
     rbind (rbind (descriptor_validate d) (\<lambda>_. validate_mapping m d)) (\<lambda>_.
     rbind (descriptor_virtual_range d) (\<lambda>rng.
     rbind (reserve_map (as_range_set a) (mapping_of memory d)) (\<lambda>i.
     rbind (page_table_frame_range m d) (\<lambda>fr.
     rbind (map_err (\<lambda>_. InvalidArgument) (intent_map rng fr (page_table_rights_of (vd_rights d)))) (\<lambda>page_table.
     Ok \<lparr>vmr_index = i, vmr_mapping = mapping_of memory d, vmr_page_table = page_table\<rparr>)))))"
  by (simp add: prepare_map_def rbind_assoc mapping_of_def Let_def)

lemma prepare_map_cases:
  assumes wf: "as_wf a" and m: "memory_ok m"
  obtains (ok) i where "prepare_map a memory m d
        = Ok \<lparr>vmr_index = i, vmr_mapping = mapping_of memory d, vmr_page_table = map_intent m d\<rparr>"
      "map_ready a m d" "i < DEFAULT_VM_RANGE_CAPACITY" "rs_mappings (as_range_set a) ! i = None"
  | (err) e where "prepare_map a memory m d = Err e" "\<not> map_ready a m d"
      "e \<in> {InvalidArgument, MissingRights, NoCapacity}"
proof (cases "descriptor_ok d \<and> within_memory m d
    \<and> rights_contain (mp_max_rights (mo_mapping_policy m)) (vd_rights d)")
  case False
  then have "rbind (descriptor_validate d) (\<lambda>_. validate_mapping m d) \<in> {Err InvalidArgument, Err MissingRights}"
    unfolding checks_eq by auto
  then obtain e where "rbind (descriptor_validate d) (\<lambda>_. validate_mapping m d) = Err e"
    and "e \<in> {InvalidArgument, MissingRights, NoCapacity}" by blast
  then show ?thesis using False by (intro err [of e]) (auto simp: prepare_map_unfold map_ready_def)
next
  case True
  then have d: "descriptor_ok d" and w: "within_memory m d"
    and pol: "rights_contain (mp_max_rights (mo_mapping_policy m)) (vd_rights d)" by auto
  have checks: "rbind (descriptor_validate d) (\<lambda>_. validate_mapping m d) = Ok ()"
    unfolding checks_eq using d w pol within_memory_no_overflow [OF w] by simp
  have rng: "descriptor_virtual_range d = Ok \<lparr>vr_base = vd_base d, vr_size_bytes = vd_size_bytes d\<rparr>"
    using d by (simp add: descriptor_virtual_range_eq descriptor_ok_def)
  have unfolded: "prepare_map a memory m d =
      rbind (reserve_map (as_range_set a) (mapping_of memory d)) (\<lambda>i.
      Ok \<lparr>vmr_index = i, vmr_mapping = mapping_of memory d, vmr_page_table = map_intent m d\<rparr>)"
    by (simp add: prepare_map_unfold checks rng mapped_frames_bounds(4) [OF m w d] intent_map_ok [OF m w d])
  have rs: "rs_wf (as_range_set a)" using wf by (simp add: as_wf_def)
  have mo: "mapping_ok (mapping_of memory d)" using d by simp
  show ?thesis
  proof (cases rule: reserve_map_cases [OF rs mo])
    case (1 i)
    have "count_where (\<lambda>slot. slot \<noteq> None) ((rs_mappings (as_range_set a))[i := Some (mapping_of memory d)])
        \<le> DEFAULT_VM_RANGE_CAPACITY"
      using count_where_le [of "\<lambda>slot. slot \<noteq> None" "(rs_mappings (as_range_set a))[i := Some (mapping_of memory d)]"] rs
      by (simp add: rs_wf_def)
    moreover have "i < length (rs_mappings (as_range_set a))" using 1 rs by (simp add: rs_wf_def)
    ultimately have "mapping_count a < DEFAULT_VM_RANGE_CAPACITY"
      using live_fill(2) [of i "rs_mappings (as_range_set a)" "mapping_of memory d"] 1 rs
      by (simp add: mapping_count_def rs_wf_def)
    then have "map_ready a m d" using 1 d w pol by (simp add: map_ready_def as_mappings_def)
    then show ?thesis using 1 by (intro ok [of i]) (simp_all add: unfolded)
  next
    case 2
    then show ?thesis by (intro err [of NoCapacity]) (simp_all add: unfolded map_ready_def mapping_count_def)
  next
    case (3 x)
    then show ?thesis
      by (intro err [of InvalidArgument]) (auto simp: unfolded map_ready_def as_mappings_def)
  qed
qed

lemma map_commit_ok:
  assumes wf: "as_wf a" and ready: "map_ready a m d"
    and i: "i < DEFAULT_VM_RANGE_CAPACITY" "rs_mappings (as_range_set a) ! i = None"
  shows "\<exists>a'. map_reservation_commit \<lparr>vmr_index = i, vmr_mapping = mapping_of memory d, vmr_page_table = pt\<rparr> a = Ok a'
    \<and> as_wf a' \<and> as_pending a' = as_pending a
    \<and> rs_mappings (as_range_set a') = (rs_mappings (as_range_set a))[i := Some (mapping_of memory d)]
    \<and> set (as_mappings a') = insert (mapping_of memory d) (set (as_mappings a))"
proof -
  have rs: "rs_wf (as_range_set a)" using wf by (simp add: as_wf_def)
  have mo: "mapping_ok (mapping_of memory d)" using ready by (simp add: map_ready_def)
  have free: "\<forall>x \<in> set (live (rs_mappings (as_range_set a))). mapping_addrs (mapping_of memory d) \<inter> mapping_addrs x = {}"
    using ready by (simp add: map_ready_def as_mappings_def)
  note c = commit_map_ok [OF rs mo i free]
  have il: "i < length (rs_mappings (as_range_set a))" using i rs by (simp add: rs_wf_def)
  show ?thesis
    using c(2) wf live_fill(1) [OF il i(2), of "mapping_of memory d"]
    by (simp add: map_reservation_commit_def as_wf_def as_mappings_def c(1))
qed

definition unmap_work :: "address_space_object \<Rightarrow> vm_mapping \<Rightarrow> pending_tlb_invalidation_work" where
  "unmap_work a m = \<lparr>ptw_intent = tlb_intent_new \<lparr>vr_base = vm_base m, vr_size_bytes = vm_size_bytes m\<rparr> AllActive
       (pts_next_sequence (as_pending a)), ptw_deferred_reclaim = vm_memory m\<rparr>"

text \<open>An unmap moves one mapping of its slot to one slot of the pending work.\<close>

definition unmap_slots :: "address_space_object \<Rightarrow> vm_mapping \<Rightarrow> address_space_object \<Rightarrow> bool" where
  "unmap_slots a m a' \<longleftrightarrow>
     (\<exists>i j x. i < length (rs_mappings (as_range_set a)) \<and> rs_mappings (as_range_set a) ! i = Some m
        \<and> rs_mappings (as_range_set a') = (rs_mappings (as_range_set a))[i := None]
        \<and> j < length (pts_work (as_pending a)) \<and> pts_work (as_pending a) ! j = None
        \<and> pts_work (as_pending a') = (pts_work (as_pending a))[j := Some x]
        \<and> pti_deferred_reclaim x = vm_memory m)"

lemma prepare_unmap_cases:
  assumes wf: "as_wf a"
  obtains (ok) r m where "prepare_unmap a base size_bytes = Ok r"
      "m \<in> set (as_mappings a)" "vm_base m = base" "vm_size_bytes m = size_bytes" "vur_memory r = vm_memory m"
      "vur_page_table r = intent_unmap \<lparr>vr_base = base, vr_size_bytes = size_bytes\<rparr>"
      "as_headroom a \<Longrightarrow> \<exists>a'. unmap_reservation_commit r a = Ok a' \<and> as_wf a'
          \<and> set (as_mappings a') = set (as_mappings a) - {m}
          \<and> as_queue a' = as_queue a @ [unmap_work a m]
          \<and> pts_next_sequence (as_pending a') = pts_next_sequence (as_pending a) + 1
          \<and> unmap_slots a m a'"
  | (none) "prepare_unmap a base size_bytes = Err InvalidArgument"
      "\<forall>m \<in> set (as_mappings a). \<not> (vm_base m = base \<and> vm_size_bytes m = size_bytes)"
  | (full) "prepare_unmap a base size_bytes = Err NoCapacity"
      "length (as_queue a) = MAX_PENDING_TLB_INVALIDATIONS"
proof -
  have rs: "rs_wf (as_range_set a)" and ps: "pts_wf (as_pending a)" using wf by (simp_all add: as_wf_def)
  show ?thesis
  proof (cases "size_bytes = 0")
    case True
    have "\<not> (vm_base m = base \<and> vm_size_bytes m = size_bytes)" if "m \<in> set (as_mappings a)" for m
      using mapping_ok_nonempty [of m] that rs True by (auto simp: rs_wf_def as_mappings_def)
    then show ?thesis using True by (intro none) (simp_all add: prepare_unmap_def)
  next
    case False
    show ?thesis
    proof (cases rule: reserve_unmap_cases [OF rs, of base size_bytes])
      case none': 2
      then show ?thesis using False by (intro none) (simp_all add: prepare_unmap_def as_mappings_def)
    next
      case (1 i m)
      let ?rng = "\<lparr>vr_base = base, vr_size_bytes = size_bytes\<rparr>"
      have il: "i < length (rs_mappings (as_range_set a))" using 1 rs by (simp add: rs_wf_def)
      then have live: "m \<in> set (as_mappings a)" using 1 by (auto simp: as_mappings_def in_live_nth)
      then have "mapping_ok m" using rs by (simp add: rs_wf_def as_mappings_def)
      then have "vrange_ok base size_bytes" using 1 by (simp add: mapping_ok_def)
      then have rng: "virtual_range_new base size_bytes = Ok ?rng" by (simp add: virtual_range_new_Ok)
      have res: "reserved_mapping (as_range_set a) i = (Ok m :: vm_mapping kernel_result)"
        using il 1 by (simp add: reserved_mapping_def vec_get_def)
      have eq: "prepare_unmap a base size_bytes =
          rbind (pts_reserve (as_pending a) ?rng (vm_memory m)) (\<lambda>tlb_slot.
          Ok \<lparr>vur_index = i, vur_memory = vm_memory m, vur_page_table = intent_unmap ?rng, vur_tlb_slot = tlb_slot\<rparr>)"
        using False 1(1) rng res by (simp add: prepare_unmap_def)
      show ?thesis
      proof (cases rule: pts_reserve_cases [OF ps, of ?rng "vm_memory m"])
        case 2
        then show ?thesis
          using eq ps length_pts_queue [of "as_pending a"] by (intro full) (simp_all add: as_queue_def pts_wf_def)
      next
        case slot: (1 j)
        let ?r = "\<lparr>vur_index = i, vur_memory = vm_memory m, vur_page_table = intent_unmap ?rng,
          vur_tlb_slot = \<lparr>ptr_index = j, ptr_sequence = pts_next_sequence (as_pending a),
            ptr_intent = tlb_intent_new ?rng AllActive (pts_next_sequence (as_pending a)),
            ptr_deferred_reclaim = vm_memory m\<rparr>\<rparr>"
        note cu = commit_unmap_ok [OF rs 1(2,3)]
        have jl: "j < length (pts_work (as_pending a))" using slot ps by (simp add: pts_wf_def)
        have commit: "\<exists>a'. unmap_reservation_commit ?r a = Ok a' \<and> as_wf a'
            \<and> set (as_mappings a') = set (as_mappings a) - {m}
            \<and> as_queue a' = as_queue a @ [unmap_work a m]
            \<and> pts_next_sequence (as_pending a') = pts_next_sequence (as_pending a) + 1
            \<and> unmap_slots a m a'"
          if "as_headroom a"
        proof -
          note pc = pts_commit_ok [OF ps slot(2,3) that [unfolded as_headroom_def]]
          let ?intent = "tlb_intent_new ?rng AllActive (pts_next_sequence (as_pending a))"
          let ?x = "\<lparr>pti_sequence = pts_next_sequence (as_pending a), pti_intent = ?intent,
            pti_deferred_reclaim = vm_memory m\<rparr>"
          let ?a' = "\<lparr>as_pending = \<lparr>pts_count = Suc (pts_count (as_pending a)),
              pts_next_sequence = pts_next_sequence (as_pending a) + 1,
              pts_work = (pts_work (as_pending a))[j := Some ?x]\<rparr>,
            as_range_set = \<lparr>rs_mappings = (rs_mappings (as_range_set a))[i := None],
              rs_count = rs_count (as_range_set a) - 1\<rparr>\<rparr>"
          have "unmap_slots a m ?a'"
            unfolding unmap_slots_def using il jl slot(3) 1(3)
            by (intro exI [of _ i] exI [of _ j] exI [of _ ?x]) simp
          moreover have "unmap_reservation_commit ?r a = Ok ?a'"
            by (simp add: unmap_reservation_commit_def cu(1) pc(1))
          moreover have "as_wf ?a'" using cu(2) pc(2) by (simp add: as_wf_def)
          moreover have "set (as_mappings ?a') = set (as_mappings a) - {m}"
            using cu(3) by (simp add: as_mappings_def)
          moreover have "as_queue ?a' = as_queue a @ [unmap_work a m]"
            using pc(3) [of ?intent "vm_memory m"] 1(4,5) by (simp add: as_queue_def unmap_work_def work_of_def)
          ultimately show ?thesis by (intro exI [of _ ?a']) simp
        qed
        show ?thesis
          using commit live 1 slot(1) eq by (intro ok [of ?r m]) simp_all
      qed
    qed
  qed
qed

lemma take_pending_cases:
  assumes wf: "as_wf a"
  obtains (empty) "take_pending_tlb_invalidation a = Ok (None, a)" "as_queue a = []"
  | (taken) x a' where "take_pending_tlb_invalidation a = Ok (Some (work_of x), a')"
      "as_queue a = work_of x # as_queue a'" "as_wf a'" "as_range_set a' = as_range_set a"
      "pts_next_sequence (as_pending a') = pts_next_sequence (as_pending a)"
      "\<exists>i<length (pts_work (as_pending a)). pts_work (as_pending a) ! i = Some x
         \<and> pts_work (as_pending a') = (pts_work (as_pending a))[i := None]"
proof -
  have ps: "pts_wf (as_pending a)" using wf by (simp add: as_wf_def)
  show ?thesis
  proof (cases rule: pts_take_next_cases [OF ps])
    case 1
    then show ?thesis by (intro empty) (simp_all add: take_pending_tlb_invalidation_def as_queue_def)
  next
    case (2 x p')
    then show ?thesis
      using wf by (intro taken [of x "a\<lparr>as_pending := p'\<rparr>"])
        (simp_all add: take_pending_tlb_invalidation_def as_queue_def as_wf_def)
  qed
qed

lemma take_pending_total: "as_wf a \<Longrightarrow> \<exists>x. take_pending_tlb_invalidation a = Ok x"
  by (cases rule: take_pending_cases) auto

section \<open>The queue of an address space as a first-in, first-out queue\<close>

definition unmap_put :: "address_space_object \<Rightarrow> pending_tlb_invalidation_work \<Rightarrow> address_space_object \<Rightarrow> bool" where
  "unmap_put a w a' \<longleftrightarrow> (\<exists>base size_bytes r. prepare_unmap a base size_bytes = Ok r
     \<and> unmap_reservation_commit r a = (Ok a' :: address_space_object kernel_result) \<and> as_headroom a
     \<and> w = \<lparr>ptw_intent = ptr_intent (vur_tlb_slot r), ptw_deferred_reclaim = vur_memory r\<rparr>)"

definition tlb_take :: "address_space_object \<Rightarrow> pending_tlb_invalidation_work \<Rightarrow> address_space_object \<Rightarrow> bool" where
  "tlb_take a w a' \<longleftrightarrow>
     take_pending_tlb_invalidation a = (Ok (Some w, a') :: _ kernel_result)"

definition map_other :: "address_space_object \<Rightarrow> address_space_object \<Rightarrow> bool" where
  "map_other a a' \<longleftrightarrow> (\<exists>memory m d r. memory_ok m \<and> prepare_map a memory m d = Ok r
     \<and> map_reservation_commit r a = (Ok a' :: address_space_object kernel_result))"

lemma unmap_intent:
  assumes "as_wf a" and "prepare_unmap a base size_bytes = Ok r"
  shows "ptr_intent (vur_tlb_slot r)
    = tlb_intent_new \<lparr>vr_base = base, vr_size_bytes = size_bytes\<rparr> AllActive (pts_next_sequence (as_pending a))"
  using assms
  by (auto simp: prepare_unmap_def pts_reserve_def result_simps virtual_range_new_Ok split: if_splits)

interpretation tlb: fifo_queue as_wf as_queue unmap_put tlb_take map_other
proof unfold_locales
  fix a w a' assume wf: "as_wf a" and "unmap_put a w a'"
  then obtain base size_bytes r where r: "prepare_unmap a base size_bytes = Ok r" "as_headroom a"
    and commit: "unmap_reservation_commit r a = (Ok a' :: address_space_object kernel_result)"
    and w: "w = \<lparr>ptw_intent = ptr_intent (vur_tlb_slot r), ptw_deferred_reclaim = vur_memory r\<rparr>"
    unfolding unmap_put_def by blast
  note i = unmap_intent [OF wf r(1)]
  show "as_wf a' \<and> as_queue a' = as_queue a @ [w]"
  proof (cases rule: prepare_unmap_cases [OF wf, of base size_bytes])
    case (1 r' m)
    then have "r' = r" using r(1) by simp
    moreover from 1(7) [OF r(2)] obtain a'' where
      "unmap_reservation_commit r' a = (Ok a'' :: address_space_object kernel_result)"
      "as_wf a''" "as_queue a'' = as_queue a @ [unmap_work a m]" by blast
    ultimately show ?thesis using commit w i 1(3-5) by (simp add: unmap_work_def)
  qed (use r in simp_all)
next
  fix a w a' assume wf: "as_wf a" and "tlb_take a w a'"
  then show "as_wf a' \<and> as_queue a = w # as_queue a'"
    unfolding tlb_take_def by (cases rule: take_pending_cases [OF wf]) auto
next
  fix a a' assume wf: "as_wf a" and "map_other a a'"
  then obtain memory m d r where m: "memory_ok m" and r: "prepare_map a memory m d = Ok r"
    and commit: "map_reservation_commit r a = (Ok a' :: address_space_object kernel_result)"
    unfolding map_other_def by blast
  show "as_wf a' \<and> as_queue a' = as_queue a"
  proof (cases rule: prepare_map_cases [OF wf m, of memory d])
    case (1 i)
    then have "r = \<lparr>vmr_index = i, vmr_mapping = mapping_of memory d, vmr_page_table = map_intent m d\<rparr>"
      using r by simp
    then obtain a'' where "map_reservation_commit r a = Ok a''" "as_wf a''" "as_pending a'' = as_pending a"
      using map_commit_ok [OF wf 1(2-4), of memory "map_intent m d"] by auto
    then show ?thesis using commit by (auto simp: as_queue_def)
  qed (use r in simp_all)
qed

section \<open>Properties\<close>

text \<open>C35 (functional).  A mapping is accepted exactly when its descriptor is valid, its rights are within
  the object's policy, its bytes lie inside the object, a slot is free and its addresses overlap no
  existing mapping; each other request is refused with an error, and none panics.\<close>

theorem prepare_map_accepts_exactly:
  assumes "as_wf a" and "memory_ok m"
  shows "case prepare_map a memory m d of
      Ok r \<Rightarrow> map_ready a m d \<and> vmr_mapping r = mapping_of memory d
    | Err e \<Rightarrow> \<not> map_ready a m d \<and> e \<in> {InvalidArgument, MissingRights, NoCapacity}
    | Panic \<Rightarrow> False"
  by (cases rule: prepare_map_cases [OF assms, of memory d]) simp_all

lemma page_table_rights_bits: "bit (page_table_rights_of r) n \<longleftrightarrow> n < 3 \<and> bit r n"
proof -
  have one: "bit (2 ^ k :: u8) n \<longleftrightarrow> n = k" if "k < 8" for k
    using that by (auto simp: bit_exp_iff)
  have pt: "bit PT_READ n \<longleftrightarrow> n = 0" "bit PT_WRITE n \<longleftrightarrow> n = 1" "bit PT_EXECUTE n \<longleftrightarrow> n = 2"
    using one [of 0] one [of 1] one [of 2] by (simp_all add: PT_READ_def PT_WRITE_def PT_EXECUTE_def)
  have "n < 3 \<longleftrightarrow> n = 0 \<or> n = 1 \<or> n = 2" by auto
  then show ?thesis
    by (auto simp: page_table_rights_of_def Let_def rights_bits bit_or_iff pt)
qed

text \<open>C31 (safety).  Committing an accepted mapping keeps the address space well formed (so no two mapped
  ranges ever overlap), adds exactly that mapping, and the page-table update it hands out maps the
  requested virtual range to frames inside the memory object, with exactly the requested
  read/write/execute rights, all of them allowed by the object's policy.\<close>

theorem committed_map_exposes_only_the_object:
  assumes "as_wf a" and "memory_ok m" and "prepare_map a memory m d = Ok r"
  shows "\<exists>a' fr rights. map_reservation_commit r a = Ok a' \<and> as_wf a'
    \<and> set (as_mappings a') = insert (mapping_of memory d) (set (as_mappings a))
    \<and> pti_update (vmr_page_table r)
        = MapUpdate \<lparr>vr_base = vd_base d, vr_size_bytes = vd_size_bytes d\<rparr> fr rights
    \<and> unat (mfr_start (mo_frame_range m)) \<le> unat (fr_start fr)
    \<and> unat (fr_end fr) = unat (fr_start fr) + unat (vd_size_bytes d)
    \<and> unat (fr_end fr) \<le> unat (mfr_end (mo_frame_range m))
    \<and> (\<forall>n. bit rights n \<longleftrightarrow> bit (vd_rights d) n)
    \<and> rights_contain (mp_max_rights (mo_mapping_policy m)) (vd_rights d)"
proof (cases rule: prepare_map_cases [OF assms(1,2), of memory d])
  case (1 i)
  then have d: "descriptor_ok d" "within_memory m d" by (simp_all add: map_ready_def)
  have "HR_READ OR HR_WRITE OR HR_EXECUTE = mask 3"
    by (simp add: HR_READ_def HR_WRITE_def HR_EXECUTE_def mask_numeral)
  then have "bit (vd_rights d) n \<Longrightarrow> n < 3" for n
    using d(1) by (auto simp: descriptor_ok_def rights_contain_bits bit_mask_iff)
  then have bits: "bit (page_table_rights_of (vd_rights d)) n \<longleftrightarrow> bit (vd_rights d) n" for n
    by (auto simp: page_table_rights_bits)
  have r: "r = \<lparr>vmr_index = i, vmr_mapping = mapping_of memory d, vmr_page_table = map_intent m d\<rparr>"
    using 1 assms(3) by simp
  obtain a' where "map_reservation_commit r a = (Ok a' :: address_space_object kernel_result)" "as_wf a'"
    "set (as_mappings a') = insert (mapping_of memory d) (set (as_mappings a))"
    using map_commit_ok [OF assms(1) 1(2-4)] unfolding r by blast
  then show ?thesis
    using mapped_frames_bounds(1-3) [OF assms(2) d(2,1)] bits 1(2)
    by (intro exI [of _ a'] exI [of _ "mapped_frames m d"] exI [of _ "page_table_rights_of (vd_rights d)"])
      (simp add: r map_intent_def map_ready_def)
qed (use assms(3) in simp_all)

text \<open>C36 (functional).  An unmap names an existing mapping exactly; preparing it changes nothing, and
  committing it removes that mapping and appends one invalidation of its range, in order, that holds
  the reference to its memory object.  It fails only when no mapping has that base and size, or
  when the pending queue is full.\<close>

theorem unmap_moves_the_mapping_to_the_queue:
  assumes "as_wf a" and "as_headroom a"
  shows "case prepare_unmap a base size_bytes of
      Ok r \<Rightarrow> (\<exists>m a'. m \<in> set (as_mappings a) \<and> vm_base m = base \<and> vm_size_bytes m = size_bytes
        \<and> unmap_reservation_commit r a = Ok a' \<and> as_wf a'
        \<and> set (as_mappings a') = set (as_mappings a) - {m}
        \<and> as_queue a' = as_queue a @ [unmap_work a m])
    | Err InvalidArgument \<Rightarrow> (\<forall>m \<in> set (as_mappings a). \<not> (vm_base m = base \<and> vm_size_bytes m = size_bytes))
    | Err NoCapacity \<Rightarrow> length (as_queue a) = MAX_PENDING_TLB_INVALIDATIONS
    | _ \<Rightarrow> False"
proof (cases rule: prepare_unmap_cases [OF assms(1), of base size_bytes])
  case (1 r m)
  from 1(7) [OF assms(2)] obtain a' where
    "unmap_reservation_commit r a = (Ok a' :: address_space_object kernel_result)" "as_wf a'"
    "set (as_mappings a') = set (as_mappings a) - {m}" "as_queue a' = as_queue a @ [unmap_work a m]" by blast
  with 1(1-4) show ?thesis by auto
qed simp_all

text \<open>C33 (refinement).  Over any interleaving of maps, unmaps and flushes, the pending invalidations come
  out in exactly the order in which the unmaps were committed.\<close>

theorem tlb_work_is_first_in_first_out:
  assumes "tlb.queue_run as_new ins outs a"
  shows "as_wf a \<and> ins = outs @ as_queue a"
  using tlb.run_in_order [OF assms as_wf_new(1)] by (simp add: as_wf_new)

section \<open>Instances\<close>

definition demo_memory :: memory_object where
  "demo_memory = \<lparr>mo_size_bytes = 0x2000, mo_mapping_policy = \<lparr>mp_max_rights = 7\<rparr>,
     mo_frame_range = \<lparr>mfr_start = 0x10000, mfr_end = 0x12000\<rparr>, mo_active_mappings = 0\<rparr>"

definition demo_ref :: object_ref where
  "demo_ref = \<lparr>or_id = 3, or_generation = 1\<rparr>"

definition demo_descriptor :: vm_map_descriptor where
  "demo_descriptor = \<lparr>vd_base = 0x1000, vd_size_bytes = 0x1000, vd_memory_offset = 0x1000, vd_rights = 1\<rparr>"

definition demo_mapped :: address_space_object where
  "demo_mapped = \<lparr>as_pending = pts_empty, as_range_set =
     \<lparr>rs_mappings = Some (mapping_of demo_ref demo_descriptor) # replicate 7 None, rs_count = 1\<rparr>\<rparr>"

definition demo_unmap_reservation :: vm_unmap_reservation where
  "demo_unmap_reservation = \<lparr>vur_index = 0, vur_memory = demo_ref,
     vur_page_table = intent_unmap \<lparr>vr_base = 0x1000, vr_size_bytes = 0x1000\<rparr>,
     vur_tlb_slot = \<lparr>ptr_index = 0, ptr_sequence = 0,
       ptr_intent = tlb_intent_new \<lparr>vr_base = 0x1000, vr_size_bytes = 0x1000\<rparr> AllActive 0,
       ptr_deferred_reclaim = demo_ref\<rparr>\<rparr>"

lemma demo_memory_ok: "memory_ok demo_memory"
  by (simp add: memory_ok_def demo_memory_def mfr_ok_def)

lemma demo_map: "prepare_map as_new demo_ref demo_memory demo_descriptor =
    Ok \<lparr>vmr_index = 0, vmr_mapping = mapping_of demo_ref demo_descriptor,
        vmr_page_table = map_intent demo_memory demo_descriptor\<rparr>"
  by code_simp

lemma demo_map_commit: "map_reservation_commit \<lparr>vmr_index = 0, vmr_mapping = mapping_of demo_ref demo_descriptor,
    vmr_page_table = map_intent demo_memory demo_descriptor\<rparr> as_new = Ok demo_mapped"
  by code_simp

lemma demo_unmap: "prepare_unmap demo_mapped 0x1000 0x1000 = Ok demo_unmap_reservation"
  by code_simp

lemma demo_map_step: "map_other as_new demo_mapped"
  unfolding map_other_def using demo_memory_ok demo_map demo_map_commit by blast

lemma demo_mapped_ok: "as_wf demo_mapped" "as_headroom demo_mapped" "as_queue demo_mapped = []"
proof -
  show "as_wf demo_mapped" "as_queue demo_mapped = []"
    using tlb.other_law [OF as_wf_new(1) demo_map_step] as_wf_new(3) by simp_all
  show "as_headroom demo_mapped" by (simp add: as_headroom_def demo_mapped_def pts_empty_def)
qed

lemma prepare_unmap_commits:
  assumes "as_wf a" and "as_headroom a" and "prepare_unmap a base size_bytes = Ok r"
  shows "\<exists>a'. unmap_reservation_commit r a = Ok a' \<and> as_wf a'"
proof (cases rule: prepare_unmap_cases [OF assms(1), of base size_bytes])
  case (1 r' m)
  then show ?thesis using assms(3) 1(7) [OF assms(2)] by auto
qed (use assms(3) in simp_all)

theorem prepare_map_accepts_exactly_witness: "map_ready as_new demo_memory demo_descriptor"
  using prepare_map_accepts_exactly [OF as_wf_new(1) demo_memory_ok, where memory = demo_ref and d = demo_descriptor]
  by (simp add: demo_map)

theorem committed_map_exposes_only_the_object_witness:
  "set (as_mappings demo_mapped) = {mapping_of demo_ref demo_descriptor} \<and> as_wf demo_mapped"
  using committed_map_exposes_only_the_object [OF as_wf_new(1) demo_memory_ok demo_map]
  by (simp add: demo_map_commit as_wf_new(2))

theorem unmap_moves_the_mapping_to_the_queue_witness:
  "\<exists>m a'. unmap_reservation_commit demo_unmap_reservation demo_mapped = Ok a'
     \<and> as_queue a' = [unmap_work demo_mapped m] \<and> vm_base m = 0x1000"
  using unmap_moves_the_mapping_to_the_queue [OF demo_mapped_ok(1,2), where base = "0x1000" and size_bytes = "0x1000"]
  by (auto simp: demo_unmap demo_mapped_ok(3))

theorem tlb_work_is_first_in_first_out_witness:
  "\<exists>a. as_queue a = [\<lparr>ptw_intent = ptr_intent (vur_tlb_slot demo_unmap_reservation), ptw_deferred_reclaim = demo_ref\<rparr>]"
proof -
  obtain a where commit: "unmap_reservation_commit demo_unmap_reservation demo_mapped = Ok a"
    using prepare_unmap_commits [OF demo_mapped_ok(1,2) demo_unmap] by blast
  let ?w = "\<lparr>ptw_intent = ptr_intent (vur_tlb_slot demo_unmap_reservation), ptw_deferred_reclaim = demo_ref\<rparr>"
  have "unmap_put demo_mapped ?w a"
    unfolding unmap_put_def using demo_unmap commit demo_mapped_ok(2)
    by (intro exI [of _ "0x1000"] exI [of _ demo_unmap_reservation] conjI refl) (simp_all add: demo_unmap_reservation_def)
  then have "tlb.queue_run as_new ([] @ [?w]) [] a"
    using demo_map_step tlb.run_put tlb.run_other tlb.run_done by blast
  from tlb_work_is_first_in_first_out [OF this] show ?thesis by auto
qed

end
