(* ===== verification/Bag_Spec.thy ===== *)
theory Bag_Spec
  imports Prelude "HOL-Library.Multiset"
begin

text \<open>
  The contract of a container that loses nothing and invents nothing: what is inside plus what came
  out is what was inside plus what went in, as multisets.  Unlike a first-in, first-out queue it
  promises no order.
\<close>

locale message_bag =
  fixes inv :: "'s \<Rightarrow> bool"
    and contents :: "'s \<Rightarrow> 'x multiset"
    and put :: "'s \<Rightarrow> 'x \<Rightarrow> 's \<Rightarrow> bool"
    and take_one :: "'s \<Rightarrow> 'x \<Rightarrow> 's \<Rightarrow> bool"
  assumes put_law: "inv s \<Longrightarrow> put s x s' \<Longrightarrow> inv s' \<and> contents s' = add_mset x (contents s)"
    and take_law: "inv s \<Longrightarrow> take_one s x s' \<Longrightarrow> inv s' \<and> contents s = add_mset x (contents s')"
begin

inductive bag_run :: "'s \<Rightarrow> 'x list \<Rightarrow> 'x list \<Rightarrow> 's \<Rightarrow> bool" where
  bag_done: "bag_run s [] [] s"
| bag_put: "bag_run s ins outs s' \<Longrightarrow> put s' x s'' \<Longrightarrow> bag_run s (ins @ [x]) outs s''"
| bag_take: "bag_run s ins outs s' \<Longrightarrow> take_one s' x s'' \<Longrightarrow> bag_run s ins (outs @ [x]) s''"

lemma run_conserves:
  "bag_run s ins outs s' \<Longrightarrow> inv s \<Longrightarrow> inv s' \<and> contents s + mset ins = mset outs + contents s'"
proof (induction rule: bag_run.induct)
  case (bag_done s)
  then show ?case by simp
next
  case (bag_put s ins outs s' x s'')
  then have "inv s'" and IH: "contents s + mset ins = mset outs + contents s'" by blast+
  with put_law [OF \<open>inv s'\<close> bag_put.hyps(2)] show ?case by simp
next
  case (bag_take s ins outs s' x s'')
  then have "inv s'" and IH: "contents s + mset ins = mset outs + contents s'" by blast+
  with take_law [OF \<open>inv s'\<close> bag_take.hyps(2)] show ?case by simp
qed

lemma outputs_were_put:
  "bag_run s ins outs s' \<Longrightarrow> inv s \<Longrightarrow> contents s = {#} \<Longrightarrow> mset outs \<subseteq># mset ins"
  using run_conserves [of s ins outs s'] by simp

end

end
