(* ===== verification/Channel.thy ===== *)
theory Channel
  imports KTypes Vm Bag_Spec
begin

text \<open>
  Channel messages and channel endpoints, \<^verbatim>\<open>kernel/src/object/mod.rs\<close>: a message of at most 64 bytes
  and 4 handle entries, and the endpoint's array of message slots.  The bodies of the object manager's
  enqueue, dequeue and preview operations, once they have borrowed the endpoint, are the endpoint
  operations here; the manager's wrappers are in the object theory.
\<close>

section \<open>Data and operations\<close>

definition MAX_CHANNEL_MESSAGES :: nat where "MAX_CHANNEL_MESSAGES = 4"
definition MAX_CHANNEL_MESSAGE_BYTES :: nat where "MAX_CHANNEL_MESSAGE_BYTES = 64"
definition MAX_CHANNEL_MESSAGE_HANDLES :: nat where "MAX_CHANNEL_MESSAGE_HANDLES = 4"

record channel_message =
  cm_bytes :: "u8 list"
  cm_byte_len :: usize
  cm_handles :: "handle_table_entry option list"
  cm_handle_count :: usize

record channel_endpoint_object =
  ce_peer :: "object_ref option"
  ce_queued_messages :: usize
  ce_max_messages :: usize
  ce_peer_closed :: bool
  ce_messages :: "channel_message option list"

fun place_handles :: "nat \<Rightarrow> handle_table_entry list \<Rightarrow> handle_table_entry option list \<Rightarrow> handle_table_entry option list" where
  "place_handles i [] slots = slots"
| "place_handles i (h # hs) slots = place_handles (Suc i) hs (slots[i := Some h])"

definition channel_message_new :: "u8 list \<Rightarrow> handle_table_entry list \<Rightarrow> channel_message kernel_result" where
  "channel_message_new bytes handles =
     (if MAX_CHANNEL_MESSAGE_BYTES < length bytes \<or> MAX_CHANNEL_MESSAGE_HANDLES < length handles
      then Err NoCapacity
      else Ok \<lparr>cm_bytes = bytes @ drop (length bytes) (replicate MAX_CHANNEL_MESSAGE_BYTES 0),
               cm_byte_len = length bytes,
               cm_handles = place_handles 0 handles (replicate MAX_CHANNEL_MESSAGE_HANDLES None),
               cm_handle_count = length handles\<rparr>)"

definition message_bytes :: "channel_message \<Rightarrow> u8 list kernel_result" where
  "message_bytes m = (if cm_byte_len m \<le> length (cm_bytes m) then Ok (take (cm_byte_len m) (cm_bytes m)) else Panic)"

definition handle_entries :: "channel_message \<Rightarrow> handle_table_entry list" where
  "handle_entries m = live (take (cm_handle_count m) (cm_handles m))"

definition endpoint_new :: "usize \<Rightarrow> channel_endpoint_object kernel_result" where
  "endpoint_new max_messages =
     (if MAX_CHANNEL_MESSAGES < max_messages then Err NoCapacity
      else Ok \<lparr>ce_peer = None, ce_queued_messages = 0, ce_max_messages = max_messages,
               ce_peer_closed = False, ce_messages = replicate MAX_CHANNEL_MESSAGES None\<rparr>)"

definition endpoint_ensure_can_enqueue :: "channel_endpoint_object \<Rightarrow> unit kernel_result" where
  "endpoint_ensure_can_enqueue e =
     (if ce_peer_closed e then Err PeerClosed
      else if ce_queued_messages e = ce_max_messages e then Err NoCapacity
      else Ok ())"

definition endpoint_enqueue ::
  "channel_message \<Rightarrow> channel_endpoint_object \<Rightarrow> channel_endpoint_object kernel_result" where
  "endpoint_enqueue m e =
     (if ce_peer_closed e then Err PeerClosed
      else if ce_queued_messages e = ce_max_messages e then Err NoCapacity
      else rbind (ok_or NoCapacity (position (\<lambda>slot. slot = None) (ce_messages e))) (\<lambda>i.
           rbind (usize_add (ce_queued_messages e) 1) (\<lambda>n.
           Ok (e\<lparr>ce_messages := (ce_messages e)[i := Some m], ce_queued_messages := n\<rparr>))))"

definition endpoint_next_handle_count :: "channel_endpoint_object \<Rightarrow> usize kernel_result" where
  "endpoint_next_handle_count e =
     (case live (ce_messages e) of
        m # _ \<Rightarrow> Ok (cm_handle_count m)
      | [] \<Rightarrow> if ce_peer_closed e then Err PeerClosed else Err WouldBlock)"

definition endpoint_dequeue ::
  "channel_endpoint_object \<Rightarrow> (channel_message \<times> channel_endpoint_object) kernel_result" where
  "endpoint_dequeue e =
     (case position (\<lambda>slot. slot \<noteq> None) (ce_messages e) of
        None \<Rightarrow> if ce_peer_closed e then Err PeerClosed else Err WouldBlock
      | Some i \<Rightarrow>
          rbind (usize_sub (ce_queued_messages e) 1) (\<lambda>n.
          rbind (vec_get (ce_messages e) i) (\<lambda>slot.
          rbind (expect slot) (\<lambda>m.
          Ok (m, e\<lparr>ce_queued_messages := n, ce_messages := (ce_messages e)[i := None]\<rparr>)))))"

section \<open>Messages\<close>

definition message_wf :: "channel_message \<Rightarrow> bool" where
  "message_wf m \<longleftrightarrow> length (cm_bytes m) = MAX_CHANNEL_MESSAGE_BYTES
     \<and> cm_byte_len m \<le> MAX_CHANNEL_MESSAGE_BYTES
     \<and> length (cm_handles m) = MAX_CHANNEL_MESSAGE_HANDLES
     \<and> cm_handle_count m \<le> MAX_CHANNEL_MESSAGE_HANDLES
     \<and> live (take (cm_handle_count m) (cm_handles m)) = live (cm_handles m)
     \<and> length (live (cm_handles m)) = cm_handle_count m"

lemma place_handles_eq:
  "i + length hs \<le> length slots \<Longrightarrow>
    place_handles i hs slots = take i slots @ map Some hs @ drop (i + length hs) slots"
proof (induction hs arbitrary: i slots)
  case Nil
  then show ?case by simp
next
  case (Cons h hs)
  have "place_handles (Suc i) hs (slots[i := Some h])
      = take (Suc i) (slots[i := Some h]) @ map Some hs @ drop (Suc i + length hs) (slots[i := Some h])"
    using Cons.prems by (intro Cons.IH) simp
  moreover have "take (Suc i) (slots[i := Some h]) = take i slots @ [Some h]"
    using Cons.prems by (simp add: take_Suc_conv_app_nth)
  ultimately show ?case by simp
qed

lemma live_map_Some [simp]: "live (map Some xs) = xs"
  by (induction xs) auto

lemma channel_message_new_cases:
  obtains (ok) m where "channel_message_new bytes handles = Ok m" "message_wf m"
      "message_bytes m = Ok bytes" "handle_entries m = handles" "cm_handle_count m = length handles"
      "live (cm_handles m) = handles"
  | (big) "channel_message_new bytes handles = Err NoCapacity"
      "MAX_CHANNEL_MESSAGE_BYTES < length bytes \<or> MAX_CHANNEL_MESSAGE_HANDLES < length handles"
proof (cases "MAX_CHANNEL_MESSAGE_BYTES < length bytes \<or> MAX_CHANNEL_MESSAGE_HANDLES < length handles")
  case True
  then show ?thesis by (intro big) (auto simp: channel_message_new_def)
next
  case False
  then have le: "length bytes \<le> MAX_CHANNEL_MESSAGE_BYTES" "length handles \<le> MAX_CHANNEL_MESSAGE_HANDLES" by auto
  let ?m = "\<lparr>cm_bytes = bytes @ drop (length bytes) (replicate MAX_CHANNEL_MESSAGE_BYTES 0),
    cm_byte_len = length bytes,
    cm_handles = place_handles 0 handles (replicate MAX_CHANNEL_MESSAGE_HANDLES None),
    cm_handle_count = length handles\<rparr>"
  have hs: "cm_handles ?m = map Some handles @ replicate (MAX_CHANNEL_MESSAGE_HANDLES - length handles) None"
    using le(2) by (simp add: place_handles_eq)
  have "message_wf ?m" using le hs by (simp add: message_wf_def)
  moreover have "message_bytes ?m = Ok bytes" by (simp add: message_bytes_def)
  moreover have "handle_entries ?m = handles" using hs by (simp add: handle_entries_def)
  moreover have "live (cm_handles ?m) = handles" using hs by simp
  ultimately show ?thesis using False by (intro ok [of ?m]) (auto simp: channel_message_new_def)
qed

section \<open>Endpoints\<close>

definition endpoint_wf :: "channel_endpoint_object \<Rightarrow> bool" where
  "endpoint_wf e \<longleftrightarrow> length (ce_messages e) = MAX_CHANNEL_MESSAGES
     \<and> ce_queued_messages e = count_where (\<lambda>slot. slot \<noteq> None) (ce_messages e)
     \<and> ce_queued_messages e \<le> ce_max_messages e \<and> ce_max_messages e \<le> MAX_CHANNEL_MESSAGES
     \<and> (\<forall>m \<in> set (live (ce_messages e)). message_wf m)"

definition endpoint_bag :: "channel_endpoint_object \<Rightarrow> channel_message multiset" where
  "endpoint_bag e = mset (live (ce_messages e))"

lemma endpoint_new_wf: "endpoint_new n = Ok e \<Longrightarrow> endpoint_wf e \<and> endpoint_bag e = {#}"
  by (auto simp: endpoint_new_def endpoint_wf_def endpoint_bag_def count_where_replicate split: if_splits)

lemma mset_live_fill:
  assumes "i < length xs" and "xs ! i = None"
  shows "mset (live (xs[i := Some y])) = add_mset y (mset (live xs))"
  using live_split(1) [OF assms(1)] live_split(2) [OF assms(1), of "Some y"] assms(2) by simp

lemma mset_live_clear:
  assumes "i < length xs" and "xs ! i = Some y"
  shows "mset (live xs) = add_mset y (mset (live (xs[i := None])))"
  using live_split(1) [OF assms(1)] live_split(2) [OF assms(1), of None] assms(2) by simp

lemma endpoint_enqueue_cases:
  assumes wf: "endpoint_wf e" and m: "message_wf m"
  obtains (ok) e' i where "endpoint_enqueue m e = Ok e'" "endpoint_wf e'"
      "endpoint_bag e' = add_mset m (endpoint_bag e)" "\<not> ce_peer_closed e"
      "ce_queued_messages e < ce_max_messages e"
      "i < length (ce_messages e)" "ce_messages e ! i = None"
      "e' = e\<lparr>ce_messages := (ce_messages e)[i := Some m], ce_queued_messages := Suc (ce_queued_messages e)\<rparr>"
  | (closed) "endpoint_enqueue m e = Err PeerClosed" "ce_peer_closed e"
  | (full) "endpoint_enqueue m e = Err NoCapacity" "\<not> ce_peer_closed e"
      "ce_queued_messages e = ce_max_messages e"
proof -
  consider "ce_peer_closed e" | "\<not> ce_peer_closed e" "ce_queued_messages e = ce_max_messages e"
    | "\<not> ce_peer_closed e" "ce_queued_messages e < ce_max_messages e"
    using wf by (fastforce simp: endpoint_wf_def)
  then show ?thesis
  proof cases
    case 1
    then show ?thesis by (intro closed) (simp_all add: endpoint_enqueue_def)
  next
    case 2
    then show ?thesis by (intro full) (simp_all add: endpoint_enqueue_def)
  next
    case 3
    then have "count_where (\<lambda>slot. slot \<noteq> None) (ce_messages e) < length (ce_messages e)"
      using wf by (simp add: endpoint_wf_def)
    then obtain i where i: "position (\<lambda>slot. slot = None) (ce_messages e) = Some i"
      "i < length (ce_messages e)" "ce_messages e ! i = None" by (rule free_slot)
    let ?e = "e\<lparr>ce_messages := (ce_messages e)[i := Some m], ce_queued_messages := Suc (ce_queued_messages e)\<rparr>"
    have "ce_queued_messages e < 4" using 3 wf by (simp add: endpoint_wf_def MAX_CHANNEL_MESSAGES_def)
    then have "endpoint_enqueue m e = Ok ?e"
      using 3 i(1) by (simp add: endpoint_enqueue_def usize_add_def usize_max_def)
    moreover have "endpoint_wf ?e"
      using wf m 3 live_fill [OF i(2,3), of m] by (auto simp: endpoint_wf_def)
    moreover have "endpoint_bag ?e = add_mset m (endpoint_bag e)"
      using mset_live_fill [OF i(2,3)] by (simp add: endpoint_bag_def)
    ultimately show ?thesis using 3 i by (intro ok) auto
  qed
qed

lemma live_Nil_iff: "live xs = [] \<longleftrightarrow> (\<forall>x \<in> set xs. x = None)"
proof (induction xs)
  case Nil
  then show ?case by simp
next
  case (Cons x xs)
  then show ?case by (cases x) auto
qed

lemma live_first:
  assumes "position (\<lambda>slot. slot \<noteq> None) xs = Some i" and "xs ! i = Some y"
  shows "\<exists>ys. live xs = y # ys"
  using assms
proof (induction xs arbitrary: i)
  case Nil
  then show ?case by simp
next
  case (Cons x xs)
  then show ?case by (cases x) (auto split: if_splits)
qed

lemma endpoint_dequeue_cases:
  assumes wf: "endpoint_wf e"
  obtains (ok) m e' i where "endpoint_dequeue e = Ok (m, e')" "endpoint_wf e'" "message_wf m"
      "endpoint_bag e = add_mset m (endpoint_bag e')" "endpoint_next_handle_count e = Ok (cm_handle_count m)"
      "i < length (ce_messages e)" "ce_messages e ! i = Some m"
      "e' = e\<lparr>ce_queued_messages := ce_queued_messages e - 1, ce_messages := (ce_messages e)[i := None]\<rparr>"
  | (closed) "endpoint_dequeue e = Err PeerClosed" "endpoint_next_handle_count e = Err PeerClosed"
      "endpoint_bag e = {#}" "ce_peer_closed e"
  | (empty) "endpoint_dequeue e = Err WouldBlock" "endpoint_next_handle_count e = Err WouldBlock"
      "endpoint_bag e = {#}" "\<not> ce_peer_closed e"
proof (cases "position (\<lambda>slot. slot \<noteq> None) (ce_messages e)")
  case None
  then have "\<forall>x \<in> set (ce_messages e). x = None" by (simp add: position_eq_None)
  then have "live (ce_messages e) = []" by (simp only: live_Nil_iff)
  then show ?thesis
    using None by (cases "ce_peer_closed e")
      (simp_all add: closed empty endpoint_dequeue_def endpoint_next_handle_count_def endpoint_bag_def)
next
  case (Some i)
  then have il: "i < length (ce_messages e)" and "ce_messages e ! i \<noteq> None"
    using position_SomeD(1,2) [OF Some] by auto
  then obtain m where mi: "ce_messages e ! i = Some m" by auto
  let ?e = "e\<lparr>ce_queued_messages := ce_queued_messages e - 1, ce_messages := (ce_messages e)[i := None]\<rparr>"
  have count: "ce_queued_messages e = Suc (count_where (\<lambda>slot. slot \<noteq> None) ((ce_messages e)[i := None]))"
    using wf live_clear(2) [OF il mi] by (simp add: endpoint_wf_def)
  have "endpoint_dequeue e = Ok (m, ?e)"
    using Some il mi count by (simp add: endpoint_dequeue_def usize_sub_def vec_get_def)
  moreover have "set (live ((ce_messages e)[i := None])) \<subseteq> set (live (ce_messages e))"
    unfolding live_clear(1) [OF il mi] by (auto simp: in_live_nth)
  then have "endpoint_wf ?e" using wf count by (auto simp: endpoint_wf_def)
  moreover have "m \<in> set (live (ce_messages e))" using il mi by (auto simp: in_live_nth)
  then have "message_wf m" using wf by (simp add: endpoint_wf_def)
  moreover have "endpoint_bag e = add_mset m (endpoint_bag ?e)"
    using mset_live_clear [OF il mi] by (simp add: endpoint_bag_def)
  moreover have "endpoint_next_handle_count e = Ok (cm_handle_count m)"
    using live_first [OF Some mi] by (auto simp: endpoint_next_handle_count_def)
  ultimately show ?thesis using il mi by (intro ok) auto
qed

definition endpoint_put :: "channel_endpoint_object \<Rightarrow> channel_message \<Rightarrow> channel_endpoint_object \<Rightarrow> bool" where
  "endpoint_put e m e' \<longleftrightarrow> message_wf m \<and> endpoint_enqueue m e = Ok e'"

definition endpoint_take :: "channel_endpoint_object \<Rightarrow> channel_message \<Rightarrow> channel_endpoint_object \<Rightarrow> bool" where
  "endpoint_take e m e' \<longleftrightarrow> endpoint_dequeue e = Ok (m, e')"

interpretation endpoint: message_bag endpoint_wf endpoint_bag endpoint_put endpoint_take
proof unfold_locales
  fix e m e' assume wf: "endpoint_wf e" and "endpoint_put e m e'"
  then have m: "message_wf m" and put: "endpoint_enqueue m e = Ok e'" by (simp_all add: endpoint_put_def)
  show "endpoint_wf e' \<and> endpoint_bag e' = add_mset m (endpoint_bag e)"
    using put by (cases rule: endpoint_enqueue_cases [OF wf m]) auto
next
  fix e m e' assume wf: "endpoint_wf e" and "endpoint_take e m e'"
  then show "endpoint_wf e' \<and> endpoint_bag e = add_mset m (endpoint_bag e')"
    unfolding endpoint_take_def by (cases rule: endpoint_dequeue_cases [OF wf]) auto
qed

section \<open>Properties\<close>

text \<open>C39 (roundtrip).  A message is built from at most 64 bytes and 4 handle entries and gives back exactly
  the bytes and the entries it was built from, in order; a larger one is refused.\<close>

theorem channel_message_roundtrip:
  "case channel_message_new bytes handles of
      Ok m \<Rightarrow> length bytes \<le> 64 \<and> length handles \<le> 4 \<and> message_bytes m = Ok bytes
        \<and> handle_entries m = handles \<and> cm_handle_count m = length handles
    | Err e \<Rightarrow> e = NoCapacity \<and> (64 < length bytes \<or> 4 < length handles)
    | Panic \<Rightarrow> False"
proof (cases rule: channel_message_new_cases [of bytes handles])
  case (ok m)
  then show ?thesis
    by (auto simp: channel_message_new_def MAX_CHANNEL_MESSAGE_BYTES_def MAX_CHANNEL_MESSAGE_HANDLES_def split: if_splits)
next
  case big
  then show ?thesis by (simp add: MAX_CHANNEL_MESSAGE_BYTES_def MAX_CHANNEL_MESSAGE_HANDLES_def)
qed

text \<open>C32 (refinement).  A channel endpoint neither loses, duplicates nor invents a message: after any
  sequence of sends and receives on a new endpoint, the messages sent are exactly the messages received
  together with those still queued.\<close>

theorem channel_conserves_messages:
  assumes "endpoint_new n = Ok e" and "endpoint.bag_run e sent received e'"
  shows "mset sent = mset received + endpoint_bag e' \<and> size (endpoint_bag e') \<le> n \<and> endpoint_wf e'"
proof -
  have new: "endpoint_wf e" "endpoint_bag e = {#}" using endpoint_new_wf [OF assms(1)] by auto
  have run: "endpoint_wf e'" "mset sent = mset received + endpoint_bag e'"
    using endpoint.run_conserves [OF assms(2) new(1)] new(2) by auto
  have "ce_max_messages e' = ce_max_messages e"
    using assms(2) new(1)
  proof (induction rule: endpoint.bag_run.induct)
    case (bag_put s ins outs s' x s'')
    then have "endpoint_wf s'" and "message_wf x" and "endpoint_enqueue x s' = Ok s''"
      using endpoint.run_conserves by (auto simp: endpoint_put_def)
    then show ?case using bag_put by (cases rule: endpoint_enqueue_cases [of s' x]) auto
  next
    case (bag_take s ins outs s' x s'')
    then have "endpoint_wf s'" and "endpoint_dequeue s' = Ok (x, s'')"
      using endpoint.run_conserves by (auto simp: endpoint_take_def)
    then show ?case using bag_take by (cases rule: endpoint_dequeue_cases [of s']) auto
  qed simp
  moreover have "ce_max_messages e = n" using assms(1) by (auto simp: endpoint_new_def split: if_splits)
  moreover have "size (endpoint_bag e') = ce_queued_messages e'"
    using run(1) by (simp add: endpoint_bag_def endpoint_wf_def length_live)
  ultimately show ?thesis using run by (simp add: endpoint_wf_def)
qed

lemma endpoint_new_2: "endpoint_new 2 = Ok \<lparr>ce_peer = None, ce_queued_messages = 0, ce_max_messages = 2,
    ce_peer_closed = False, ce_messages = [None, None, None, None]\<rparr>"
proof -
  have "replicate 4 None = [None, None, None, None :: channel_message option]" by code_simp
  then show ?thesis by (simp add: endpoint_new_def MAX_CHANNEL_MESSAGES_def)
qed

text \<open>Messages that are sent and received one by one.\<close>

fun exchange :: "channel_message list \<Rightarrow> channel_endpoint_object \<Rightarrow> (channel_message list \<times> channel_endpoint_object) kernel_result" where
  "exchange [] e = Ok ([], e)"
| "exchange (m # ms) e =
     rbind (endpoint_enqueue m e) (\<lambda>e. rbind (endpoint_dequeue e) (\<lambda>(r, e). map_ok (\<lambda>(rs, e). (r # rs, e)) (exchange ms e)))"

text \<open>A receive leaves the first slot free.\<close>

lemma dequeue_frees_first:
  assumes d: "endpoint_dequeue e = Ok (m, e')"
  shows "ce_messages e' \<noteq> []" "ce_messages e' ! 0 = None"
proof -
  obtain i where i: "position (\<lambda>slot. slot \<noteq> None) (ce_messages e) = Some i" "ce_messages e' = (ce_messages e)[i := None]"
    using d by (auto simp: endpoint_dequeue_def result_simps split: option.split_asm if_split_asm)
  note first = position_SomeD [OF i(1)]
  show "ce_messages e' \<noteq> []" using first(1) i(2) by auto
  have "ce_messages e ! 0 = None" if "i \<noteq> 0" using first(3) [of 0] that by simp
  then show "ce_messages e' ! 0 = None" using first(1) i(2) by (cases "i = 0") simp_all
qed

lemma exchange_first:
  assumes free: "ce_messages e \<noteq> []" "ce_messages e ! 0 = None" and room: "\<not> ce_peer_closed e" "ce_queued_messages e \<noteq> ce_max_messages e"
    and n: "ce_queued_messages e < usize_max"
  shows "\<exists>e'. endpoint_enqueue m e = Ok e' \<and> endpoint_dequeue e' = Ok (m, e)"
proof -
  obtain xs where xs: "ce_messages e = None # xs" using free by (cases "ce_messages e") auto
  let ?e = "e\<lparr>ce_messages := Some m # xs, ce_queued_messages := Suc (ce_queued_messages e)\<rparr>"
  have "endpoint_enqueue m e = Ok ?e" using xs room n by (simp add: endpoint_enqueue_def usize_add_def)
  moreover have "endpoint_dequeue ?e = Ok (m, e)" using xs by (simp add: endpoint_dequeue_def usize_sub_def vec_get_def)
  ultimately show ?thesis by blast
qed

text \<open>C40 (functional).  An endpoint is not a queue: once a message has been received from it, messages that are then sent,
  each received before the next is sent, come out in turn, however many there are, and overtake all the older ones that
  wait there, which wait on.\<close>

theorem channel_overtakes:
  assumes wf: "endpoint_wf e" and open_end: "\<not> ce_peer_closed e" and d: "endpoint_dequeue e = Ok (m, e')"
  shows "exchange ms e' = Ok (ms, e') \<and> endpoint_bag e = add_mset m (endpoint_bag e')"
proof -
  obtain i where i: "i < length (ce_messages e)" "ce_messages e ! i = Some m"
    and bag: "endpoint_bag e = add_mset m (endpoint_bag e')"
    and e': "e' = e\<lparr>ce_queued_messages := ce_queued_messages e - 1, ce_messages := (ce_messages e)[i := None]\<rparr>"
    by (cases rule: endpoint_dequeue_cases [OF wf]) (use d in simp_all)
  have "\<exists>slot \<in> set (ce_messages e). slot \<noteq> None" using i nth_mem [OF i(1)] by force
  then have "0 < ce_queued_messages e" using wf by (simp only: endpoint_wf_def count_where_pos)
  then have room: "ce_queued_messages e' < ce_max_messages e'" "ce_max_messages e' \<le> 4" "\<not> ce_peer_closed e'"
    using wf open_end by (auto simp: e' endpoint_wf_def MAX_CHANNEL_MESSAGES_def)
  have one: "\<exists>e2. endpoint_enqueue x e' = Ok e2 \<and> endpoint_dequeue e2 = Ok (x, e')" for x
    by (rule exchange_first [OF dequeue_frees_first [OF d]]) (use room in \<open>simp_all add: usize_max_def\<close>)
  have "exchange ms e' = Ok (ms, e')"
  proof (induction ms)
    case (Cons x ms)
    then show ?case using one [of x] by auto
  qed simp
  then show ?thesis using bag by simp
qed

section \<open>Instances\<close>

theorem channel_overtakes_witness:
  "\<exists>e a b. a \<noteq> b \<and> endpoint_bag e = {#a#} \<and> exchange [b, b] e = Ok ([b, b], e)"
proof -
  obtain a where a: "channel_message_new [1, 2, 3] [] = Ok a" "message_wf a"
    by (cases rule: channel_message_new_cases [of "[1, 2, 3]" "[]"])
      (simp_all add: MAX_CHANNEL_MESSAGE_BYTES_def MAX_CHANNEL_MESSAGE_HANDLES_def)
  define b where "b = a\<lparr>cm_byte_len := Suc (cm_byte_len a)\<rparr>"
  let ?e = "\<lparr>ce_peer = None, ce_queued_messages = 2, ce_max_messages = 2, ce_peer_closed = False,
    ce_messages = [Some a, Some a, None, None]\<rparr>"
  have wf: "endpoint_wf ?e" using a(2) by (simp add: endpoint_wf_def MAX_CHANNEL_MESSAGES_def live_def List.map_filter_def)
  have d: "endpoint_dequeue ?e = Ok (a, ?e\<lparr>ce_queued_messages := 1, ce_messages := [None, Some a, None, None]\<rparr>)"
    by (simp add: endpoint_dequeue_def usize_sub_def vec_get_def)
  have "a \<noteq> b" by (simp add: b_def) (metis channel_message.ext_inject channel_message.surjective channel_message.update_convs(2) n_not_Suc_n)
  moreover have "endpoint_bag ?e = {#a, a#}" by (simp add: endpoint_bag_def live_def List.map_filter_def)
  ultimately show ?thesis using channel_overtakes [OF wf _ d, of "[b, b]"] by auto
qed

theorem channel_conserves_messages_witness:
  "\<exists>e m e' e''. endpoint_new 2 = Ok e \<and> endpoint_enqueue m e = Ok e' \<and> endpoint_dequeue e' = Ok (m, e'')
     \<and> endpoint_bag e'' = {#}"
proof -
  define e :: channel_endpoint_object where e': "e = \<lparr>ce_peer = None, ce_queued_messages = 0, ce_max_messages = 2,
      ce_peer_closed = False, ce_messages = [None, None, None, None]\<rparr>"
  then have e: "endpoint_new 2 = Ok e" by (simp only: endpoint_new_2)
  obtain m where m: "channel_message_new [1, 2, 3] [] = Ok m" "message_wf m"
    by (cases rule: channel_message_new_cases [of "[1, 2, 3]" "[]"])
      (auto simp: MAX_CHANNEL_MESSAGE_BYTES_def MAX_CHANNEL_MESSAGE_HANDLES_def)
  let ?e1 = "e\<lparr>ce_messages := [Some m, None, None, None], ce_queued_messages := 1\<rparr>"
  have put: "endpoint_enqueue m e = Ok ?e1"
    by (simp add: e' endpoint_enqueue_def usize_add_def usize_max_def)
  have take: "endpoint_dequeue ?e1 = Ok (m, e)"
    by (simp add: e' endpoint_dequeue_def usize_sub_def vec_get_def)
  have "endpoint.bag_run e ([] @ [m]) ([] @ [m]) e"
    using put take m(2) endpoint.bag_done [of e]
    by (intro endpoint.bag_take [of _ _ _ ?e1] endpoint.bag_put [of _ _ _ e])
      (simp_all add: endpoint_put_def endpoint_take_def)
  from channel_conserves_messages [OF e this] have "endpoint_bag e = {#}" by simp
  with e put take show ?thesis by blast
qed

end
