(* ===== verification/Object.thy ===== *)
theory Object
  imports Channel
begin

text \<open>
  The object manager, \<^verbatim>\<open>kernel/src/object/mod.rs\<close>: a fixed table of objects, each named by its index
  and its generation, with its payload, its handle count and the operations that create, use, map,
  unmap, reclaim and destroy objects.  A method that borrows a payload mutably
  (\<open>live_payload_mut\<close>) is modelled as reading the payload and writing it back to its slot.
\<close>

section \<open>Data\<close>

record event_object =
  eo_state :: event_state

record thread_object =
  to_lifecycle :: thread_lifecycle

datatype object_payload =
    PProcess
  | PChannelEndpoint channel_endpoint_object
  | PEvent event_object
  | PMemoryObject memory_object
  | PAddressSpace address_space_object
  | PThread thread_object

fun payload_kind :: "object_payload \<Rightarrow> object_kind" where
  "payload_kind PProcess = KindProcess"
| "payload_kind (PChannelEndpoint _) = KindChannelEndpoint"
| "payload_kind (PEvent _) = KindEvent"
| "payload_kind (PMemoryObject _) = KindMemoryObject"
| "payload_kind (PAddressSpace _) = KindAddressSpace"
| "payload_kind (PThread _) = KindThread"

datatype object_state = Live | Dead

record object_entry =
  oe_id :: object_id
  oe_payload :: object_payload
  oe_generation :: object_generation
  oe_state :: object_state
  oe_handle_count :: usize

record object_snapshot =
  sn_id :: object_id
  sn_payload :: object_payload
  sn_generation :: object_generation
  sn_state :: object_state
  sn_handle_count :: usize

record object_entry_reservation =
  oer_index :: usize
  oer_generation :: object_generation

record object_manager =
  om_entries :: "object_entry option list"
  om_generations :: "object_generation list"
  om_capacity :: usize

section \<open>Lookup\<close>

definition snapshot_of :: "object_entry \<Rightarrow> object_snapshot" where
  "snapshot_of e = \<lparr>sn_id = oe_id e, sn_payload = oe_payload e, sn_generation = oe_generation e,
     sn_state = oe_state e, sn_handle_count = oe_handle_count e\<rparr>"

definition snapshot_kind :: "object_snapshot \<Rightarrow> object_kind" where
  "snapshot_kind s = payload_kind (sn_payload s)"

definition reservation_object_id :: "object_entry_reservation \<Rightarrow> object_id" where
  "reservation_object_id r = as_u64 (oer_index r)"

definition om_with_capacity :: "heap \<Rightarrow> usize \<Rightarrow> object_manager kernel_result" where
  "om_with_capacity heap capacity =
     rbind (try_reserve_exact heap SiteObjectEntries capacity) (\<lambda>_.
     rbind (try_reserve_exact heap SiteObjectGenerations capacity) (\<lambda>_.
     Ok \<lparr>om_entries = replicate capacity None, om_generations = replicate capacity INITIAL,
         om_capacity = capacity\<rparr>))"

definition om_live_count :: "object_manager \<Rightarrow> usize" where
  "om_live_count om = count_where (\<lambda>slot. slot \<noteq> None) (om_entries om)"

definition om_index :: "object_manager \<Rightarrow> object_id \<Rightarrow> usize kernel_result" where
  "om_index om i = (if om_capacity om \<le> as_usize i then Err InvalidHandle else Ok (as_usize i))"

text \<open>\<open>entry\<close> and \<open>entry_mut\<close> read the same slot; writing through the mutable borrow is \<open>om_put\<close>.\<close>

definition om_entry :: "object_manager \<Rightarrow> object_id \<Rightarrow> object_entry kernel_result" where
  "om_entry om i = rbind (om_index om i) (\<lambda>k. rbind (vec_get (om_entries om) k) (\<lambda>slot. ok_or DeadObject slot))"

definition om_put :: "object_manager \<Rightarrow> object_id \<Rightarrow> object_entry \<Rightarrow> object_manager" where
  "om_put om i e = om\<lparr>om_entries := (om_entries om)[as_usize i := Some e]\<rparr>"

definition om_snapshot :: "object_manager \<Rightarrow> object_id \<Rightarrow> object_snapshot kernel_result" where
  "om_snapshot om i = map_ok snapshot_of (om_entry om i)"

text \<open>The checks of \<open>live_payload\<close> and \<open>live_payload_mut\<close>, returning the entry that holds the payload.\<close>

definition om_live_entry :: "object_manager \<Rightarrow> object_id \<Rightarrow> object_generation \<Rightarrow> object_entry kernel_result" where
  "om_live_entry om i g =
     rbind (om_entry om i) (\<lambda>e.
     if oe_state e = Dead then Err DeadObject
     else if oe_generation e \<noteq> g then Err StaleHandle
     else Ok e)"

definition om_live_payload :: "object_manager \<Rightarrow> object_id \<Rightarrow> object_generation \<Rightarrow> object_payload kernel_result" where
  "om_live_payload om i g = map_ok oe_payload (om_live_entry om i g)"

definition om_put_payload :: "object_manager \<Rightarrow> object_id \<Rightarrow> object_payload \<Rightarrow> object_manager" where
  "om_put_payload om i p =
     om\<lparr>om_entries := (om_entries om)[as_usize i :=
       map_option (\<lambda>e. e\<lparr>oe_payload := p\<rparr>) (om_entries om ! as_usize i)]\<rparr>"

definition om_validate ::
  "object_manager \<Rightarrow> object_id \<Rightarrow> object_generation \<Rightarrow> object_kind \<Rightarrow> object_snapshot kernel_result" where
  "om_validate om i g kind =
     rbind (om_entry om i) (\<lambda>e.
     if oe_state e = Dead then Err DeadObject
     else if oe_generation e \<noteq> g then Err StaleHandle
     else if payload_kind (oe_payload e) \<noteq> kind then Err WrongObjectType
     else Ok (snapshot_of e))"

fun as_event :: "object_payload \<Rightarrow> event_object kernel_result" where
  "as_event (PEvent e) = Ok e"
| "as_event _ = Err WrongObjectType"

fun as_channel :: "object_payload \<Rightarrow> channel_endpoint_object kernel_result" where
  "as_channel (PChannelEndpoint e) = Ok e"
| "as_channel _ = Err WrongObjectType"

fun as_memory :: "object_payload \<Rightarrow> memory_object kernel_result" where
  "as_memory (PMemoryObject m) = Ok m"
| "as_memory _ = Err WrongObjectType"

fun as_address_space :: "object_payload \<Rightarrow> address_space_object kernel_result" where
  "as_address_space (PAddressSpace a) = Ok a"
| "as_address_space _ = Err WrongObjectType"

definition om_event :: "object_manager \<Rightarrow> object_id \<Rightarrow> object_generation \<Rightarrow> event_object kernel_result" where
  "om_event om i g = rbind (om_live_payload om i g) as_event"

definition om_memory_object :: "object_manager \<Rightarrow> object_id \<Rightarrow> object_generation \<Rightarrow> memory_object kernel_result" where
  "om_memory_object om i g = rbind (om_live_payload om i g) as_memory"

definition om_address_space ::
  "object_manager \<Rightarrow> object_id \<Rightarrow> object_generation \<Rightarrow> address_space_object kernel_result" where
  "om_address_space om i g = rbind (om_live_payload om i g) as_address_space"

definition om_channel_endpoint ::
  "object_manager \<Rightarrow> object_id \<Rightarrow> object_generation \<Rightarrow> channel_endpoint_object kernel_result" where
  "om_channel_endpoint om i g = rbind (om_live_payload om i g) as_channel"

section \<open>Creation\<close>

fun payload_for_kind :: "object_kind \<Rightarrow> object_payload kernel_result" where
  "payload_for_kind KindProcess = Ok PProcess"
| "payload_for_kind KindChannelEndpoint = Ok (PChannelEndpoint
     \<lparr>ce_peer = None, ce_queued_messages = 0, ce_max_messages = 0, ce_peer_closed = False,
      ce_messages = replicate MAX_CHANNEL_MESSAGES None\<rparr>)"
| "payload_for_kind KindEvent = Ok (PEvent \<lparr>eo_state = Unsignaled\<rparr>)"
| "payload_for_kind KindMemoryObject = Err Unsupported"
| "payload_for_kind KindAddressSpace = Ok (PAddressSpace as_new)"
| "payload_for_kind KindThread = Ok (PThread \<lparr>to_lifecycle = Initial\<rparr>)"

definition om_reserve_entry :: "object_manager \<Rightarrow> object_entry_reservation kernel_result" where
  "om_reserve_entry om =
     rbind (ok_or NoCapacity (position (\<lambda>slot. slot = None) (om_entries om))) (\<lambda>k.
     rbind (vec_get (om_generations om) k) (\<lambda>g.
     Ok \<lparr>oer_index = k, oer_generation = g\<rparr>))"

definition om_commit_reserved ::
  "object_entry_reservation \<Rightarrow> object_payload \<Rightarrow> object_manager \<Rightarrow> object_snapshot kernel_result \<times> object_manager" where
  "om_commit_reserved r p om =
     (if om_capacity om \<le> oer_index r then (Err InvalidHandle, om)
      else lift (vec_get (om_entries om) (oer_index r)) om (\<lambda>slot.
           lift (vec_get (om_generations om) (oer_index r)) om (\<lambda>g.
           if slot \<noteq> None \<or> g \<noteq> oer_generation r then (Err NoCapacity, om)
           else (let e = \<lparr>oe_id = as_u64 (oer_index r), oe_payload = p, oe_generation = oer_generation r,
                          oe_state = Live, oe_handle_count = 0\<rparr> in
                 (Ok (snapshot_of e), om\<lparr>om_entries := (om_entries om)[oer_index r := Some e]\<rparr>)))))"

definition om_create_payload :: "object_payload \<Rightarrow> object_manager \<Rightarrow> object_snapshot kernel_result \<times> object_manager" where
  "om_create_payload p om = lift (om_reserve_entry om) om (\<lambda>r. om_commit_reserved r p om)"

definition om_create :: "object_kind \<Rightarrow> object_manager \<Rightarrow> object_snapshot kernel_result \<times> object_manager" where
  "om_create kind om = lift (payload_for_kind kind) om (\<lambda>p. om_create_payload p om)"

definition om_create_channel_endpoint ::
  "usize \<Rightarrow> object_manager \<Rightarrow> object_snapshot kernel_result \<times> object_manager" where
  "om_create_channel_endpoint max_messages om =
     lift (endpoint_new max_messages) om (\<lambda>e. om_create_payload (PChannelEndpoint e) om)"

section \<open>Events\<close>

definition om_signal_event :: "object_id \<Rightarrow> object_generation \<Rightarrow> object_manager \<Rightarrow> unit kernel_result \<times> object_manager" where
  "om_signal_event i g om =
     lift (om_live_payload om i g) om (\<lambda>p.
     lift (as_event p) om (\<lambda>e. (Ok (), om_put_payload om i (PEvent (e\<lparr>eo_state := Signaled\<rparr>)))))"

definition om_clear_event :: "object_id \<Rightarrow> object_generation \<Rightarrow> object_manager \<Rightarrow> unit kernel_result \<times> object_manager" where
  "om_clear_event i g om =
     lift (om_live_payload om i g) om (\<lambda>p.
     lift (as_event p) om (\<lambda>e. (Ok (), om_put_payload om i (PEvent (e\<lparr>eo_state := Unsignaled\<rparr>)))))"

section \<open>Handle counts\<close>

definition om_add_handle :: "object_id \<Rightarrow> object_generation \<Rightarrow> object_manager \<Rightarrow> unit kernel_result \<times> object_manager" where
  "om_add_handle i g om =
     lift (om_entry om i) om (\<lambda>e.
     if oe_state e = Dead then (Err DeadObject, om)
     else if oe_generation e \<noteq> g then (Err StaleHandle, om)
     else (Ok (), om_put om i (e\<lparr>oe_handle_count := usize_saturating_add (oe_handle_count e) 1\<rparr>)))"

definition om_remove_handle :: "object_id \<Rightarrow> object_generation \<Rightarrow> object_manager \<Rightarrow> unit kernel_result \<times> object_manager" where
  "om_remove_handle i g om =
     lift (om_entry om i) om (\<lambda>e.
     if oe_generation e \<noteq> g then (Err StaleHandle, om)
     else (Ok (), om_put om i (e\<lparr>oe_handle_count := usize_saturating_sub (oe_handle_count e) 1\<rparr>)))"

definition om_ensure_handle_can_close :: "object_manager \<Rightarrow> object_id \<Rightarrow> object_generation \<Rightarrow> unit kernel_result" where
  "om_ensure_handle_can_close om i g =
     rbind (om_entry om i) (\<lambda>e.
     if oe_generation e \<noteq> g then Err StaleHandle
     else if 1 < oe_handle_count e then Ok ()
     else (case oe_payload e of
             PAddressSpace a \<Rightarrow> if \<not> can_destroy a then Err WouldBlock else Ok ()
           | _ \<Rightarrow> Ok ()))"

section \<open>Destruction\<close>

text \<open>The last two statements of every destructor: the slot is emptied and its generation advances.\<close>

definition om_remove_slot :: "usize \<Rightarrow> object_generation \<Rightarrow> object_manager \<Rightarrow> unit kernel_result \<times> object_manager" where
  "om_remove_slot k g om =
     lift (vec_set (om_entries om) k None) om (\<lambda>entries.
     lift (next_generation g) om (\<lambda>g'.
     lift (vec_set (om_generations om) k g') om (\<lambda>generations.
     (Ok (), om\<lparr>om_entries := entries, om_generations := generations\<rparr>))))"

text \<open>Closing one endpoint marks its peer, when the peer still is the object it was linked to.\<close>

definition om_mark_peer_closed :: "object_ref option \<Rightarrow> object_manager \<Rightarrow> object_manager" where
  "om_mark_peer_closed peer om =
     (case peer of
        None \<Rightarrow> om
      | Some p \<Rightarrow>
          (case om_entry om (or_id p) of
             Ok e \<Rightarrow>
               if oe_generation e = or_generation p then
                 (case oe_payload e of
                    PChannelEndpoint c \<Rightarrow> om_put_payload om (or_id p) (PChannelEndpoint (c\<lparr>ce_peer_closed := True\<rparr>))
                  | _ \<Rightarrow> om)
               else om
           | Err _ \<Rightarrow> om
           | Panic \<Rightarrow> om))"

definition om_destroy :: "object_id \<Rightarrow> object_generation \<Rightarrow> object_manager \<Rightarrow> unit kernel_result \<times> object_manager" where
  "om_destroy i g om =
     lift (om_index om i) om (\<lambda>k.
     lift (vec_get (om_entries om) k) om (\<lambda>slot.
     case slot of
       None \<Rightarrow> (Err DeadObject, om)
     | Some e \<Rightarrow>
         if oe_generation e \<noteq> g then (Err StaleHandle, om)
         else
           (case oe_payload e of
              PChannelEndpoint c \<Rightarrow>
                if 0 < ce_queued_messages c then (Err WouldBlock, om)
                else om_remove_slot k g (om_mark_peer_closed (ce_peer c) om)
            | PMemoryObject _ \<Rightarrow> (Err WouldBlock, om)
            | PAddressSpace a \<Rightarrow>
                if \<not> can_destroy a then (Err WouldBlock, om) else om_remove_slot k g om
            | _ \<Rightarrow> om_remove_slot k g om)))"

text \<open>\<open>destroy_reclaimed_memory_object\<close> and \<open>destroy_unpublished_memory_object\<close> have the same body.\<close>

definition om_destroy_memory_object ::
  "object_id \<Rightarrow> object_generation \<Rightarrow> object_manager \<Rightarrow> unit kernel_result \<times> object_manager" where
  "om_destroy_memory_object i g om =
     lift (om_index om i) om (\<lambda>k.
     lift (vec_get (om_entries om) k) om (\<lambda>slot.
     case slot of
       None \<Rightarrow> (Err DeadObject, om)
     | Some e \<Rightarrow>
         if oe_generation e \<noteq> g then (Err StaleHandle, om)
         else lift (as_memory (oe_payload e)) om (\<lambda>m.
              if oe_handle_count e \<noteq> 0 \<or> \<not> can_reclaim m then (Err WouldBlock, om)
              else om_remove_slot k g om)))"

section \<open>Channel pairs\<close>

definition om_set_peer :: "object_snapshot \<Rightarrow> object_snapshot \<Rightarrow> object_manager \<Rightarrow> unit kernel_result \<times> object_manager" where
  "om_set_peer this that om =
     lift (om_live_payload om (sn_id this) (sn_generation this)) om (\<lambda>p.
     lift (as_channel p) om (\<lambda>c.
     (Ok (), om_put_payload om (sn_id this) (PChannelEndpoint
        (c\<lparr>ce_peer := Some \<lparr>or_id = sn_id that, or_generation = sn_generation that\<rparr>\<rparr>)))))"

definition om_link_channel_pair ::
  "object_snapshot \<Rightarrow> object_snapshot \<Rightarrow> object_manager \<Rightarrow> unit kernel_result \<times> object_manager" where
  "om_link_channel_pair s1 s2 om = sbind (om_set_peer s1 s2 om) (\<lambda>_ om. om_set_peer s2 s1 om)"

definition om_create_channel_pair ::
  "usize \<Rightarrow> object_manager \<Rightarrow> (object_snapshot \<times> object_snapshot) kernel_result \<times> object_manager" where
  "om_create_channel_pair max_messages om =
     sbind (om_create_channel_endpoint max_messages om) (\<lambda>s1 om.
     case om_create_channel_endpoint max_messages om of
       (Panic, om) \<Rightarrow> (Panic, om)
     | (Err error, om) \<Rightarrow>
         sbind (discard (om_destroy (sn_id s1) (sn_generation s1) om)) (\<lambda>_ om. (Err error, om))
     | (Ok s2, om) \<Rightarrow>
         (case om_link_channel_pair s1 s2 om of
            (Panic, om) \<Rightarrow> (Panic, om)
          | (Err error, om) \<Rightarrow>
              sbind (discard (om_destroy (sn_id s1) (sn_generation s1) om)) (\<lambda>_ om.
              sbind (discard (om_destroy (sn_id s2) (sn_generation s2) om)) (\<lambda>_ om. (Err error, om)))
          | (Ok _, om) \<Rightarrow>
              lift (om_snapshot om (sn_id s1)) om (\<lambda>r1.
              lift (om_snapshot om (sn_id s2)) om (\<lambda>r2. (Ok (r1, r2), om)))))"

section \<open>Channel messages\<close>

definition om_channel_peer :: "object_manager \<Rightarrow> object_id \<Rightarrow> object_generation \<Rightarrow> object_snapshot kernel_result" where
  "om_channel_peer om i g =
     rbind (om_channel_endpoint om i g) (\<lambda>c.
     if ce_peer_closed c then Err PeerClosed
     else rbind (ok_or PeerClosed (ce_peer c)) (\<lambda>peer.
          om_validate om (or_id peer) (or_generation peer) KindChannelEndpoint))"

definition om_ensure_channel_can_enqueue :: "object_manager \<Rightarrow> object_id \<Rightarrow> object_generation \<Rightarrow> unit kernel_result" where
  "om_ensure_channel_can_enqueue om i g =
     rbind (om_channel_endpoint om i g) endpoint_ensure_can_enqueue"

definition om_enqueue_channel_message ::
  "object_id \<Rightarrow> object_generation \<Rightarrow> channel_message \<Rightarrow> object_manager \<Rightarrow> unit kernel_result \<times> object_manager" where
  "om_enqueue_channel_message i g m om =
     lift (om_live_payload om i g) om (\<lambda>p.
     lift (as_channel p) om (\<lambda>c.
     lift (endpoint_enqueue m c) om (\<lambda>c'. (Ok (), om_put_payload om i (PChannelEndpoint c')))))"

definition om_next_channel_message_handle_count ::
  "object_manager \<Rightarrow> object_id \<Rightarrow> object_generation \<Rightarrow> usize kernel_result" where
  "om_next_channel_message_handle_count om i g =
     rbind (om_channel_endpoint om i g) endpoint_next_handle_count"

definition om_dequeue_channel_message ::
  "object_id \<Rightarrow> object_generation \<Rightarrow> object_manager \<Rightarrow> channel_message kernel_result \<times> object_manager" where
  "om_dequeue_channel_message i g om =
     lift (om_live_payload om i g) om (\<lambda>p.
     lift (as_channel p) om (\<lambda>c.
     lift (endpoint_dequeue c) om (\<lambda>(m, c'). (Ok m, om_put_payload om i (PChannelEndpoint c')))))"

section \<open>Mappings\<close>

definition om_add_memory_mapping ::
  "object_id \<Rightarrow> object_generation \<Rightarrow> object_manager \<Rightarrow> unit kernel_result \<times> object_manager" where
  "om_add_memory_mapping i g om =
     lift (om_live_payload om i g) om (\<lambda>p.
     lift (as_memory p) om (\<lambda>m.
     lift (add_mapping m) om (\<lambda>m'. (Ok (), om_put_payload om i (PMemoryObject m')))))"

definition om_remove_memory_mapping ::
  "object_id \<Rightarrow> object_generation \<Rightarrow> object_manager \<Rightarrow> unit kernel_result \<times> object_manager" where
  "om_remove_memory_mapping i g om =
     lift (om_live_payload om i g) om (\<lambda>p.
     lift (as_memory p) om (\<lambda>m.
     lift (remove_mapping m) om (\<lambda>m'. (Ok (), om_put_payload om i (PMemoryObject m')))))"

definition om_map_into_address_space ::
  "object_ref \<Rightarrow> object_ref \<Rightarrow> memory_object \<Rightarrow> vm_map_descriptor \<Rightarrow> object_manager
     \<Rightarrow> page_table_update_intent kernel_result \<times> object_manager" where
  "om_map_into_address_space address_space memory m d om =
     lift (om_live_payload om (or_id address_space) (or_generation address_space)) om (\<lambda>p.
     lift (as_address_space p) om (\<lambda>a.
     lift (prepare_map a memory m d) om (\<lambda>r.
     lift (map_reservation_commit r a) om (\<lambda>a'.
     (Ok (vmr_page_table r), om_put_payload om (or_id address_space) (PAddressSpace a'))))))"

definition om_map_memory_object ::
  "object_ref \<Rightarrow> object_ref \<Rightarrow> u64 \<Rightarrow> u64 \<Rightarrow> u64 \<Rightarrow> handle_rights \<Rightarrow> object_manager
     \<Rightarrow> page_table_update_intent kernel_result \<times> object_manager" where
  "om_map_memory_object address_space memory base size_bytes memory_offset rights om =
     lift (om_memory_object om (or_id memory) (or_generation memory)) om (\<lambda>m.
     let d = \<lparr>vd_base = base, vd_size_bytes = size_bytes, vd_memory_offset = memory_offset, vd_rights = rights\<rparr> in
     sbind (om_add_memory_mapping (or_id memory) (or_generation memory) om) (\<lambda>_ om.
     case om_map_into_address_space address_space memory m d om of
       (Err error, om) \<Rightarrow>
         (case om_remove_memory_mapping (or_id memory) (or_generation memory) om of
            (Ok _, om) \<Rightarrow> (Err error, om)
          | (_, om) \<Rightarrow> (Panic, om))
     | (Ok page_table, om) \<Rightarrow> (Ok page_table, om)
     | (Panic, om) \<Rightarrow> (Panic, om)))"

definition om_unmap_address_range ::
  "object_ref \<Rightarrow> u64 \<Rightarrow> u64 \<Rightarrow> object_manager \<Rightarrow> page_table_update_intent kernel_result \<times> object_manager" where
  "om_unmap_address_range address_space base size_bytes om =
     lift (om_live_payload om (or_id address_space) (or_generation address_space)) om (\<lambda>p.
     lift (as_address_space p) om (\<lambda>a.
     lift (prepare_unmap a base size_bytes) om (\<lambda>r.
     lift (unmap_reservation_commit r a) om (\<lambda>a'.
     (Ok (vur_page_table r), om_put_payload om (or_id address_space) (PAddressSpace a'))))))"

section \<open>Reclaiming memory objects\<close>

text \<open>The state of the operations that return frames: the object manager and the frame allocator.\<close>

definition om_reclaim_memory_object_if_unreferenced ::
  "object_id \<Rightarrow> object_generation \<Rightarrow> object_manager \<times> frame_allocator
     \<Rightarrow> unit kernel_result \<times> (object_manager \<times> frame_allocator)" where
  "om_reclaim_memory_object_if_unreferenced i g = (\<lambda>(om, fa).
     lift (expect_ok (om_entry om i)) (om, fa) (\<lambda>e.
     lift (assert_that (oe_generation e = g)) (om, fa) (\<lambda>_.
     case oe_payload e of
       PMemoryObject m \<Rightarrow>
         if 0 < oe_handle_count e \<or> \<not> can_reclaim m then (Ok (), (om, fa))
         else (case fa_free_range (mo_frame_range m) (OwnerMemoryObject i g) fa of
                 (Ok _, fa) \<Rightarrow>
                   (case om_destroy_memory_object i g om of
                      (Ok _, om) \<Rightarrow> (Ok (), (om, fa))
                    | (_, om) \<Rightarrow> (Panic, (om, fa)))
               | (_, fa) \<Rightarrow> (Panic, (om, fa)))
     | _ \<Rightarrow> (Ok (), (om, fa)))))"

definition om_take_address_space_tlb_invalidation ::
  "object_ref \<Rightarrow> object_manager \<times> frame_allocator
     \<Rightarrow> tlb_invalidation_intent kernel_result \<times> (object_manager \<times> frame_allocator)" where
  "om_take_address_space_tlb_invalidation address_space = (\<lambda>(om, fa).
     lift (om_live_payload om (or_id address_space) (or_generation address_space)) (om, fa) (\<lambda>p.
     lift (as_address_space p) (om, fa) (\<lambda>a.
     lift (take_pending_tlb_invalidation a) (om, fa) (\<lambda>(work, a').
     let om = om_put_payload om (or_id address_space) (PAddressSpace a') in
     lift (ok_or WouldBlock work) (om, fa) (\<lambda>w.
     let memory = ptw_deferred_reclaim w in
     case om_remove_memory_mapping (or_id memory) (or_generation memory) om of
       (Ok _, om) \<Rightarrow>
         sbind (om_reclaim_memory_object_if_unreferenced (or_id memory) (or_generation memory) (om, fa))
           (\<lambda>_ s. (Ok (ptw_intent w), s))
     | (_, om) \<Rightarrow> (Panic, (om, fa)))))))"

end
