(* ===== verification/Handle.thy ===== *)
theory Handle
  imports Object
begin

text \<open>
  Handle tables, \<^verbatim>\<open>kernel/src/handle/mod.rs\<close>: the slots of a process, each with a generation, and
  the operations that install, look up, duplicate, move, close and revoke handles.  An operation
  that also touches the objects or the frames takes and returns the tuple of the handle table, the
  object manager and the frame allocator.
\<close>

section \<open>Data\<close>

record handle_view =
  hvw_handle :: handle_value
  hvw_entry :: handle_table_entry
  hvw_object :: object_snapshot

record handle_slot_reservation =
  hsr_index :: usize
  hsr_generation :: handle_generation

record handle_slot =
  hs_entry :: "handle_table_entry option"
  hs_generation :: handle_generation

record handle_table =
  ht_slots :: "handle_slot list"
  ht_capacity :: usize

type_synonym handle_state = "handle_table \<times> object_manager \<times> frame_allocator"

section \<open>Lookup\<close>

definition ht_with_capacity :: "heap \<Rightarrow> usize \<Rightarrow> handle_table kernel_result" where
  "ht_with_capacity heap capacity =
     rbind (try_reserve_exact heap SiteHandleSlots capacity) (\<lambda>_.
     Ok \<lparr>ht_slots = replicate capacity \<lparr>hs_entry = None, hs_generation = INITIAL\<rparr>, ht_capacity = capacity\<rparr>)"

definition ht_live_count :: "handle_table \<Rightarrow> usize" where
  "ht_live_count ht = count_where (\<lambda>slot. hs_entry slot \<noteq> None) (ht_slots ht)"

definition ht_index :: "handle_table \<Rightarrow> handle_value \<Rightarrow> usize kernel_result" where
  "ht_index ht h =
     (let i = as_usize (hv_index h) in if ht_capacity ht \<le> i then Err InvalidHandle else Ok i)"

definition ht_slot :: "handle_table \<Rightarrow> handle_value \<Rightarrow> handle_slot kernel_result" where
  "ht_slot ht h = rbind (ht_index ht h) (\<lambda>i. vec_get (ht_slots ht) i)"

definition ht_entry :: "handle_table \<Rightarrow> handle_value \<Rightarrow> handle_table_entry kernel_result" where
  "ht_entry ht h = rbind (ht_slot ht h) (\<lambda>slot. ok_or InvalidHandle (hs_entry slot))"

definition ht_valid_entry :: "handle_table \<Rightarrow> handle_value \<Rightarrow> handle_table_entry kernel_result" where
  "ht_valid_entry ht h =
     rbind (ht_entry ht h) (\<lambda>e.
     if hte_entry_generation e \<noteq> hv_generation h then Err StaleHandle else Ok e)"

definition ht_lookup ::
  "handle_table \<Rightarrow> object_manager \<Rightarrow> handle_value \<Rightarrow> object_kind \<Rightarrow> handle_rights \<Rightarrow> handle_view kernel_result" where
  "ht_lookup ht om h expected_kind required_rights =
     rbind (ht_valid_entry ht h) (\<lambda>e.
     if \<not> rights_contain (hte_rights e) required_rights then Err MissingRights
     else rbind (om_validate om (hte_object e) (hte_object_generation e) expected_kind) (\<lambda>s.
          Ok \<lparr>hvw_handle = h, hvw_entry = e, hvw_object = s\<rparr>))"

definition ht_peek_kind :: "handle_table \<Rightarrow> handle_value \<Rightarrow> object_kind kernel_result" where
  "ht_peek_kind ht h = map_ok hte_kind (ht_valid_entry ht h)"

definition ht_free_index :: "handle_table \<Rightarrow> usize kernel_result" where
  "ht_free_index ht = ok_or NoCapacity (position (\<lambda>slot. hs_entry slot = None) (ht_slots ht))"

section \<open>Installing\<close>

definition ht_reserve_slot :: "handle_table \<Rightarrow> handle_slot_reservation kernel_result" where
  "ht_reserve_slot ht =
     rbind (ht_free_index ht) (\<lambda>i.
     rbind (vec_get (ht_slots ht) i) (\<lambda>slot.
     Ok \<lparr>hsr_index = i, hsr_generation = hs_generation slot\<rparr>))"

definition ht_put_entry :: "handle_table \<Rightarrow> usize \<Rightarrow> handle_table_entry option \<Rightarrow> handle_table" where
  "ht_put_entry ht i e = ht\<lparr>ht_slots := (ht_slots ht)[i := (ht_slots ht ! i)\<lparr>hs_entry := e\<rparr>]\<rparr>"

definition ht_install_reserved ::
  "handle_slot_reservation \<Rightarrow> object_snapshot \<Rightarrow> handle_rights \<Rightarrow> handle_table \<times> object_manager
     \<Rightarrow> handle_value kernel_result \<times> (handle_table \<times> object_manager)" where
  "ht_install_reserved r object rights = (\<lambda>(ht, om).
     if ht_capacity ht \<le> hsr_index r then (Err InvalidHandle, (ht, om))
     else lift (vec_get (ht_slots ht) (hsr_index r)) (ht, om) (\<lambda>slot.
          if hs_entry slot \<noteq> None \<or> hs_generation slot \<noteq> hsr_generation r then (Err NoCapacity, (ht, om))
          else sbind (apsnd (\<lambda>om. (ht, om)) (om_add_handle (sn_id object) (sn_generation object) om)) (\<lambda>_ (ht, om).
            (Ok (hv_new (as_u64 (hsr_index r)) (hsr_generation r)),
             (ht_put_entry ht (hsr_index r) (Some
                \<lparr>hte_object = sn_id object, hte_object_generation = sn_generation object,
                 hte_entry_generation = hsr_generation r, hte_parent = None,
                 hte_kind = snapshot_kind object, hte_rights = rights\<rparr>), om)))))"

definition ht_install ::
  "object_snapshot \<Rightarrow> handle_rights \<Rightarrow> handle_table \<times> object_manager
     \<Rightarrow> handle_value kernel_result \<times> (handle_table \<times> object_manager)" where
  "ht_install object rights = (\<lambda>(ht, om).
     lift (ht_reserve_slot ht) (ht, om) (\<lambda>r. ht_install_reserved r object rights (ht, om)))"

definition ht_install_entry :: "handle_table_entry \<Rightarrow> handle_table \<Rightarrow> handle_value kernel_result \<times> handle_table" where
  "ht_install_entry e ht =
     lift (ht_free_index ht) ht (\<lambda>i.
     lift (vec_get (ht_slots ht) i) ht (\<lambda>slot.
     (Ok (hv_new (as_u64 i) (hs_generation slot)),
      ht_put_entry ht i (Some (e\<lparr>hte_entry_generation := hs_generation slot\<rparr>)))))"

definition ht_duplicate ::
  "handle_value \<Rightarrow> handle_rights \<Rightarrow> handle_table \<times> object_manager
     \<Rightarrow> handle_value kernel_result \<times> (handle_table \<times> object_manager)" where
  "ht_duplicate source requested_rights = (\<lambda>(ht, om).
     lift (ht_valid_entry ht source) (ht, om) (\<lambda>source_entry.
     if \<not> rights_contain (hte_rights source_entry) HR_DUPLICATE then (Err MissingRights, (ht, om))
     else if \<not> rights_contain (hte_rights source_entry) requested_rights then (Err MissingRights, (ht, om))
     else
       lift (om_validate om (hte_object source_entry) (hte_object_generation source_entry) (hte_kind source_entry))
         (ht, om) (\<lambda>object.
       sbind (ht_install object requested_rights (ht, om)) (\<lambda>derived (ht, om).
       lift (ht_index ht derived) (ht, om) (\<lambda>derived_index.
       lift (vec_get (ht_slots ht) derived_index) (ht, om) (\<lambda>slot.
       lift (expect (hs_entry slot)) (ht, om) (\<lambda>e.
       (Ok derived,
        (ht_put_entry ht derived_index (Some (e\<lparr>hte_parent := Some
           \<lparr>hl_handle = source, hl_object = hte_object source_entry,
            hl_object_generation = hte_object_generation source_entry\<rparr>\<rparr>)), om)))))))))"

section \<open>Removing\<close>

definition ht_remove_entry :: "handle_value \<Rightarrow> handle_table \<Rightarrow> handle_table_entry kernel_result \<times> handle_table" where
  "ht_remove_entry h ht =
     lift (ht_index ht h) ht (\<lambda>i.
     lift (ht_valid_entry ht h) ht (\<lambda>e.
     lift (vec_get (ht_slots ht) i) ht (\<lambda>slot.
     lift (expect (hs_entry slot)) ht (\<lambda>_.
     lift (next_generation (hs_generation slot)) ht (\<lambda>g.
     (Ok e, ht\<lparr>ht_slots := (ht_slots ht)[i := \<lparr>hs_entry = None, hs_generation = g\<rparr>]\<rparr>))))))"

definition ht_remove_for_transfer ::
  "object_manager \<Rightarrow> handle_value \<Rightarrow> handle_table \<Rightarrow> handle_table_entry kernel_result \<times> handle_table" where
  "ht_remove_for_transfer om h ht =
     lift (ht_valid_entry ht h) ht (\<lambda>e.
     if \<not> rights_contain (hte_rights e) HR_TRANSFER then (Err MissingRights, ht)
     else lift (om_validate om (hte_object e) (hte_object_generation e) (hte_kind e)) ht (\<lambda>_.
          ht_remove_entry h ht))"

definition ht_close :: "handle_value \<Rightarrow> handle_state \<Rightarrow> unit kernel_result \<times> handle_state" where
  "ht_close h = (\<lambda>(ht, om, fa).
     lift (ht_valid_entry ht h) (ht, om, fa) (\<lambda>e.
     lift (om_ensure_handle_can_close om (hte_object e) (hte_object_generation e)) (ht, om, fa) (\<lambda>_.
     sbind (apsnd (\<lambda>om. (ht, om, fa)) (om_remove_handle (hte_object e) (hte_object_generation e) om)) (\<lambda>_ (ht, om, fa).
     sbind (apsnd (\<lambda>ht. (ht, om, fa)) (ht_remove_entry h ht)) (\<lambda>_ (ht, om, fa).
     apsnd (\<lambda>(om, fa). (ht, om, fa))
       (om_reclaim_memory_object_if_unreferenced (hte_object e) (hte_object_generation e) (om, fa)))))))"

section \<open>Revoking\<close>

text \<open>The \<open>while let\<close> loop of \<open>descends_from\<close>: it follows parent handles, and does not end when they
  form a cycle; then the value is \<open>None\<close>.\<close>

partial_function (option) descends_from ::
  "handle_table \<Rightarrow> handle_table_entry \<Rightarrow> handle_value \<Rightarrow> handle_table_entry \<Rightarrow> bool kernel_result option" where
  "descends_from ht e root root_entry =
     (case hte_parent e of
        None \<Rightarrow> Some (Ok False)
      | Some parent \<Rightarrow>
          if hl_handle parent = root \<and> hl_object parent = hte_object root_entry
             \<and> hl_object_generation parent = hte_object_generation root_entry
          then Some (Ok True)
          else (case ht_valid_entry ht (hl_handle parent) of
                  Ok parent_entry \<Rightarrow> descends_from ht parent_entry root root_entry
                | Err _ \<Rightarrow> Some (Ok False)
                | Panic \<Rightarrow> Some Panic))"

fun collect_descendants ::
  "handle_table \<Rightarrow> handle_value \<Rightarrow> handle_table_entry \<Rightarrow> nat \<Rightarrow> handle_slot list \<Rightarrow> handle_value list
     \<Rightarrow> handle_value list kernel_result option" where
  "collect_descendants ht root root_entry i [] descendants = Some (Ok descendants)"
| "collect_descendants ht root root_entry i (slot # slots) descendants =
     (case hs_entry slot of
        None \<Rightarrow> collect_descendants ht root root_entry (Suc i) slots descendants
      | Some e \<Rightarrow>
          if hte_entry_generation e = hv_generation root \<and> as_u64 i = hv_index root
          then collect_descendants ht root root_entry (Suc i) slots descendants
          else (case descends_from ht e root root_entry of
                  None \<Rightarrow> None
                | Some (Ok b) \<Rightarrow>
                    collect_descendants ht root root_entry (Suc i) slots
                      (if b then descendants @ [hv_new (as_u64 i) (hte_entry_generation e)] else descendants)
                | Some (Err err) \<Rightarrow> Some (Err err)
                | Some Panic \<Rightarrow> Some Panic))"

fun close_all :: "handle_value list \<Rightarrow> handle_state \<Rightarrow> unit kernel_result \<times> handle_state" where
  "close_all [] s = (Ok (), s)"
| "close_all (h # hs) s = sbind (ht_close h s) (\<lambda>_ s. close_all hs s)"

definition ht_revoke_descendants ::
  "heap \<Rightarrow> handle_value \<Rightarrow> handle_state \<Rightarrow> (usize kernel_result \<times> handle_state) option" where
  "ht_revoke_descendants heap root = (\<lambda>(ht, om, fa).
     case ht_valid_entry ht root of
       Err e \<Rightarrow> Some (Err e, (ht, om, fa))
     | Panic \<Rightarrow> Some (Panic, (ht, om, fa))
     | Ok root_entry \<Rightarrow>
         (case try_reserve_exact heap SiteRevoke (ht_live_count ht) of
            Err e \<Rightarrow> Some (Err e, (ht, om, fa))
          | Panic \<Rightarrow> Some (Panic, (ht, om, fa))
          | Ok _ \<Rightarrow>
              (case collect_descendants ht root root_entry 0 (ht_slots ht) [] of
                 None \<Rightarrow> None
               | Some (Err e) \<Rightarrow> Some (Err e, (ht, om, fa))
               | Some Panic \<Rightarrow> Some (Panic, (ht, om, fa))
               | Some (Ok descendants) \<Rightarrow>
                   Some (sbind (close_all descendants (ht, om, fa)) (\<lambda>_ s. (Ok (length descendants), s))))))"

end
