(* ===== verification/Process.thy ===== *)
theory Process
  imports Handle
begin

text \<open>
  Processes and the process table, \<^verbatim>\<open>kernel/src/process/mod.rs\<close>: the object budget, the creation of
  objects with their first handle and its rollback on every error, the mapping operations by handle,
  and the sending and receiving of channel messages with handle transfer.
\<close>

section \<open>Data\<close>

type_synonym process_id = u64

record resource_budget =
  rb_remaining_objects :: usize

text \<open>An \<open>ObjectReservation\<close> is a local of the operations below; \<open>commit\<close> sets its flag, which nothing
  reads, so the operations here drop it.\<close>

record object_reservation =
  ores_committed :: bool

record process =
  pr_id :: process_id
  pr_handles :: handle_table
  pr_budget :: resource_budget
  pr_address_space :: "handle_value option"
  pr_thread_count :: usize

record received_message =
  rm_bytes :: "u8 list"
  rm_byte_len :: usize
  rm_handles :: "handle_value list"

record process_table =
  ptb_processes :: "process option list"
  ptb_capacity :: usize

section \<open>The budget\<close>

definition reserve_object :: "resource_budget \<Rightarrow> object_reservation kernel_result \<times> resource_budget" where
  "reserve_object b =
     (if rb_remaining_objects b = 0 then (Err QuotaExceeded, b)
      else (Ok \<lparr>ores_committed = False\<rparr>, b\<lparr>rb_remaining_objects := rb_remaining_objects b - 1\<rparr>))"

definition release_object :: "resource_budget \<Rightarrow> resource_budget" where
  "release_object b = b\<lparr>rb_remaining_objects := usize_saturating_add (rb_remaining_objects b) 1\<rparr>"

definition pr_reserve_object :: "process \<Rightarrow> object_reservation kernel_result \<times> process" where
  "pr_reserve_object p = apsnd (\<lambda>b. p\<lparr>pr_budget := b\<rparr>) (reserve_object (pr_budget p))"

definition pr_release_object :: "process \<Rightarrow> process" where
  "pr_release_object p = p\<lparr>pr_budget := release_object (pr_budget p)\<rparr>"

definition process_new :: "heap \<Rightarrow> process_id \<Rightarrow> usize \<Rightarrow> usize \<Rightarrow> process kernel_result" where
  "process_new heap i handle_capacity object_quota =
     map_ok (\<lambda>ht. \<lparr>pr_id = i, pr_handles = ht, pr_budget = \<lparr>rb_remaining_objects = object_quota\<rparr>,
                    pr_address_space = None, pr_thread_count = 0\<rparr>)
       (ht_with_capacity heap handle_capacity)"

section \<open>Creating objects\<close>

definition create_preflighted_object_handle ::
  "handle_rights \<Rightarrow> object_payload \<Rightarrow> process \<times> object_manager
     \<Rightarrow> handle_value kernel_result \<times> (process \<times> object_manager)" where
  "create_preflighted_object_handle rights payload = (\<lambda>(p, om).
     sbind (apsnd (\<lambda>p. (p, om)) (pr_reserve_object p)) (\<lambda>_ (p, om).
     case ht_reserve_slot (pr_handles p) of
       Panic \<Rightarrow> (Panic, (p, om))
     | Err error \<Rightarrow> (Err error, (pr_release_object p, om))
     | Ok handle_slot \<Rightarrow>
         (case om_reserve_entry om of
            Panic \<Rightarrow> (Panic, (p, om))
          | Err error \<Rightarrow> (Err error, (pr_release_object p, om))
          | Ok object_entry \<Rightarrow>
              (case om_commit_reserved object_entry payload om of
                 (Panic, om) \<Rightarrow> (Panic, (p, om))
               | (Err error, om) \<Rightarrow> (Err error, (pr_release_object p, om))
               | (Ok object, om) \<Rightarrow>
                   (case ht_install_reserved handle_slot object rights (pr_handles p, om) of
                      (Panic, (ht, om)) \<Rightarrow> (Panic, (p\<lparr>pr_handles := ht\<rparr>, om))
                    | (Err error, (ht, om)) \<Rightarrow>
                        sbind (apsnd (\<lambda>om. (p\<lparr>pr_handles := ht\<rparr>, om))
                          (discard (om_destroy (sn_id object) (sn_generation object) om))) (\<lambda>_ (p, om).
                        (Err error, (pr_release_object p, om)))
                    | (Ok handle, (ht, om)) \<Rightarrow> (Ok handle, (p\<lparr>pr_handles := ht\<rparr>, om)))))))"

definition create_object_handle ::
  "object_kind \<Rightarrow> handle_rights \<Rightarrow> process \<times> object_manager
     \<Rightarrow> handle_value kernel_result \<times> (process \<times> object_manager)" where
  "create_object_handle kind rights s =
     lift (payload_for_kind kind) s (\<lambda>payload. create_preflighted_object_handle rights payload s)"

definition create_address_space_handle ::
  "handle_rights \<Rightarrow> process \<times> object_manager \<Rightarrow> handle_value kernel_result \<times> (process \<times> object_manager)" where
  "create_address_space_handle rights s =
     lift (payload_for_kind KindAddressSpace) s (\<lambda>payload. create_preflighted_object_handle rights payload s)"

text \<open>The operations that may allocate or return frames act on the process, the objects and the frames.\<close>

type_synonym process_state = "process \<times> object_manager \<times> frame_allocator"

definition create_memory_object_handle ::
  "u64 \<Rightarrow> handle_rights \<Rightarrow> process_state \<Rightarrow> handle_value kernel_result \<times> process_state" where
  "create_memory_object_handle size_bytes rights = (\<lambda>(p, om, fa).
     lift (validate_size size_bytes) (p, om, fa) (\<lambda>_.
     sbind (apsnd (\<lambda>p. (p, om, fa)) (pr_reserve_object p)) (\<lambda>_ (p, om, fa).
     case ht_reserve_slot (pr_handles p) of
       Panic \<Rightarrow> (Panic, (p, om, fa))
     | Err error \<Rightarrow> (Err error, (pr_release_object p, om, fa))
     | Ok handle_slot \<Rightarrow>
         (case om_reserve_entry om of
            Panic \<Rightarrow> (Panic, (p, om, fa))
          | Err error \<Rightarrow> (Err error, (pr_release_object p, om, fa))
          | Ok object_entry \<Rightarrow>
              (let owner = OwnerMemoryObject (reservation_object_id object_entry) (oer_generation object_entry) in
               case fa_reserve_contiguous owner size_bytes fa of
                 (Panic, fa) \<Rightarrow> (Panic, (p, om, fa))
               | (Err error, fa) \<Rightarrow> (Err error, (pr_release_object p, om, fa))
               | (Ok frame_range, fa) \<Rightarrow>
                   lift (memory_object_new size_bytes \<lparr>mp_max_rights = HR_READ OR HR_WRITE OR HR_EXECUTE\<rparr> frame_range)
                     (p, om, fa) (\<lambda>m.
                   case om_commit_reserved object_entry (PMemoryObject m) om of
                     (Panic, om) \<Rightarrow> (Panic, (p, om, fa))
                   | (Err error, om) \<Rightarrow>
                       sbind (apsnd (\<lambda>fa. (p, om, fa)) (discard (fa_free_range frame_range owner fa))) (\<lambda>_ (p, om, fa).
                       (Err error, (pr_release_object p, om, fa)))
                   | (Ok object, om) \<Rightarrow>
                       (case ht_install_reserved handle_slot object rights (pr_handles p, om) of
                          (Panic, (ht, om)) \<Rightarrow> (Panic, (p\<lparr>pr_handles := ht\<rparr>, om, fa))
                        | (Err error, (ht, om)) \<Rightarrow>
                            sbind (apsnd (\<lambda>fa. (p\<lparr>pr_handles := ht\<rparr>, om, fa))
                              (discard (fa_free_range frame_range owner fa))) (\<lambda>_ (p, om, fa).
                            (case om_destroy_memory_object (sn_id object) (sn_generation object) om of
                               (Ok _, om) \<Rightarrow> (Err error, (pr_release_object p, om, fa))
                             | (_, om) \<Rightarrow> (Panic, (p, om, fa))))
                        | (Ok handle, (ht, om)) \<Rightarrow> (Ok handle, (p\<lparr>pr_handles := ht\<rparr>, om, fa)))))))))"

definition create_channel_pair_handles ::
  "usize \<Rightarrow> handle_rights \<Rightarrow> process_state \<Rightarrow> (handle_value \<times> handle_value) kernel_result \<times> process_state" where
  "create_channel_pair_handles max_messages rights = (\<lambda>(p, om, fa).
     sbind (apsnd (\<lambda>p. (p, om, fa)) (pr_reserve_object p)) (\<lambda>_ (p, om, fa).
     case pr_reserve_object p of
       (Panic, p) \<Rightarrow> (Panic, (p, om, fa))
     | (Err error, p) \<Rightarrow> (Err error, (pr_release_object p, om, fa))
     | (Ok _, p) \<Rightarrow>
         lift (usize_sub (ht_capacity (pr_handles p)) (ht_live_count (pr_handles p))) (p, om, fa) (\<lambda>room.
         if room < 2 then (Err NoCapacity, (pr_release_object (pr_release_object p), om, fa))
         else
           (case om_create_channel_pair max_messages om of
              (Panic, om) \<Rightarrow> (Panic, (p, om, fa))
            | (Err error, om) \<Rightarrow> (Err error, (pr_release_object (pr_release_object p), om, fa))
            | (Ok (s1, s2), om) \<Rightarrow>
                (case ht_install s1 rights (pr_handles p, om) of
                   (Panic, (ht, om)) \<Rightarrow> (Panic, (p\<lparr>pr_handles := ht\<rparr>, om, fa))
                 | (Err error, (ht, om)) \<Rightarrow>
                     sbind (apsnd (\<lambda>om. (p\<lparr>pr_handles := ht\<rparr>, om, fa)) (discard (om_destroy (sn_id s1) (sn_generation s1) om))) (\<lambda>_ (p, om, fa).
                     sbind (apsnd (\<lambda>om. (p, om, fa)) (discard (om_destroy (sn_id s2) (sn_generation s2) om))) (\<lambda>_ (p, om, fa).
                     (Err error, (pr_release_object (pr_release_object p), om, fa))))
                 | (Ok first_handle, (ht, om)) \<Rightarrow>
                     (case ht_install s2 rights (ht, om) of
                        (Panic, (ht, om)) \<Rightarrow> (Panic, (p\<lparr>pr_handles := ht\<rparr>, om, fa))
                      | (Err error, (ht, om)) \<Rightarrow>
                          sbind (apsnd (\<lambda>(ht, om, fa). (p\<lparr>pr_handles := ht\<rparr>, om, fa)) (discard (ht_close first_handle (ht, om, fa)))) (\<lambda>_ (p, om, fa).
                          sbind (apsnd (\<lambda>om. (p, om, fa)) (discard (om_destroy (sn_id s1) (sn_generation s1) om))) (\<lambda>_ (p, om, fa).
                          sbind (apsnd (\<lambda>om. (p, om, fa)) (discard (om_destroy (sn_id s2) (sn_generation s2) om))) (\<lambda>_ (p, om, fa).
                          (Err error, (pr_release_object (pr_release_object p), om, fa)))))
                      | (Ok second_handle, (ht, om)) \<Rightarrow>
                          (Ok (first_handle, second_handle), (p\<lparr>pr_handles := ht\<rparr>, om, fa))))))))"

section \<open>Mapping by handle\<close>

definition view_ref :: "handle_view \<Rightarrow> object_ref" where
  "view_ref v = \<lparr>or_id = sn_id (hvw_object v), or_generation = sn_generation (hvw_object v)\<rparr>"

definition map_memory_object ::
  "handle_value \<Rightarrow> handle_value \<Rightarrow> u64 \<Rightarrow> u64 \<Rightarrow> u64 \<Rightarrow> handle_rights \<Rightarrow> process \<times> object_manager
     \<Rightarrow> page_table_update_intent kernel_result \<times> (process \<times> object_manager)" where
  "map_memory_object address_space memory base size_bytes memory_offset rights = (\<lambda>(p, om).
     lift (ht_lookup (pr_handles p) om address_space KindAddressSpace HR_MANAGE) (p, om) (\<lambda>va.
     lift (ht_lookup (pr_handles p) om memory KindMemoryObject rights) (p, om) (\<lambda>vm.
     apsnd (\<lambda>om. (p, om))
       (om_map_memory_object (view_ref va) (view_ref vm) base size_bytes memory_offset rights om))))"

definition unmap_address_range ::
  "handle_value \<Rightarrow> u64 \<Rightarrow> u64 \<Rightarrow> process \<times> object_manager
     \<Rightarrow> page_table_update_intent kernel_result \<times> (process \<times> object_manager)" where
  "unmap_address_range address_space base size_bytes = (\<lambda>(p, om).
     lift (ht_lookup (pr_handles p) om address_space KindAddressSpace HR_MANAGE) (p, om) (\<lambda>va.
     apsnd (\<lambda>om. (p, om)) (om_unmap_address_range (view_ref va) base size_bytes om)))"

definition flush_address_space_tlb ::
  "handle_value \<Rightarrow> process_state \<Rightarrow> tlb_invalidation_intent kernel_result \<times> process_state" where
  "flush_address_space_tlb address_space = (\<lambda>(p, om, fa).
     lift (ht_lookup (pr_handles p) om address_space KindAddressSpace HR_MANAGE) (p, om, fa) (\<lambda>va.
     apsnd (\<lambda>(om, fa). (p, om, fa)) (om_take_address_space_tlb_invalidation (view_ref va) (om, fa))))"

section \<open>Channel messages\<close>

text \<open>The loop of \<open>send_channel_message\<close> that reads the entries: \<open>seen\<close> is \<open>handles[..index]\<close>.\<close>

fun collect_entries ::
  "handle_table \<Rightarrow> object_manager \<Rightarrow> handle_value list \<Rightarrow> handle_value list \<Rightarrow> handle_table_entry list
     \<Rightarrow> handle_table_entry list kernel_result" where
  "collect_entries ht om seen [] entries = Ok entries"
| "collect_entries ht om seen (h # hs) entries =
     (if h \<in> set seen then Err InvalidArgument
      else rbind (ht_peek_kind ht h) (\<lambda>kind.
           rbind (ht_lookup ht om h kind HR_TRANSFER) (\<lambda>v.
           collect_entries ht om (seen @ [h]) hs (entries @ [hvw_entry v]))))"

fun move_handles ::
  "object_manager \<Rightarrow> handle_value list \<Rightarrow> handle_table_entry list \<Rightarrow> handle_table
     \<Rightarrow> handle_table_entry list kernel_result \<times> handle_table" where
  "move_handles om [] moved ht = (Ok moved, ht)"
| "move_handles om (h # hs) moved ht =
     sbind (ht_remove_for_transfer om h ht) (\<lambda>e ht. move_handles om hs (moved @ [e]) ht)"

fun reinstall :: "handle_table_entry list \<Rightarrow> handle_table \<Rightarrow> unit kernel_result \<times> handle_table" where
  "reinstall [] ht = (Ok (), ht)"
| "reinstall (e # es) ht = sbind (discard (ht_install_entry e ht)) (\<lambda>_ ht. reinstall es ht)"

definition send_channel_message ::
  "heap \<Rightarrow> handle_value \<Rightarrow> u8 list \<Rightarrow> handle_value list \<Rightarrow> process \<times> object_manager
     \<Rightarrow> unit kernel_result \<times> (process \<times> object_manager)" where
  "send_channel_message heap channel bytes handles = (\<lambda>(p, om).
     lift (ht_lookup (pr_handles p) om channel KindChannelEndpoint HR_WRITE) (p, om) (\<lambda>v.
     lift (om_channel_peer om (sn_id (hvw_object v)) (sn_generation (hvw_object v))) (p, om) (\<lambda>peer.
     lift (om_ensure_channel_can_enqueue om (sn_id peer) (sn_generation peer)) (p, om) (\<lambda>_.
     lift (try_reserve_exact heap SiteSendEntries (length handles)) (p, om) (\<lambda>_.
     lift (collect_entries (pr_handles p) om [] handles []) (p, om) (\<lambda>entries.
     lift (channel_message_new bytes entries) (p, om) (\<lambda>message.
     lift (try_reserve_exact heap SiteSendMoved (length handles)) (p, om) (\<lambda>_.
     sbind (apsnd (\<lambda>ht. (p\<lparr>pr_handles := ht\<rparr>, om)) (move_handles om handles [] (pr_handles p))) (\<lambda>moved (p, om).
     case om_enqueue_channel_message (sn_id peer) (sn_generation peer) message om of
       (Panic, om) \<Rightarrow> (Panic, (p, om))
     | (Err error, om) \<Rightarrow>
         sbind (apsnd (\<lambda>ht. (p\<lparr>pr_handles := ht\<rparr>, om)) (reinstall moved (pr_handles p))) (\<lambda>_ s. (Err error, s))
     | (Ok _, om) \<Rightarrow> (Ok (), (p, om)))))))))))"

fun receive_handles ::
  "handle_table_entry list \<Rightarrow> handle_value list \<Rightarrow> handle_table \<Rightarrow> handle_value list kernel_result \<times> handle_table" where
  "receive_handles [] handles ht = (Ok handles, ht)"
| "receive_handles (e # es) handles ht =
     (case ht_install_entry e ht of
        (Ok h, ht) \<Rightarrow> receive_handles es (handles @ [h]) ht
      | (_, ht) \<Rightarrow> (Panic, ht))"

definition recv_channel_message ::
  "heap \<Rightarrow> handle_value \<Rightarrow> process \<times> object_manager
     \<Rightarrow> received_message kernel_result \<times> (process \<times> object_manager)" where
  "recv_channel_message heap channel = (\<lambda>(p, om).
     lift (ht_lookup (pr_handles p) om channel KindChannelEndpoint HR_READ) (p, om) (\<lambda>v.
     lift (om_next_channel_message_handle_count om (sn_id (hvw_object v)) (sn_generation (hvw_object v))) (p, om) (\<lambda>handle_count.
     lift (usize_sub (ht_capacity (pr_handles p)) (ht_live_count (pr_handles p))) (p, om) (\<lambda>room.
     if room < handle_count then (Err NoCapacity, (p, om))
     else
       sbind (apsnd (\<lambda>om. (p, om)) (om_dequeue_channel_message (sn_id (hvw_object v)) (sn_generation (hvw_object v)) om)) (\<lambda>message (p, om).
       lift (try_reserve_exact heap SiteRecvHandles (cm_handle_count message)) (p, om) (\<lambda>_.
       sbind (apsnd (\<lambda>ht. (p\<lparr>pr_handles := ht\<rparr>, om)) (receive_handles (handle_entries message) [] (pr_handles p))) (\<lambda>handles s.
       (Ok \<lparr>rm_bytes = cm_bytes message, rm_byte_len = cm_byte_len message, rm_handles = handles\<rparr>, s))))))))"

definition received_bytes :: "received_message \<Rightarrow> u8 list kernel_result" where
  "received_bytes m = (if rm_byte_len m \<le> length (rm_bytes m) then Ok (take (rm_byte_len m) (rm_bytes m)) else Panic)"

section \<open>The process table\<close>

definition ptb_with_capacity :: "heap \<Rightarrow> usize \<Rightarrow> process_table kernel_result" where
  "ptb_with_capacity heap capacity =
     rbind (try_reserve_exact heap SiteProcesses capacity) (\<lambda>_.
     Ok \<lparr>ptb_processes = replicate capacity None, ptb_capacity = capacity\<rparr>)"

definition ptb_index :: "process_table \<Rightarrow> process_id \<Rightarrow> usize kernel_result" where
  "ptb_index t i = (if ptb_capacity t \<le> as_usize i then Err InvalidHandle else Ok (as_usize i))"

text \<open>\<open>get\<close> and \<open>get_mut\<close> make the same checks; writing through the mutable borrow is \<open>ptb_put\<close>.\<close>

definition ptb_get :: "process_table \<Rightarrow> process_id \<Rightarrow> process kernel_result" where
  "ptb_get t i = rbind (ptb_index t i) (\<lambda>k. rbind (vec_get (ptb_processes t) k) (\<lambda>slot. ok_or InvalidHandle slot))"

definition ptb_put :: "process_table \<Rightarrow> process_id \<Rightarrow> process \<Rightarrow> process_table" where
  "ptb_put t i p = t\<lparr>ptb_processes := (ptb_processes t)[as_usize i := Some p]\<rparr>"

definition create_bootstrap ::
  "heap \<Rightarrow> usize \<Rightarrow> usize \<Rightarrow> process_table \<times> object_manager
     \<Rightarrow> process_id kernel_result \<times> (process_table \<times> object_manager)" where
  "create_bootstrap heap handle_capacity object_quota = (\<lambda>(t, om).
     lift (ok_or NoCapacity (position (\<lambda>slot. slot = None) (ptb_processes t))) (t, om) (\<lambda>k.
     lift (process_new heap (as_u64 k) handle_capacity object_quota) (t, om) (\<lambda>p.
     case create_object_handle KindProcess (HR_READ OR HR_MANAGE) (p, om) of
       (Panic, (p, om)) \<Rightarrow> (Panic, (t, om))
     | (Err error, (p, om)) \<Rightarrow> (Err error, (t, om))
     | (Ok _, (p, om)) \<Rightarrow> (Ok (as_u64 k), (t\<lparr>ptb_processes := (ptb_processes t)[k := Some p]\<rparr>, om)))))"

end
