(* ===== verification/Syscall.thy ===== *)
theory Syscall
  imports Process
begin

text \<open>
  The kernel state and the system-call dispatcher, \<^verbatim>\<open>kernel/src/syscall/mod.rs\<close>.  \<open>execute\<close> is \<open>None\<close>
  exactly when the call does not return, which only the lineage walk of \<open>RevokeDescendants\<close> can do.
\<close>

datatype syscall =
    CreateObject object_kind handle_rights
  | CreateMemoryObject u64 handle_rights
  | CreateAddressSpace handle_rights
  | MapMemoryObject handle_value handle_value u64 u64 u64 handle_rights
  | UnmapAddressRange handle_value u64 u64
  | FlushAddressSpaceTlb handle_value
  | CreateChannelPair usize handle_rights
  | ChannelSend handle_value "u8 list" "handle_value list"
  | ChannelRecv handle_value
  | DuplicateHandle handle_value handle_rights
  | CloseHandle handle_value
  | RevokeDescendants handle_value

datatype syscall_outcome =
    OutcomeHandle handle_value
  | OutcomeHandlePair handle_value handle_value
  | OutcomeMessage "u8 list" usize "handle_value list"
  | OutcomeClosed
  | OutcomeRevoked usize
  | OutcomePageTableUpdate page_table_update_intent
  | OutcomeTlbInvalidation tlb_invalidation_intent

record syscall_context =
  sc_process :: process_id

record kernel =
  k_objects :: object_manager
  k_processes :: process_table
  k_frames :: frame_allocator

definition kernel_new :: "heap \<Rightarrow> usize \<Rightarrow> usize \<Rightarrow> memory_frame_range list \<Rightarrow> kernel kernel_result" where
  "kernel_new heap object_capacity process_capacity frame_ranges =
     rbind (om_with_capacity heap object_capacity) (\<lambda>om.
     rbind (ptb_with_capacity heap process_capacity) (\<lambda>t.
     rbind (fa_from_available_ranges heap frame_ranges) (\<lambda>fa.
     Ok \<lparr>k_objects = om, k_processes = t, k_frames = fa\<rparr>)))"

definition create_bootstrap_process :: "heap \<Rightarrow> usize \<Rightarrow> usize \<Rightarrow> kernel \<Rightarrow> process_id kernel_result \<times> kernel" where
  "create_bootstrap_process heap handle_capacity object_quota k =
     apsnd (\<lambda>(t, om). k\<lparr>k_processes := t, k_objects := om\<rparr>)
       (create_bootstrap heap handle_capacity object_quota (k_processes k, k_objects k))"

text \<open>Writing back the process, the objects and the frames that an operation has borrowed from the kernel.\<close>

definition k_put :: "process_id \<Rightarrow> kernel \<Rightarrow> process_state \<Rightarrow> kernel" where
  "k_put i k = (\<lambda>(p, om, fa). k\<lparr>k_objects := om, k_processes := ptb_put (k_processes k) i p, k_frames := fa\<rparr>)"

definition outcome :: "('a \<Rightarrow> syscall_outcome) \<Rightarrow> process_id \<Rightarrow> kernel
    \<Rightarrow> 'a kernel_result \<times> process_state \<Rightarrow> syscall_outcome kernel_result \<times> kernel" where
  "outcome f i k = (\<lambda>(r, s). (map_ok f r, k_put i k s))"

text \<open>An operation on the process and the objects, and one on the handle table, as operations on all.\<close>

definition with_objects :: "frame_allocator \<Rightarrow> 'a kernel_result \<times> (process \<times> object_manager)
    \<Rightarrow> 'a kernel_result \<times> process_state" where
  "with_objects fa = apsnd (\<lambda>(p, om). (p, om, fa))"

definition with_handles :: "process \<Rightarrow> 'a kernel_result \<times> handle_state \<Rightarrow> 'a kernel_result \<times> process_state" where
  "with_handles p = apsnd (\<lambda>(ht, om, fa). (p\<lparr>pr_handles := ht\<rparr>, om, fa))"

fun dispatch :: "heap \<Rightarrow> syscall \<Rightarrow> process_id \<Rightarrow> kernel \<Rightarrow> process_state
    \<Rightarrow> (syscall_outcome kernel_result \<times> kernel) option" where
  "dispatch heap (CreateObject kind rights) i k (p, om, fa) =
     Some (outcome OutcomeHandle i k (with_objects fa (create_object_handle kind rights (p, om))))"
| "dispatch heap (CreateMemoryObject size_bytes rights) i k (p, om, fa) =
     Some (outcome OutcomeHandle i k (create_memory_object_handle size_bytes rights (p, om, fa)))"
| "dispatch heap (CreateAddressSpace rights) i k (p, om, fa) =
     Some (outcome OutcomeHandle i k (with_objects fa (create_address_space_handle rights (p, om))))"
| "dispatch heap (MapMemoryObject address_space memory base size_bytes memory_offset rights) i k (p, om, fa) =
     Some (outcome OutcomePageTableUpdate i k (with_objects fa
       (map_memory_object address_space memory base size_bytes memory_offset rights (p, om))))"
| "dispatch heap (UnmapAddressRange address_space base size_bytes) i k (p, om, fa) =
     Some (outcome OutcomePageTableUpdate i k (with_objects fa (unmap_address_range address_space base size_bytes (p, om))))"
| "dispatch heap (FlushAddressSpaceTlb address_space) i k (p, om, fa) =
     Some (outcome OutcomeTlbInvalidation i k (flush_address_space_tlb address_space (p, om, fa)))"
| "dispatch heap (CreateChannelPair max_messages rights) i k (p, om, fa) =
     Some (outcome (\<lambda>(a, b). OutcomeHandlePair a b) i k (create_channel_pair_handles max_messages rights (p, om, fa)))"
| "dispatch heap (ChannelSend channel bytes handles) i k (p, om, fa) =
     Some (outcome (\<lambda>_. OutcomeClosed) i k (with_objects fa (send_channel_message heap channel bytes handles (p, om))))"
| "dispatch heap (ChannelRecv channel) i k (p, om, fa) =
     Some (outcome (\<lambda>m. OutcomeMessage (rm_bytes m) (rm_byte_len m) (rm_handles m)) i k
       (with_objects fa (recv_channel_message heap channel (p, om))))"
| "dispatch heap (DuplicateHandle source rights) i k (p, om, fa) =
     Some (outcome OutcomeHandle i k (with_handles p
       (apsnd (\<lambda>(ht, om). (ht, om, fa)) (ht_duplicate source rights (pr_handles p, om)))))"
| "dispatch heap (CloseHandle handle) i k (p, om, fa) =
     Some (outcome (\<lambda>_. OutcomeClosed) i k (with_handles p (ht_close handle (pr_handles p, om, fa))))"
| "dispatch heap (RevokeDescendants root) i k (p, om, fa) =
     map_option (\<lambda>x. outcome OutcomeRevoked i k (with_handles p x))
       (ht_revoke_descendants heap root (pr_handles p, om, fa))"

definition execute :: "heap \<Rightarrow> syscall_context \<Rightarrow> syscall \<Rightarrow> kernel
    \<Rightarrow> (syscall_outcome kernel_result \<times> kernel) option" where
  "execute heap context syscall k =
     (case ptb_get (k_processes k) (sc_process context) of
        Err e \<Rightarrow> Some (Err e, k)
      | Panic \<Rightarrow> Some (Panic, k)
      | Ok p \<Rightarrow> dispatch heap syscall (sc_process context) k (p, k_objects k, k_frames k))"

definition lookup_handle ::
  "kernel \<Rightarrow> process_id \<Rightarrow> handle_value \<Rightarrow> object_kind \<Rightarrow> handle_rights \<Rightarrow> handle_view kernel_result" where
  "lookup_handle k i h expected_kind required_rights =
     rbind (ptb_get (k_processes k) i) (\<lambda>p.
     ht_lookup (pr_handles p) (k_objects k) h expected_kind required_rights)"

end
