(* ===== verification/Object_Refs.thy ===== *)
theory Object_Refs
  imports Object
begin

text \<open>
  The reference counts of the object manager.  An object is referenced by handles, which are in handle
  tables or travel in queued messages, and a memory object also by mappings and by pending TLB
  work.  The invariant says that every reference names a live object of its kind and that the two
  counters of an object are exactly the numbers of its references; the lemmas say how each operation
  moves references.  References held outside the object manager are parameters of the invariant:
  \<open>T\<close> is the multiset of handles in tables, \<open>M\<close> the mapping references in flight between two steps
  of one operation.
\<close>

section \<open>The object table as a partial map\<close>

definition om_at :: "object_manager \<Rightarrow> object_id \<rightharpoonup> object_entry" where
  "om_at om i = (if unat i < om_capacity om then om_entries om ! unat i else None)"

definition om_gen :: "object_manager \<Rightarrow> object_id \<Rightarrow> object_generation" where
  "om_gen om i = om_generations om ! unat i"

fun payload_ok :: "object_payload \<Rightarrow> bool" where
  "payload_ok (PChannelEndpoint c) = endpoint_wf c"
| "payload_ok (PMemoryObject m) = memory_ok m"
| "payload_ok (PAddressSpace a) = as_wf a"
| "payload_ok _ = True"

definition om_shape :: "object_manager \<Rightarrow> bool" where
  "om_shape om \<longleftrightarrow> length (om_entries om) = om_capacity om \<and> length (om_generations om) = om_capacity om
     \<and> om_capacity om \<le> usize_max"

definition om_wf :: "object_manager \<Rightarrow> bool" where
  "om_wf om \<longleftrightarrow> om_shape om
     \<and> (\<forall>i e. om_at om i = Some e \<longrightarrow>
          oe_id e = i \<and> oe_generation e = om_gen om i \<and> oe_state e = Live \<and> payload_ok (oe_payload e))"

lemma om_wf_shape: "om_wf om \<Longrightarrow> om_shape om"
  by (simp add: om_wf_def)

lemma om_wf_at:
  assumes "om_wf om" and "om_at om i = Some e"
  shows "oe_id e = i" "oe_generation e = om_gen om i" "oe_state e = Live" "payload_ok (oe_payload e)"
  using assms unfolding om_wf_def by blast+

lemma om_at_bound: "om_at om i = Some e \<Longrightarrow> unat i < om_capacity om"
  by (simp add: om_at_def split: if_splits)

lemma om_index_eq: "om_index om i = (if unat i < om_capacity om then Ok (unat i) else Err InvalidHandle)"
  by (simp add: om_index_def as_usize_def not_le)

lemma om_entry_eq:
  assumes "om_shape om"
  shows "om_entry om i = (case om_at om i of
      Some e \<Rightarrow> Ok e
    | None \<Rightarrow> Err (if unat i < om_capacity om then DeadObject else InvalidHandle))"
  using assms
  by (auto simp: om_entry_def om_index_eq om_at_def om_shape_def vec_get_def split: option.splits)

lemma om_live_entry_eq:
  assumes "om_wf om"
  shows "om_live_entry om i g = (case om_at om i of
      Some e \<Rightarrow> if oe_generation e = g then Ok e else Err StaleHandle
    | None \<Rightarrow> Err (if unat i < om_capacity om then DeadObject else InvalidHandle))"
  using om_wf_at(3) [OF assms]
  by (auto simp: om_live_entry_def om_entry_eq [OF om_wf_shape [OF assms]] split: option.splits)

lemma om_validate_eq:
  assumes "om_wf om"
  shows "om_validate om i g kind = (case om_at om i of
      Some e \<Rightarrow> if oe_generation e \<noteq> g then Err StaleHandle
        else if payload_kind (oe_payload e) \<noteq> kind then Err WrongObjectType else Ok (snapshot_of e)
    | None \<Rightarrow> Err (if unat i < om_capacity om then DeadObject else InvalidHandle))"
  using om_wf_at(3) [OF assms]
  by (auto simp: om_validate_def om_entry_eq [OF om_wf_shape [OF assms]] split: option.splits)

text \<open>Writing one entry.\<close>

lemma om_put_simps [simp]:
  "om_capacity (om_put om i e) = om_capacity om"
  "om_generations (om_put om i e) = om_generations om"
  "om_gen (om_put om i e) = om_gen om"
  by (simp_all add: om_put_def om_gen_def fun_eq_iff)

lemma om_put_shape [simp]: "om_shape (om_put om i e) \<longleftrightarrow> om_shape om"
  by (simp add: om_shape_def om_put_def)

lemma om_at_put:
  assumes "om_shape om" and "unat i < om_capacity om"
  shows "om_at (om_put om i e) = (om_at om)(i \<mapsto> e)"
proof
  fix j
  show "om_at (om_put om i e) j = ((om_at om)(i \<mapsto> e)) j"
    using assms by (auto simp: om_at_def om_put_def as_usize_def om_shape_def nth_list_update word_unat_eq_iff)
qed

lemma om_put_payload_eq:
  assumes "om_at om i = Some e"
  shows "om_put_payload om i p = om_put om i (e\<lparr>oe_payload := p\<rparr>)"
  using assms by (simp add: om_put_payload_def om_put_def om_at_def as_usize_def split: if_splits)

lemma om_wf_put:
  assumes wf: "om_wf om" and i: "unat i < om_capacity om"
    and e: "oe_id e = i" "oe_generation e = om_gen om i" "oe_state e = Live" "payload_ok (oe_payload e)"
  shows "om_wf (om_put om i e)"
  using wf e om_at_put [OF om_wf_shape [OF wf] i, of e] by (auto simp: om_wf_def)

section \<open>Sums over the live objects\<close>

definition slot_sum :: "('a \<Rightarrow> 'b::comm_monoid_add) \<Rightarrow> 'a option list \<Rightarrow> 'b" where
  "slot_sum f xs = sum_list (map (\<lambda>slot. case slot of None \<Rightarrow> 0 | Some x \<Rightarrow> f x) xs)"

lemma slot_sum_simps [simp]:
  "slot_sum f [] = 0" "slot_sum f (None # xs) = slot_sum f xs" "slot_sum f (Some x # xs) = f x + slot_sum f xs"
  by (simp_all add: slot_sum_def)

lemma slot_sum_update:
  assumes "i < length xs"
  shows "slot_sum f (xs[i := y]) + (case xs ! i of None \<Rightarrow> 0 | Some x \<Rightarrow> f x)
    = slot_sum f xs + (case y of None \<Rightarrow> 0 | Some x \<Rightarrow> f x)"
  using assms
proof (induction xs arbitrary: i)
  case Nil
  then show ?case by simp
next
  case (Cons x xs)
  show ?case
  proof (cases i)
    case 0
    then show ?thesis by (simp add: slot_sum_def ac_simps)
  next
    case (Suc j)
    then have "slot_sum f (xs[j := y]) + (case xs ! j of None \<Rightarrow> 0 | Some x \<Rightarrow> f x)
        = slot_sum f xs + (case y of None \<Rightarrow> 0 | Some x \<Rightarrow> f x)"
      using Cons by simp
    then show ?thesis using Suc by (cases x) (simp_all add: ac_simps)
  qed
qed

lemma slot_sum_member:
  fixes f :: "'a \<Rightarrow> 'b multiset"
  assumes "Some x \<in> set xs"
  shows "f x \<subseteq># slot_sum f xs"
  using assms
proof (induction xs)
  case (Cons y xs)
  then show ?case by (cases y) (auto intro: subset_mset.add_increasing subset_mset.add_increasing2)
qed simp

lemma slot_sum_replicate [simp]: "slot_sum f (replicate n None) = 0"
  by (induction n) auto

definition om_sum :: "(object_payload \<Rightarrow> 'b::comm_monoid_add) \<Rightarrow> object_manager \<Rightarrow> 'b" where
  "om_sum f om = slot_sum (\<lambda>e. f (oe_payload e)) (om_entries om)"

lemma om_sum_put:
  assumes "om_shape om" and "unat i < om_capacity om"
  shows "om_sum f (om_put om i e') + (case om_at om i of None \<Rightarrow> 0 | Some e \<Rightarrow> f (oe_payload e))
    = om_sum f om + f (oe_payload e')"
proof -
  have "unat i < length (om_entries om)" using assms by (simp add: om_shape_def)
  from slot_sum_update [OF this, of "\<lambda>e. f (oe_payload e)" "Some e'"] assms
  show ?thesis by (simp add: om_sum_def om_put_def om_at_def as_usize_def cong: option.case_cong)
qed

lemma om_sum_put_payload_eq:
  fixes f :: "object_payload \<Rightarrow> 'b::cancel_comm_monoid_add"
  assumes "om_shape om" and "om_at om i = Some e" and "f (oe_payload e') = f (oe_payload e)"
  shows "om_sum f (om_put om i e') = om_sum f om"
  using om_sum_put [OF assms(1) om_at_bound [OF assms(2)], of f e'] assms(2,3) by simp

section \<open>References\<close>

type_synonym href = "object_id \<times> object_generation \<times> object_kind"

definition hte_ref :: "handle_table_entry \<Rightarrow> href" where
  "hte_ref e = (hte_object e, hte_object_generation e, hte_kind e)"

definition message_refs :: "channel_message \<Rightarrow> href multiset" where
  "message_refs m = image_mset hte_ref (mset (live (cm_handles m)))"

definition endpoint_refs :: "channel_endpoint_object \<Rightarrow> href multiset" where
  "endpoint_refs c = \<Sum>\<^sub># (image_mset message_refs (endpoint_bag c))"

fun payload_refs :: "object_payload \<Rightarrow> href multiset" where
  "payload_refs (PChannelEndpoint c) = endpoint_refs c"
| "payload_refs _ = {#}"

definition as_refs :: "address_space_object \<Rightarrow> object_ref multiset" where
  "as_refs a = image_mset vm_memory (mset (as_mappings a))
     + image_mset pti_deferred_reclaim (mset (live (pts_work (as_pending a))))"

fun payload_maps :: "object_payload \<Rightarrow> object_ref multiset" where
  "payload_maps (PAddressSpace a) = as_refs a"
| "payload_maps _ = {#}"

definition om_refs :: "object_manager \<Rightarrow> href multiset" where
  "om_refs om = om_sum payload_refs om"

definition om_maps :: "object_manager \<Rightarrow> object_ref multiset" where
  "om_maps om = om_sum payload_maps om"

definition names :: "object_manager \<Rightarrow> href \<Rightarrow> bool" where
  "names om = (\<lambda>(i, g, kind). \<exists>e. om_at om i = Some e \<and> oe_generation e = g \<and> payload_kind (oe_payload e) = kind)"

definition names_memory :: "object_manager \<Rightarrow> object_ref \<Rightarrow> bool" where
  "names_memory om r \<longleftrightarrow> names om (or_id r, or_generation r, KindMemoryObject)"

definition refs_ok :: "href multiset \<Rightarrow> object_manager \<Rightarrow> bool" where
  "refs_ok T om \<longleftrightarrow> (\<forall>r \<in># T + om_refs om. names om r)
     \<and> (\<forall>i e. om_at om i = Some e \<longrightarrow>
          oe_handle_count e = count (T + om_refs om) (i, oe_generation e, payload_kind (oe_payload e)))"

definition maps_ok :: "object_ref multiset \<Rightarrow> object_manager \<Rightarrow> bool" where
  "maps_ok M om \<longleftrightarrow> (\<forall>r \<in># M + om_maps om. names_memory om r)
     \<and> (\<forall>i e m. om_at om i = Some e \<and> oe_payload e = PMemoryObject m \<longrightarrow>
          mo_active_mappings m = count (M + om_maps om) \<lparr>or_id = i, or_generation = oe_generation e\<rparr>)"

definition obj_inv :: "href multiset \<Rightarrow> object_ref multiset \<Rightarrow> object_manager \<Rightarrow> bool" where
  "obj_inv T M om \<longleftrightarrow> om_wf om \<and> refs_ok T om \<and> maps_ok M om"

lemma obj_invD:
  assumes "obj_inv T M om"
  shows "om_wf om" "refs_ok T om" "maps_ok M om" "om_shape om"
  using assms by (simp_all add: obj_inv_def om_wf_def)

lemma refs_okD:
  assumes "refs_ok T om"
  shows "r \<in># T \<Longrightarrow> names om r" "r \<in># om_refs om \<Longrightarrow> names om r"
    "om_at om i = Some e \<Longrightarrow>
      oe_handle_count e = count (T + om_refs om) (i, oe_generation e, payload_kind (oe_payload e))"
  using assms by (auto simp: refs_ok_def)

lemma names_iff:
  "names om (i, g, kind) \<longleftrightarrow> (\<exists>e. om_at om i = Some e \<and> oe_generation e = g \<and> payload_kind (oe_payload e) = kind)"
  by (simp add: names_def)

lemma kind_memory: "payload_kind p = KindMemoryObject \<longleftrightarrow> (\<exists>m. p = PMemoryObject m)"
  and kind_channel: "payload_kind p = KindChannelEndpoint \<longleftrightarrow> (\<exists>c. p = PChannelEndpoint c)"
  and kind_address_space: "payload_kind p = KindAddressSpace \<longleftrightarrow> (\<exists>a. p = PAddressSpace a)"
  and kind_event: "payload_kind p = KindEvent \<longleftrightarrow> (\<exists>ev. p = PEvent ev)"
  by (cases p; simp)+

section \<open>Rewriting one entry\<close>

text \<open>The general step: an entry is replaced by one of the same name and kind.\<close>

lemma names_put:
  assumes "om_shape om" and "om_at om i = Some e"
    and "oe_generation e' = oe_generation e" and "payload_kind (oe_payload e') = payload_kind (oe_payload e)"
  shows "names (om_put om i e') r \<longleftrightarrow> names om r"
  using assms om_at_put [OF assms(1) om_at_bound [OF assms(2)], of e']
  by (cases r) (auto simp: names_iff)

lemma names_memory_put:
  assumes "om_shape om" and "om_at om i = Some e"
    and "oe_generation e' = oe_generation e" and "payload_kind (oe_payload e') = payload_kind (oe_payload e)"
  shows "names_memory (om_put om i e') r \<longleftrightarrow> names_memory om r"
  using names_put [OF assms] by (simp add: names_memory_def)

lemma om_sum_exchange:
  fixes f :: "object_payload \<Rightarrow> 'c multiset"
  assumes shape: "om_shape om" and at: "om_at om i = Some e"
    and eq: "T' + f (oe_payload e') + D = T + f (oe_payload e) + A"
  shows "(T' + om_sum f (om_put om i e')) + D = (T + om_sum f om) + A"
proof -
  have "om_sum f (om_put om i e') + f (oe_payload e) = om_sum f om + f (oe_payload e')"
    using om_sum_put [OF shape om_at_bound [OF at], of f e'] at by simp
  then have "((T' + om_sum f (om_put om i e')) + D) + f (oe_payload e)
      = ((T' + f (oe_payload e') + D) + om_sum f om)"
    by (simp add: ac_simps)
  also have "\<dots> = ((T + om_sum f om) + A) + f (oe_payload e)"
    by (simp only: eq) (simp add: ac_simps)
  finally show ?thesis by simp
qed

lemma count_only:
  assumes "set_mset X \<subseteq> {x}"
  shows "count X y = (if y = x then size X else 0)"
proof -
  from assms have X: "X = replicate_mset (size X) x"
    by (metis set_mset_subset_singletonD size_replicate_mset)
  show ?thesis by (subst X) simp
qed

text \<open>An exchange of references to one object: \<open>A\<close> are the new ones, \<open>D\<close> the dropped ones.\<close>

lemma count_exchange:
  assumes eq: "R' + D = R + A" and own: "set_mset (A + D) \<subseteq> {x}"
  shows "count R' y + (if y = x then size D else 0) = count R y + (if y = x then size A else 0)"
proof -
  have "count R' y + count D y = count R y + count A y"
    using arg_cong [OF eq, of "\<lambda>X. count X y"] by simp
  moreover have "set_mset A \<subseteq> {x}" "set_mset D \<subseteq> {x}" using own by auto
  ultimately show ?thesis by (simp add: count_only)
qed

lemma in_exchange:
  assumes "R' + D = R + A" and "r \<in># R'"
  shows "r \<in># R \<or> r \<in># A"
proof -
  have "r \<in># R' + D" using assms(2) by simp
  then show ?thesis by (simp only: assms(1)) simp
qed

lemma refs_ok_exchange:
  assumes refs: "refs_ok T om" and shape: "om_shape om" and at: "om_at om i = Some e"
    and e': "oe_generation e' = oe_generation e" "payload_kind (oe_payload e') = payload_kind (oe_payload e)"
    and eq: "T' + payload_refs (oe_payload e') + D = T + payload_refs (oe_payload e) + A"
    and count: "oe_handle_count e' + size D = oe_handle_count e + size A"
    and own: "set_mset (A + D) \<subseteq> {(i, oe_generation e, payload_kind (oe_payload e))}"
  shows "refs_ok T' (om_put om i e')"
proof -
  let ?om = "om_put om i e'" and ?x = "(i, oe_generation e, payload_kind (oe_payload e))"
  have R: "(T' + om_refs ?om) + D = (T + om_refs om) + A"
    using om_sum_exchange [OF shape at eq] by (simp add: om_refs_def)
  have x: "names om ?x" using at by (simp add: names_iff)
  have "names ?om r" if "r \<in># T' + om_refs ?om" for r
    using in_exchange [OF R that] refs own x
    by (auto simp: names_put [OF shape at e'] refs_ok_def)
  moreover have "oe_handle_count d = count (T' + om_refs ?om) (j, oe_generation d, payload_kind (oe_payload d))"
    if d: "om_at ?om j = Some d" for j d
  proof (cases "j = i")
    case True
    then have "d = e'" using d om_at_put [OF shape om_at_bound [OF at], of e'] by simp
    then show ?thesis
      using count_exchange [OF R own, of ?x] refs_okD(3) [OF refs at] count True e' by simp
  next
    case False
    then have "om_at om j = Some d" using d om_at_put [OF shape om_at_bound [OF at], of e'] by simp
    then show ?thesis
      using count_exchange [OF R own, of "(j, oe_generation d, payload_kind (oe_payload d))"]
        refs_okD(3) [OF refs] False by simp
  qed
  ultimately show ?thesis by (auto simp: refs_ok_def)
qed

lemma maps_ok_exchange:
  assumes maps: "maps_ok M om" and shape: "om_shape om" and at: "om_at om i = Some e"
    and e': "oe_generation e' = oe_generation e" "payload_kind (oe_payload e') = payload_kind (oe_payload e)"
    and eq: "M' + payload_maps (oe_payload e') + D = M + payload_maps (oe_payload e) + A"
    and active: "\<And>m m'. oe_payload e = PMemoryObject m \<Longrightarrow> oe_payload e' = PMemoryObject m'
        \<Longrightarrow> mo_active_mappings m' + size D = mo_active_mappings m + size A"
    and own: "set_mset (A + D) \<subseteq> {\<lparr>or_id = i, or_generation = oe_generation e\<rparr>}"
    and mem: "A \<noteq> {#} \<Longrightarrow> payload_kind (oe_payload e) = KindMemoryObject"
  shows "maps_ok M' (om_put om i e')"
proof -
  let ?om = "om_put om i e'" and ?x = "\<lparr>or_id = i, or_generation = oe_generation e\<rparr>"
  have R: "(M' + om_maps ?om) + D = (M + om_maps om) + A"
    using om_sum_exchange [OF shape at eq] by (simp add: om_maps_def)
  have "names_memory ?om r" if "r \<in># M' + om_maps ?om" for r
    using in_exchange [OF R that]
  proof
    assume "r \<in># M + om_maps om"
    then show ?thesis using maps by (auto simp: names_memory_put [OF shape at e'] maps_ok_def)
  next
    assume r: "r \<in># A"
    then have "A \<noteq> {#}" by auto
    then have "payload_kind (oe_payload e) = KindMemoryObject" by (rule mem)
    moreover have "r = ?x" using r own by auto
    ultimately show ?thesis
      unfolding names_memory_put [OF shape at e'] using at by (simp add: names_memory_def names_iff)
  qed
  moreover have "mo_active_mappings m' = count (M' + om_maps ?om) \<lparr>or_id = j, or_generation = oe_generation d\<rparr>"
    if d: "om_at ?om j = Some d" "oe_payload d = PMemoryObject m'" for j d m'
  proof (cases "j = i")
    case True
    then have d': "d = e'" using d(1) om_at_put [OF shape om_at_bound [OF at], of e'] by simp
    then obtain m where m: "oe_payload e = PMemoryObject m"
      using d(2) e'(2) kind_memory [of "oe_payload e"] by auto
    have "mo_active_mappings m = count (M + om_maps om) ?x"
      using maps at m by (auto simp: maps_ok_def)
    then show ?thesis
      using count_exchange [OF R own, of ?x] active [OF m] d(2) d' True e'(1) by simp
  next
    case False
    then have "om_at om j = Some d" using d(1) om_at_put [OF shape om_at_bound [OF at], of e'] by simp
    then have "mo_active_mappings m' = count (M + om_maps om) \<lparr>or_id = j, or_generation = oe_generation d\<rparr>"
      using maps d(2) unfolding maps_ok_def by blast
    then show ?thesis
      using count_exchange [OF R own, of "\<lparr>or_id = j, or_generation = oe_generation d\<rparr>"] False by simp
  qed
  ultimately show ?thesis by (auto simp: maps_ok_def)
qed

lemma obj_inv_put:
  assumes inv: "obj_inv T M om" and at: "om_at om i = Some e"
    and e': "oe_id e' = oe_id e" "oe_generation e' = oe_generation e" "oe_state e' = oe_state e"
      "payload_kind (oe_payload e') = payload_kind (oe_payload e)" "payload_ok (oe_payload e')"
    and "T' + payload_refs (oe_payload e') + D = T + payload_refs (oe_payload e) + A"
    and "oe_handle_count e' + size D = oe_handle_count e + size A"
    and "set_mset (A + D) \<subseteq> {(i, oe_generation e, payload_kind (oe_payload e))}"
    and "M' + payload_maps (oe_payload e') + MD = M + payload_maps (oe_payload e) + MA"
    and "\<And>m m'. oe_payload e = PMemoryObject m \<Longrightarrow> oe_payload e' = PMemoryObject m'
        \<Longrightarrow> mo_active_mappings m' + size MD = mo_active_mappings m + size MA"
    and "set_mset (MA + MD) \<subseteq> {\<lparr>or_id = i, or_generation = oe_generation e\<rparr>}"
    and "MA \<noteq> {#} \<Longrightarrow> payload_kind (oe_payload e) = KindMemoryObject"
  shows "obj_inv T' M' (om_put om i e')"
proof -
  note wf = obj_invD(1) [OF inv] and shape = obj_invD(4) [OF inv]
  have "om_wf (om_put om i e')"
    using om_wf_put [OF wf om_at_bound [OF at]] om_wf_at [OF wf at] e' by simp
  moreover have "refs_ok T' (om_put om i e')"
    using refs_ok_exchange [OF obj_invD(2) [OF inv] shape at e'(2) e'(4)] assms(8-10) by blast
  moreover have "maps_ok M' (om_put om i e')"
    using maps_ok_exchange [OF obj_invD(3) [OF inv] shape at e'(2) e'(4)] assms(11-14) by blast
  ultimately show ?thesis by (simp add: obj_inv_def)
qed

end
