(* ===== verification/Object_Inv.thy ===== *)
theory Object_Inv
  imports Object_Refs
begin

text \<open>
  The invariant of the object manager and what each of its operations does to it.  \<open>om_ok C n T M L om\<close>
  says that the table has \<open>C\<close> slots, that its reference counts are exact for the handles \<open>T\<close> in tables
  and the mappings \<open>M\<close> in flight, that its memory objects hold exactly the leases \<open>L\<close>, and that every
  generation and every TLB sequence number is at least \<open>n\<close> steps away from overflow.
\<close>

section \<open>The invariant\<close>

fun payload_lease :: "object_payload \<Rightarrow> memory_frame_range option" where
  "payload_lease (PMemoryObject m) = Some (mo_frame_range m)"
| "payload_lease _ = None"

fun payload_margin :: "nat \<Rightarrow> object_payload \<Rightarrow> bool" where
  "payload_margin n (PAddressSpace a) = (unat (pts_next_sequence (as_pending a)) + n < 2 ^ 64)"
| "payload_margin n _ = True"

definition entry_leases :: "object_entry option \<Rightarrow> (frame_owner \<times> memory_frame_range) set" where
  "entry_leases slot = {(OwnerMemoryObject (oe_id e) (oe_generation e), r) |e r.
     slot = Some e \<and> payload_lease (oe_payload e) = Some r}"

definition om_leases :: "object_manager \<Rightarrow> (frame_owner \<times> memory_frame_range) set" where
  "om_leases om = (\<Union>i. entry_leases (om_at om i))"

definition generations_margin :: "nat \<Rightarrow> u64 list \<Rightarrow> bool" where
  "generations_margin n gs \<longleftrightarrow> (\<forall>g \<in> set gs. unat g + n < 2 ^ 64)"

definition om_margin :: "nat \<Rightarrow> object_manager \<Rightarrow> bool" where
  "om_margin n om \<longleftrightarrow> generations_margin n (om_generations om)
     \<and> (\<forall>i e. om_at om i = Some e \<longrightarrow> payload_margin n (oe_payload e))"

definition om_ok :: "nat \<Rightarrow> nat \<Rightarrow> href multiset \<Rightarrow> object_ref multiset
    \<Rightarrow> (frame_owner \<times> memory_frame_range) set \<Rightarrow> object_manager \<Rightarrow> bool" where
  "om_ok C n T M L om \<longleftrightarrow> obj_inv T M om \<and> om_margin n om \<and> om_leases om = L \<and> om_capacity om = C"

lemma om_okD:
  assumes "om_ok C n T M L om"
  shows "obj_inv T M om" "om_wf om" "om_shape om" "refs_ok T om" "maps_ok M om" "om_margin n om"
    "om_leases om = L" "om_capacity om = C"
  using assms obj_invD [of T M om] by (simp_all add: om_ok_def)

lemma generations_margin_mono: "generations_margin n gs \<Longrightarrow> m \<le> n \<Longrightarrow> generations_margin m gs"
  by (force simp: generations_margin_def)

lemma payload_margin_mono: "payload_margin n p \<Longrightarrow> m \<le> n \<Longrightarrow> payload_margin m p"
  by (cases p) auto

lemma om_margin_mono: "om_margin n om \<Longrightarrow> m \<le> n \<Longrightarrow> om_margin m om"
  unfolding om_margin_def using generations_margin_mono payload_margin_mono by blast

lemma om_ok_mono: "om_ok C n T M L om \<Longrightarrow> m \<le> n \<Longrightarrow> om_ok C m T M L om"
  using om_margin_mono by (auto simp: om_ok_def)

lemma om_ok_at:
  assumes "om_ok C n T M L om" and "om_at om i = Some e"
  shows "oe_id e = i" "oe_generation e = om_gen om i" "oe_state e = Live" "payload_ok (oe_payload e)"
    "payload_margin n (oe_payload e)"
  using om_wf_at [OF om_okD(2) [OF assms(1)] assms(2)] om_okD(6) [OF assms(1)] assms(2)
  by (auto simp: om_margin_def)

section \<open>Looking up a live object\<close>

lemma om_entry_at:
  assumes "om_ok C n T M L om" and "om_at om i = Some e"
  shows "om_entry om i = Ok e" "om_live_entry om i (oe_generation e) = Ok e"
    "om_live_payload om i (oe_generation e) = Ok (oe_payload e)"
    "om_validate om i (oe_generation e) (payload_kind (oe_payload e)) = Ok (snapshot_of e)"
  using om_entry_eq [OF om_okD(3) [OF assms(1)], of i] om_live_entry_eq [OF om_okD(2) [OF assms(1)], of i]
    om_validate_eq [OF om_okD(2) [OF assms(1)], of i] assms(2)
  by (simp_all add: om_live_payload_def)

lemma om_entry_cases:
  assumes "om_ok C n T M L om"
  obtains (live) e where "om_at om i = Some e" "om_entry om i = Ok e"
  | (none) err where "om_at om i = None" "om_entry om i = Err err" "err \<in> {DeadObject, InvalidHandle}"
  using om_entry_eq [OF om_okD(3) [OF assms], of i] by (cases "om_at om i") (auto split: if_splits)

lemma om_live_payload_cases:
  assumes "om_ok C n T M L om"
  obtains (live) e where "om_at om i = Some e" "oe_generation e = g" "om_live_payload om i g = Ok (oe_payload e)"
  | (err) err where "om_live_payload om i g = Err err" "err \<in> {DeadObject, InvalidHandle, StaleHandle}"
    "\<And>e. om_at om i = Some e \<Longrightarrow> oe_generation e \<noteq> g"
  using om_live_entry_eq [OF om_okD(2) [OF assms], of i g]
  by (cases "om_at om i") (auto simp: om_live_payload_def split: if_splits)

lemma om_validate_cases:
  assumes "om_ok C n T M L om"
  obtains (live) e where "om_at om i = Some e" "oe_generation e = g" "payload_kind (oe_payload e) = kind"
      "om_validate om i g kind = Ok (snapshot_of e)"
  | (err) err where "om_validate om i g kind = Err err" "\<not> names om (i, g, kind)"
  using om_validate_eq [OF om_okD(2) [OF assms], of i g kind]
  by (cases "om_at om i") (auto simp: names_iff split: if_splits)

lemma as_payload_cases:
  obtains (memory) m where "p = PMemoryObject m" "as_memory p = Ok m"
  | (other) "as_memory p = Err WrongObjectType" "payload_kind p \<noteq> KindMemoryObject"
  by (cases p) auto

lemma as_channel_cases:
  obtains (channel) c where "p = PChannelEndpoint c" "as_channel p = Ok c"
  | (other) "as_channel p = Err WrongObjectType" "payload_kind p \<noteq> KindChannelEndpoint"
  by (cases p) auto

lemma as_address_space_cases:
  obtains (space) a where "p = PAddressSpace a" "as_address_space p = Ok a"
  | (other) "as_address_space p = Err WrongObjectType" "payload_kind p \<noteq> KindAddressSpace"
  by (cases p) auto

lemma om_ok_names:
  assumes "om_ok C n T M L om"
  shows "r \<in># T \<Longrightarrow> names om r" "r \<in># om_refs om \<Longrightarrow> names om r" "m \<in># M \<Longrightarrow> names_memory om m"
    "m \<in># om_maps om \<Longrightarrow> names_memory om m"
  using om_okD(4,5) [OF assms] by (auto simp: refs_ok_def maps_ok_def)

lemma om_slot:
  assumes "om_ok C n T M L om" and "om_at om i = Some e"
  shows "unat i < om_capacity om" "unat i < length (om_entries om)" "om_entries om ! unat i = Some e"
  using om_okD(3) [OF assms(1)] assms(2) by (auto simp: om_at_def om_shape_def split: if_splits)

section \<open>Writing one entry\<close>

lemma om_leases_put:
  assumes "om_shape om" and "om_at om i = Some e"
    and "oe_id e' = oe_id e" "oe_generation e' = oe_generation e" "payload_lease (oe_payload e') = payload_lease (oe_payload e)"
  shows "om_leases (om_put om i e') = om_leases om"
proof -
  have "entry_leases (om_at (om_put om i e') j) = entry_leases (om_at om j)" for j
    using assms om_at_put [OF assms(1) om_at_bound [OF assms(2)], of e'] by (auto simp: entry_leases_def)
  then show ?thesis by (simp add: om_leases_def)
qed

lemma om_margin_put:
  assumes "om_shape om" and "unat i < om_capacity om" and "om_margin n om" and "payload_margin n (oe_payload e')"
  shows "om_margin n (om_put om i e')"
  using assms om_at_put [OF assms(1,2), of e'] by (auto simp: om_margin_def)

lemma om_ok_put:
  assumes ok: "om_ok C n T M L om" and at: "om_at om i = Some e"
    and e': "oe_id e' = oe_id e" "oe_generation e' = oe_generation e" "oe_state e' = oe_state e"
      "payload_kind (oe_payload e') = payload_kind (oe_payload e)" "payload_ok (oe_payload e')"
      "payload_lease (oe_payload e') = payload_lease (oe_payload e)" "payload_margin n (oe_payload e')"
    and refs: "T' + payload_refs (oe_payload e') + D = T + payload_refs (oe_payload e) + A"
      "oe_handle_count e' + size D = oe_handle_count e + size A"
      "set_mset (A + D) \<subseteq> {(i, oe_generation e, payload_kind (oe_payload e))}"
    and maps: "M' + payload_maps (oe_payload e') + MD = M + payload_maps (oe_payload e) + MA"
      "\<And>m m'. oe_payload e = PMemoryObject m \<Longrightarrow> oe_payload e' = PMemoryObject m'
        \<Longrightarrow> mo_active_mappings m' + size MD = mo_active_mappings m + size MA"
      "set_mset (MA + MD) \<subseteq> {\<lparr>or_id = i, or_generation = oe_generation e\<rparr>}"
      "MA \<noteq> {#} \<Longrightarrow> payload_kind (oe_payload e) = KindMemoryObject"
  shows "om_ok C n T' M' L (om_put om i e')"
proof -
  note shape = om_okD(3) [OF ok]
  have "obj_inv T' M' (om_put om i e')"
    by (rule obj_inv_put [OF om_okD(1) [OF ok] at e'(1-5) refs maps])
  moreover have "om_leases (om_put om i e') = L"
    using om_leases_put [OF shape at e'(1,2,6)] om_okD(7) [OF ok] by simp
  moreover have "om_margin n (om_put om i e')"
    by (rule om_margin_put [OF shape om_at_bound [OF at] om_okD(6) [OF ok] e'(7)])
  ultimately show ?thesis using om_okD(8) [OF ok] by (simp add: om_ok_def)
qed

text \<open>The two cases the operations need: a payload changes, or the handle count changes.\<close>

lemma om_ok_put_payload:
  assumes ok: "om_ok C n T M L om" and at: "om_at om i = Some e"
    and p: "payload_kind p = payload_kind (oe_payload e)" "payload_ok p"
      "payload_lease p = payload_lease (oe_payload e)" "payload_margin n p"
    and refs: "T' + payload_refs p = T + payload_refs (oe_payload e)"
    and maps: "M' + payload_maps p + MD = M + payload_maps (oe_payload e) + MA"
      "\<And>m m'. oe_payload e = PMemoryObject m \<Longrightarrow> p = PMemoryObject m'
        \<Longrightarrow> mo_active_mappings m' + size MD = mo_active_mappings m + size MA"
      "set_mset (MA + MD) \<subseteq> {\<lparr>or_id = i, or_generation = oe_generation e\<rparr>}"
      "MA \<noteq> {#} \<Longrightarrow> payload_kind (oe_payload e) = KindMemoryObject"
  shows "om_ok C n T' M' L (om_put_payload om i p)"
  unfolding om_put_payload_eq [OF at]
  by (rule om_ok_put [OF ok at, where A = "{#}" and D = "{#}" and MA = MA and MD = MD]) (use assms in auto)

lemma om_ok_put_same_maps:
  assumes ok: "om_ok C n T M L om" and at: "om_at om i = Some e"
    and p: "payload_kind p = payload_kind (oe_payload e)" "payload_ok p"
      "payload_lease p = payload_lease (oe_payload e)" "payload_margin n p"
    and refs: "T' + payload_refs p = T + payload_refs (oe_payload e)"
    and maps: "M' + payload_maps p = M + payload_maps (oe_payload e)"
      "payload_kind p \<noteq> KindMemoryObject"
  shows "om_ok C n T' M' L (om_put_payload om i p)"
  by (rule om_ok_put_payload [OF ok at p refs, where MA = "{#}" and MD = "{#}"]) (use maps in auto)

text \<open>Writing back what was read changes nothing; the last of two writes stays.\<close>

lemma om_put_payload_same:
  assumes "om_at om i = Some e"
  shows "om_put_payload om i (oe_payload e) = om"
proof -
  have "(om_entries om)[unat i := Some e] = om_entries om"
    using assms by (auto simp: om_at_def list_update_same_conv split: if_splits) (metis list_update_id)
  then show ?thesis
    using assms by (cases om) (auto simp: om_put_payload_def om_at_def as_usize_def split: if_splits)
qed

lemma om_put_payload_twice:
  assumes "om_at om i = Some e" and "om_shape om"
  shows "om_put_payload (om_put_payload om i p) i q = om_put_payload om i q"
proof -
  have "unat i < length (om_entries om)" using assms by (auto simp: om_at_def om_shape_def split: if_splits)
  then show ?thesis by (simp add: om_put_payload_def as_usize_def option.map_comp comp_def)
qed

section \<open>Handle counts\<close>

lemma om_add_handle_ok:
  assumes ok: "om_ok C n T M L om" and r: "names om (i, g, kind)" and room: "size (T + om_refs om) < usize_max"
  obtains om' where "om_add_handle i g om = (Ok (), om')" "om_ok C n (add_mset (i, g, kind) T) M L om'"
    "om_refs om' = om_refs om" "names om' = names om"
proof -
  obtain e where at: "om_at om i = Some e" and g: "oe_generation e = g" and k: "payload_kind (oe_payload e) = kind"
    using r by (auto simp: names_iff)
  let ?e = "e\<lparr>oe_handle_count := Suc (oe_handle_count e)\<rparr>"
  have "oe_handle_count e \<le> size (T + om_refs om)"
    by (simp only: refs_okD(3) [OF om_okD(4) [OF ok] at] count_le_size)
  then have "om_add_handle i g om = (Ok (), om_put om i ?e)"
    using om_entry_at(1) [OF ok at] om_ok_at(3) [OF ok at] g room
    by (simp add: om_add_handle_def usize_saturating_add_def)
  moreover have "om_ok C n (add_mset (i, g, kind) T) M L (om_put om i ?e)"
    by (rule om_ok_put [OF ok at, where A = "{#(i, g, kind)#}" and D = "{#}" and MA = "{#}" and MD = "{#}"])
      (use om_ok_at [OF ok at] g k in auto)
  moreover have "om_refs (om_put om i ?e) = om_refs om"
    unfolding om_refs_def by (rule om_sum_put_payload_eq [OF om_okD(3) [OF ok] at]) simp
  moreover have "names (om_put om i ?e) = names om"
    by (rule ext) (rule names_put [OF om_okD(3) [OF ok] at], simp_all)
  ultimately show ?thesis by (rule that)
qed

lemma om_remove_handle_ok:
  assumes ok: "om_ok C n (add_mset (i, g, kind) T) M L om"
  obtains om' e where "om_remove_handle i g om = (Ok (), om')" "om_ok C n T M L om'"
    "om_at om i = Some e" "oe_generation e = g" "payload_kind (oe_payload e) = kind"
    "om_at om' i = Some (e\<lparr>oe_handle_count := oe_handle_count e - 1\<rparr>)"
    "om' = om_put om i (e\<lparr>oe_handle_count := oe_handle_count e - 1\<rparr>)"
proof -
  have "names om (i, g, kind)" using om_ok_names(1) [OF ok] by simp
  then obtain e where at: "om_at om i = Some e" and g: "oe_generation e = g" and k: "payload_kind (oe_payload e) = kind"
    by (auto simp: names_iff)
  let ?e = "e\<lparr>oe_handle_count := oe_handle_count e - 1\<rparr>"
  have pos: "0 < oe_handle_count e"
    using refs_okD(3) [OF om_okD(4) [OF ok] at] g k by simp
  have "om_remove_handle i g om = (Ok (), om_put om i ?e)"
    using om_entry_at(1) [OF ok at] g by (simp add: om_remove_handle_def usize_saturating_sub_def)
  moreover have "om_ok C n T M L (om_put om i ?e)"
    by (rule om_ok_put [OF ok at, where A = "{#}" and D = "{#(i, g, kind)#}" and MA = "{#}" and MD = "{#}"])
      (use om_ok_at [OF ok at] g k pos in auto)
  moreover have "om_at (om_put om i ?e) i = Some ?e"
    using om_at_put [OF om_okD(3) [OF ok] om_at_bound [OF at], of ?e] by simp
  ultimately show ?thesis using at g k that by blast
qed


section \<open>Filling and emptying slots\<close>

lemma refs_ok_insert:
  assumes refs: "refs_ok T om" and shape: "om_shape om" and at: "om_at om i = None" "unat i < om_capacity om"
    and e: "oe_handle_count e = 0" "payload_refs (oe_payload e) = {#}"
  shows "refs_ok T (om_put om i e)"
proof -
  have R: "om_refs (om_put om i e) = om_refs om"
    using om_sum_put [OF shape at(2), of payload_refs e] at(1) e(2) by (simp add: om_refs_def)
  have none: "count (T + om_refs om) (i, g, k) = 0" for g k
    using refs at(1) by (force simp: refs_ok_def names_iff not_in_iff [symmetric])
  have "names (om_put om i e) r" if "names om r" for r
    using that om_at_put [OF shape at(2), of e] at(1) by (cases r) (auto simp: names_iff)
  then show ?thesis
    using refs R none e(1) om_at_put [OF shape at(2), of e] unfolding refs_ok_def by (auto split: if_splits)
qed

lemma maps_ok_insert:
  assumes maps: "maps_ok M om" and shape: "om_shape om" and at: "om_at om i = None" "unat i < om_capacity om"
    and e: "payload_maps (oe_payload e) = {#}" "\<And>m. oe_payload e = PMemoryObject m \<Longrightarrow> mo_active_mappings m = 0"
  shows "maps_ok M (om_put om i e)"
proof -
  have R: "om_maps (om_put om i e) = om_maps om"
    using om_sum_put [OF shape at(2), of payload_maps e] at(1) e(1) by (simp add: om_maps_def)
  have none: "count (M + om_maps om) \<lparr>or_id = i, or_generation = g\<rparr> = 0" for g
    using maps at(1) by (force simp: maps_ok_def names_memory_def names_iff not_in_iff [symmetric])
  have "names_memory (om_put om i e) r" if "names_memory om r" for r
    using that om_at_put [OF shape at(2), of e] at(1) by (auto simp: names_memory_def names_iff)
  then show ?thesis
    using maps R none e(2) om_at_put [OF shape at(2), of e] unfolding maps_ok_def by (auto split: if_splits)
qed

lemma om_ok_insert:
  assumes ok: "om_ok C n T M L om" and at: "om_at om i = None" "unat i < C"
    and e: "oe_id e = i" "oe_generation e = om_gen om i" "oe_state e = Live" "payload_ok (oe_payload e)"
      "oe_handle_count e = 0" "payload_refs (oe_payload e) = {#}" "payload_maps (oe_payload e) = {#}"
      "\<And>m. oe_payload e = PMemoryObject m \<Longrightarrow> mo_active_mappings m = 0" "payload_margin n (oe_payload e)"
  shows "om_ok C n T M (entry_leases (Some e) \<union> L) (om_put om i e)"
proof -
  note shape = om_okD(3) [OF ok]
  have i: "unat i < om_capacity om" using at(2) om_okD(8) [OF ok] by simp
  have "obj_inv T M (om_put om i e)"
    using om_wf_put [OF om_okD(2) [OF ok] i e(1-4)]
      refs_ok_insert [OF om_okD(4) [OF ok] shape at(1) i e(5,6)]
      maps_ok_insert [OF om_okD(5) [OF ok] shape at(1) i e(7,8)] by (simp add: obj_inv_def)
  moreover have "om_leases (om_put om i e) = entry_leases (Some e) \<union> L"
    using om_okD(7) [OF ok] om_at_put [OF shape i, of e] at(1)
    by (force simp: om_leases_def entry_leases_def split: if_splits)
  moreover have "om_margin n (om_put om i e)"
    by (rule om_margin_put [OF shape i om_okD(6) [OF ok] e(9)])
  ultimately show ?thesis using om_okD(8) [OF ok] by (simp add: om_ok_def)
qed

lemma UN_single_out: "(\<Union>j \<in> - {i}. entry_leases (f j)) = (\<Union>j. entry_leases ((f(i := None)) j))"
  by (force simp: entry_leases_def split: if_splits)

text \<open>Emptying a slot advances its generation.\<close>

definition om_clear :: "object_manager \<Rightarrow> object_id \<Rightarrow> object_manager" where
  "om_clear om i = om\<lparr>om_entries := (om_entries om)[unat i := None],
     om_generations := (om_generations om)[unat i := om_gen om i + 1]\<rparr>"

lemma om_clear_simps:
  assumes "om_shape om" and "unat i < om_capacity om"
  shows "om_shape (om_clear om i)" "om_capacity (om_clear om i) = om_capacity om"
    "om_at (om_clear om i) = (om_at om)(i := None)"
    "om_gen (om_clear om i) = (\<lambda>j. if j = i then om_gen om i + 1 else om_gen om j)"
  using assms
  by (auto simp: om_clear_def om_shape_def om_at_def om_gen_def nth_list_update word_unat_eq_iff fun_eq_iff)

lemma om_sum_clear:
  fixes f :: "object_payload \<Rightarrow> 'c multiset"
  assumes "om_shape om" and "om_at om i = Some e" and "f (oe_payload e) = {#}"
  shows "om_sum f (om_clear om i) = om_sum f om"
proof -
  have i: "unat i < length (om_entries om)" and e: "om_entries om ! unat i = Some e"
    using assms(1,2) by (auto simp: om_shape_def om_at_def split: if_splits)
  from slot_sum_update [OF i, of "\<lambda>e. f (oe_payload e)" None] show ?thesis
    using e assms(3) by (simp add: om_sum_def om_clear_def)
qed

lemma names_clear:
  assumes "om_shape om" and "unat i < om_capacity om"
  shows "names (om_clear om i) r \<longleftrightarrow> names om r \<and> fst r \<noteq> i"
  by (cases r) (auto simp: names_iff om_clear_simps [OF assms])

lemma refs_ok_clear:
  assumes refs: "refs_ok T om" and shape: "om_shape om" and at: "om_at om i = Some e"
    and e: "oe_handle_count e = 0" "payload_refs (oe_payload e) = {#}"
  shows "refs_ok T (om_clear om i)"
proof -
  note i = om_at_bound [OF at]
  have R: "om_refs (om_clear om i) = om_refs om"
    unfolding om_refs_def by (rule om_sum_clear [where e = e]) (use shape at e in auto)
  have "fst r \<noteq> i" if "r \<in># T + om_refs om" for r
  proof
    assume "fst r = i"
    then have "r = (i, oe_generation e, payload_kind (oe_payload e))"
    proof -
      have "names om r" using that refs unfolding refs_ok_def by blast
      then show ?thesis using at \<open>fst r = i\<close> by (cases r) (auto simp: names_iff)
    qed
    then show False using that refs_okD(3) [OF refs at] e(1) by (simp add: count_eq_zero_iff)
  qed
  then show ?thesis
    using refs R unfolding refs_ok_def by (auto simp: names_clear [OF shape i] om_clear_simps [OF shape i] split: if_splits)
qed

lemma maps_ok_clear:
  assumes maps: "maps_ok M om" and shape: "om_shape om" and at: "om_at om i = Some e"
    and e: "payload_maps (oe_payload e) = {#}" "\<And>m. oe_payload e = PMemoryObject m \<Longrightarrow> mo_active_mappings m = 0"
  shows "maps_ok M (om_clear om i)"
proof -
  note i = om_at_bound [OF at]
  have R: "om_maps (om_clear om i) = om_maps om"
    unfolding om_maps_def by (rule om_sum_clear [where e = e]) (use shape at e in auto)
  have "or_id r \<noteq> i" if "r \<in># M + om_maps om" for r
  proof
    assume r: "or_id r = i"
    from that maps have "names_memory om r" by (auto simp: maps_ok_def)
    then obtain m where "oe_generation e = or_generation r" and m: "oe_payload e = PMemoryObject m"
      using at r kind_memory [of "oe_payload e"] by (auto simp: names_memory_def names_iff)
    then have "mo_active_mappings m = count (M + om_maps om) r"
      using maps at r unfolding maps_ok_def by (metis object_ref.surjective old.unit.exhaust)
    then show False using that e(2) [OF m] by (simp add: count_eq_zero_iff)
  qed
  then show ?thesis
    using maps R unfolding maps_ok_def names_memory_def
    by (auto simp: names_clear [OF shape i] om_clear_simps [OF shape i] split: if_splits)
qed

lemma om_ok_clear:
  assumes ok: "om_ok C (Suc n) T M L om" and at: "om_at om i = Some e"
    and e: "oe_handle_count e = 0" "payload_refs (oe_payload e) = {#}" "payload_maps (oe_payload e) = {#}"
      "\<And>m. oe_payload e = PMemoryObject m \<Longrightarrow> mo_active_mappings m = 0"
  shows "om_ok C n T M (L - entry_leases (Some e)) (om_clear om i)"
    and "om_remove_slot (unat i) (om_gen om i) om = (Ok (), om_clear om i)"
proof -
  note shape = om_okD(3) [OF ok] and i = om_at_bound [OF at]
  have il: "unat i < length (om_generations om)" "unat i < length (om_entries om)"
    using shape i by (simp_all add: om_shape_def)
  have head: "unat (om_gen om i) + Suc n < 2 ^ 64"
    using om_okD(6) [OF ok] il by (auto simp: om_margin_def generations_margin_def om_gen_def)
  show "om_remove_slot (unat i) (om_gen om i) om = (Ok (), om_clear om i)"
    using il head by (simp add: om_remove_slot_def vec_set_def next_generation_def checked_add_def om_clear_def)
  have "om_wf (om_clear om i)"
    using om_okD(2) [OF ok] by (auto simp: om_wf_def om_clear_simps [OF shape i])
  then have "obj_inv T M (om_clear om i)"
    using refs_ok_clear [OF om_okD(4) [OF ok] shape at e(1,2)] maps_ok_clear [OF om_okD(5) [OF ok] shape at e(3,4)]
    by (simp add: obj_inv_def)
  moreover have "om_margin n (om_clear om i)"
  proof -
    have "unat (om_gen om i + 1) = Suc (unat (om_gen om i))"
      using head by (simp add: unat_word_ariths)
    then have "generations_margin n (om_generations (om_clear om i))"
      using om_okD(6) [OF ok] head unfolding om_margin_def generations_margin_def om_clear_def
      by (auto dest!: set_update_subset_insert [THEN subsetD])
    moreover have "payload_margin n (oe_payload d)" if "om_at (om_clear om i) j = Some d" for j d
      using that om_okD(6) [OF om_ok_mono [OF ok, of n]]
      by (auto simp: om_clear_simps [OF shape i] om_margin_def split: if_splits)
    ultimately show ?thesis by (simp add: om_margin_def)
  qed
  moreover have "om_leases (om_clear om i) = L - entry_leases (Some e)"
  proof -
    have "entry_leases (om_at om j) \<inter> entry_leases (Some e) = {}" if "j \<noteq> i" for j
      using that at om_wf_at(1) [OF om_okD(2) [OF ok]] by (fastforce simp: entry_leases_def)
    then have "om_leases om - entry_leases (Some e) = (\<Union>j \<in> - {i}. entry_leases (om_at om j))"
      using at unfolding om_leases_def by fastforce
    also have "\<dots> = om_leases (om_clear om i)"
      unfolding om_leases_def om_clear_simps(3) [OF shape i]
      by (rule UN_single_out)
    finally show ?thesis using om_okD(7) [OF ok] by simp
  qed
  ultimately show "om_ok C n T M (L - entry_leases (Some e)) (om_clear om i)"
    using om_okD(8) [OF ok] om_clear_simps(2) [OF shape i] by (simp add: om_ok_def)
qed

section \<open>Creating objects\<close>

definition fresh_object :: "object_manager \<Rightarrow> object_id \<Rightarrow> object_payload \<Rightarrow> object_entry" where
  "fresh_object om i p = \<lparr>oe_id = i, oe_payload = p, oe_generation = om_gen om i, oe_state = Live, oe_handle_count = 0\<rparr>"

definition payload_fresh :: "object_payload \<Rightarrow> bool" where
  "payload_fresh p \<longleftrightarrow> payload_ok p \<and> payload_refs p = {#} \<and> payload_maps p = {#}
     \<and> (\<forall>m. p = PMemoryObject m \<longrightarrow> mo_active_mappings m = 0)
     \<and> (\<forall>a. p = PAddressSpace a \<longrightarrow> pts_next_sequence (as_pending a) = 0)"

lemma payload_for_kind_fresh:
  assumes "payload_for_kind kind = Ok p"
  shows "payload_fresh p" "payload_lease p = None" "payload_kind p = kind"
  using assms as_wf_new
  by (cases kind; auto simp: payload_fresh_def endpoint_wf_def endpoint_refs_def endpoint_bag_def count_where_replicate
      as_refs_def as_new_def pts_empty_def as_mappings_def)+

lemma payload_for_kind_total: "payload_for_kind kind \<noteq> Panic"
  by (cases kind) auto

lemma om_reserve_entry_cases:
  assumes inv: "om_ok C n T M L om" and C: "C \<le> usize_max"
  obtains (ok) i where "om_reserve_entry om = Ok \<lparr>oer_index = unat i, oer_generation = om_gen om i\<rparr>"
      "om_at om i = None" "unat i < C"
  | (full) "om_reserve_entry om = Err NoCapacity" "\<forall>i. unat i < C \<longrightarrow> om_at om i \<noteq> None"
proof -
  note shape = om_okD(3) [OF inv] and cap = om_okD(8) [OF inv]
  show ?thesis
  proof (cases "position (\<lambda>slot. slot = None) (om_entries om)")
    case None
    then have "om_entries om ! unat i \<noteq> None" if "unat i < C" for i :: object_id
      using that shape cap by (simp add: position_eq_None om_shape_def)
    then show ?thesis
      using None by (intro full) (auto simp: om_reserve_entry_def om_at_def cap)
  next
    case (Some k)
    then have k: "k < C" "om_entries om ! k = None"
      using position_SomeD(1,2) [OF Some] shape cap by (auto simp: om_shape_def)
    then have u: "unat (of_nat k :: u64) = k" using C by (simp add: unat_of_nat_u64)
    show ?thesis
      by (rule ok [of "of_nat k"])
        (use Some k u shape cap in \<open>simp_all add: om_reserve_entry_def vec_get_def om_shape_def om_at_def om_gen_def\<close>)
  qed
qed

lemma om_commit_reserved_ok:
  assumes ok: "om_ok C n T M L om" and at: "om_at om i = None" "unat i < C" and p: "payload_fresh p"
  shows "om_commit_reserved \<lparr>oer_index = unat i, oer_generation = om_gen om i\<rparr> p om
      = (Ok (snapshot_of (fresh_object om i p)), om_put om i (fresh_object om i p))"
    and "om_ok C n T M (entry_leases (Some (fresh_object om i p)) \<union> L) (om_put om i (fresh_object om i p))"
    and "om_at (om_put om i (fresh_object om i p)) i = Some (fresh_object om i p)"
proof -
  note shape = om_okD(3) [OF ok] and cap = om_okD(8) [OF ok]
  show "om_commit_reserved \<lparr>oer_index = unat i, oer_generation = om_gen om i\<rparr> p om
      = (Ok (snapshot_of (fresh_object om i p)), om_put om i (fresh_object om i p))"
    using at shape cap
    by (simp add: om_commit_reserved_def vec_get_def om_shape_def om_at_def om_gen_def om_put_def fresh_object_def
        as_u64_def as_usize_def Let_def)
  have "om_gen om i \<in> set (om_generations om)" using at(2) shape cap by (simp add: om_gen_def om_shape_def)
  then have "unat (om_gen om i) + n < 2 ^ 64"
    using om_okD(6) [OF ok] by (simp add: om_margin_def generations_margin_def)
  then have "payload_margin n p" using p by (cases p) (auto simp: payload_fresh_def)
  then show "om_ok C n T M (entry_leases (Some (fresh_object om i p)) \<union> L) (om_put om i (fresh_object om i p))"
    by (intro om_ok_insert [OF ok at]) (use p in \<open>simp_all add: fresh_object_def payload_fresh_def\<close>)
  show "om_at (om_put om i (fresh_object om i p)) i = Some (fresh_object om i p)"
    using om_at_put [OF shape] at(2) cap by simp
qed

section \<open>Channel endpoints\<close>

lemma om_channel_peer_spec:
  assumes ok: "om_ok C n T M L om"
  shows "om_channel_peer om i g \<noteq> Panic"
    and "om_channel_peer om i g = Ok s \<Longrightarrow> names om (sn_id s, sn_generation s, KindChannelEndpoint)"
proof -
  have "om_channel_peer om i g \<noteq> Panic
    \<and> (\<forall>s. om_channel_peer om i g = Ok s \<longrightarrow> names om (sn_id s, sn_generation s, KindChannelEndpoint))"
  proof (cases rule: om_live_payload_cases [OF ok, of i g])
    case (1 e)
    show ?thesis
    proof (cases "oe_payload e" rule: as_channel_cases)
      case (channel c)
      have "om_validate om j h k \<noteq> Panic
          \<and> (om_validate om j h k = Ok s \<longrightarrow> names om (sn_id s, sn_generation s, k))" for j h k s
        using om_ok_at(1) [OF ok]
        by (cases rule: om_validate_cases [OF ok, of j h k]) (auto simp: snapshot_of_def names_iff)
      then show ?thesis
        using 1 channel by (cases "ce_peer c") (auto simp: om_channel_peer_def om_channel_endpoint_def)
    next
      case other
      then show ?thesis using 1 by (simp add: om_channel_peer_def om_channel_endpoint_def)
    qed
  next
    case (2 err)
    then show ?thesis by (simp add: om_channel_peer_def om_channel_endpoint_def)
  qed
  then show "om_channel_peer om i g \<noteq> Panic"
    and "om_channel_peer om i g = Ok s \<Longrightarrow> names om (sn_id s, sn_generation s, KindChannelEndpoint)" by blast+
qed

lemma om_ensure_channel_can_enqueue_total:
  assumes ok: "om_ok C n T M L om"
  shows "om_ensure_channel_can_enqueue om i g \<noteq> Panic"
proof (cases rule: om_live_payload_cases [OF ok, of i g])
  case (1 e)
  then show ?thesis
    by (cases "oe_payload e" rule: as_channel_cases)
      (auto simp: om_ensure_channel_can_enqueue_def om_channel_endpoint_def endpoint_ensure_can_enqueue_def)
qed (simp add: om_ensure_channel_can_enqueue_def om_channel_endpoint_def)

lemma endpoint_refs_bag:
  "endpoint_bag c' = add_mset m (endpoint_bag c) \<Longrightarrow> endpoint_refs c' = message_refs m + endpoint_refs c"
  by (simp add: endpoint_refs_def)

lemma om_enqueue_channel_message_ok:
  assumes ok: "om_ok C n (message_refs m + T) M L om" and m: "message_wf m"
  shows "after (\<lambda>_ om'. om_ok C n T M L om') (\<lambda>_ om'. om' = om) (om_enqueue_channel_message i g m om)"
    and "om_ensure_channel_can_enqueue om i g = Ok () \<Longrightarrow> \<exists>om'. om_enqueue_channel_message i g m om = (Ok (), om')"
proof -
  have "after (\<lambda>_ om'. om_ok C n T M L om') (\<lambda>_ om'. om' = om) (om_enqueue_channel_message i g m om)
    \<and> (om_ensure_channel_can_enqueue om i g = Ok () \<longrightarrow> (\<exists>om'. om_enqueue_channel_message i g m om = (Ok (), om')))"
  proof (cases rule: om_live_payload_cases [OF ok, of i g])
    case (1 e)
    show ?thesis
    proof (cases "oe_payload e" rule: as_channel_cases)
      case (channel c)
      then have wf: "endpoint_wf c" using om_ok_at(4) [OF ok 1(1)] by simp
      show ?thesis
      proof (cases rule: endpoint_enqueue_cases [OF wf m])
        case (1 c')
        have "om_ok C n T M L (om_put_payload om i (PChannelEndpoint c'))"
          by (rule om_ok_put_same_maps [OF ok \<open>om_at om i = Some e\<close>])
            (use channel 1(2) endpoint_refs_bag [OF 1(3)] in \<open>simp_all add: ac_simps\<close>)
        then show ?thesis
          using 1(1) channel \<open>om_live_payload om i g = Ok (oe_payload e)\<close> by (simp add: om_enqueue_channel_message_def)
      next
        case 2
        then show ?thesis using \<open>om_live_payload om i g = Ok (oe_payload e)\<close> channel
          by (simp add: om_enqueue_channel_message_def om_ensure_channel_can_enqueue_def om_channel_endpoint_def
              endpoint_ensure_can_enqueue_def)
      next
        case 3
        then show ?thesis using \<open>om_live_payload om i g = Ok (oe_payload e)\<close> channel
          by (simp add: om_enqueue_channel_message_def om_ensure_channel_can_enqueue_def om_channel_endpoint_def
              endpoint_ensure_can_enqueue_def)
      qed
    next
      case other
      then show ?thesis
        using 1 by (simp add: om_enqueue_channel_message_def om_ensure_channel_can_enqueue_def om_channel_endpoint_def)
    qed
  next
    case (2 err)
    then show ?thesis
      by (simp add: om_enqueue_channel_message_def om_ensure_channel_can_enqueue_def om_channel_endpoint_def)
  qed
  then show "after (\<lambda>_ om'. om_ok C n T M L om') (\<lambda>_ om'. om' = om) (om_enqueue_channel_message i g m om)"
    and "om_ensure_channel_can_enqueue om i g = Ok () \<Longrightarrow> \<exists>om'. om_enqueue_channel_message i g m om = (Ok (), om')"
    by blast+
qed

lemma om_dequeue_channel_message_cases:
  assumes inv: "om_ok C n T M L om"
  obtains (ok) m om' where "om_dequeue_channel_message i g om = (Ok m, om')" "om_ok C n (message_refs m + T) M L om'"
      "message_wf m" "om_next_channel_message_handle_count om i g = Ok (cm_handle_count m)"
  | (err) err where "om_dequeue_channel_message i g om = (Err err, om)"
      "om_next_channel_message_handle_count om i g = Err err"
proof (cases rule: om_live_payload_cases [OF inv, of i g])
  case (1 e)
  show ?thesis
  proof (cases "oe_payload e" rule: as_channel_cases)
    case (channel c)
    note live = 1
    have wf: "endpoint_wf c" using om_ok_at(4) [OF inv 1(1)] channel by simp
    show ?thesis
    proof (cases rule: endpoint_dequeue_cases [OF wf])
      case (1 m c')
      have "om_ok C n (message_refs m + T) M L (om_put_payload om i (PChannelEndpoint c'))"
        by (rule om_ok_put_same_maps [OF inv live(1)])
          (use channel 1(2) endpoint_refs_bag [OF 1(4)] in \<open>simp_all add: ac_simps\<close>)
      then show ?thesis
        using 1 channel live(3)
        by (intro ok) (simp_all add: om_dequeue_channel_message_def om_next_channel_message_handle_count_def om_channel_endpoint_def)
    qed (use channel live(3) in \<open>auto intro!: err simp: om_dequeue_channel_message_def
        om_next_channel_message_handle_count_def om_channel_endpoint_def\<close>)
  next
    case other
    then show ?thesis
      using 1 by (intro err) (simp_all add: om_dequeue_channel_message_def om_next_channel_message_handle_count_def om_channel_endpoint_def)
  qed
next
  case (2 e)
  then show ?thesis
    by (intro err) (simp_all add: om_dequeue_channel_message_def om_next_channel_message_handle_count_def om_channel_endpoint_def)
qed

section \<open>Mappings\<close>

lemma names_memory_iff:
  "names_memory om r \<longleftrightarrow> (\<exists>e m. om_at om (or_id r) = Some e \<and> oe_generation e = or_generation r \<and> oe_payload e = PMemoryObject m)"
  by (auto simp: names_memory_def names_iff kind_memory)

lemma om_add_memory_mapping_ok:
  assumes ok: "om_ok C n T M L om"
  shows "after (\<lambda>_ om'. om_ok C n T (add_mset r M) L om' \<and> om_remove_memory_mapping (or_id r) (or_generation r) om' = (Ok (), om))
    (\<lambda>_ om'. om' = om) (om_add_memory_mapping (or_id r) (or_generation r) om)"
proof (cases rule: om_live_payload_cases [OF ok, of "or_id r" "or_generation r"])
  case (1 e)
  show ?thesis
  proof (cases "oe_payload e" rule: as_payload_cases)
    case (memory m)
    let ?p = "PMemoryObject (m\<lparr>mo_active_mappings := Suc (mo_active_mappings m)\<rparr>)"
    have ok': "om_ok C n T (add_mset r M) L (om_put_payload om (or_id r) ?p)"
      by (rule om_ok_put_payload [OF ok 1(1), where MA = "{#r#}" and MD = "{#}"])
        (use memory om_ok_at(4) [OF ok 1(1)] 1(2) in \<open>auto simp: memory_ok_def\<close>)
    have at: "om_at (om_put_payload om (or_id r) ?p) (or_id r) = Some (e\<lparr>oe_payload := ?p\<rparr>)"
      using om_at_put [OF om_okD(3) [OF ok] om_at_bound [OF 1(1)]] by (simp add: om_put_payload_eq [OF 1(1)])
    have "om_put_payload om (or_id r) (PMemoryObject m) = om"
      using om_put_payload_same [OF 1(1)] memory by simp
    then have "om_remove_memory_mapping (or_id r) (or_generation r) (om_put_payload om (or_id r) ?p) = (Ok (), om)"
      using om_entry_at(3) [OF ok' at] 1(2)
      by (simp add: om_remove_memory_mapping_def remove_mapping_def om_put_payload_twice [OF 1(1) om_okD(3) [OF ok]])
    with ok' show ?thesis
      using 1(3) memory by (auto simp: om_add_memory_mapping_def add_mapping_def usize_checked_add_def)
  next
    case other
    then show ?thesis using 1(3) by (simp add: om_add_memory_mapping_def)
  qed
qed (simp add: om_add_memory_mapping_def)

lemma om_remove_memory_mapping_ok:
  assumes ok: "om_ok C n T (add_mset r M) L om"
  obtains om' e where "om_remove_memory_mapping (or_id r) (or_generation r) om = (Ok (), om')" "om_ok C n T M L om'"
    "om_at om' (or_id r) = Some e" "oe_generation e = or_generation r"
proof -
  have "names_memory om r" by (rule om_ok_names(3) [OF ok]) simp
  then obtain e m where at: "om_at om (or_id r) = Some e" and g: "oe_generation e = or_generation r"
    and m: "oe_payload e = PMemoryObject m" by (auto simp: names_memory_iff)
  have "mo_active_mappings m = count (add_mset r M + om_maps om) \<lparr>or_id = or_id r, or_generation = oe_generation e\<rparr>"
    using om_okD(5) [OF ok] at m unfolding maps_ok_def by blast
  then have pos: "0 < mo_active_mappings m" using g by simp
  let ?p = "PMemoryObject (m\<lparr>mo_active_mappings := mo_active_mappings m - 1\<rparr>)"
  have "om_remove_memory_mapping (or_id r) (or_generation r) om = (Ok (), om_put_payload om (or_id r) ?p)"
    using om_entry_at(3) [OF ok at] g m pos by (simp add: om_remove_memory_mapping_def remove_mapping_def)
  moreover have "om_ok C n T M L (om_put_payload om (or_id r) ?p)"
    by (rule om_ok_put_payload [OF ok at, where MA = "{#}" and MD = "{#r#}"])
      (use m om_ok_at(4) [OF ok at] g pos in \<open>auto simp: memory_ok_def\<close>)
  moreover have "om_at (om_put_payload om (or_id r) ?p) (or_id r) = Some (e\<lparr>oe_payload := ?p\<rparr>)"
    using om_at_put [OF om_okD(3) [OF ok] om_at_bound [OF at]] by (simp add: om_put_payload_eq [OF at])
  ultimately show ?thesis by (rule that) (simp add: g)
qed

lemma as_refs_map:
  assumes "i < length (rs_mappings (as_range_set a))" and "rs_mappings (as_range_set a) ! i = None"
    and "rs_mappings (as_range_set a') = (rs_mappings (as_range_set a))[i := Some m]" and "as_pending a' = as_pending a"
  shows "as_refs a' = add_mset (vm_memory m) (as_refs a)"
  using assms(3,4) mset_live_fill [OF assms(1,2), of m] by (simp add: as_refs_def as_mappings_def)

lemma as_refs_unmap:
  assumes "unmap_slots a m a'"
  shows "as_refs a' = as_refs a"
proof -
  obtain i j x where i: "i < length (rs_mappings (as_range_set a))" "rs_mappings (as_range_set a) ! i = Some m"
    and rs: "rs_mappings (as_range_set a') = (rs_mappings (as_range_set a))[i := None]"
    and j: "j < length (pts_work (as_pending a))" "pts_work (as_pending a) ! j = None"
    and ps: "pts_work (as_pending a') = (pts_work (as_pending a))[j := Some x]" "pti_deferred_reclaim x = vm_memory m"
    using assms by (auto simp: unmap_slots_def)
  show ?thesis
    using mset_live_clear [OF i] mset_live_fill [OF j, of x] rs ps by (simp add: as_refs_def as_mappings_def)
qed

lemma as_refs_take:
  assumes "as_range_set a' = as_range_set a" and "i < length (pts_work (as_pending a))"
    and "pts_work (as_pending a) ! i = Some x" and "pts_work (as_pending a') = (pts_work (as_pending a))[i := None]"
  shows "as_refs a = add_mset (pti_deferred_reclaim x) (as_refs a')"
  using mset_live_clear [OF assms(2,3)] assms(1,4) by (simp add: as_refs_def as_mappings_def)

lemma om_map_into_address_space_ok:
  assumes ok: "om_ok C n T (add_mset memory M) L om" and m: "memory_ok m"
  shows "after (\<lambda>_ om'. om_ok C n T M L om') (\<lambda>_ om'. om' = om) (om_map_into_address_space space memory m d om)"
proof (cases rule: om_live_payload_cases [OF ok, of "or_id space" "or_generation space"])
  case (1 e)
  note live = 1
  show ?thesis
  proof (cases "oe_payload e" rule: as_address_space_cases)
    case (space a)
    have wf: "as_wf a" using om_ok_at(4) [OF ok live(1)] space by simp
    show ?thesis
    proof (cases rule: prepare_map_cases [OF wf m, of memory d])
      case (1 i)
      from map_commit_ok [OF wf 1(2-4)] obtain a' where
        commit: "map_reservation_commit \<lparr>vmr_index = i, vmr_mapping = mapping_of memory d, vmr_page_table = map_intent m d\<rparr> a
          = (Ok a' :: address_space_object kernel_result)"
        and a': "as_wf a'" "as_pending a' = as_pending a"
          "rs_mappings (as_range_set a') = (rs_mappings (as_range_set a))[i := Some (mapping_of memory d)]" by blast
      have il: "i < length (rs_mappings (as_range_set a))" using 1(3) wf by (simp add: as_wf_def rs_wf_def)
      have "om_ok C n T M L (om_put_payload om (or_id space) (PAddressSpace a'))"
        by (rule om_ok_put_same_maps [OF ok live(1)])
          (use space a' as_refs_map [OF il 1(4) a'(3,2)] om_ok_at(5) [OF ok live(1)] in simp_all)
      then show ?thesis
        using live(3) space 1(1) commit by (simp add: om_map_into_address_space_def)
    next
      case (2 e)
      then show ?thesis using live(3) space by (simp add: om_map_into_address_space_def)
    qed
  next
    case other
    then show ?thesis using 1(3) by (simp add: om_map_into_address_space_def)
  qed
qed (simp add: om_map_into_address_space_def)

lemma om_map_memory_object_ok:
  assumes ok: "om_ok C n T M L om"
  shows "after (\<lambda>_ om'. om_ok C n T M L om') (\<lambda>_ om'. om' = om)
    (om_map_memory_object space memory base size_bytes memory_offset rights om)"
proof (cases rule: om_live_payload_cases [OF ok, of "or_id memory" "or_generation memory"])
  case (1 e)
  show ?thesis
  proof (cases "oe_payload e" rule: as_payload_cases)
    case (memory m)
    have m: "memory_ok m" using om_ok_at(4) [OF ok 1(1)] memory by simp
    have mo: "om_memory_object om (or_id memory) (or_generation memory) = Ok m"
      using 1(3) memory by (simp add: om_memory_object_def)
    show ?thesis
    proof (cases "om_add_memory_mapping (or_id memory) (or_generation memory) om" rule: step_cases)
      case (Ok u om1)
      then have ok1: "om_ok C n T (add_mset memory M) L om1"
        and undo: "om_remove_memory_mapping (or_id memory) (or_generation memory) om1 = (Ok (), om)"
        using om_add_memory_mapping_ok [OF ok, of memory] by simp_all
      let ?d = "\<lparr>vd_base = base, vd_size_bytes = size_bytes, vd_memory_offset = memory_offset, vd_rights = rights\<rparr>"
      note map = om_map_into_address_space_ok [OF ok1 m, of space ?d]
      show ?thesis
        using map mo Ok undo by (cases "om_map_into_address_space space memory m ?d om1" rule: step_cases)
          (simp_all add: om_map_memory_object_def Let_def)
    qed (use om_add_memory_mapping_ok [OF ok, of memory] mo ok in \<open>simp_all add: om_map_memory_object_def Let_def\<close>)
  next
    case other
    then show ?thesis using 1(3) ok by (simp add: om_map_memory_object_def om_memory_object_def)
  qed
qed (use ok in \<open>simp add: om_map_memory_object_def om_memory_object_def\<close>)

lemma om_unmap_address_range_ok:
  assumes ok: "om_ok C (Suc n) T M L om"
  shows "after (\<lambda>_ om'. om_ok C n T M L om') (\<lambda>_ om'. om' = om) (om_unmap_address_range space base size_bytes om)"
proof (cases rule: om_live_payload_cases [OF ok, of "or_id space" "or_generation space"])
  case (1 e)
  note live = 1
  show ?thesis
  proof (cases "oe_payload e" rule: as_address_space_cases)
    case (space a)
    have wf: "as_wf a" and head: "unat (pts_next_sequence (as_pending a)) + Suc n < 2 ^ 64"
      using om_ok_at(4,5) [OF ok live(1)] space by simp_all
    show ?thesis
    proof (cases rule: prepare_unmap_cases [OF wf, of base size_bytes])
      case (1 r m)
      have "as_headroom a" using head by (simp add: as_headroom_def)
      with 1(7) obtain a' where commit: "unmap_reservation_commit r a = (Ok a' :: address_space_object kernel_result)"
        and a': "as_wf a'" "pts_next_sequence (as_pending a') = pts_next_sequence (as_pending a) + 1" "unmap_slots a m a'"
        by blast
      have "payload_margin n (PAddressSpace a')" using a'(2) head by (simp add: unat_word_ariths)
      then have "om_ok C n T M L (om_put_payload om (or_id space) (PAddressSpace a'))"
        by (intro om_ok_put_same_maps [OF om_ok_mono [OF ok] live(1)])
          (use space a' as_refs_unmap [OF a'(3)] in simp_all)
      then show ?thesis
        using live(3) space 1(1) commit by (simp add: om_unmap_address_range_def)
    qed (use live(3) space in \<open>simp_all add: om_unmap_address_range_def\<close>)
  next
    case other
    then show ?thesis using 1(3) by (simp add: om_unmap_address_range_def)
  qed
qed (simp add: om_unmap_address_range_def)

section \<open>Reclaiming memory\<close>

definition fa_ok :: "nat \<Rightarrow> (frame_owner \<times> memory_frame_range) set \<Rightarrow> frame_allocator \<Rightarrow> bool" where
  "fa_ok n L fa \<longleftrightarrow> fa_wf fa \<and> frames.leased fa L \<and> generations_margin n (fa_generations fa)"

lemma fa_ok_mono: "fa_ok n L fa \<Longrightarrow> m \<le> n \<Longrightarrow> fa_ok m L fa"
  using generations_margin_mono by (auto simp: fa_ok_def)

lemma fa_release_ok:
  assumes ok: "fa_ok (Suc n) L fa" and own: "(owner, r) \<in> L" and only: "\<And>r'. (owner, r') \<in> L \<Longrightarrow> r' = r"
  obtains fa' where "fa_free_range r owner fa = (Ok (), fa')" "fa_ok n (L - {(owner, r)}) fa'"
    "fa_view fa' = view_set (fa_view fa) r Free"
proof -
  have wf: "fa_wf fa" and leased: "frames.leased fa L" and gen: "generations_margin (Suc n) (fa_generations fa)"
    using ok by (simp_all add: fa_ok_def)
  have head: "fa_headroom fa"
    using gen by (auto simp: fa_headroom_def list_all_iff generations_margin_def)
  obtain fa' where fa': "fa_free_range r owner fa = (Ok (), fa')" "fa_wf fa'" "frames.leased fa' (L - {(owner, r)})"
    "fa_view fa' = view_set (fa_view fa) r Free"
    using frames.release_leased [OF wf head leased own only] by blast
  have "mfr_ok r" using leased own by (auto simp: frames.leased_def)
  then have "fa' = fa_release r fa"
    using fa'(1) fa_free_range_spec [OF wf head, of r owner] by (simp split: if_splits)
  then have "generations_margin n (fa_generations fa')"
    using gen by (auto simp: generations_margin_def fa_generations_def fa_release_def released_entry_def unat_word_ariths)
  with fa' that show ?thesis by (simp add: fa_ok_def)
qed

lemma om_lease_unique:
  assumes ok: "om_ok C n T M L om" and at: "om_at om i = Some e"
  shows "(OwnerMemoryObject i (oe_generation e), r) \<in> L \<longleftrightarrow> payload_lease (oe_payload e) = Some r"
  using om_okD(7) [OF ok] om_wf_at(1,2) [OF om_okD(2) [OF ok]] at
  by (force simp: om_leases_def entry_leases_def)

text \<open>A memory object without handles and mappings is destroyed and its frames are freed; any other object
  is left alone.\<close>

lemma om_reclaim_last:
  assumes om: "om_ok C (Suc n) T M L om" and fa: "fa_ok (Suc n) L fa" and at: "om_at om i = Some e"
    and m: "oe_payload e = PMemoryObject m" "oe_handle_count e = 0" "can_reclaim m"
  obtains fa' where "om_reclaim_memory_object_if_unreferenced i (oe_generation e) (om, fa) = (Ok (), (om_clear om i, fa'))"
    "om_ok C n T M (L - entry_leases (Some e)) (om_clear om i)" "fa_ok n (L - entry_leases (Some e)) fa'"
    "fa_view fa' = view_set (fa_view fa) (mo_frame_range m) Free"
proof -
  let ?owner = "OwnerMemoryObject i (oe_generation e)"
  have id: "oe_id e = i" "oe_generation e = om_gen om i" using om_ok_at [OF om at] by simp_all
  obtain fa' where fa': "fa_free_range (mo_frame_range m) ?owner fa = (Ok (), fa')"
    "fa_ok n (L - {(?owner, mo_frame_range m)}) fa'" "fa_view fa' = view_set (fa_view fa) (mo_frame_range m) Free"
    by (rule fa_release_ok [OF fa]) (use om_lease_unique [OF om at] m(1) in auto)
  have clear: "om_ok C n T M (L - entry_leases (Some e)) (om_clear om i)"
    "om_remove_slot (unat i) (om_gen om i) om = (Ok (), om_clear om i)"
    using om_ok_clear [OF om at] m by (auto simp: can_reclaim_def)
  have lease: "entry_leases (Some e) = {(?owner, mo_frame_range m)}"
    using m(1) id by (auto simp: entry_leases_def)
  have "om_destroy_memory_object i (oe_generation e) om = (Ok (), om_clear om i)"
    using om_slot [OF om at] m clear(2)
    by (simp add: om_destroy_memory_object_def om_index_eq vec_get_def id(2))
  then have "om_reclaim_memory_object_if_unreferenced i (oe_generation e) (om, fa) = (Ok (), (om_clear om i, fa'))"
    using om_entry_at(1) [OF om at] m fa'(1)
    by (simp add: om_reclaim_memory_object_if_unreferenced_def assert_that_def)
  from that [OF this clear(1)] fa'(2,3) show ?thesis by (simp add: lease)
qed

lemma om_reclaim_kept:
  assumes om: "om_ok C n T M L om" and at: "om_at om i = Some e"
    and "\<not> (\<exists>m. oe_payload e = PMemoryObject m \<and> oe_handle_count e = 0 \<and> can_reclaim m)"
  shows "om_reclaim_memory_object_if_unreferenced i (oe_generation e) (om, fa) = (Ok (), (om, fa))"
  using om_entry_at(1) [OF om at] assms(3)
  by (cases "oe_payload e") (simp_all add: om_reclaim_memory_object_if_unreferenced_def assert_that_def)

lemma om_reclaim_ok:
  assumes om: "om_ok C (Suc n) T M L om" and fa: "fa_ok (Suc n) L fa" and at: "om_at om i = Some e"
  shows "after (\<lambda>_ (om', fa'). \<exists>L'. om_ok C n T M L' om' \<and> fa_ok n L' fa') (\<lambda>_ _. False)
    (om_reclaim_memory_object_if_unreferenced i (oe_generation e) (om, fa))"
proof (cases "\<exists>m. oe_payload e = PMemoryObject m \<and> oe_handle_count e = 0 \<and> can_reclaim m")
  case True
  then obtain m where m: "oe_payload e = PMemoryObject m" "oe_handle_count e = 0" "can_reclaim m" by blast
  show ?thesis by (rule om_reclaim_last [OF om fa at m]) auto
next
  case False
  then show ?thesis
    using om_reclaim_kept [OF om at False] om_ok_mono [OF om, of n] fa_ok_mono [OF fa, of n] by auto
qed

lemma om_take_address_space_tlb_invalidation_ok:
  assumes om: "om_ok C (Suc n) T M L om" and fa: "fa_ok (Suc n) L fa"
  shows "after (\<lambda>_ (om', fa'). \<exists>L'. om_ok C n T M L' om' \<and> fa_ok n L' fa')
    (\<lambda>_ s. s = (om, fa))
    (om_take_address_space_tlb_invalidation space (om, fa))"
proof (cases rule: om_live_payload_cases [OF om, of "or_id space" "or_generation space"])
  case (1 e)
  note live = 1
  show ?thesis
  proof (cases "oe_payload e" rule: as_address_space_cases)
    case (space a)
    have wf: "as_wf a" using om_ok_at(4) [OF om live(1)] space by simp
    show ?thesis
    proof (cases rule: take_pending_cases [OF wf])
      case 1
      have "om_put_payload om (or_id space) (PAddressSpace a) = om"
        using om_put_payload_same [OF live(1)] space by simp
      then show ?thesis
        using live(3) space 1(1) by (simp add: om_take_address_space_tlb_invalidation_def Let_def)
    next
      case (2 x a')
      let ?om = "om_put_payload om (or_id space) (PAddressSpace a')" and ?r = "pti_deferred_reclaim x"
      from 2(6) obtain i where "as_refs a = add_mset ?r (as_refs a')"
        using as_refs_take [OF 2(4)] by blast
      then have om1: "om_ok C (Suc n) T (add_mset ?r M) L ?om"
        by (intro om_ok_put_same_maps [OF om live(1)])
          (use space 2(3,5) om_ok_at(5) [OF om live(1)] in simp_all)
      obtain om2 d where rm: "om_remove_memory_mapping (or_id ?r) (or_generation ?r) ?om = (Ok (), om2)"
        and om2: "om_ok C (Suc n) T M L om2"
        and d: "om_at om2 (or_id ?r) = Some d" "oe_generation d = or_generation ?r"
        by (rule om_remove_memory_mapping_ok [OF om1])
      have "after (\<lambda>_ (om', fa'). \<exists>L'. om_ok C n T M L' om' \<and> fa_ok n L' fa') (\<lambda>_ _. False)
          (om_reclaim_memory_object_if_unreferenced (or_id ?r) (or_generation ?r) (om2, fa))"
        using om_reclaim_ok [OF om2 fa d(1)] by (simp only: d(2))
      moreover have "om_take_address_space_tlb_invalidation space (om, fa)
          = sbind (om_reclaim_memory_object_if_unreferenced (or_id ?r) (or_generation ?r) (om2, fa))
              (\<lambda>_ s. (Ok (pti_intent x), s))"
        using live(3) space 2(1) rm by (simp add: om_take_address_space_tlb_invalidation_def Let_def work_of_def)
      ultimately show ?thesis by (simp only: after_simps after.simps) (erule after_mono, simp_all)
    qed
  next
    case other
    then show ?thesis using 1(3) by (simp add: om_take_address_space_tlb_invalidation_def)
  qed
qed (simp add: om_take_address_space_tlb_invalidation_def)

section \<open>Channel pairs\<close>

lemma om_create_payload_cases:
  assumes inv: "om_ok C n T M L om" and C: "C \<le> usize_max" and p: "payload_fresh p" "payload_lease p = None"
  obtains (ok) i om' where "om_create_payload p om = (Ok (snapshot_of (fresh_object om i p)), om')"
      "om_ok C n T M L om'" "om_at om i = None" "om_at om' = (om_at om)(i \<mapsto> fresh_object om i p)"
  | (full) "om_create_payload p om = (Err NoCapacity, om)"
proof (cases rule: om_reserve_entry_cases [OF inv C])
  case (1 i)
  note commit = om_commit_reserved_ok [OF inv 1(2,3) p(1)]
  have "entry_leases (Some (fresh_object om i p)) = {}"
    using p(2) by (simp add: entry_leases_def fresh_object_def)
  then show ?thesis
    using ok 1 commit om_at_put [OF om_okD(3) [OF inv]] om_okD(8) [OF inv] by (simp add: om_create_payload_def)
next
  case 2
  then show ?thesis using full by (simp add: om_create_payload_def)
qed

lemma om_destroy_idle_endpoint:
  assumes ok: "om_ok C (Suc n) T M L om" and at: "om_at om i = Some e"
    and e: "oe_payload e = PChannelEndpoint c" "ce_queued_messages c = 0" "ce_peer c = None" "oe_handle_count e = 0"
  shows "om_destroy i (oe_generation e) om = (Ok (), om_clear om i)" and "om_ok C n T M L (om_clear om i)"
proof -
  have "endpoint_wf c" using om_ok_at(4) [OF ok at] e(1) by simp
  then have "length (live (ce_messages c)) = 0" using e(2) unfolding length_live by (simp add: endpoint_wf_def)
  then have "endpoint_bag c = {#}" by (simp add: endpoint_bag_def)
  then have "payload_refs (oe_payload e) = {#}" using e(1) by (simp add: endpoint_refs_def)
  then have clear: "om_ok C n T M (L - entry_leases (Some e)) (om_clear om i)"
    "om_remove_slot (unat i) (om_gen om i) om = (Ok (), om_clear om i)"
    using om_ok_clear [OF ok at e(4)] e(1) by simp_all
  have "entry_leases (Some e) = {}" using e(1) by (simp add: entry_leases_def)
  with clear(1) show "om_ok C n T M L (om_clear om i)" by simp
  show "om_destroy i (oe_generation e) om = (Ok (), om_clear om i)"
    using om_slot [OF ok at] e clear(2) om_ok_at(2) [OF ok at]
    by (simp add: om_destroy_def om_index_eq vec_get_def om_mark_peer_closed_def)
qed

lemma om_set_peer_ok:
  assumes ok: "om_ok C n T M L om" and at: "om_at om i = Some e" and e: "oe_payload e = PChannelEndpoint c"
    and s: "sn_id s = i" "sn_generation s = oe_generation e"
  obtains om' where "om_set_peer s s' om = (Ok (), om')" "om_ok C n T M L om'"
    "om_at om' = (om_at om)(i \<mapsto> e\<lparr>oe_payload := PChannelEndpoint (c\<lparr>ce_peer := Some
        \<lparr>or_id = sn_id s', or_generation = sn_generation s'\<rparr>\<rparr>)\<rparr>)"
proof -
  let ?c = "c\<lparr>ce_peer := Some \<lparr>or_id = sn_id s', or_generation = sn_generation s'\<rparr>\<rparr>"
  have "om_set_peer s s' om = (Ok (), om_put_payload om i (PChannelEndpoint ?c))"
    using om_entry_at(3) [OF ok at] e s by (simp add: om_set_peer_def)
  moreover have "om_ok C n T M L (om_put_payload om i (PChannelEndpoint ?c))"
    by (rule om_ok_put_same_maps [OF ok at])
      (use e om_ok_at(4) [OF ok at] in \<open>simp_all add: endpoint_refs_def endpoint_bag_def endpoint_wf_def\<close>)
  moreover have "om_at (om_put_payload om i (PChannelEndpoint ?c)) = (om_at om)(i \<mapsto> e\<lparr>oe_payload := PChannelEndpoint ?c\<rparr>)"
    unfolding om_put_payload_eq [OF at] by (rule om_at_put [OF om_okD(3) [OF ok] om_at_bound [OF at]])
  ultimately show ?thesis by (rule that)
qed

text \<open>Two free slots become endpoints that are each other's peer.\<close>

definition linked_endpoint :: "channel_endpoint_object \<Rightarrow> object_snapshot \<Rightarrow> object_payload" where
  "linked_endpoint c s = PChannelEndpoint (c\<lparr>ce_peer := Some \<lparr>or_id = sn_id s, or_generation = sn_generation s\<rparr>\<rparr>)"

definition linked_pair :: "object_manager \<Rightarrow> object_manager \<Rightarrow> channel_endpoint_object \<Rightarrow> object_snapshot \<Rightarrow> object_snapshot \<Rightarrow> bool" where
  "linked_pair om om' c s1 s2 \<longleftrightarrow> om_at om (sn_id s1) = None \<and> om_at om (sn_id s2) = None \<and> sn_id s1 \<noteq> sn_id s2
     \<and> (\<exists>e1 e2. om_at om' = (om_at om)(sn_id s1 \<mapsto> e1, sn_id s2 \<mapsto> e2)
        \<and> oe_generation e1 = sn_generation s1 \<and> oe_payload e1 = linked_endpoint c s2
        \<and> oe_generation e2 = sn_generation s2 \<and> oe_payload e2 = linked_endpoint c s1)"

lemma om_create_channel_pair_ok:
  assumes ok: "om_ok C (Suc n) T M L om" and C: "C \<le> usize_max"
  shows "after (\<lambda>(s1, s2) om'. om_ok C n T M L om'
      \<and> names om' (sn_id s1, sn_generation s1, KindChannelEndpoint) \<and> snapshot_kind s1 = KindChannelEndpoint
      \<and> names om' (sn_id s2, sn_generation s2, KindChannelEndpoint) \<and> snapshot_kind s2 = KindChannelEndpoint
      \<and> (\<exists>c. endpoint_bag c = {#} \<and> linked_pair om om' c s1 s2))
    (\<lambda>_ om'. om_ok C n T M L om' \<and> om_at om' = om_at om) (om_create_channel_pair max_messages om)"
proof (cases "endpoint_new max_messages")
  case (Ok c)
  then have c: "endpoint_wf c" "endpoint_bag c = {#}" "ce_queued_messages c = 0" "ce_peer c = None"
    using endpoint_new_wf [OF Ok] by (auto simp: endpoint_new_def split: if_splits)
  have fresh: "payload_fresh (PChannelEndpoint c)" "payload_lease (PChannelEndpoint c) = None"
    using c by (simp_all add: payload_fresh_def endpoint_refs_def)
  have create: "om_create_channel_endpoint max_messages om = om_create_payload (PChannelEndpoint c) om" for om
    using Ok by (simp add: om_create_channel_endpoint_def)
  show ?thesis
  proof (cases rule: om_create_payload_cases [OF ok C fresh])
    case (1 i om1)
    note one = 1
    let ?e1 = "fresh_object om i (PChannelEndpoint c)"
    have at1: "om_at om1 i = Some ?e1" using 1(4) by simp
    show ?thesis
    proof (cases rule: om_create_payload_cases [OF 1(2) C fresh])
      case (1 j om2)
      note two = 1
      let ?e2 = "fresh_object om1 j (PChannelEndpoint c)"
      let ?s1 = "snapshot_of ?e1" and ?s2 = "snapshot_of ?e2"
      have ij: "i \<noteq> j" using two(3) at1 by auto
      have at2: "om_at om2 i = Some ?e1" "om_at om2 j = Some ?e2" using two(4) at1 ij by simp_all
      obtain om3 where om3: "om_set_peer ?s1 ?s2 om2 = (Ok (), om3)" "om_ok C (Suc n) T M L om3"
        and om3_at: "om_at om3 = (om_at om2)(i \<mapsto> ?e1\<lparr>oe_payload := PChannelEndpoint (c\<lparr>ce_peer := Some
          \<lparr>or_id = sn_id ?s2, or_generation = sn_generation ?s2\<rparr>\<rparr>)\<rparr>)"
        by (rule om_set_peer_ok [OF two(2) at2(1), where c = c and s = ?s1 and s' = ?s2])
            (simp_all add: fresh_object_def snapshot_of_def)
      have "om_at om3 j = Some ?e2" using om3_at at2 ij by simp
      then obtain om4 where om4: "om_set_peer ?s2 ?s1 om3 = (Ok (), om4)" "om_ok C (Suc n) T M L om4"
        and om4_at: "om_at om4 = (om_at om3)(j \<mapsto> ?e2\<lparr>oe_payload := PChannelEndpoint (c\<lparr>ce_peer := Some
          \<lparr>or_id = sn_id ?s1, or_generation = sn_generation ?s1\<rparr>\<rparr>)\<rparr>)"
        by (rule om_set_peer_ok [OF om3(2), where c = c and s = ?s2 and s' = ?s1])
            (simp_all add: fresh_object_def snapshot_of_def)
      have at4: "om_at om4 i = Some (?e1\<lparr>oe_payload := PChannelEndpoint (c\<lparr>ce_peer := Some
          \<lparr>or_id = sn_id ?s2, or_generation = sn_generation ?s2\<rparr>\<rparr>)\<rparr>)"
        "om_at om4 j = Some (?e2\<lparr>oe_payload := PChannelEndpoint (c\<lparr>ce_peer := Some
          \<lparr>or_id = sn_id ?s1, or_generation = sn_generation ?s1\<rparr>\<rparr>)\<rparr>)"
        using om4_at om3_at at2 ij by simp_all
      have "om_entry om4 i = Ok (the (om_at om4 i))" "om_entry om4 j = Ok (the (om_at om4 j))"
        using om_entry_at(1) [OF om4(2)] at4 by simp_all
      then have "om_create_channel_pair max_messages om
          = (Ok (snapshot_of (the (om_at om4 i)), snapshot_of (the (om_at om4 j))), om4)"
        using one(1) two(1) om3(1) om4(1)
        by (simp add: om_create_channel_pair_def create om_link_channel_pair_def om_snapshot_def)
          (simp add: snapshot_of_def fresh_object_def)
      moreover have "linked_pair om om4 c (snapshot_of (the (om_at om4 i))) (snapshot_of (the (om_at om4 j)))"
      proof -
        have "om_at om4 = (om_at om)(i \<mapsto> the (om_at om4 i), j \<mapsto> the (om_at om4 j))"
          using one(4) two(4) om3_at om4_at ij by (simp add: fun_eq_iff)
        moreover have "om_at om i = None" "om_at om j = None" using one(3,4) two(3) ij by simp_all
        ultimately show ?thesis
          unfolding linked_pair_def
          by (intro conjI exI [of _ "the (om_at om4 i)"] exI [of _ "the (om_at om4 j)"])
            (use at4 ij in \<open>simp_all add: linked_endpoint_def snapshot_of_def fresh_object_def\<close>)
      qed
      ultimately show ?thesis
        using at4 om_ok_mono [OF om4(2)] c(2)
        by (auto simp: names_iff snapshot_of_def snapshot_kind_def fresh_object_def)
    next
      case 2
      have "om_destroy i (oe_generation ?e1) om1 = (Ok (), om_clear om1 i)" "om_ok C n T M L (om_clear om1 i)"
        using om_destroy_idle_endpoint [OF one(2) at1, of c] c by (simp_all add: fresh_object_def)
      moreover have "om_at (om_clear om1 i) = om_at om"
        using one(3,4) om_clear_simps(3) [OF om_okD(3) [OF one(2)] om_at_bound [OF at1]] by (auto simp: fun_eq_iff)
      ultimately show ?thesis
        using one(1) 2 by (simp add: om_create_channel_pair_def create snapshot_of_def fresh_object_def)
    qed
  next
    case 2
    then show ?thesis using om_ok_mono [OF ok, of n] by (simp add: om_create_channel_pair_def create)
  qed
next
  case (Err e)
  then show ?thesis
    using om_ok_mono [OF ok, of n] by (simp add: om_create_channel_pair_def om_create_channel_endpoint_def)
next
  case Panic
  then show ?thesis by (simp add: endpoint_new_def split: if_splits)
qed

section \<open>Events\<close>

lemma om_event_ok:
  assumes ok: "om_ok C n T M L om"
  shows "after (\<lambda>_ om'. om_ok C n T M L om') (\<lambda>_ om'. om' = om) (om_signal_event i g om)"
    and "after (\<lambda>_ om'. om_ok C n T M L om') (\<lambda>_ om'. om' = om) (om_clear_event i g om)"
proof -
  have put: "om_ok C n T M L (om_put_payload om i (PEvent ev'))"
    if "om_at om i = Some e" "oe_payload e = PEvent ev" for e ev ev'
    by (rule om_ok_put_same_maps [OF ok that(1)]) (use that in simp_all)
  show "after (\<lambda>_ om'. om_ok C n T M L om') (\<lambda>_ om'. om' = om) (om_signal_event i g om)"
    using put by (cases rule: om_live_payload_cases [OF ok, of i g]; (cases "oe_payload (the (om_at om i))")?)
      (simp_all add: om_signal_event_def)
  show "after (\<lambda>_ om'. om_ok C n T M L om') (\<lambda>_ om'. om' = om) (om_clear_event i g om)"
    using put by (cases rule: om_live_payload_cases [OF ok, of i g]; (cases "oe_payload (the (om_at om i))")?)
      (simp_all add: om_clear_event_def)
qed

section \<open>The number of references\<close>

lemma om_ok_empty:
  assumes "om_with_capacity heap C = Ok om" and "n + 1 < 2 ^ 64" and "C \<le> usize_max"
  shows "om_ok C n {#} {#} {} om"
proof -
  have om: "om = \<lparr>om_entries = replicate C None, om_generations = replicate C INITIAL, om_capacity = C\<rparr>"
    using assms(1) by (auto simp: om_with_capacity_def result_simps)
  then have at: "om_at om i = None" for i by (simp add: om_at_def)
  have "om_wf om" using om assms(3) at by (simp add: om_wf_def om_shape_def)
  moreover have "om_refs om = {#}" "om_maps om = {#}"
    using om by (simp_all add: om_refs_def om_maps_def om_sum_def)
  then have "refs_ok {#} om" "maps_ok {#} om" using at by (simp_all add: refs_ok_def maps_ok_def)
  moreover have "om_margin n om"
    using om at assms(2) by (auto simp: om_margin_def generations_margin_def INITIAL_def)
  ultimately show ?thesis using om at by (simp add: om_ok_def obj_inv_def om_leases_def entry_leases_def)
qed

lemma size_slot_sum:
  fixes f :: "'a \<Rightarrow> 'b multiset"
  assumes "\<And>x. Some x \<in> set xs \<Longrightarrow> size (f x) \<le> b"
  shows "size (slot_sum f xs) \<le> b * length xs"
  using assms
proof (induction xs)
  case (Cons x xs)
  then show ?case by (cases x) (auto intro: add_mono)
qed simp

lemma size_endpoint_refs:
  assumes "endpoint_wf c"
  shows "size (endpoint_refs c) \<le> 16"
proof -
  have bound: "size (\<Sum>\<^sub># (image_mset message_refs (mset ms))) \<le> 4 * length ms"
    if "\<forall>m \<in> set ms. message_wf m" for ms
    using that
    by (induction ms) (auto simp: message_refs_def message_wf_def MAX_CHANNEL_MESSAGE_HANDLES_def)
  have "size (endpoint_refs c) \<le> 4 * length (live (ce_messages c))"
    unfolding endpoint_refs_def endpoint_bag_def by (rule bound) (use assms in \<open>simp add: endpoint_wf_def\<close>)
  also have "\<dots> \<le> 4 * length (ce_messages c)"
    using count_where_le [of "\<lambda>slot. slot \<noteq> None" "ce_messages c"] by (simp add: length_live)
  finally show ?thesis using assms by (simp add: endpoint_wf_def MAX_CHANNEL_MESSAGES_def)
qed

lemma size_om_refs:
  assumes ok: "om_ok C n T M L om"
  shows "size (om_refs om) \<le> 16 * C"
proof -
  note shape = om_okD(3) [OF ok] and cap = om_okD(8) [OF ok]
  have "size (om_refs om) \<le> 16 * length (om_entries om)"
    unfolding om_refs_def om_sum_def
  proof (rule size_slot_sum)
    fix e assume "Some e \<in> set (om_entries om)"
    then obtain k where "k < C" "om_entries om ! k = Some e"
      using shape cap by (auto simp: in_set_conv_nth om_shape_def)
    then have "om_at om (of_nat k) = Some e"
      using shape cap by (simp add: om_at_def om_shape_def unat_of_nat_u64)
    then have "payload_ok (oe_payload e)" by (rule om_ok_at(4) [OF ok])
    then show "size (payload_refs (oe_payload e)) \<le> 16"
      using size_endpoint_refs by (cases "oe_payload e") auto
  qed
  then show ?thesis using shape cap by (simp add: om_shape_def)
qed

end
