(* ===== verification/Handle_Inv.thy ===== *)
theory Handle_Inv
  imports Handle Object_Inv
begin

text \<open>
  The invariant of a handle table and what its operations do to it and to the objects.  \<open>ht_ok C n H ht\<close>
  says that the table has \<open>C\<close> slots, that its entries carry the generation of their slot and name the
  objects \<open>H\<close>, and that every slot generation is at least \<open>n\<close> steps away from overflow.
\<close>

section \<open>The invariant\<close>

definition ht_entries :: "handle_table \<Rightarrow> handle_table_entry option list" where
  "ht_entries ht = map hs_entry (ht_slots ht)"

definition ht_refs :: "handle_table \<Rightarrow> href multiset" where
  "ht_refs ht = image_mset hte_ref (mset (live (ht_entries ht)))"

definition ht_wf :: "handle_table \<Rightarrow> bool" where
  "ht_wf ht \<longleftrightarrow> length (ht_slots ht) = ht_capacity ht \<and> ht_capacity ht \<le> 2 ^ 32
     \<and> (\<forall>slot \<in> set (ht_slots ht). \<forall>e. hs_entry slot = Some e \<longrightarrow> hte_entry_generation e = hs_generation slot)"

definition ht_ok :: "nat \<Rightarrow> nat \<Rightarrow> href multiset \<Rightarrow> handle_table \<Rightarrow> bool" where
  "ht_ok C n H ht \<longleftrightarrow> ht_wf ht \<and> ht_capacity ht = C \<and> generations_margin n (map hs_generation (ht_slots ht))
     \<and> ht_refs ht = H"

lemma ht_okD:
  assumes "ht_ok C n H ht"
  shows "ht_wf ht" "ht_capacity ht = C" "generations_margin n (map hs_generation (ht_slots ht))" "ht_refs ht = H"
    "length (ht_slots ht) = C" "C \<le> 2 ^ 32" "length (ht_entries ht) = C"
  using assms by (auto simp: ht_ok_def ht_wf_def ht_entries_def)

lemma ht_ok_mono: "ht_ok C n H ht \<Longrightarrow> m \<le> n \<Longrightarrow> ht_ok C m H ht"
  using generations_margin_mono by (auto simp: ht_ok_def)

lemma ht_live_count_eq: "ht_live_count ht = size (ht_refs ht)"
  by (simp add: ht_live_count_def ht_refs_def ht_entries_def length_live count_where_def filter_map comp_def)

lemma ht_ok_size:
  assumes ok: "ht_ok C n H ht"
  shows "size H \<le> C"
proof -
  have "size H = ht_live_count ht" by (simp only: ht_live_count_eq ht_okD(4) [OF ok])
  also have "\<dots> \<le> length (ht_slots ht)" unfolding ht_live_count_def by (rule count_where_le)
  finally show ?thesis by (simp only: ht_okD(5) [OF ok])
qed

lemma ht_ok_nth:
  assumes "ht_ok C n H ht" and "i < C" and "hs_entry (ht_slots ht ! i) = Some e"
  shows "hte_entry_generation e = hs_generation (ht_slots ht ! i)" "hte_ref e \<in># H"
proof -
  have i: "i < length (ht_slots ht)" using assms by (simp add: ht_okD)
  then show "hte_entry_generation e = hs_generation (ht_slots ht ! i)"
    using assms(1,3) by (auto simp: ht_ok_def ht_wf_def)
  have "ht_entries ht ! i = Some e" "i < length (ht_entries ht)" using i assms(3) by (simp_all add: ht_entries_def)
  then have "Some e \<in> set (ht_entries ht)" by (metis nth_mem)
  then have "e \<in> set (live (ht_entries ht))" by (simp only: in_live)
  then show "hte_ref e \<in># H" using ht_okD(4) [OF assms(1)] by (auto simp: ht_refs_def)
qed

section \<open>Slots\<close>

lemma ht_index_eq: "ht_index ht h = (if unat (hv_index h) < ht_capacity ht then Ok (unat (hv_index h)) else Err InvalidHandle)"
  by (simp add: ht_index_def as_usize_def Let_def not_le)

lemma ht_valid_entry_cases:
  assumes ok: "ht_ok C n H ht"
  obtains (valid) i e where "ht_valid_entry ht h = Ok e" "i = unat (hv_index h)" "i < C"
      "hs_entry (ht_slots ht ! i) = Some e" "hs_generation (ht_slots ht ! i) = hv_generation h" "ht_index ht h = Ok i"
  | (err) err where "ht_valid_entry ht h = Err err" "err \<in> {InvalidHandle, StaleHandle}"
proof (cases "unat (hv_index h) < C")
  case True
  then have entry: "ht_entry ht h = ok_or InvalidHandle (hs_entry (ht_slots ht ! unat (hv_index h)))"
    using ht_okD [OF ok] by (simp add: ht_entry_def ht_slot_def ht_index_eq vec_get_def)
  show ?thesis
  proof (cases "hs_entry (ht_slots ht ! unat (hv_index h))")
    case None
    then show ?thesis using entry by (intro err [of InvalidHandle]) (simp_all add: ht_valid_entry_def)
  next
    case (Some e)
    then show ?thesis
      using entry ht_ok_nth(1) [OF ok True Some] True ht_okD(2) [OF ok]
      by (cases "hte_entry_generation e = hv_generation h")
        (auto intro: valid err simp: ht_valid_entry_def ht_index_eq)
  qed
next
  case False
  then show ?thesis
    using ht_okD(2) [OF ok]
    by (intro err [of InvalidHandle]) (simp_all add: ht_valid_entry_def ht_entry_def ht_slot_def ht_index_eq)
qed

lemma ht_valid_entry_generation:
  assumes "ht_ok C n H ht" and "ht_valid_entry ht h = Ok e"
  shows "hs_generation (ht_slots ht ! unat (hv_index h)) = hv_generation h"
  using assms(2) by (cases rule: ht_valid_entry_cases [OF assms(1), of h]) auto

lemma ht_valid_entry_other:
  assumes "unat (hv_index h) \<noteq> i"
  shows "ht_valid_entry (ht\<lparr>ht_slots := (ht_slots ht)[i := s]\<rparr>) h = ht_valid_entry ht h"
proof -
  have "ht_slot (ht\<lparr>ht_slots := (ht_slots ht)[i := s]\<rparr>) h = ht_slot ht h"
    using assms by (simp add: ht_slot_def ht_index_eq vec_get_def)
  then show ?thesis by (simp add: ht_valid_entry_def ht_entry_def)
qed

text \<open>Filling a free slot, and emptying one with its generation advanced.\<close>

lemma ht_entries_update: "ht_entries (ht\<lparr>ht_slots := (ht_slots ht)[i := s]\<rparr>) = (ht_entries ht)[i := hs_entry s]"
  by (simp add: ht_entries_def map_update)

lemma ht_entries_nth: "i < length (ht_slots ht) \<Longrightarrow> ht_entries ht ! i = hs_entry (ht_slots ht ! i)"
  by (simp add: ht_entries_def)

lemma ht_ok_fill:
  assumes ok: "ht_ok C n H ht" and i: "i < C" "hs_entry (ht_slots ht ! i) = None"
    and e: "hte_entry_generation e = hs_generation (ht_slots ht ! i)"
  shows "ht_ok C n (add_mset (hte_ref e) H) (ht_put_entry ht i (Some e))"
proof -
  have il: "i < length (ht_slots ht)" "i < length (ht_entries ht)" using i(1) ht_okD [OF ok] by simp_all
  have "ht_entries ht ! i = None" using ht_entries_nth [OF il(1)] i(2) by simp
  from mset_live_fill [OF il(2) this, of e]
  have "ht_refs (ht_put_entry ht i (Some e)) = add_mset (hte_ref e) (ht_refs ht)"
    by (simp add: ht_refs_def ht_put_entry_def ht_entries_update)
  moreover have "map hs_generation (ht_slots (ht_put_entry ht i (Some e))) = map hs_generation (ht_slots ht)"
    using il by (simp add: ht_put_entry_def map_update list_update_same_conv)
  moreover have "ht_wf (ht_put_entry ht i (Some e))"
    using ht_okD(1) [OF ok] e by (auto simp: ht_wf_def ht_put_entry_def dest!: set_update_subset_insert [THEN subsetD])
  ultimately show ?thesis using ok by (simp add: ht_ok_def) (simp add: ht_put_entry_def)
qed

lemma ht_ok_reparent:
  assumes ok: "ht_ok C n H ht" and i: "i < C" "hs_entry (ht_slots ht ! i) = Some e"
  shows "ht_ok C n H (ht_put_entry ht i (Some (e\<lparr>hte_parent := p\<rparr>)))"
proof -
  let ?e = "e\<lparr>hte_parent := p\<rparr>"
  have il: "i < length (ht_slots ht)" "i < length (ht_entries ht)" using i(1) ht_okD [OF ok] by simp_all
  have en: "ht_entries ht ! i = Some e" using ht_entries_nth [OF il(1)] i(2) by simp
  have "mset (live ((ht_entries ht)[i := Some ?e])) = add_mset ?e (mset (live ((ht_entries ht)[i := None])))"
    using mset_live_fill [of i "(ht_entries ht)[i := None]" ?e] il by simp
  then have "ht_refs (ht_put_entry ht i (Some ?e)) = ht_refs ht"
    using mset_live_clear [OF il(2) en] by (simp add: ht_refs_def ht_put_entry_def ht_entries_update hte_ref_def)
  moreover have "map hs_generation (ht_slots (ht_put_entry ht i (Some ?e))) = map hs_generation (ht_slots ht)"
    using il by (simp add: ht_put_entry_def map_update list_update_same_conv)
  moreover have "ht_wf (ht_put_entry ht i (Some ?e))"
    using ht_okD(1) [OF ok] ht_ok_nth(1) [OF ok i]
    by (auto simp: ht_wf_def ht_put_entry_def dest!: set_update_subset_insert [THEN subsetD])
  ultimately show ?thesis using ok by (simp add: ht_ok_def) (simp add: ht_put_entry_def)
qed

lemma ht_remove_entry_cases:
  assumes ok: "ht_ok C (Suc n) H ht"
  obtains (removed) e ht' H' where "ht_remove_entry h ht = (Ok e, ht')" "ht_valid_entry ht h = Ok e"
      "H = add_mset (hte_ref e) H'" "ht_ok C n H' ht'"
      "\<And>h' e'. h' \<noteq> h \<Longrightarrow> ht_valid_entry ht h' = Ok e' \<Longrightarrow> ht_valid_entry ht' h' = Ok e'"
  | (err) err where "ht_remove_entry h ht = (Err err, ht)" "ht_valid_entry ht h = Err err"
proof (cases rule: ht_valid_entry_cases [OF ok, of h])
  case (1 i e)
  let ?ht = "ht\<lparr>ht_slots := (ht_slots ht)[i := \<lparr>hs_entry = None, hs_generation = hs_generation (ht_slots ht ! i) + 1\<rparr>]\<rparr>"
  have il: "i < length (ht_slots ht)" "i < length (ht_entries ht)" using 1(3) ht_okD [OF ok] by simp_all
  have gen: "unat (hs_generation (ht_slots ht ! i)) + Suc n < 2 ^ 64"
    using ht_okD(3) [OF ok] il by (auto simp: generations_margin_def)
  have eq: "ht_remove_entry h ht = (Ok e, ?ht)"
    using 1 il gen by (simp add: ht_remove_entry_def vec_get_def next_generation_def checked_add_def)
  have "ht_entries ht ! i = Some e" using ht_entries_nth [OF il(1)] 1(4) by simp
  then have H: "H = add_mset (hte_ref e) (ht_refs ?ht)"
    using mset_live_clear [OF il(2)] ht_okD(4) [OF ok] by (simp add: ht_refs_def ht_entries_update)
  have "generations_margin n (map hs_generation (ht_slots ?ht))"
  proof -
    have "unat (hs_generation (ht_slots ht ! i) + 1) + n < 2 ^ 64" using gen by (simp add: unat_word_ariths)
    then show ?thesis
      using generations_margin_mono [OF ht_okD(3) [OF ok], of n]
      by (auto simp: generations_margin_def dest!: set_update_subset_insert [THEN subsetD])
  qed
  moreover have "ht_wf ?ht"
    using ht_okD(1) [OF ok] by (auto simp: ht_wf_def dest!: set_update_subset_insert [THEN subsetD])
  ultimately have wf: "ht_ok C n (ht_refs ?ht) ?ht" using ht_okD(2) [OF ok] by (simp add: ht_ok_def)
  have others: "ht_valid_entry ?ht h' = Ok e'" if h': "h' \<noteq> h" "ht_valid_entry ht h' = Ok e'" for h' e'
  proof -
    have "unat (hv_index h') \<noteq> i"
    proof
      assume same: "unat (hv_index h') = i"
      then have "hv_index h' = hv_index h" using 1(2) by (simp add: word_unat_eq_iff)
      moreover have "hs_generation (ht_slots ht ! unat (hv_index h')) = hv_generation h'"
        using h'(2) by (rule ht_valid_entry_generation [OF ok])
      then have "hv_generation h' = hv_generation h" using same 1(5) by simp
      ultimately show False using h'(1) hv_eq_iff [of h' h] by blast
    qed
    from ht_valid_entry_other [OF this] show ?thesis using h'(2) by simp
  qed
  show ?thesis by (rule removed [OF eq 1(1) H wf others])
next
  case (2 e)
  then show ?thesis
    using ht_okD(2) [OF ok] by (intro err [of e]) (auto simp: ht_remove_entry_def ht_index_eq ht_valid_entry_def
        ht_entry_def ht_slot_def)
qed

lemma ht_reserve_slot_cases:
  assumes ok: "ht_ok C n H ht"
  obtains (free) i where "ht_reserve_slot ht = Ok \<lparr>hsr_index = i, hsr_generation = hs_generation (ht_slots ht ! i)\<rparr>"
      "ht_free_index ht = Ok i" "i < C" "hs_entry (ht_slots ht ! i) = None" "size H < C"
  | (full) "ht_reserve_slot ht = Err NoCapacity" "ht_free_index ht = Err NoCapacity" "size H = C"
proof (cases "position (\<lambda>slot. hs_entry slot = None) (ht_slots ht)")
  case None
  then have "count_where (\<lambda>slot. hs_entry slot \<noteq> None) (ht_slots ht) = length (ht_slots ht)"
    by (simp add: position_eq_None count_where_def filter_id_conv)
  then have "size H = C" using ht_live_count_eq [of ht] ht_okD [OF ok] by (simp add: ht_live_count_def)
  then show ?thesis using None by (intro full) (simp_all add: ht_reserve_slot_def ht_free_index_def)
next
  case (Some i)
  have i: "i < C" "hs_entry (ht_slots ht ! i) = None"
    using position_SomeD(1,2) [OF Some] ht_okD(5) [OF ok] by simp_all
  then have "size H < C"
    using ht_ok_size [OF ht_ok_fill [OF ok i, of "\<lparr>hte_object = 0, hte_object_generation = 0,
      hte_entry_generation = hs_generation (ht_slots ht ! i), hte_parent = None, hte_kind = KindProcess, hte_rights = 0\<rparr>"]]
    by simp
  then show ?thesis
    using Some i ht_okD(5) [OF ok] by (intro free [of i]) (simp_all add: ht_reserve_slot_def ht_free_index_def vec_get_def)
qed

lemma ht_install_entry_cases:
  assumes ok: "ht_ok C n H ht"
  obtains (installed) h ht' where "ht_install_entry e ht = (Ok h, ht')" "ht_ok C n (add_mset (hte_ref e) H) ht'" "size H < C"
  | (full) "ht_install_entry e ht = (Err NoCapacity, ht)" "size H = C"
proof (cases rule: ht_reserve_slot_cases [OF ok])
  case (1 i)
  let ?e = "e\<lparr>hte_entry_generation := hs_generation (ht_slots ht ! i)\<rparr>"
  have "ht_install_entry e ht = (Ok (hv_new (as_u64 i) (hs_generation (ht_slots ht ! i))), ht_put_entry ht i (Some ?e))"
    using 1 ht_okD(5) [OF ok] by (simp add: ht_install_entry_def vec_get_def)
  then show ?thesis using ht_ok_fill [OF ok 1(3,4), of ?e] 1(5) by (intro installed) (simp_all add: hte_ref_def)
next
  case 2
  then show ?thesis by (intro full) (simp_all add: ht_install_entry_def)
qed

section \<open>The handles and the objects together\<close>

text \<open>
  \<open>X\<close> are the references outside this table and the messages: the handles in the tables of the other
  processes, and those that a failed receive has dropped.  The numeric bound says that the handle
  count of an object cannot reach the largest \<open>usize\<close>: every reference is in \<open>X\<close>, in a slot of the table
  or in one of the at most 16 handle slots of an endpoint, and each of the \<open>n\<close> remaining steps adds at
  most four to \<open>X\<close>.
\<close>

definition ho_ok :: "nat \<Rightarrow> nat \<Rightarrow> nat \<Rightarrow> href multiset \<Rightarrow> (frame_owner \<times> memory_frame_range) set
    \<Rightarrow> handle_table \<times> object_manager \<Rightarrow> bool" where
  "ho_ok C D n X L = (\<lambda>(ht, om). \<exists>H. ht_ok C n H ht \<and> om_ok D n (X + H) {#} L om
     \<and> size X + C + 16 * D + 4 * n < usize_max)"

definition sys_ok :: "nat \<Rightarrow> nat \<Rightarrow> nat \<Rightarrow> href multiset \<Rightarrow> handle_state \<Rightarrow> bool" where
  "sys_ok C D n X = (\<lambda>(ht, om, fa). \<exists>L. ho_ok C D n X L (ht, om) \<and> fa_ok n L fa)"

lemma ho_okE:
  assumes "ho_ok C D n X L (ht, om)"
  obtains H where "ht_ok C n H ht" "om_ok D n (X + H) {#} L om" "size X + C + 16 * D + 4 * n < usize_max" "ht_refs ht = H"
  using assms ht_okD(4) unfolding ho_ok_def by blast

lemma ho_okI:
  "ht_ok C n H ht \<Longrightarrow> om_ok D n (X + H) {#} L om \<Longrightarrow> size X + C + 16 * D + 4 * n < usize_max \<Longrightarrow> ho_ok C D n X L (ht, om)"
  unfolding ho_ok_def by blast

lemma ho_ok_mono: "ho_ok C D n X L s \<Longrightarrow> m \<le> n \<Longrightarrow> ho_ok C D m X L s"
  unfolding ho_ok_def using ht_ok_mono om_ok_mono by (auto split: prod.splits) blast

lemma sys_okE:
  assumes "sys_ok C D n X (ht, om, fa)"
  obtains L where "ho_ok C D n X L (ht, om)" "fa_ok n L fa"
  using assms unfolding sys_ok_def by blast

lemma sys_okI: "ho_ok C D n X L (ht, om) \<Longrightarrow> fa_ok n L fa \<Longrightarrow> sys_ok C D n X (ht, om, fa)"
  unfolding sys_ok_def by blast

lemma sys_ok_mono: "sys_ok C D n X s \<Longrightarrow> m \<le> n \<Longrightarrow> sys_ok C D m X s"
  unfolding sys_ok_def using ho_ok_mono fa_ok_mono by (auto split: prod.splits) blast

lemma ho_ok_lengths:
  assumes "ho_ok C D n X L (ht, om)"
  shows "ht_capacity ht = C" "om_capacity om = D" "size (ht_refs ht) \<le> C" "D \<le> usize_max" "ht_live_count ht \<le> C"
proof -
  obtain H where "ht_ok C n H ht" "om_ok D n (X + H) {#} L om" "size X + C + 16 * D + 4 * n < usize_max" "ht_refs ht = H"
    by (rule ho_okE [OF assms])
  then show "ht_capacity ht = C" "om_capacity om = D" "size (ht_refs ht) \<le> C" "D \<le> usize_max" "ht_live_count ht \<le> C"
    using ht_okD(2) om_okD(8) ht_ok_size by (auto simp: ht_live_count_eq)
qed

lemma ht_valid_entry_total:
  assumes "ht_ok C n H ht"
  shows "ht_valid_entry ht h \<noteq> Panic"
  by (cases rule: ht_valid_entry_cases [OF assms, of h]) auto

lemma ht_valid_entry_ref:
  assumes "ht_ok C n H ht" and "ht_valid_entry ht h = Ok e"
  shows "hte_ref e \<in># H"
  using assms(2) by (cases rule: ht_valid_entry_cases [OF assms(1), of h]) (auto dest: ht_ok_nth [OF assms(1)])

lemma ht_valid_entry_names:
  assumes "ho_ok C D n X L (ht, om)" and "ht_valid_entry ht h = Ok e"
  shows "names om (hte_object e, hte_object_generation e, hte_kind e)"
proof -
  obtain H where H: "ht_ok C n H ht" "om_ok D n (X + H) {#} L om" by (rule ho_okE [OF assms(1)])
  have "hte_ref e \<in># X + H" using ht_valid_entry_ref [OF H(1) assms(2)] by simp
  then show ?thesis using om_ok_names(1) [OF H(2)] by (simp add: hte_ref_def)
qed

lemma om_validate_names:
  assumes "om_ok D n T M L om" and "names om (i, g, kind)"
  obtains e where "om_validate om i g kind = Ok (snapshot_of e)" "om_at om i = Some e"
    "oe_generation e = g" "payload_kind (oe_payload e) = kind" "oe_id e = i"
  using assms(2) om_ok_at(1) [OF assms(1)] by (cases rule: om_validate_cases [OF assms(1), of i g kind]) auto

lemma snapshot_of_simps [simp]:
  "sn_id (snapshot_of e) = oe_id e" "sn_generation (snapshot_of e) = oe_generation e"
  "snapshot_kind (snapshot_of e) = payload_kind (oe_payload e)"
  by (simp_all add: snapshot_of_def snapshot_kind_def)

lemma ht_lookup_cases:
  assumes ok: "ho_ok C D n X L (ht, om)"
  obtains (found) v e where "ht_lookup ht om h kind rights = Ok v" "ht_valid_entry ht h = Ok (hvw_entry v)"
      "hvw_handle v = h" "hvw_object v = snapshot_of e" "hte_kind (hvw_entry v) = kind" "rights_contain (hte_rights (hvw_entry v)) rights"
      "om_at om (hte_object (hvw_entry v)) = Some e" "oe_generation e = hte_object_generation (hvw_entry v)"
      "payload_kind (oe_payload e) = kind" "oe_id e = hte_object (hvw_entry v)"
  | (stale) err where "ht_lookup ht om h kind rights = Err err" "ht_valid_entry ht h = Err err"
  | (rights) e where "ht_lookup ht om h kind rights = Err MissingRights" "ht_valid_entry ht h = Ok e"
      "\<not> rights_contain (hte_rights e) rights"
  | (kind) e where "ht_lookup ht om h kind rights = Err WrongObjectType" "ht_valid_entry ht h = Ok e"
      "rights_contain (hte_rights e) rights" "hte_kind e \<noteq> kind"
proof -
  obtain H where H: "ht_ok C n H ht" "om_ok D n (X + H) {#} L om" by (rule ho_okE [OF ok])
  show ?thesis
  proof (cases "ht_valid_entry ht h")
    case (Ok e)
    have nm: "names om (hte_object e, hte_object_generation e, hte_kind e)" by (rule ht_valid_entry_names [OF ok Ok])
    then obtain d where d: "om_at om (hte_object e) = Some d" "oe_generation d = hte_object_generation e"
      "payload_kind (oe_payload d) = hte_kind e" by (auto simp: names_iff)
    have v: "om_validate om (hte_object e) (hte_object_generation e) kind
        = (if hte_kind e \<noteq> kind then Err WrongObjectType else Ok (snapshot_of d))"
      using d om_validate_eq [OF om_okD(2) [OF H(2)]] by simp
    consider "\<not> rights_contain (hte_rights e) rights" | "rights_contain (hte_rights e) rights" "hte_kind e \<noteq> kind"
      | "rights_contain (hte_rights e) rights" "hte_kind e = kind" by blast
    then show ?thesis
    proof cases
      case 3
      then show ?thesis
        using found [of "\<lparr>hvw_handle = h, hvw_entry = e, hvw_object = snapshot_of d\<rparr>" d] Ok v d om_ok_at(1) [OF H(2) d(1)]
        by (simp add: ht_lookup_def)
    qed (use Ok v rights kind in \<open>simp_all add: ht_lookup_def\<close>)
  next
    case (Err e)
    then show ?thesis using stale by (simp add: ht_lookup_def)
  qed (use ht_valid_entry_total [OF H(1)] in blast)
qed

section \<open>Installing\<close>

lemma ht_install_reserved_ok:
  assumes ok: "ho_ok C D n X L (ht, om)" and r: "ht_reserve_slot ht = Ok r"
    and s: "names om (sn_id s, sn_generation s, snapshot_kind s)"
  obtains h ht' om' e where "ht_install_reserved r s rights (ht, om) = (Ok h, (ht', om'))" "ho_ok C D n X L (ht', om')"
    "names om' = names om" "ht_index ht' h = Ok (hsr_index r)" "hsr_index r < C"
    "ht_slots ht' = (ht_slots ht)[hsr_index r := (ht_slots ht ! hsr_index r)\<lparr>hs_entry := Some e\<rparr>]"
    "hte_rights e = rights" "hte_ref e = (sn_id s, sn_generation s, snapshot_kind s)" "hte_parent e = None"
    "hs_entry (ht_slots ht ! hsr_index r) = None" "h = hv_new (as_u64 (hsr_index r)) (hs_generation (ht_slots ht ! hsr_index r))"
proof -
  obtain H where H: "ht_ok C n H ht" "om_ok D n (X + H) {#} L om" "size X + C + 16 * D + 4 * n < usize_max" by (rule ho_okE [OF ok])
  show ?thesis
  proof (cases rule: ht_reserve_slot_cases [OF H(1)])
    case (1 i)
    let ?g = "hs_generation (ht_slots ht ! i)"
    let ?e = "\<lparr>hte_object = sn_id s, hte_object_generation = sn_generation s, hte_entry_generation = ?g,
      hte_parent = None, hte_kind = snapshot_kind s, hte_rights = rights\<rparr>"
    have rr: "r = \<lparr>hsr_index = i, hsr_generation = ?g\<rparr>" using r 1(1) by simp
    have "size (X + H + om_refs om) < usize_max"
      using H(3) 1(5) size_om_refs [OF H(2)] by simp
    then obtain om' where om': "om_add_handle (sn_id s) (sn_generation s) om = (Ok (), om')"
      "om_ok D n (add_mset (sn_id s, sn_generation s, snapshot_kind s) (X + H)) {#} L om'" "names om' = names om"
      by (rule om_add_handle_ok [OF H(2) s])
    have il: "i < length (ht_slots ht)" using 1(3) ht_okD(5) [OF H(1)] by simp
    have inst: "ht_install_reserved r s rights (ht, om) = (Ok (hv_new (as_u64 i) ?g), (ht_put_entry ht i (Some ?e), om'))"
      using 1 rr il om'(1) ht_okD(2,5) [OF H(1)] by (simp add: ht_install_reserved_def vec_get_def)
    have fill: "ht_ok C n (add_mset (hte_ref ?e) H) (ht_put_entry ht i (Some ?e))"
      by (rule ht_ok_fill [OF H(1) 1(3,4)]) simp
    then have ho: "ho_ok C D n X L (ht_put_entry ht i (Some ?e), om')"
      by (rule ho_okI) (use om'(2) H(3) in \<open>simp_all add: hte_ref_def\<close>)
    have "unat (as_u64 i) = i" and "i < 2 ^ 32"
      using 1(3) ht_okD(6) [OF H(1)] by (simp_all add: as_u64_def unat_of_nat_u64 usize_max_def)
    then have "unat (hv_index (hv_new (as_u64 i) ?g)) = i" by (simp add: hv_index_new)
    then have idx: "ht_index (ht_put_entry ht i (Some ?e)) (hv_new (as_u64 i) ?g) = Ok (hsr_index r)"
      using 1(3) ht_okD(2) [OF fill] rr by (simp add: ht_index_eq)
    show ?thesis
      by (rule that [OF inst ho om'(3) idx, of ?e])
        (use rr 1 in \<open>simp_all add: ht_put_entry_def hte_ref_def\<close>)
  next
    case 2
    then show ?thesis using r by simp
  qed
qed

lemma ht_install_cases:
  assumes ok: "ho_ok C D n X L (ht, om)" and s: "names om (sn_id s, sn_generation s, snapshot_kind s)"
  obtains (installed) i h ht' om' e where "ht_install s rights (ht, om) = (Ok h, (ht', om'))" "ho_ok C D n X L (ht', om')"
      "names om' = names om" "ht_index ht' h = Ok i" "i < C" "ht_slots ht' = (ht_slots ht)[i := (ht_slots ht ! i)\<lparr>hs_entry := Some e\<rparr>]"
      "hte_rights e = rights" "hte_ref e = (sn_id s, sn_generation s, snapshot_kind s)"
      "hs_entry (ht_slots ht ! i) = None" "h = hv_new (as_u64 i) (hs_generation (ht_slots ht ! i))"
  | (full) "ht_install s rights (ht, om) = (Err NoCapacity, (ht, om))" "size (ht_refs ht) = C"
proof -
  obtain H where H: "ht_ok C n H ht" "ht_refs ht = H" by (rule ho_okE [OF ok])
  show ?thesis
  proof (cases rule: ht_reserve_slot_cases [OF H(1)])
    case (1 i)
    have eq: "ht_install s rights (ht, om) = ht_install_reserved \<lparr>hsr_index = i, hsr_generation = hs_generation (ht_slots ht ! i)\<rparr> s rights (ht, om)"
      using 1(1) by (simp add: ht_install_def)
    show ?thesis
      by (rule ht_install_reserved_ok [OF ok 1(1) s, where rights = rights], unfold eq [symmetric] handle_slot_reservation.simps)
        (erule installed, assumption+)
  next
    case 2
    then show ?thesis using H(2) by (intro full) (simp_all add: ht_install_def)
  qed
qed

lemma ht_duplicate_ok:
  assumes ok: "ho_ok C D n X L (ht, om)"
  shows "after (\<lambda>_ s. ho_ok C D n X L s) (\<lambda>_ s. s = (ht, om)) (ht_duplicate source rights (ht, om))"
proof (cases "ht_valid_entry ht source")
  case (Ok e)
  obtain H where H: "ht_ok C n H ht" "om_ok D n (X + H) {#} L om" by (rule ho_okE [OF ok])
  have nm: "names om (hte_object e, hte_object_generation e, hte_kind e)" by (rule ht_valid_entry_names [OF ok Ok])
  obtain d where d: "om_validate om (hte_object e) (hte_object_generation e) (hte_kind e) = Ok (snapshot_of d)"
    "oe_generation d = hte_object_generation e" "payload_kind (oe_payload d) = hte_kind e" "oe_id d = hte_object e"
    by (rule om_validate_names [OF H(2) nm])
  show ?thesis
  proof (cases "rights_contain (hte_rights e) HR_DUPLICATE \<and> rights_contain (hte_rights e) rights")
    case True
    have s: "names om (sn_id (snapshot_of d), sn_generation (snapshot_of d), snapshot_kind (snapshot_of d))"
      using nm d by simp
    show ?thesis
    proof (cases rule: ht_install_cases [OF ok s, where rights = rights])
      case (1 i h ht' om' d')
      obtain H' where H': "ht_ok C n H' ht'" "om_ok D n (X + H') {#} L om'" "size X + C + 16 * D + 4 * n < usize_max"
        by (rule ho_okE [OF 1(2)])
      have il: "i < length (ht_slots ht')" using 1(5) ht_okD(5) [OF H'(1)] by simp
      then have en: "hs_entry (ht_slots ht' ! i) = Some d'" using 1(6) by simp
      let ?p = "Some \<lparr>hl_handle = source, hl_object = hte_object e, hl_object_generation = hte_object_generation e\<rparr>"
      have "ho_ok C D n X L (ht_put_entry ht' (i) (Some (d'\<lparr>hte_parent := ?p\<rparr>)), om')"
        by (rule ho_okI [OF ht_ok_reparent [OF H'(1) 1(5) en] H'(2,3)])
      then show ?thesis
        using Ok True d(1) 1(1,4) il en by (simp add: ht_duplicate_def vec_get_def)
    next
      case 2
      then show ?thesis using Ok True d(1) by (simp add: ht_duplicate_def)
    qed
  next
    case False
    then show ?thesis using Ok by (auto simp: ht_duplicate_def)
  qed
next
  case (Err e)
  then show ?thesis by (simp add: ht_duplicate_def)
next
  case Panic
  then show ?thesis using ht_valid_entry_total ok by (metis ho_okE)
qed

section \<open>Removing\<close>

text \<open>Taking a handle out for a transfer keeps the reference: it leaves the table, not the counts.\<close>

lemma ht_remove_for_transfer_cases:
  assumes ht: "ht_ok C (Suc n) H ht" and om: "om_ok D m T M L om" and sub: "H \<subseteq># T"
  obtains (removed) e ht' H' where "ht_remove_for_transfer om h ht = (Ok e, ht')" "ht_valid_entry ht h = Ok e"
      "H = add_mset (hte_ref e) H'" "ht_ok C n H' ht'" "rights_contain (hte_rights e) HR_TRANSFER"
      "\<And>h' e'. h' \<noteq> h \<Longrightarrow> ht_valid_entry ht h' = Ok e' \<Longrightarrow> ht_valid_entry ht' h' = Ok e'"
  | (err) err where "ht_remove_for_transfer om h ht = (Err err, ht)"
      "\<And>e. ht_valid_entry ht h = Ok e \<Longrightarrow> \<not> rights_contain (hte_rights e) HR_TRANSFER"
proof (cases rule: ht_remove_entry_cases [OF ht, of h])
  case (1 e ht' H')
  have "hte_ref e \<in># T" using sub 1(3) by (meson mset_subset_eqD union_single_eq_member)
  then have "names om (hte_object e, hte_object_generation e, hte_kind e)"
    using om_ok_names(1) [OF om] by (simp add: hte_ref_def)
  then obtain d where "om_validate om (hte_object e) (hte_object_generation e) (hte_kind e) = Ok (snapshot_of d)"
    by (rule om_validate_names [OF om])
  then show ?thesis
    using 1 by (cases "rights_contain (hte_rights e) HR_TRANSFER")
      (auto intro: removed err simp: ht_remove_for_transfer_def)
next
  case (2 e)
  then show ?thesis by (intro err) (simp_all add: ht_remove_for_transfer_def)
qed

lemma om_ensure_handle_can_close_total: "om_ok D n T M L om \<Longrightarrow> om_ensure_handle_can_close om i g \<noteq> Panic"
  by (erule om_entry_cases [of _ _ _ _ _ _ i])
    (auto simp: om_ensure_handle_can_close_def split: object_payload.splits)

text \<open>A close removes the entry, drops one reference to the object and reclaims it when that was the last.\<close>

lemma ht_close_cases:
  assumes ok: "sys_ok C D (Suc n) X (ht, om, fa)"
  obtains (valid) L H' e ht' om1 d where "ht_valid_entry ht h = Ok e" "ht_ok C n H' ht'" "fa_ok (Suc n) L fa"
      "om_at om (hte_object e) = Some d" "oe_generation d = hte_object_generation e" "payload_kind (oe_payload d) = hte_kind e"
      "om1 = om_put om (hte_object e) (d\<lparr>oe_handle_count := oe_handle_count d - 1\<rparr>)" "om_ok D (Suc n) (X + H') {#} L om1"
      "om_at om1 (hte_object e) = Some (d\<lparr>oe_handle_count := oe_handle_count d - 1\<rparr>)"
      "ht_remove_entry h ht = (Ok e, ht')"
      "ht_close h (ht, om, fa) = (case om_ensure_handle_can_close om (hte_object e) (hte_object_generation e) of
          Ok _ \<Rightarrow> apsnd (\<lambda>(om, fa). (ht', om, fa))
            (om_reclaim_memory_object_if_unreferenced (hte_object e) (hte_object_generation e) (om1, fa))
        | Err err \<Rightarrow> (Err err, (ht, om, fa)) | Panic \<Rightarrow> (Panic, (ht, om, fa)))"
  | (err) err where "ht_valid_entry ht h = Err err" "ht_close h (ht, om, fa) = (Err err, (ht, om, fa))"
proof -
  obtain L where ho: "ho_ok C D (Suc n) X L (ht, om)" and fa: "fa_ok (Suc n) L fa" by (rule sys_okE [OF ok])
  obtain H where H: "ht_ok C (Suc n) H ht" "om_ok D (Suc n) (X + H) {#} L om" by (rule ho_okE [OF ho])
  show ?thesis
  proof (cases rule: ht_remove_entry_cases [OF H(1), of h])
    case (1 e ht' H')
    have om: "om_ok D (Suc n) (add_mset (hte_object e, hte_object_generation e, hte_kind e) (X + H')) {#} L om"
      using H(2) 1(3) by (simp add: hte_ref_def)
    show ?thesis
    proof (rule om_remove_handle_ok [OF om])
      fix om1 d assume a: "om_remove_handle (hte_object e) (hte_object_generation e) om = (Ok (), om1)"
        "om_ok D (Suc n) (X + H') {#} L om1" "om_at om (hte_object e) = Some d" "oe_generation d = hte_object_generation e"
        "payload_kind (oe_payload d) = hte_kind e"
        "om_at om1 (hte_object e) = Some (d\<lparr>oe_handle_count := oe_handle_count d - 1\<rparr>)"
        "om1 = om_put om (hte_object e) (d\<lparr>oe_handle_count := oe_handle_count d - 1\<rparr>)"
      show thesis
        by (rule valid [OF 1(2,4) fa a(3,4,5,7,2,6) 1(1)])
          (use 1(1,2) a(1) in \<open>cases "om_ensure_handle_can_close om (hte_object e) (hte_object_generation e)";
            simp add: ht_close_def\<close>)
    qed
  next
    case (2 e)
    then show ?thesis using err by (simp add: ht_close_def)
  qed
qed

lemma ht_close_ok:
  assumes ok: "sys_ok C D (Suc n) X (ht, om, fa)"
  shows "after (\<lambda>_ s. sys_ok C D n X s) (\<lambda>_ s. s = (ht, om, fa)) (ht_close h (ht, om, fa))"
proof -
  obtain L where "ho_ok C D (Suc n) X L (ht, om)" by (rule sys_okE [OF ok])
  then obtain H where om: "om_ok D (Suc n) (X + H) {#} L om" and "size X + C + 16 * D + 4 * Suc n < usize_max"
    by (rule ho_okE)
  then have bound: "size X + C + 16 * D + 4 * n < usize_max" by simp
  show ?thesis
  proof (cases rule: ht_close_cases [OF ok, of h])
    case (1 L' H' e ht' om1 d)
    have rec: "after (\<lambda>_ (om', fa'). \<exists>L'. om_ok D n (X + H') {#} L' om' \<and> fa_ok n L' fa') (\<lambda>_ _. False)
        (om_reclaim_memory_object_if_unreferenced (hte_object e) (hte_object_generation e) (om1, fa))"
      using om_reclaim_ok [OF 1(8) 1(3) 1(9)] by (simp add: 1(5))
    have "after (\<lambda>_ s. sys_ok C D n X s) (\<lambda>_ s. s = (ht, om, fa))
        (apsnd (\<lambda>(om, fa). (ht', om, fa))
          (om_reclaim_memory_object_if_unreferenced (hte_object e) (hte_object_generation e) (om1, fa)))"
      unfolding after_apsnd by (rule after_mono [OF rec]) (use 1(2) bound in \<open>auto intro: sys_okI ho_okI\<close>)
    then show ?thesis
      using om_ensure_handle_can_close_total [OF om] 1(11)
      by (cases "om_ensure_handle_can_close om (hte_object e) (hte_object_generation e)") auto
  next
    case (2 err)
    then show ?thesis by simp
  qed
qed

text \<open>Closing a handle of a memory object: the last one of an unmapped object takes the object and its
  frames with it; otherwise only the count goes down.\<close>

lemma ht_close_memory:
  assumes ok: "sys_ok C D (Suc n) X (ht, om, fa)" and e: "ht_valid_entry ht h = Ok e"
    and d: "om_at om (hte_object e) = Some d" "oe_payload d = PMemoryObject m"
  obtains ht' om' fa' where "ht_close h (ht, om, fa) = (Ok (), (ht', om', fa'))"
    "if oe_handle_count d = 1 \<and> mo_active_mappings m = 0
     then om_at om' = (om_at om)(hte_object e := None) \<and> fa_view fa' = view_set (fa_view fa) (mo_frame_range m) Free
     else om_at om' = (om_at om)(hte_object e \<mapsto> d\<lparr>oe_handle_count := oe_handle_count d - 1\<rparr>) \<and> fa' = fa"
proof (cases rule: ht_close_cases [OF ok, of h])
  case (1 L H' e' ht' om1 d')
  have same: "e' = e" "d' = d" using 1(1,4) e d(1) by simp_all
  note c = 1 [unfolded same]
  let ?d = "d\<lparr>oe_handle_count := oe_handle_count d - 1\<rparr>"
  obtain L0 where "ho_ok C D (Suc n) X L0 (ht, om)" by (rule sys_okE [OF ok])
  then obtain H where H: "ht_ok C (Suc n) H ht" "om_ok D (Suc n) (X + H) {#} L0 om" by (rule ho_okE)
  have shape: "om_shape om" by (rule om_okD(3) [OF H(2)])
  have "hte_ref e \<in># X + H" using ht_valid_entry_ref [OF H(1) e] by simp
  then have pos: "0 < oe_handle_count d"
    using refs_okD(3) [OF om_okD(4) [OF H(2)] d(1)] c(5,6) by (simp add: hte_ref_def)
  have at1: "om_at om1 = (om_at om)(hte_object e \<mapsto> ?d)"
    unfolding c(7) by (rule om_at_put [OF shape om_at_bound [OF d(1)]])
  have close: "ht_close h (ht, om, fa) = apsnd (\<lambda>(om, fa). (ht', om, fa))
      (om_reclaim_memory_object_if_unreferenced (hte_object e) (oe_generation ?d) (om1, fa))"
    using c(11) c(5) d om_entry_at(1) [OF H(2) d(1)] by (simp add: om_ensure_handle_can_close_def)
  show ?thesis
  proof (cases "oe_handle_count d = 1 \<and> mo_active_mappings m = 0")
    case True
    have m: "oe_payload ?d = PMemoryObject m" "oe_handle_count ?d = 0" "can_reclaim m"
      using d(2) True by (simp_all add: can_reclaim_def)
    obtain fa' where fa': "om_reclaim_memory_object_if_unreferenced (hte_object e) (oe_generation ?d) (om1, fa)
        = (Ok (), (om_clear om1 (hte_object e), fa'))" "fa_view fa' = view_set (fa_view fa) (mo_frame_range m) Free"
      by (rule om_reclaim_last [OF c(8) c(3) c(9) m])
    have "om_at (om_clear om1 (hte_object e)) = (om_at om)(hte_object e := None)"
      using om_clear_simps(3) [OF om_okD(3) [OF c(8)] om_at_bound [OF c(9)]] at1 by simp
    then show ?thesis using True fa' close by (intro that [of ht' "om_clear om1 (hte_object e)" fa']) simp_all
  next
    case False
    then have "om_reclaim_memory_object_if_unreferenced (hte_object e) (oe_generation ?d) (om1, fa) = (Ok (), (om1, fa))"
      using pos d(2) by (intro om_reclaim_kept [OF c(8) c(9)]) (auto simp: can_reclaim_def)
    then show ?thesis using False close at1 by (intro that [of ht' om1 fa]) (simp_all only: apsnd_conv prod.case if_False)
  qed
qed (use e in simp)

lemma close_all_ok:
  assumes "sys_ok C D (n + length hs) X s"
  shows "after (\<lambda>_ s. sys_ok C D n X s) (\<lambda>_ s. sys_ok C D n X s) (close_all hs s)"
  using assms
proof (induction hs arbitrary: s)
  case Nil
  then show ?case by simp
next
  case (Cons h hs)
  obtain ht om fa where s: "s = (ht, om, fa)" by (cases s)
  have ok: "sys_ok C D (Suc (n + length hs)) X (ht, om, fa)" using Cons.prems s by simp
  show ?case
    unfolding s close_all.simps after_sbind
    by (rule after_mono [OF ht_close_ok [OF ok]]) (use Cons.IH sys_ok_mono [OF ok, of n] in auto)
qed

section \<open>Revoking\<close>

lemma descends_from_value:
  assumes "descends_from ht e root re = Some r" and ok: "ht_ok C n H ht"
  shows "\<exists>b. r = Ok b"
proof -
  have "ht_ok C n H ht \<longrightarrow> (\<exists>b. r = Ok b)"
  proof (rule descends_from.raw_induct [OF _ assms(1)])
    fix rec :: "handle_table \<Rightarrow> handle_table_entry \<Rightarrow> handle_value \<Rightarrow> handle_table_entry \<Rightarrow> bool kernel_result option"
      and ht e root re r
    assume IH: "\<And>ht e root re r. rec ht e root re = Some r \<Longrightarrow> ht_ok C n H ht \<longrightarrow> (\<exists>b. r = Ok b)"
      and body: "(case hte_parent e of
        None \<Rightarrow> Some (Ok False)
      | Some parent \<Rightarrow>
          if hl_handle parent = root \<and> hl_object parent = hte_object re \<and> hl_object_generation parent = hte_object_generation re
          then Some (Ok True)
          else (case ht_valid_entry ht (hl_handle parent) of
                  Ok parent_entry \<Rightarrow> rec ht parent_entry root re
                | Err _ \<Rightarrow> Some (Ok False)
                | Panic \<Rightarrow> Some Panic)) = Some r"
    show "ht_ok C n H ht \<longrightarrow> (\<exists>b. r = Ok b)"
    proof
      assume ht: "ht_ok C n H ht"
      show "\<exists>b. r = Ok b"
        using body IH ht ht_valid_entry_total [OF ht]
        by (auto split: option.splits if_splits result.splits)
    qed
  qed
  then show ?thesis using ok by simp
qed

lemma collect_descendants_value:
  assumes "ht_ok C n H ht" and "collect_descendants ht root re i slots ds = Some r"
  shows "\<exists>hs. r = Ok hs \<and> length hs \<le> length ds + length slots"
  using assms
proof (induction ht root re i slots ds rule: collect_descendants.induct)
  case (1 ht root re i ds)
  then show ?case by auto
next
  case (2 ht root re i slot slots ds)
  show ?case
  proof (cases "hs_entry slot")
    case None
    then show ?thesis using 2 by fastforce
  next
    case (Some e)
    show ?thesis
    proof (cases "hte_entry_generation e = hv_generation root \<and> as_u64 i = hv_index root")
      case True
      then show ?thesis using 2 Some by fastforce
    next
      case False
      then obtain x where x: "descends_from ht e root re = Some x"
        using 2(5) Some by (auto split: option.splits)
      then obtain b where b: "descends_from ht e root re = Some (Ok b)"
        using descends_from_value [OF x 2(4)] by blast
      then have eq: "collect_descendants ht root re (Suc i) slots
          (if b then ds @ [hv_new (as_u64 i) (hte_entry_generation e)] else ds) = Some r"
        using 2(5) Some False by (auto simp only: collect_descendants.simps option.case result.case if_False)
      from 2(3) [OF Some False b refl 2(4) eq] show ?thesis by (cases b) auto
    qed
  qed
qed

lemma ht_revoke_descendants_ok:
  assumes ok: "sys_ok C D (n + C) X s" and r: "ht_revoke_descendants heap root s = Some x"
  shows "after (\<lambda>_ s. sys_ok C D n X s) (\<lambda>_ s. sys_ok C D n X s) x"
proof -
  obtain ht om fa where s: "s = (ht, om, fa)" by (cases s)
  obtain L where "ho_ok C D (n + C) X L (ht, om)" using ok s by (auto elim: sys_okE)
  then obtain H where H: "ht_ok C (n + C) H ht" by (rule ho_okE)
  have low: "sys_ok C D n X s" by (rule sys_ok_mono [OF ok]) simp
  show ?thesis
  proof (cases "\<exists>re hs. ht_valid_entry ht root = Ok re \<and> try_reserve_exact heap SiteRevoke (ht_live_count ht) = Ok ()
      \<and> collect_descendants ht root re 0 (ht_slots ht) [] = Some (Ok hs)")
    case True
    then obtain re hs where v: "ht_valid_entry ht root = Ok re" "try_reserve_exact heap SiteRevoke (ht_live_count ht) = Ok ()"
      "collect_descendants ht root re 0 (ht_slots ht) [] = Some (Ok hs)" by blast
    have "length hs \<le> C" using collect_descendants_value [OF H v(3)] ht_okD(5) [OF H] by simp
    then have "sys_ok C D (n + length hs) X s" by (intro sys_ok_mono [OF ok]) simp
    then have "after (\<lambda>_ s. sys_ok C D n X s) (\<lambda>_ s. sys_ok C D n X s) (close_all hs s)" by (rule close_all_ok)
    moreover have "x = sbind (close_all hs s) (\<lambda>_ s. (Ok (length hs), s))"
      using r v s by (simp add: ht_revoke_descendants_def)
    ultimately show ?thesis by (simp add: after_simps)
  next
    case False
    have "\<exists>e. x = (Err e, s)"
    proof (cases "ht_valid_entry ht root")
      case (Ok re)
      show ?thesis
      proof (cases "try_reserve_exact heap SiteRevoke (ht_live_count ht)")
        case (Ok u)
        then have pre: "ht_valid_entry ht root = Ok re" "try_reserve_exact heap SiteRevoke (ht_live_count ht) = Ok ()"
          using \<open>ht_valid_entry ht root = Ok re\<close> by simp_all
        then obtain y where y: "collect_descendants ht root re 0 (ht_slots ht) [] = Some y"
          using r s by (auto simp: ht_revoke_descendants_def split: option.splits)
        then show ?thesis using False pre collect_descendants_value [OF H y] by blast
      next
        case (Err e)
        then show ?thesis using Ok r s by (auto simp: ht_revoke_descendants_def)
      next
        case Panic
        then show ?thesis by (simp add: result_simps)
      qed
    qed (use r s ht_valid_entry_total [OF H] in \<open>auto simp: ht_revoke_descendants_def\<close>)
    then show ?thesis using low by auto
  qed
qed

end
