(* ===== verification/Process_Inv.thy ===== *)
theory Process_Inv
  imports Process Handle_Inv
begin

text \<open>
  What the operations of a process do to its handle table, its budget, the objects and the frames:
  each keeps the invariant, none panics, and an operation that fails leaves the state it found, with
  the exceptions that the lemmas state.
\<close>

section \<open>The invariant\<close>

definition po_ok :: "nat \<Rightarrow> nat \<Rightarrow> nat \<Rightarrow> href multiset \<Rightarrow> (frame_owner \<times> memory_frame_range) set
    \<Rightarrow> process \<times> object_manager \<Rightarrow> bool" where
  "po_ok C D n X L = (\<lambda>(p, om). ho_ok C D n X L (pr_handles p, om) \<and> rb_remaining_objects (pr_budget p) \<le> usize_max)"

definition proc_ok :: "nat \<Rightarrow> nat \<Rightarrow> nat \<Rightarrow> href multiset \<Rightarrow> process_state \<Rightarrow> bool" where
  "proc_ok C D n X = (\<lambda>(p, om, fa). sys_ok C D n X (pr_handles p, om, fa) \<and> rb_remaining_objects (pr_budget p) \<le> usize_max)"

lemma proc_okE:
  assumes "proc_ok C D n X (p, om, fa)"
  obtains L where "po_ok C D n X L (p, om)" "fa_ok n L fa"
  using assms unfolding proc_ok_def po_ok_def by (auto elim: sys_okE)

lemma proc_okI: "po_ok C D n X L (p, om) \<Longrightarrow> fa_ok n L fa \<Longrightarrow> proc_ok C D n X (p, om, fa)"
  unfolding proc_ok_def po_ok_def by (auto intro: sys_okI)

lemma po_ok_mono: "po_ok C D n X L s \<Longrightarrow> m \<le> n \<Longrightarrow> po_ok C D m X L s"
  unfolding po_ok_def using ho_ok_mono by blast

lemma proc_ok_mono: "proc_ok C D n X s \<Longrightarrow> m \<le> n \<Longrightarrow> proc_ok C D m X s"
  unfolding proc_ok_def using sys_ok_mono by blast

section \<open>The budget\<close>

lemma pr_reserve_object_cases:
  assumes "rb_remaining_objects (pr_budget p) \<le> usize_max"
  obtains (reserved) r p' where "pr_reserve_object p = (Ok r, p')" "pr_release_object p' = p"
      "pr_handles p' = pr_handles p" "rb_remaining_objects (pr_budget p') \<le> usize_max"
  | (quota) "pr_reserve_object p = (Err QuotaExceeded, p)" "rb_remaining_objects (pr_budget p) = 0"
proof (cases "rb_remaining_objects (pr_budget p)")
  case 0
  then show ?thesis by (intro quota) (simp_all add: pr_reserve_object_def reserve_object_def)
next
  case (Suc k)
  let ?p = "p\<lparr>pr_budget := \<lparr>rb_remaining_objects = k\<rparr>\<rparr>"
  have "pr_budget p = \<lparr>rb_remaining_objects = Suc k\<rparr>" using Suc by (cases "pr_budget p") simp
  then have facts: "pr_reserve_object p = (Ok \<lparr>ores_committed = False\<rparr>, ?p)" "pr_release_object ?p = p"
    using assms Suc by (cases p, simp add: pr_reserve_object_def reserve_object_def pr_release_object_def
        release_object_def usize_saturating_add_def)+
  show ?thesis by (rule reserved [OF facts]) (use assms Suc in simp_all)
qed

section \<open>Creating objects\<close>

lemma create_preflighted_ok:
  assumes ok: "po_ok C D n X L (p, om)" and pay: "payload_fresh payload" "payload_lease payload = None"
  shows "after (\<lambda>_ s. po_ok C D n X L s) (\<lambda>_ s. s = (p, om)) (create_preflighted_object_handle rights payload (p, om))"
proof -
  have ho: "ho_ok C D n X L (pr_handles p, om)" and b: "rb_remaining_objects (pr_budget p) \<le> usize_max"
    using ok by (simp_all add: po_ok_def)
  obtain H where H: "ht_ok C n H (pr_handles p)" "om_ok D n (X + H) {#} L om" "size X + C + 16 * D + 4 * n < usize_max"
    by (rule ho_okE [OF ho])
  show ?thesis
  proof (cases rule: pr_reserve_object_cases [OF b])
    case (1 r p')
    note res = 1
    show ?thesis
    proof (cases rule: ht_reserve_slot_cases [OF H(1)])
      case (1 k)
      note slot = 1
      show ?thesis
      proof (cases rule: om_reserve_entry_cases [OF H(2) ho_ok_lengths(4) [OF ho]])
        case (1 i)
        let ?e = "fresh_object om i payload" and ?om = "om_put om i (fresh_object om i payload)"
        note commit = om_commit_reserved_ok [OF H(2) 1(2,3) pay(1)]
        have "entry_leases (Some ?e) = {}" using pay(2) by (simp add: entry_leases_def fresh_object_def)
        then have ho1: "ho_ok C D n X L (pr_handles p, ?om)" using commit(2) H by (intro ho_okI) simp_all
        have nm: "names ?om (sn_id (snapshot_of ?e), sn_generation (snapshot_of ?e), snapshot_kind (snapshot_of ?e))"
          using commit(3) by (simp add: names_iff fresh_object_def)
        obtain h ht' om' e where inst: "ht_install_reserved \<lparr>hsr_index = k, hsr_generation = hs_generation (ht_slots (pr_handles p) ! k)\<rparr>
            (snapshot_of ?e) rights (pr_handles p, ?om) = (Ok h, (ht', om'))" "ho_ok C D n X L (ht', om')"
          by (rule ht_install_reserved_ok [OF ho1 slot(1) nm, where rights = rights])
        then show ?thesis
          using res slot(1) 1(1) commit(1)
          by (simp add: create_preflighted_object_handle_def po_ok_def)
      next
        case 2
        then show ?thesis using res slot(1) by (simp add: create_preflighted_object_handle_def)
      qed
    next
      case 2
      then show ?thesis using res by (simp add: create_preflighted_object_handle_def)
    qed
  next
    case 2
    then show ?thesis by (simp add: create_preflighted_object_handle_def)
  qed
qed

lemma create_object_handle_ok:
  assumes ok: "po_ok C D n X L s"
  shows "after (\<lambda>_ s'. po_ok C D n X L s') (\<lambda>_ s'. s' = s) (create_object_handle kind rights s)"
proof (cases "payload_for_kind kind")
  case (Ok p)
  then show ?thesis
    using create_preflighted_ok [of C D n X L "fst s" "snd s" p rights] ok payload_for_kind_fresh [OF Ok]
    by (simp add: create_object_handle_def)
qed (use payload_for_kind_total in \<open>auto simp: create_object_handle_def\<close>)

lemma create_address_space_handle_eq:
  "create_address_space_handle = create_object_handle KindAddressSpace"
  by (simp add: create_address_space_handle_def create_object_handle_def fun_eq_iff)

lemma memory_object_new_ok:
  assumes "validate_size size_bytes = Ok ()" and r: "mfr_ok r" "unat (mfr_end r) = unat (mfr_start r) + unat size_bytes"
  obtains m where "memory_object_new size_bytes policy r = Ok m" "memory_ok m" "mo_active_mappings m = 0" "mo_frame_range m = r"
proof -
  have "mfr_start r \<le> mfr_end r" using r(2) by (simp add: word_le_nat_alt)
  moreover from this have "mfr_end r - mfr_start r = size_bytes"
    using r(2) by (simp add: word_unat_eq_iff unat_sub)
  ultimately have "memory_object_new size_bytes policy r = Ok \<lparr>mo_size_bytes = size_bytes, mo_mapping_policy = policy,
      mo_frame_range = r, mo_active_mappings = 0\<rparr>"
    using assms(1) by (simp add: memory_object_new_def mfr_len_def u64_sub_def)
  then show ?thesis by (rule that) (use r in \<open>simp_all add: memory_ok_def\<close>)
qed

lemma validate_size_total: "validate_size size_bytes \<noteq> Panic"
  by (cases "virtual_range_new 0 size_bytes") (auto simp: validate_size_def result_simps)

lemma fa_reserve_ok:
  assumes "fa_ok n L fa" and "fa_reserve_contiguous owner size_bytes fa = (Ok r, fa')"
  shows "fa_ok n (insert (owner, r) L) fa'" "mfr_ok r" "unat (mfr_end r) = unat (mfr_start r) + unat size_bytes"
proof -
  have wf: "fa_wf fa" and leased: "frames.leased fa L" and gen: "generations_margin n (fa_generations fa)"
    using assms(1) by (simp_all add: fa_ok_def)
  show "mfr_ok r" "unat (mfr_end r) = unat (mfr_start r) + unat size_bytes"
    using frames.reserve_Ok [OF wf assms(2)] by simp_all
  have "fa_generations fa' = fa_generations fa"
    using assms(2) by (cases rule: fa_reserve_contiguous_cases [OF wf, of owner size_bytes]) auto
  then show "fa_ok n (insert (owner, r) L) fa'"
    using frames.reserve_leased(1,2) [OF wf assms(2) leased] gen by (simp add: fa_ok_def)
qed

lemma validate_size_eq: "validate_size size_bytes = (if size_bytes = 0 \<or> unat size_bytes mod 4096 \<noteq> 0 then Err InvalidArgument else Ok ())"
proof (cases "virtual_range_new 0 size_bytes")
  case (Err e)
  then have "\<not> vrange_ok 0 size_bytes" using virtual_range_new_Ok(1) [of 0 size_bytes] by auto
  then show ?thesis
    using Err unsigned_less [of size_bytes, where ?'a = nat] by (auto simp: validate_size_def vrange_ok_def word_unat_eq_iff)
next
  case (Ok v)
  then have "vrange_ok 0 size_bytes" by (simp add: virtual_range_new_Ok)
  then show ?thesis using Ok by (auto simp: validate_size_def vrange_ok_def)
qed (simp add: virtual_range_new_Ok)

text \<open>What a memory object takes: a size in whole pages, budget, a free handle slot, a free object slot and a run of free
  pages.  The error names the first that is missing.\<close>

definition memory_creation_error :: "u64 \<Rightarrow> process_state \<Rightarrow> kernel_error option" where
  "memory_creation_error size_bytes = (\<lambda>(p, om, fa).
     if size_bytes = 0 \<or> unat size_bytes mod 4096 \<noteq> 0 then Some InvalidArgument
     else if rb_remaining_objects (pr_budget p) = 0 then Some QuotaExceeded
     else if \<forall>slot \<in> set (ht_slots (pr_handles p)). hs_entry slot \<noteq> None then Some NoCapacity
     else if None \<notin> set (om_entries om) then Some NoCapacity
     else if \<forall>page. \<not> free_run (fa_view fa) page (unat size_bytes div 4096) then Some NoMemory
     else None)"

text \<open>With all that reserved, the creation succeeds.\<close>

lemma create_memory_reserved:
  assumes po: "po_ok C D n X L (p, om)" and fa: "fa_ok n L fa" and size: "validate_size size_bytes = Ok ()"
    and res: "pr_reserve_object p = (Ok res, p1)" "pr_handles p1 = pr_handles p" "rb_remaining_objects (pr_budget p1) \<le> usize_max"
    and slot: "ht_reserve_slot (pr_handles p) = Ok sl"
    and entry: "om_reserve_entry om = Ok \<lparr>oer_index = unat i, oer_generation = om_gen om i\<rparr>" "om_at om i = None" "unat i < D"
    and fr: "fa_reserve_contiguous (OwnerMemoryObject i (om_gen om i)) size_bytes fa = (Ok r, fa')"
  obtains h ht' om' e where "create_memory_object_handle size_bytes rights (p, om, fa) = (Ok h, (p1\<lparr>pr_handles := ht'\<rparr>, om', fa'))"
    "proc_ok C D n X (p1\<lparr>pr_handles := ht'\<rparr>, om', fa')" "ho_ok C D n X (insert (OwnerMemoryObject i (om_gen om i), r) L) (ht', om')"
    "hte_ref e = (i, om_gen om i, KindMemoryObject)" "hte_rights e = rights" "hte_parent e = None"
    "hsr_index sl < C" "h = hv_new (as_u64 (hsr_index sl)) (hs_generation (ht_slots (pr_handles p) ! hsr_index sl))"
    "ht_index ht' h = Ok (hsr_index sl)"
    "ht_slots ht' = (ht_slots (pr_handles p))[hsr_index sl := (ht_slots (pr_handles p) ! hsr_index sl)\<lparr>hs_entry := Some e\<rparr>]"
proof -
  have ho: "ho_ok C D n X L (pr_handles p, om)" using po by (simp add: po_ok_def)
  obtain H where H: "ht_ok C n H (pr_handles p)" "om_ok D n (X + H) {#} L om" "size X + C + 16 * D + 4 * n < usize_max"
    by (rule ho_okE [OF ho])
  let ?owner = "OwnerMemoryObject i (om_gen om i)" and ?policy = "\<lparr>mp_max_rights = HR_READ OR HR_WRITE OR HR_EXECUTE\<rparr>"
  note fr' = fa_reserve_ok [OF fa fr]
  obtain m where m: "memory_object_new size_bytes ?policy r = Ok m" "memory_ok m" "mo_active_mappings m = 0" "mo_frame_range m = r"
    by (rule memory_object_new_ok [OF size fr'(2,3)])
  have fresh: "payload_fresh (PMemoryObject m)" using m by (simp add: payload_fresh_def)
  let ?e = "fresh_object om i (PMemoryObject m)" and ?om = "om_put om i (fresh_object om i (PMemoryObject m))"
  note commit = om_commit_reserved_ok [OF H(2) entry(2,3) fresh]
  have "entry_leases (Some ?e) = {(?owner, r)}" using m(4) by (simp add: entry_leases_def fresh_object_def)
  then have ho1: "ho_ok C D n X (insert (?owner, r) L) (pr_handles p, ?om)" using commit(2) H by (intro ho_okI) simp_all
  have nm: "names ?om (sn_id (snapshot_of ?e), sn_generation (snapshot_of ?e), snapshot_kind (snapshot_of ?e))"
    using commit(3) by (simp add: names_iff fresh_object_def)
  have ref: "(sn_id (snapshot_of ?e), sn_generation (snapshot_of ?e), snapshot_kind (snapshot_of ?e)) = (i, om_gen om i, KindMemoryObject)"
    by (simp add: fresh_object_def snapshot_of_def snapshot_kind_def)
  show ?thesis
  proof (rule ht_install_reserved_ok [OF ho1 slot nm, where rights = rights])
    fix h ht' om' e
    assume inst: "ht_install_reserved sl (snapshot_of ?e) rights (pr_handles p, ?om) = (Ok h, (ht', om'))"
      and ho2: "ho_ok C D n X (insert (?owner, r) L) (ht', om')"
      and at: "ht_index ht' h = Ok (hsr_index sl)" "hsr_index sl < C"
        "ht_slots ht' = (ht_slots (pr_handles p))[hsr_index sl := (ht_slots (pr_handles p) ! hsr_index sl)\<lparr>hs_entry := Some e\<rparr>]"
      and e: "hte_rights e = rights" "hte_ref e = (sn_id (snapshot_of ?e), sn_generation (snapshot_of ?e), snapshot_kind (snapshot_of ?e))"
        "hte_parent e = None" and h: "h = hv_new (as_u64 (hsr_index sl)) (hs_generation (ht_slots (pr_handles p) ! hsr_index sl))"
    have "create_memory_object_handle size_bytes rights (p, om, fa) = (Ok h, (p1\<lparr>pr_handles := ht'\<rparr>, om', fa'))"
      using size res(1,2) slot entry(1) fr m(1) commit(1) inst
      by (simp add: create_memory_object_handle_def reservation_object_id_def Let_def as_u64_def)
    moreover have "proc_ok C D n X (p1\<lparr>pr_handles := ht'\<rparr>, om', fa')"
      by (rule proc_okI [OF _ fr'(1)]) (use ho2 res(3) in \<open>simp add: po_ok_def\<close>)
    ultimately show thesis by (rule that [OF _ _ ho2 e(2) [unfolded ref] e(1,3) at(2) h at(1,3)])
  qed
qed

lemma create_memory_object_cases:
  assumes ok: "proc_ok C D n X (p, om, fa)"
  obtains (created) L i r k p1 h ht' om' fa' e where
      "create_memory_object_handle size_bytes rights (p, om, fa) = (Ok h, (p1\<lparr>pr_handles := ht'\<rparr>, om', fa'))"
      "proc_ok C D n X (p1\<lparr>pr_handles := ht'\<rparr>, om', fa')" "memory_creation_error size_bytes (p, om, fa) = None"
      "ho_ok C D n X (insert (OwnerMemoryObject i (om_gen om i), r) L) (ht', om')" "om_at om i = None"
      "hte_ref e = (i, om_gen om i, KindMemoryObject)" "hte_rights e = rights" "hte_parent e = None"
      "ht_index ht' h = Ok (k)" "k < length (ht_slots (pr_handles p))"
      "ht_slots ht' = (ht_slots (pr_handles p))[k := (ht_slots (pr_handles p) ! k)\<lparr>hs_entry := Some e\<rparr>]"
      "fa_reserve_contiguous (OwnerMemoryObject i (om_gen om i)) size_bytes fa = (Ok r, fa')"
  | (failed) err where "create_memory_object_handle size_bytes rights (p, om, fa) = (Err err, (p, om, fa))"
      "memory_creation_error size_bytes (p, om, fa) = Some err"
proof -
  obtain L where po: "po_ok C D n X L (p, om)" and fa: "fa_ok n L fa" by (rule proc_okE [OF ok])
  have ho: "ho_ok C D n X L (pr_handles p, om)" and b: "rb_remaining_objects (pr_budget p) \<le> usize_max"
    using po by (simp_all add: po_ok_def)
  obtain H where H: "ht_ok C n H (pr_handles p)" "om_ok D n (X + H) {#} L om" by (rule ho_okE [OF ho])
  have wf: "fa_wf fa" using fa by (simp add: fa_ok_def)
  show ?thesis
  proof (cases "size_bytes = 0 \<or> unat size_bytes mod 4096 \<noteq> 0")
    case True
    then show ?thesis by (intro failed) (simp_all add: create_memory_object_handle_def memory_creation_error_def validate_size_eq)
  next
    case False
    then have size: "validate_size size_bytes = Ok ()" by (simp add: validate_size_eq)
    show ?thesis
    proof (cases rule: pr_reserve_object_cases [OF b])
      case (1 res p1)
      have some: "rb_remaining_objects (pr_budget p) \<noteq> 0" using 1(1) by (auto simp: pr_reserve_object_def reserve_object_def split: if_split_asm)
      show ?thesis
      proof (cases rule: ht_reserve_slot_cases [OF H(1)])
        case slot: (1 k)
        then have k: "k < length (ht_slots (pr_handles p))" using ht_okD [OF H(1)] by simp
        then have room: "\<exists>slot \<in> set (ht_slots (pr_handles p)). hs_entry slot = None" using slot(4) nth_mem by blast
        show ?thesis
        proof (cases rule: om_reserve_entry_cases [OF H(2) ho_ok_lengths(4) [OF ho]])
          case entry: (1 i)
          then have free: "None \<in> set (om_entries om)" using om_okD(3,8) [OF H(2)] nth_mem [of "unat i" "om_entries om"]
            by (simp add: om_at_def om_shape_def)
          let ?owner = "OwnerMemoryObject i (om_gen om i)"
          show ?thesis
          proof (cases rule: fa_reserve_contiguous_cases [OF wf, of ?owner size_bytes])
            case (1 r fa')
            have "unat (mfr_end r) div 4096 = unat (mfr_start r) div 4096 + unat size_bytes div 4096" using 1(3,9) by (simp add: mod_eq_0_iff_dvd div_plus_div_distrib_dvd_right)
            then have "free_run (fa_view fa) (unat (mfr_start r) div 4096) (unat size_bytes div 4096)"
              using 1(4) by (simp add: free_run_def mfr_pages_def)
            then have "\<exists>page. free_run (fa_view fa) page (unat size_bytes div 4096)" by blast
            then have none: "memory_creation_error size_bytes (p, om, fa) = None" using False some room free by (auto simp: memory_creation_error_def)
            show ?thesis
              by (rule create_memory_reserved [OF po fa size \<open>pr_reserve_object p = (Ok res, p1)\<close> \<open>pr_handles p1 = pr_handles p\<close>
                    \<open>rb_remaining_objects (pr_budget p1) \<le> usize_max\<close> slot(1) entry(1-3) 1(1), where rights = rights])
                (use none entry(2) k 1(1) in \<open>intro created [where k = k]; simp\<close>)
          qed (use False 1 slot(1) entry(1) some room free in \<open>auto intro!: failed simp: size memory_creation_error_def
              create_memory_object_handle_def reservation_object_id_def as_u64_def Let_def\<close>)
        next
          case 2
          have "om_entries om ! l \<noteq> None" if "l < length (om_entries om)" for l
            using 2(2) [rule_format, of "of_nat l"] that om_okD(3,8) [OF H(2)]
            by (simp add: om_at_def om_shape_def unat_of_nat_u64)
          then have "None \<notin> set (om_entries om)" by (metis in_set_conv_nth)
          then show ?thesis using False 1 slot(1) 2(1) some room
            by (intro failed) (auto simp: size memory_creation_error_def create_memory_object_handle_def)
        qed
      next
        case 2
        have "\<forall>slot \<in> set (ht_slots (pr_handles p)). hs_entry slot \<noteq> None"
          using 2(2) by (cases "position (\<lambda>slot. hs_entry slot = None) (ht_slots (pr_handles p))") (simp_all add: ht_free_index_def position_eq_None)
        then show ?thesis using False 1 2(1) some
          by (intro failed) (auto simp: size memory_creation_error_def create_memory_object_handle_def)
      qed
    next
      case 2
      then show ?thesis using False by (intro failed) (simp_all add: size memory_creation_error_def create_memory_object_handle_def)
    qed
  qed
qed

lemma create_memory_object_handle_ok:
  assumes ok: "proc_ok C D n X (p, om, fa)"
  shows "after (\<lambda>_ s. proc_ok C D n X s) (\<lambda>_ s. s = (p, om, fa)) (create_memory_object_handle size_bytes rights (p, om, fa))"
  by (cases rule: create_memory_object_cases [OF ok, of size_bytes rights]) simp_all

section \<open>Channel pairs\<close>

lemma create_channel_pair_handles_ok:
  assumes ok: "proc_ok C D (Suc n) X (p, om, fa)"
  shows "after (\<lambda>_ s. proc_ok C D n X s) (\<lambda>_ (p', om', fa'). proc_ok C D n X (p', om', fa') \<and> p' = p \<and> fa' = fa \<and> om_at om' = om_at om)
    (create_channel_pair_handles max_messages rights (p, om, fa))"
proof -
  obtain L where po: "po_ok C D (Suc n) X L (p, om)" and fa: "fa_ok (Suc n) L fa" by (rule proc_okE [OF ok])
  have ho: "ho_ok C D (Suc n) X L (pr_handles p, om)" and b: "rb_remaining_objects (pr_budget p) \<le> usize_max"
    using po by (simp_all add: po_ok_def)
  obtain H where H: "ht_ok C (Suc n) H (pr_handles p)" "om_ok D (Suc n) (X + H) {#} L om"
    "size X + C + 16 * D + 4 * Suc n < usize_max" "ht_refs (pr_handles p) = H" by (rule ho_okE [OF ho])
  have bound: "size X + C + 16 * D + 4 * n < usize_max" using H(3) by simp
  have low: "proc_ok C D n X (p, om, fa)" by (rule proc_ok_mono [OF ok]) simp
  show ?thesis
  proof (cases rule: pr_reserve_object_cases [OF b])
    case (1 r p1)
    note res1 = 1
    show ?thesis
    proof (cases rule: pr_reserve_object_cases [OF res1(4)])
      case (1 r' p2)
      note res2 = 1
      have hp: "pr_handles p2 = pr_handles p" and rel: "pr_release_object (pr_release_object p2) = p"
        using res1 res2 by simp_all
      have room: "usize_sub (ht_capacity (pr_handles p2)) (ht_live_count (pr_handles p2)) = (Ok (C - size H) :: usize kernel_result)"
        using ht_ok_size [OF H(1)] ht_okD(2) [OF H(1)] H(4) hp by (simp add: usize_sub_def ht_live_count_eq)
      show ?thesis
      proof (cases "C - size H < 2")
        case True
        then show ?thesis
          using res1(1) res2(1) room rel low by (simp add: create_channel_pair_handles_def)
      next
        case False
        note pair = om_create_channel_pair_ok [OF H(2) ho_ok_lengths(4) [OF ho], of max_messages]
        show ?thesis
        proof (cases "om_create_channel_pair max_messages om" rule: step_cases)
          case (Ok ss om1)
          obtain s1 s2 where ss: "ss = (s1, s2)" by (cases ss)
          have om1: "om_ok D n (X + H) {#} L om1"
            and s1: "names om1 (sn_id s1, sn_generation s1, snapshot_kind s1)"
            and s2: "names om1 (sn_id s2, sn_generation s2, snapshot_kind s2)"
            using pair Ok ss by simp_all
          have ho1: "ho_ok C D n X L (pr_handles p, om1)"
            by (rule ho_okI [OF ht_ok_mono [OF H(1)] om1 bound]) simp
          show ?thesis
          proof (cases rule: ht_install_cases [OF ho1 s1, where rights = rights])
            case (1 i h1 ht2 om2 e1)
            note inst1 = 1
            have s2': "names om2 (sn_id s2, sn_generation s2, snapshot_kind s2)" using s2 1(3) by simp
            show ?thesis
            proof (cases rule: ht_install_cases [OF 1(2) s2', where rights = rights])
              case (1 j h2 ht3 om3 e2)
              have "proc_ok C D n X (p2\<lparr>pr_handles := ht3\<rparr>, om3, fa)"
                by (rule proc_okI [OF _ fa_ok_mono [OF fa]]) (use 1(2) res2(4) in \<open>simp_all add: po_ok_def\<close>)
              then show ?thesis
                using res1(1) res2(1) room False Ok ss inst1(1) 1(1) hp by (simp add: create_channel_pair_handles_def)
            next
              case 2
              have "size (ht_refs ht2) = Suc (size H)"
              proof -
                obtain H2 where H2: "ht_ok C n H2 ht2" "ht_refs ht2 = H2" by (rule ho_okE [OF inst1(2)])
                have "i < length (ht_slots (pr_handles p))" using inst1(5) ht_okD(5) [OF H(1)] by simp
                from count_where_update [OF this, of "\<lambda>slot. hs_entry slot \<noteq> None"]
                have "ht_live_count ht2 = Suc (ht_live_count (pr_handles p))"
                  using inst1(6,9) by (simp add: ht_live_count_def)
                then show ?thesis using H(4) by (simp add: ht_live_count_eq)
              qed
              then show ?thesis using 2(2) False by simp
            qed
          next
            case 2
            then show ?thesis using H(4) False by simp
          qed
        next
          case (Err e om1)
          have "om_ok D n (X + H) {#} L om1" and same: "om_at om1 = om_at om" using pair Err by simp_all
          then have "ho_ok C D n X L (pr_handles p, om1)"
            by (intro ho_okI [OF ht_ok_mono [OF H(1)] _ bound]) simp_all
          then have "proc_ok C D n X (p, om1, fa)"
            by (intro proc_okI [OF _ fa_ok_mono [OF fa]]) (simp_all add: po_ok_def b)
          then show ?thesis
            using res1(1) res2(1) room False Err rel same by (simp add: create_channel_pair_handles_def)
        qed (use pair in simp)
      qed
    next
      case 2
      then show ?thesis using res1 low by (simp add: create_channel_pair_handles_def)
    qed
  next
    case 2
    then show ?thesis using low by (simp add: create_channel_pair_handles_def)
  qed
qed

section \<open>Mapping by handle\<close>

lemma ht_lookup_total: "ho_ok C D n X L (ht, om) \<Longrightarrow> ht_lookup ht om h kind rights \<noteq> Panic"
  by (erule ht_lookup_cases [of _ _ _ _ _ _ _ h kind rights]) auto

lemma map_memory_object_ok:
  assumes ok: "po_ok C D n X L (p, om)"
  shows "after (\<lambda>_ s. po_ok C D n X L s) (\<lambda>_ s. s = (p, om))
    (map_memory_object space memory base size_bytes memory_offset rights (p, om))"
proof -
  have ho: "ho_ok C D n X L (pr_handles p, om)" and b: "rb_remaining_objects (pr_budget p) \<le> usize_max"
    using ok by (simp_all add: po_ok_def)
  obtain H where H: "ht_ok C n H (pr_handles p)" "om_ok D n (X + H) {#} L om" "size X + C + 16 * D + 4 * n < usize_max"
    by (rule ho_okE [OF ho])
  have keep: "po_ok C D n X L (p, om')" if "om_ok D n (X + H) {#} L om'" for om'
    using ho_okI [OF H(1) that H(3)] b by (simp add: po_ok_def)
  have "after (\<lambda>_ s. po_ok C D n X L s) (\<lambda>_ s. s = (p, om))
      (apsnd (\<lambda>om. (p, om)) (om_map_memory_object a m base size_bytes memory_offset rights om))" for a m
    unfolding after_apsnd by (rule after_mono [OF om_map_memory_object_ok [OF H(2)]]) (simp_all add: keep)
  then show ?thesis
    using ht_lookup_total [OF ho] ok by (simp add: map_memory_object_def after_simps split: result.split)
qed

lemma unmap_address_range_ok:
  assumes ok: "po_ok C D (Suc n) X L (p, om)"
  shows "after (\<lambda>_ s. po_ok C D n X L s) (\<lambda>_ s. s = (p, om))
    (unmap_address_range space base size_bytes (p, om))"
proof -
  have ho: "ho_ok C D (Suc n) X L (pr_handles p, om)" and b: "rb_remaining_objects (pr_budget p) \<le> usize_max"
    using ok by (simp_all add: po_ok_def)
  obtain H where H: "ht_ok C (Suc n) H (pr_handles p)" "om_ok D (Suc n) (X + H) {#} L om"
    "size X + C + 16 * D + 4 * Suc n < usize_max" by (rule ho_okE [OF ho])
  have keep: "po_ok C D n X L (p, om')" if "om_ok D n (X + H) {#} L om'" for om'
    using ho_okI [OF ht_ok_mono [OF H(1)] that] H(3) b by (simp add: po_ok_def)
  have "after (\<lambda>_ s. po_ok C D n X L s) (\<lambda>_ s. s = (p, om))
      (apsnd (\<lambda>om. (p, om)) (om_unmap_address_range a base size_bytes om))" for a
    unfolding after_apsnd by (rule after_mono [OF om_unmap_address_range_ok [OF H(2)]]) (simp_all add: keep)
  then show ?thesis
    using ht_lookup_total [OF ho] by (simp add: unmap_address_range_def after_simps split: result.split)
qed

lemma flush_address_space_tlb_ok:
  assumes ok: "proc_ok C D (Suc n) X (p, om, fa)"
  shows "after (\<lambda>_ s. proc_ok C D n X s) (\<lambda>_ s. s = (p, om, fa))
    (flush_address_space_tlb space (p, om, fa))"
proof -
  obtain L where po: "po_ok C D (Suc n) X L (p, om)" and fa: "fa_ok (Suc n) L fa" by (rule proc_okE [OF ok])
  have ho: "ho_ok C D (Suc n) X L (pr_handles p, om)" and b: "rb_remaining_objects (pr_budget p) \<le> usize_max"
    using po by (simp_all add: po_ok_def)
  obtain H where H: "ht_ok C (Suc n) H (pr_handles p)" "om_ok D (Suc n) (X + H) {#} L om"
    "size X + C + 16 * D + 4 * Suc n < usize_max" by (rule ho_okE [OF ho])
  have keep: "proc_ok C D n X (p, om', fa')" if "om_ok D n (X + H) {#} L' om'" "fa_ok n L' fa'" for L' om' fa'
    using ho_okI [OF ht_ok_mono [OF H(1)] that(1)] H(3) b by (intro proc_okI [OF _ that(2)]) (simp add: po_ok_def)
  have "after (\<lambda>_ s. proc_ok C D n X s) (\<lambda>_ s. s = (p, om, fa))
      (apsnd (\<lambda>(om, fa). (p, om, fa)) (om_take_address_space_tlb_invalidation a (om, fa)))" for a
    unfolding after_apsnd
    by (rule after_mono [OF om_take_address_space_tlb_invalidation_ok [OF H(2) fa]])
      (use keep in auto)
  then show ?thesis
    using ht_lookup_total [OF ho] by (simp add: flush_address_space_tlb_def after_simps split: result.split)
qed

section \<open>Sending\<close>

text \<open>What the first loop of a send has checked when it succeeds: the handles are distinct, and each
  resolves to the entry collected for it, with the right to be transferred.\<close>

definition sendable :: "handle_table \<Rightarrow> handle_value \<Rightarrow> handle_table_entry \<Rightarrow> bool" where
  "sendable ht h e \<longleftrightarrow> ht_valid_entry ht h = Ok e \<and> rights_contain (hte_rights e) HR_TRANSFER"

lemma collect_entries_spec:
  assumes ok: "ho_ok C D n X L (ht, om)"
  shows "collect_entries ht om seen hs es \<noteq> Panic \<and> (\<forall>es'. collect_entries ht om seen hs es = Ok es' \<longrightarrow>
    (\<exists>es''. es' = es @ es'' \<and> list_all2 (sendable ht) hs es'' \<and> distinct hs \<and> set hs \<inter> set seen = {}))"
proof (induction hs arbitrary: seen es)
  case Nil
  then show ?case by simp
next
  case (Cons h hs)
  show ?case
  proof (cases "h \<in> set seen")
    case False
    show ?thesis
    proof (cases "ht_peek_kind ht h")
      case (Ok kind)
      show ?thesis
      proof (cases rule: ht_lookup_cases [OF ok, of h kind HR_TRANSFER])
        case (1 v e)
        then have send: "sendable ht h (hvw_entry v)" by (simp add: sendable_def)
        have eq: "collect_entries ht om seen (h # hs) es = collect_entries ht om (seen @ [h]) hs (es @ [hvw_entry v])"
          using False Ok 1(1) by simp
        note IH = Cons.IH [of "seen @ [h]" "es @ [hvw_entry v]"]
        show ?thesis
          unfolding eq
        proof (intro conjI allI impI)
          show "collect_entries ht om (seen @ [h]) hs (es @ [hvw_entry v]) \<noteq> Panic" using IH by blast
          fix es' assume "collect_entries ht om (seen @ [h]) hs (es @ [hvw_entry v]) = Ok es'"
          with IH obtain es'' where "es' = (es @ [hvw_entry v]) @ es''" "list_all2 (sendable ht) hs es''"
            "distinct hs" "set hs \<inter> set (seen @ [h]) = {}" by blast
          then show "\<exists>es''. es' = es @ es'' \<and> list_all2 (sendable ht) (h # hs) es'' \<and> distinct (h # hs) \<and> set (h # hs) \<inter> set seen = {}"
            using send False by (intro exI [of _ "hvw_entry v # es''"]) auto
        qed
      qed (use False Ok in simp_all)
    next
      case (Err e)
      then show ?thesis using False by simp
    next
      case Panic
      obtain H where "ht_ok C n H ht" by (rule ho_okE [OF ok])
      then show ?thesis using Panic ht_valid_entry_total by (auto simp: ht_peek_kind_def result_simps)
    qed
  qed simp
qed

lemma move_handles_ok:
  assumes "ht_ok C (n + length hs) H ht" and "om_ok D m T M L om" and "H \<subseteq># T" and "distinct hs"
    and "list_all2 (sendable ht) hs es"
  shows "\<exists>ht' H'. move_handles om hs moved ht = (Ok (moved @ es), ht') \<and> ht_ok C n H' ht'
    \<and> H = mset (map hte_ref es) + H'"
  using assms
proof (induction hs arbitrary: H ht es moved)
  case Nil
  then show ?case by simp
next
  case (Cons h hs)
  obtain e es' where es: "es = e # es'" and send: "sendable ht h e" and rest: "list_all2 (sendable ht) hs es'"
    using Cons.prems(5) by (auto simp: list_all2_Cons1)
  have ht: "ht_ok C (Suc (n + length hs)) H ht" using Cons.prems(1) by simp
  show ?case
  proof (cases rule: ht_remove_for_transfer_cases [OF ht Cons.prems(2,3), of h])
    case (1 e' ht1 H1)
    have e': "e' = e" using 1(2) send by (simp add: sendable_def)
    have "sendable ht1 h' d" if "h' \<in> set hs" "sendable ht h' d" for h' d
    proof -
      have "h' \<noteq> h" using that(1) Cons.prems(4) by auto
      then show ?thesis using 1(6) that(2) by (simp add: sendable_def)
    qed
    then have rest': "list_all2 (sendable ht1) hs es'"
      using rest by (auto simp: list_all2_conv_all_nth)
    have "H1 \<subseteq># T" using Cons.prems(3) 1(3) by (metis mset_subset_eq_insertD subset_mset.less_imp_le)
    from Cons.IH [OF 1(4) Cons.prems(2) this _ rest', of "moved @ [e]"] Cons.prems(4)
    obtain ht' H' where "move_handles om hs (moved @ [e]) ht1 = (Ok ((moved @ [e]) @ es'), ht')" "ht_ok C n H' ht'"
      "H1 = mset (map hte_ref es') + H'" by auto
    then show ?thesis using 1(1,3) es e' by (intro exI [of _ ht'] exI [of _ H']) simp
  next
    case (2 err)
    then show ?thesis using send by (auto simp: sendable_def)
  qed
qed

lemma message_refs_new:
  assumes "channel_message_new bytes es = Ok m"
  shows "message_wf m" "message_refs m = mset (map hte_ref es)" "length es \<le> 4"
  using assms
  by (cases rule: channel_message_new_cases [of bytes es];
      auto simp: message_refs_def channel_message_new_def MAX_CHANNEL_MESSAGE_HANDLES_def split: if_splits)+

text \<open>A send that fails leaves the process and the objects as they were; a send that succeeds moves
  the handles from the table into the message, which joins the queue of the peer.\<close>

lemma send_channel_message_ok:
  assumes ok: "po_ok C D (n + 4) X L (p, om)"
  shows "after (\<lambda>_ s. po_ok C D n X L s) (\<lambda>_ s. s = (p, om)) (send_channel_message heap channel bytes handles (p, om))"
proof -
  have ho: "ho_ok C D (n + 4) X L (pr_handles p, om)" and b: "rb_remaining_objects (pr_budget p) \<le> usize_max"
    using ok by (simp_all add: po_ok_def)
  obtain H where H: "ht_ok C (n + 4) H (pr_handles p)" "om_ok D (n + 4) (X + H) {#} L om"
    "size X + C + 16 * D + 4 * (n + 4) < usize_max" by (rule ho_okE [OF ho])
  have bound: "size X + C + 16 * D + 4 * n < usize_max" using H(3) by simp
  have om0: "om_ok D n (X + H) {#} L om" by (rule om_ok_mono [OF H(2)]) simp
  show ?thesis
  proof (cases rule: ht_lookup_cases [OF ho, of channel KindChannelEndpoint HR_WRITE])
    case (1 v e)
    note view = 1(1)
    show ?thesis
    proof (cases "om_channel_peer om (sn_id (hvw_object v)) (sn_generation (hvw_object v))")
      case (Ok peer)
      note peer = Ok
      show ?thesis
      proof (cases "om_ensure_channel_can_enqueue om (sn_id peer) (sn_generation peer)")
        case (Ok u)
        note can = Ok
        show ?thesis
        proof (cases "try_reserve_exact heap SiteSendEntries (length handles)")
          case (Ok u')
          note room1 = Ok
          show ?thesis
          proof (cases "collect_entries (pr_handles p) om [] handles []")
            case (Ok es)
            then have es: "list_all2 (sendable (pr_handles p)) handles es" "distinct handles"
              using collect_entries_spec [OF ho, of "[]" handles "[]"] by auto
            note entries = Ok
            show ?thesis
            proof (cases "channel_message_new bytes es")
              case (Ok m)
              note msg = message_refs_new [OF Ok]
              have len: "length handles \<le> 4" using msg(3) list_all2_lengthD [OF es(1)] by simp
              have new: "channel_message_new bytes es = Ok m" by (rule Ok)
              show ?thesis
              proof (cases "try_reserve_exact heap SiteSendMoved (length handles)")
                case (Ok u'')
                have ht: "ht_ok C (n + length handles) H (pr_handles p)"
                  by (rule ht_ok_mono [OF H(1)]) (use len in simp)
                obtain ht' H' where mv: "move_handles om handles [] (pr_handles p) = (Ok ([] @ es), ht')"
                  "ht_ok C n H' ht'" "H = mset (map hte_ref es) + H'"
                  using move_handles_ok [OF ht om0 _ es(2,1), of "[]"] by auto
                have om1: "om_ok D n (message_refs m + (X + H')) {#} L om"
                  using om0 mv(3) msg(2) by (simp add: ac_simps)
                note enq = om_enqueue_channel_message_ok [OF om1 msg(1), of "sn_id peer" "sn_generation peer"]
                obtain om' where q: "om_enqueue_channel_message (sn_id peer) (sn_generation peer) m om = (Ok (), om')"
                  using enq(2) can by auto
                have "po_ok C D n X L (p\<lparr>pr_handles := ht'\<rparr>, om')"
                  using enq(1) q ho_okI [OF mv(2) _ bound] b by (simp add: po_ok_def)
                moreover have "send_channel_message heap channel bytes handles (p, om) = (Ok (), (p\<lparr>pr_handles := ht'\<rparr>, om'))"
                  using view peer can room1 entries new Ok mv(1) q by (simp add: send_channel_message_def)
                ultimately show ?thesis by simp
              qed (use view peer can room1 entries new in \<open>simp_all add: send_channel_message_def try_reserve_exact_eq(3)\<close>)
            next
              case Panic
              then show ?thesis by (simp add: channel_message_new_def split: if_splits)
            qed (use view peer can room1 entries in \<open>simp add: send_channel_message_def\<close>)
          qed (use view peer can room1 collect_entries_spec [OF ho, of "[]" handles "[]"] in \<open>auto simp: send_channel_message_def\<close>)
        qed (use view peer can in \<open>simp_all add: send_channel_message_def try_reserve_exact_eq(3)\<close>)
      qed (use view peer om_ensure_channel_can_enqueue_total [OF H(2)] in \<open>auto simp: send_channel_message_def\<close>)
    qed (use view om_channel_peer_spec(1) [OF H(2)] in \<open>auto simp: send_channel_message_def\<close>)
  qed (simp_all add: send_channel_message_def)
qed

section \<open>Receiving\<close>

lemma receive_handles_ok:
  assumes "ht_ok C n H ht" and "size H + length es \<le> C"
  shows "\<exists>hs' ht'. receive_handles es hs ht = (Ok (hs @ hs'), ht') \<and> length hs' = length es
    \<and> ht_ok C n (mset (map hte_ref es) + H) ht'"
  using assms
proof (induction es arbitrary: H ht hs)
  case Nil
  then show ?case by simp
next
  case (Cons e es)
  show ?case
  proof (cases rule: ht_install_entry_cases [OF Cons.prems(1), of e])
    case (1 h ht1)
    from Cons.IH [OF 1(2), of "hs @ [h]"] Cons.prems(2)
    obtain hs' ht' where "receive_handles es (hs @ [h]) ht1 = (Ok ((hs @ [h]) @ hs'), ht')" "length hs' = length es"
      "ht_ok C n (mset (map hte_ref es) + add_mset (hte_ref e) H) ht'" by auto
    then show ?thesis using 1(1) by (intro exI [of _ "h # hs'"] exI [of _ ht']) simp
  next
    case 2
    then show ?thesis using Cons.prems(2) by simp
  qed
qed

text \<open>A receive moves the handles of the oldest slot's message into the table.  It fails without effect,
  except when the vector for the handles cannot be allocated: then the message is gone, and the
  references of its handles stay counted for ever.\<close>

lemma recv_channel_message_ok:
  assumes ok: "po_ok C D (Suc n) X L (p, om)"
  shows "after (\<lambda>_ s. po_ok C D n X L s)
    (\<lambda>e s. s = (p, om) \<or> e = NoMemory \<and> fst s = p \<and> (\<exists>lost. size lost \<le> 4 \<and> \<not> heap SiteRecvHandles (size lost) \<and> po_ok C D n (lost + X) L s))
    (recv_channel_message heap channel (p, om))"
proof -
  have ho: "ho_ok C D (Suc n) X L (pr_handles p, om)" and b: "rb_remaining_objects (pr_budget p) \<le> usize_max"
    using ok by (simp_all add: po_ok_def)
  obtain H where H: "ht_ok C (Suc n) H (pr_handles p)" "om_ok D (Suc n) (X + H) {#} L om"
    "size X + C + 16 * D + 4 * Suc n < usize_max" "ht_refs (pr_handles p) = H" by (rule ho_okE [OF ho])
  show ?thesis
  proof (cases rule: ht_lookup_cases [OF ho, of channel KindChannelEndpoint HR_READ])
    case (1 v e)
    note view = 1(1)
    have room: "usize_sub (ht_capacity (pr_handles p)) (ht_live_count (pr_handles p)) = (Ok (C - size H) :: usize kernel_result)"
      using ht_ok_size [OF H(1)] ht_okD(2) [OF H(1)] H(4) by (simp add: usize_sub_def ht_live_count_eq)
    show ?thesis
    proof (cases rule: om_dequeue_channel_message_cases [OF H(2), of "sn_id (hvw_object v)" "sn_generation (hvw_object v)"])
      case (1 m om')
      have m: "handle_entries m = live (cm_handles m)" "length (live (cm_handles m)) = cm_handle_count m" "cm_handle_count m \<le> 4"
        using 1(3) by (simp_all add: message_wf_def handle_entries_def MAX_CHANNEL_MESSAGE_HANDLES_def)
      have refs: "message_refs m = mset (map hte_ref (handle_entries m))" by (simp add: message_refs_def m(1))
      have om': "om_ok D n (message_refs m + (X + H)) {#} L om'" by (rule om_ok_mono [OF 1(2)]) simp
      have ht: "ht_ok C n H (pr_handles p)" by (rule ht_ok_mono [OF H(1)]) simp
      show ?thesis
      proof (cases "C - size H < cm_handle_count m")
        case True
        then show ?thesis using view 1(4) room by (simp add: recv_channel_message_def)
      next
        case False
        show ?thesis
        proof (cases "heap SiteRecvHandles (cm_handle_count m)")
          case True
          have "size H + length (handle_entries m) \<le> C" using False ht_ok_size [OF H(1)] m by simp
          from receive_handles_ok [OF ht this, of "[]"] obtain hs' ht' where
            rh: "receive_handles (handle_entries m) [] (pr_handles p) = (Ok hs', ht')"
              "ht_ok C n (message_refs m + H) ht'" unfolding refs by auto
          have "ho_ok C D n X L (ht', om')"
            by (rule ho_okI [OF rh(2)]) (use om' H(3) in \<open>simp_all add: ac_simps\<close>)
          then have "po_ok C D n X L (p\<lparr>pr_handles := ht'\<rparr>, om')" using b by (simp add: po_ok_def)
          moreover have "recv_channel_message heap channel (p, om)
              = (Ok \<lparr>rm_bytes = cm_bytes m, rm_byte_len = cm_byte_len m, rm_handles = hs'\<rparr>, (p\<lparr>pr_handles := ht'\<rparr>, om'))"
            using view 1(1,4) room False True rh(1)
            by (simp add: recv_channel_message_def try_reserve_exact_def ensure_def)
          ultimately show ?thesis by simp
        next
          case no_room: False
          have sz: "size (message_refs m) = cm_handle_count m" by (simp add: message_refs_def m(2))
          have "ho_ok C D n (message_refs m + X) L (pr_handles p, om')"
            by (rule ho_okI [OF ht]) (use om' H(3) sz m(3) in \<open>simp_all add: ac_simps\<close>)
          then have "po_ok C D n (message_refs m + X) L (p, om')" using b by (simp add: po_ok_def)
          moreover have "recv_channel_message heap channel (p, om) = (Err NoMemory, (p, om'))"
            using view 1(1,4) room False no_room
            by (simp add: recv_channel_message_def try_reserve_exact_def ensure_def)
          ultimately show ?thesis using sz m(3) no_room by (auto intro!: exI [of _ "message_refs m"])
        qed
      qed
    next
      case (2 e)
      then show ?thesis using view by (simp add: recv_channel_message_def)
    qed
  qed (simp_all add: recv_channel_message_def)
qed

end
