(* ===== verification/Kernel_Inv.thy ===== *)
theory Kernel_Inv
  imports Syscall Process_Inv
begin

text \<open>
  The invariant of the whole kernel, kept by bootstrap and by every system call.  \<open>kernel_ok B n lost k\<close>
  says that no handle table has more than \<open>B\<close> slots, that the reference counts of all objects are exact
  for the handles of all processes, the handles in messages and the \<open>lost\<close> references of receives that
  ran out of memory, that the frames of each memory object are leased to it alone, and that every
  counter is \<open>n\<close> steps away from overflow.
\<close>

section \<open>The invariant\<close>

definition table_refs :: "process option list \<Rightarrow> href multiset" where
  "table_refs ps = slot_sum (\<lambda>p. ht_refs (pr_handles p)) ps"

definition process_ok :: "nat \<Rightarrow> nat \<Rightarrow> process \<Rightarrow> bool" where
  "process_ok B n p \<longleftrightarrow> ht_ok (ht_capacity (pr_handles p)) n (ht_refs (pr_handles p)) (pr_handles p)
     \<and> ht_capacity (pr_handles p) \<le> B \<and> rb_remaining_objects (pr_budget p) \<le> usize_max"

definition kernel_ok :: "nat \<Rightarrow> nat \<Rightarrow> href multiset \<Rightarrow> kernel \<Rightarrow> bool" where
  "kernel_ok B n lost k \<longleftrightarrow>
     length (ptb_processes (k_processes k)) = ptb_capacity (k_processes k)
     \<and> (\<forall>p. Some p \<in> set (ptb_processes (k_processes k)) \<longrightarrow> process_ok B n p)
     \<and> (\<exists>L. om_ok (om_capacity (k_objects k)) n (lost + table_refs (ptb_processes (k_processes k))) {#} L (k_objects k)
          \<and> fa_ok n L (k_frames k))
     \<and> size lost + B * ptb_capacity (k_processes k) + 16 * om_capacity (k_objects k) + 4 * n < usize_max"

lemma process_ok_mono: "process_ok B n p \<Longrightarrow> m \<le> n \<Longrightarrow> process_ok B m p"
  using ht_ok_mono by (auto simp: process_ok_def)

lemma kernel_ok_mono:
  assumes ok: "kernel_ok B n lost k" and le: "m \<le> n"
  shows "kernel_ok B m lost k"
proof -
  obtain L where "om_ok (om_capacity (k_objects k)) n (lost + table_refs (ptb_processes (k_processes k))) {#} L (k_objects k)"
    "fa_ok n L (k_frames k)" using ok by (auto simp: kernel_ok_def)
  note L = om_ok_mono [OF this(1) le] fa_ok_mono [OF this(2) le]
  have "4 * m \<le> 4 * n" using le by simp
  then show ?thesis using ok L process_ok_mono [OF _ le] unfolding kernel_ok_def by auto
qed

text \<open>The slots of all handle tables bound the references in them.\<close>

definition table_capacity :: "process option list \<Rightarrow> nat" where
  "table_capacity ps = slot_sum (\<lambda>p. ht_capacity (pr_handles p)) ps"

lemma table_capacity_le:
  assumes "\<And>p. Some p \<in> set ps \<Longrightarrow> process_ok B n p"
  shows "table_capacity ps \<le> B * length ps"
  using assms
proof (induction ps)
  case (Cons p ps)
  then show ?case by (cases p) (auto simp: table_capacity_def process_ok_def intro: add_mono)
qed (simp add: table_capacity_def)

lemma size_table_refs_capacity:
  assumes "\<And>p. Some p \<in> set ps \<Longrightarrow> process_ok B n p"
  shows "size (table_refs ps) \<le> table_capacity ps"
  using assms
proof (induction ps)
  case (Cons p ps)
  then show ?case
    by (cases p) (auto simp: table_refs_def table_capacity_def process_ok_def intro!: add_mono ht_ok_size)
qed (simp add: table_refs_def table_capacity_def)

section \<open>One process out of the kernel\<close>

definition other_refs :: "kernel \<Rightarrow> process_id \<Rightarrow> href multiset" where
  "other_refs k i = table_refs ((ptb_processes (k_processes k))[unat i := None])"

lemma ptb_get_cases:
  assumes "length (ptb_processes t) = ptb_capacity t"
  obtains (found) p where "ptb_get t i = Ok p" "unat i < ptb_capacity t" "ptb_processes t ! unat i = Some p"
  | (none) "ptb_get t i = Err InvalidHandle"
  using assms by (cases "unat i < ptb_capacity t"; cases "ptb_processes t ! unat i")
    (auto simp: ptb_get_def ptb_index_def as_usize_def vec_get_def)

lemma table_refs_split:
  assumes "i < length ps"
  shows "ps ! i = Some p \<Longrightarrow> table_refs ps = ht_refs (pr_handles p) + table_refs (ps[i := None])"
    and "table_refs (ps[i := Some p']) = ht_refs (pr_handles p') + table_refs (ps[i := None])"
  using slot_sum_update [OF assms, of "\<lambda>p. ht_refs (pr_handles p)" None]
    slot_sum_update [of i "ps[i := None]" "\<lambda>p. ht_refs (pr_handles p)" "Some p'"] assms
  by (simp_all add: table_refs_def ac_simps)

lemma kernel_ok_process:
  assumes ok: "kernel_ok B n lost k" and i: "unat i < ptb_capacity (k_processes k)"
    and p: "ptb_processes (k_processes k) ! unat i = Some p"
  shows "proc_ok (ht_capacity (pr_handles p)) (om_capacity (k_objects k)) n (lost + other_refs k i) (p, k_objects k, k_frames k)"
    and "ht_capacity (pr_handles p) \<le> B"
proof -
  let ?ps = "ptb_processes (k_processes k)"
  have len: "length ?ps = ptb_capacity (k_processes k)" using ok by (simp add: kernel_ok_def)
  then have il: "unat i < length ?ps" using i by simp
  have "Some p \<in> set ?ps" using il p by (metis nth_mem)
  then have pok: "process_ok B n p" using ok by (simp add: kernel_ok_def)
  then show "ht_capacity (pr_handles p) \<le> B" by (simp add: process_ok_def)
  obtain L where L: "om_ok (om_capacity (k_objects k)) n (lost + table_refs ?ps) {#} L (k_objects k)" "fa_ok n L (k_frames k)"
    using ok by (auto simp: kernel_ok_def)
  have refs: "lost + table_refs ?ps = (lost + other_refs k i) + ht_refs (pr_handles p)"
    using table_refs_split(1) [OF il p] by (simp add: other_refs_def ac_simps)
  have "size (other_refs k i) + ht_capacity (pr_handles p) \<le> B * ptb_capacity (k_processes k)"
  proof -
    have all: "process_ok B n q" if "Some q \<in> set ?ps" for q using ok that by (simp add: kernel_ok_def)
    have rest: "process_ok B n q" if "Some q \<in> set (?ps[unat i := None])" for q
      using all that by (auto dest!: set_update_subset_insert [THEN subsetD])
    have "size (other_refs k i) \<le> table_capacity (?ps[unat i := None])"
      unfolding other_refs_def by (rule size_table_refs_capacity [OF rest])
    moreover have "table_capacity (?ps[unat i := None]) + ht_capacity (pr_handles p) = table_capacity ?ps"
      using slot_sum_update [OF il, of "\<lambda>p. ht_capacity (pr_handles p)" None] p by (simp add: table_capacity_def)
    moreover have "table_capacity ?ps \<le> B * length ?ps" by (rule table_capacity_le [OF all])
    ultimately show ?thesis using len by simp
  qed
  then have "size (lost + other_refs k i) + ht_capacity (pr_handles p) + 16 * om_capacity (k_objects k) + 4 * n < usize_max"
    using ok by (simp add: kernel_ok_def)
  moreover have "om_ok (om_capacity (k_objects k)) n ((lost + other_refs k i) + ht_refs (pr_handles p)) {#} L (k_objects k)"
    using L(1) by (simp only: refs)
  moreover have "ht_ok (ht_capacity (pr_handles p)) n (ht_refs (pr_handles p)) (pr_handles p)"
    using pok by (simp only: process_ok_def)
  ultimately have "ho_ok (ht_capacity (pr_handles p)) (om_capacity (k_objects k)) n (lost + other_refs k i) L (pr_handles p, k_objects k)"
    by (intro ho_okI)
  then have "po_ok (ht_capacity (pr_handles p)) (om_capacity (k_objects k)) n (lost + other_refs k i) L (p, k_objects k)"
    using pok by (simp add: po_ok_def process_ok_def)
  then show "proc_ok (ht_capacity (pr_handles p)) (om_capacity (k_objects k)) n (lost + other_refs k i) (p, k_objects k, k_frames k)"
    using L(2) by (rule proc_okI)
qed

lemma kernel_ok_put:
  assumes ok: "kernel_ok B n lost k" and i: "unat i < ptb_capacity (k_processes k)"
    and m: "m \<le> n" "C \<le> B"
    and s: "proc_ok C (om_capacity (k_objects k)) m (lost' + (lost + other_refs k i)) s"
    and small: "size lost' + 4 * m \<le> 4 * n"
  shows "kernel_ok B m (lost' + lost) (k_put i k s)"
proof -
  obtain p om fa where ss: "s = (p, om, fa)" by (cases s)
  let ?ps = "ptb_processes (k_processes k)" and ?D = "om_capacity (k_objects k)"
  have len: "length ?ps = ptb_capacity (k_processes k)" using ok by (simp add: kernel_ok_def)
  then have il: "unat i < length ?ps" using i by simp
  obtain L where po: "po_ok C ?D m (lost' + (lost + other_refs k i)) L (p, om)" and fa: "fa_ok m L fa"
    by (rule proc_okE [OF s [unfolded ss]])
  then obtain H where H: "ht_ok C m H (pr_handles p)" "om_ok ?D m (lost' + (lost + other_refs k i) + H) {#} L om"
    "ht_refs (pr_handles p) = H" unfolding po_ok_def by (auto elim: ho_okE)
  have "process_ok B m p"
    using H(1,3) ht_okD(2) [OF H(1)] m(2) po by (simp add: process_ok_def po_ok_def)
  then have all: "process_ok B m q" if "Some q \<in> set (?ps[unat i := Some p])" for q
    using that ok process_ok_mono [OF _ m(1)] by (auto simp: kernel_ok_def dest!: set_update_subset_insert [THEN subsetD])
  have eq: "lost' + lost + table_refs (?ps[unat i := Some p]) = lost' + (lost + other_refs k i) + H"
    using table_refs_split(2) [OF il] H(3) by (simp add: other_refs_def ac_simps)
  have "om_ok ?D m (lost' + lost + table_refs (?ps[unat i := Some p])) {#} L om" unfolding eq by (rule H(2))
  moreover have "om_capacity om = ?D" by (rule om_okD(8) [OF H(2)])
  ultimately show ?thesis
    using ok all fa small ss len by (auto simp: kernel_ok_def k_put_def ptb_put_def as_usize_def)
qed

section \<open>System calls\<close>

text \<open>What a failing system call may change: nothing, except that a failed pair may have advanced the
  generation of a free object slot, a failed receive may have lost its message, and a failed
  revocation may have closed some of the handles.\<close>

fun failure_keeps :: "syscall \<Rightarrow> kernel_error \<Rightarrow> process_state \<Rightarrow> process_state \<Rightarrow> bool" where
  "failure_keeps (RevokeDescendants _) e s s' = True"
| "failure_keeps (ChannelRecv _) e s s' = (e = NoMemory \<or> s' = s)"
| "failure_keeps (CreateChannelPair _ _) e (p, om, fa) (p', om', fa') = (p' = p \<and> fa' = fa \<and> om_at om' = om_at om)"
| "failure_keeps _ e s s' = (s' = s)"

lemma failure_keeps_same [simp]: "failure_keeps sc e s s"
  by (cases s; cases sc) simp_all

text \<open>The references that one call can lose: those of the message of a receive that found no memory.\<close>

definition lossy :: "heap \<Rightarrow> href multiset \<Rightarrow> bool" where
  "lossy heap lost \<longleftrightarrow> size lost \<le> 4 \<and> (lost \<noteq> {#} \<longrightarrow> \<not> heap SiteRecvHandles (size lost))"

lemma lossy_empty [simp]: "lossy heap {#}"
  by (simp add: lossy_def)

definition settles :: "heap \<Rightarrow> syscall \<Rightarrow> nat \<Rightarrow> nat \<Rightarrow> nat \<Rightarrow> href multiset \<Rightarrow> process_state \<Rightarrow> 'a kernel_result \<times> process_state \<Rightarrow> bool" where
  "settles heap sc C D n X s0 = after (\<lambda>_ s. \<exists>lost. lossy heap lost \<and> proc_ok C D n (lost + X) s)
     (\<lambda>e s. (\<exists>lost. lossy heap lost \<and> proc_ok C D n (lost + X) s) \<and> failure_keeps sc e s0 s)"

lemma settlesI:
  assumes "after (\<lambda>_ s. proc_ok C D n X s) (\<lambda>e s. proc_ok C D n X s \<and> failure_keeps sc e s0 s) x"
  shows "settles heap sc C D n X s0 x"
  unfolding settles_def by (rule after_mono [OF assms]) (auto intro: exI [of _ "{#}"])

lemma settles_unchanged:
  assumes "after (\<lambda>_ s. proc_ok C D n X s) (\<lambda>_ s. s = s0) x" and "proc_ok C D n X s0"
  shows "settles heap sc C D n X s0 x"
  by (rule settlesI, rule after_mono [OF assms(1)]) (use assms(2) in auto)

lemma after_with_objects:
  assumes "after (\<lambda>_ s. po_ok C D n X L s) (\<lambda>_ s. s = (p, om)) x" and "fa_ok n L fa"
  shows "after (\<lambda>_ s. proc_ok C D n X s) (\<lambda>_ s. s = (p, om, fa)) (with_objects fa x)"
  unfolding with_objects_def after_apsnd
  by (rule after_mono [OF assms(1)]) (use assms(2) in \<open>auto intro: proc_okI\<close>)

lemma after_with_handles:
  assumes "after (\<lambda>_ s. sys_ok C D n X s) (\<lambda>_ s. s = (pr_handles p, om, fa)) x" and "proc_ok C D n X (p, om, fa)"
  shows "after (\<lambda>_ s. proc_ok C D n X s) (\<lambda>_ s. s = (p, om, fa)) (with_handles p x)"
  unfolding with_handles_def after_apsnd
  by (rule after_mono [OF assms(1)]) (use assms(2) in \<open>auto simp: proc_ok_def\<close>)

lemma dispatch_settles:
  assumes ok: "proc_ok C D (n + B + 4) X (p, om, fa)" and C: "C \<le> B"
  shows "case dispatch heap sc i k (p, om, fa) of
      None \<Rightarrow> \<exists>root. sc = RevokeDescendants root \<and> ht_revoke_descendants heap root (pr_handles p, om, fa) = None
    | Some y \<Rightarrow> \<exists>r s. y = (r, k_put i k s) \<and> settles heap sc C D n X (p, om, fa) (r, s)"
proof -
  have low: "proc_ok C D n X (p, om, fa)" by (rule proc_ok_mono [OF ok]) simp
  have suc: "proc_ok C D (Suc n) X (p, om, fa)" by (rule proc_ok_mono [OF ok]) simp
  obtain L where po: "po_ok C D (n + B + 4) X L (p, om)" and fa: "fa_ok (n + B + 4) L fa" by (rule proc_okE [OF ok])
  have po0: "po_ok C D n X L (p, om)" and fa0: "fa_ok n L fa" and po1: "po_ok C D (Suc n) X L (p, om)"
    and po4: "po_ok C D (n + 4) X L (p, om)"
    using po_ok_mono [OF po] fa_ok_mono [OF fa] by simp_all
  have out: "\<exists>r s. outcome f i k x = (r, k_put i k s) \<and> settles heap sc C D n X (p, om, fa) (r, s)"
    if "settles heap sc C D n X (p, om, fa) x" for f :: "'a \<Rightarrow> syscall_outcome" and x
    using that by (cases x) (auto simp: outcome_def settles_def after_simps)
  note keep = settles_unchanged [OF _ low]
  show ?thesis
  proof (cases sc)
    case (CreateObject kind rights)
    then show ?thesis
      using out [OF keep [OF after_with_objects [OF create_object_handle_ok [OF po0] fa0]]] by simp
  next
    case (CreateMemoryObject size_bytes rights)
    then show ?thesis using out [OF keep [OF create_memory_object_handle_ok [OF low]]] by simp
  next
    case (CreateAddressSpace rights)
    then show ?thesis
      using out [OF keep [OF after_with_objects [OF create_object_handle_ok [OF po0] fa0]]]
      by (simp add: create_address_space_handle_eq)
  next
    case (MapMemoryObject a m base size_bytes offset rights)
    then show ?thesis using out [OF keep [OF after_with_objects [OF map_memory_object_ok [OF po0] fa0]]] by simp
  next
    case (UnmapAddressRange a base size_bytes)
    then show ?thesis using out [OF keep [OF after_with_objects [OF unmap_address_range_ok [OF po1] fa0]]] by simp
  next
    case (FlushAddressSpaceTlb a)
    then show ?thesis using out [OF keep [OF flush_address_space_tlb_ok [OF suc]]] by simp
  next
    case (CreateChannelPair max_messages rights)
    have "settles heap sc C D n X (p, om, fa) (create_channel_pair_handles max_messages rights (p, om, fa))"
      by (rule settlesI, rule after_mono [OF create_channel_pair_handles_ok [OF suc]]) (use CreateChannelPair in auto)
    from out [OF this] show ?thesis using CreateChannelPair by simp
  next
    case (ChannelSend channel bytes handles)
    then show ?thesis using out [OF keep [OF after_with_objects [OF send_channel_message_ok [OF po4] fa0]]] by simp
  next
    case (ChannelRecv channel)
    have "settles heap sc C D n X (p, om, fa) (with_objects fa (recv_channel_message heap channel (p, om)))"
      unfolding settles_def with_objects_def after_apsnd
    proof (rule after_mono [OF recv_channel_message_ok [OF po1]])
      fix m s assume "po_ok C D n X L s"
      then show "\<exists>lost. lossy heap lost \<and> proc_ok C D n (lost + X) ((\<lambda>(p, om). (p, om, fa)) s)"
        using fa0 by (cases s) (auto intro!: exI [of _ "{#}"] proc_okI)
    next
      fix e s assume s: "s = (p, om) \<or> e = NoMemory \<and> fst s = p \<and> (\<exists>lost. size lost \<le> 4
        \<and> \<not> heap SiteRecvHandles (size lost) \<and> po_ok C D n (lost + X) L s)"
      then have "\<exists>lost. lossy heap lost \<and> proc_ok C D n (lost + X) ((\<lambda>(p, om). (p, om, fa)) s)"
      proof
        assume "s = (p, om)"
        then show ?thesis using low by (intro exI [of _ "{#}"]) simp
      next
        assume "e = NoMemory \<and> fst s = p \<and> (\<exists>lost. size lost \<le> 4 \<and> \<not> heap SiteRecvHandles (size lost) \<and> po_ok C D n (lost + X) L s)"
        then obtain lost where "lossy heap lost" "po_ok C D n (lost + X) L s" by (auto simp: lossy_def)
        then show ?thesis using fa0 by (cases s) (auto intro: proc_okI)
      qed
      then show "(\<exists>lost. lossy heap lost \<and> proc_ok C D n (lost + X) ((\<lambda>(p, om). (p, om, fa)) s))
          \<and> failure_keeps sc e (p, om, fa) ((\<lambda>(p, om). (p, om, fa)) s)"
        using s ChannelRecv by auto
    qed
    from out [OF this] show ?thesis using ChannelRecv by simp
  next
    case (DuplicateHandle source rights)
    have "ho_ok C D n X L (pr_handles p, om)" using po0 by (simp add: po_ok_def)
    from ht_duplicate_ok [OF this, of source rights]
    have "after (\<lambda>_ s. sys_ok C D n X s) (\<lambda>_ s. s = (pr_handles p, om, fa))
        (apsnd (\<lambda>(ht, om). (ht, om, fa)) (ht_duplicate source rights (pr_handles p, om)))"
      unfolding after_apsnd by (rule after_mono) (use fa0 in \<open>auto intro: sys_okI\<close>)
    from out [OF keep [OF after_with_handles [OF this low]]] show ?thesis using DuplicateHandle by simp
  next
    case (CloseHandle h)
    have "sys_ok C D (Suc n) X (pr_handles p, om, fa)" using suc by (simp add: proc_ok_def)
    from out [OF keep [OF after_with_handles [OF ht_close_ok [OF this] low]]] show ?thesis using CloseHandle by simp
  next
    case (RevokeDescendants root)
    show ?thesis
    proof (cases "ht_revoke_descendants heap root (pr_handles p, om, fa)")
      case None
      then show ?thesis using RevokeDescendants by simp
    next
      case (Some x)
      have "sys_ok C D (n + C) X (pr_handles p, om, fa)"
        by (rule sys_ok_mono [of C D "n + B + 4"]) (use ok C in \<open>simp_all add: proc_ok_def\<close>)
      note rv = ht_revoke_descendants_ok [OF this Some]
      have b: "rb_remaining_objects (pr_budget p) \<le> usize_max" using low by (simp add: proc_ok_def)
      have put: "proc_ok C D n X ((\<lambda>(ht, om, fa). (p\<lparr>pr_handles := ht\<rparr>, om, fa)) s)" if "sys_ok C D n X s" for s
        using that b by (cases s) (simp add: proc_ok_def)
      have "after (\<lambda>_ s. proc_ok C D n X s) (\<lambda>e s. proc_ok C D n X s \<and> failure_keeps sc e (p, om, fa) s) (with_handles p x)"
        unfolding with_handles_def after_apsnd by (rule after_mono [OF rv]) (use put RevokeDescendants in auto)
      then have "settles heap sc C D n X (p, om, fa) (with_handles p x)" by (rule settlesI)
      from out [OF this] show ?thesis using RevokeDescendants Some by simp
    qed
  qed
qed

text \<open>One system call: it keeps the invariant, does not panic, and returns unless it revokes.\<close>

lemma execute_cases:
  assumes ok: "kernel_ok B (n + B + 4) lost k"
  obtains (bad) "execute heap cx sc k = Some (Err InvalidHandle, k)"
  | (diverges) root where "execute heap cx sc k = None" "sc = RevokeDescendants root"
  | (returns) r s p lost' where "execute heap cx sc k = Some (r, k_put (sc_process cx) k s)" "r \<noteq> Panic"
      "kernel_ok B n (lost' + lost) (k_put (sc_process cx) k s)" "lossy heap lost'"
      "ptb_get (k_processes k) (sc_process cx) = Ok p"
      "\<And>e. r = Err e \<Longrightarrow> failure_keeps sc e (p, k_objects k, k_frames k) s"
proof -
  let ?i = "sc_process cx"
  have "length (ptb_processes (k_processes k)) = ptb_capacity (k_processes k)" using ok by (simp add: kernel_ok_def)
  then show ?thesis
  proof (cases rule: ptb_get_cases [of _ ?i])
    case (found p)
    note pr = kernel_ok_process [OF ok found(2,3)]
    show ?thesis
    proof (cases "dispatch heap sc ?i k (p, k_objects k, k_frames k)")
      case None
      then show ?thesis using dispatch_settles [OF pr, where heap = heap and sc = sc and i = ?i and k = k] found(1) diverges by (auto simp: execute_def)
    next
      case (Some y)
      then obtain r s where y: "y = (r, k_put ?i k s)"
        and st: "settles heap sc (ht_capacity (pr_handles p)) (om_capacity (k_objects k)) n (lost + other_refs k ?i)
          (p, k_objects k, k_frames k) (r, s)"
        using dispatch_settles [OF pr, where heap = heap and sc = sc and i = ?i and k = k] by auto
      from st obtain lost' where lost': "lossy heap lost'"
        "proc_ok (ht_capacity (pr_handles p)) (om_capacity (k_objects k)) n (lost' + (lost + other_refs k ?i)) s"
        and r: "r \<noteq> Panic" and keep: "\<And>e. r = Err e \<Longrightarrow> failure_keeps sc e (p, k_objects k, k_frames k) s"
        by (cases r) (auto simp: settles_def)
      have "kernel_ok B n (lost' + lost) (k_put ?i k s)"
        by (rule kernel_ok_put [OF ok found(2) _ pr(2) lost'(2)]) (use lost'(1) in \<open>simp_all add: lossy_def\<close>)
      then show ?thesis
        using returns [of r s lost' p] Some y r lost'(1) found(1) keep by (simp add: execute_def)
    qed
  next
    case none
    then show ?thesis using bad by (simp add: execute_def)
  qed
qed

section \<open>Bootstrap\<close>

lemma fa_from_available_ranges_ok:
  assumes r: "list_all mfr_ok ranges" and n: "n + 1 < 2 ^ 64"
  shows "fa_from_available_ranges heap ranges \<noteq> Panic"
    and "fa_from_available_ranges heap ranges = Ok fa \<Longrightarrow> fa_ok n {} fa"
proof -
  note c = fa_from_available_ranges_cases [OF r, of heap]
  then show "fa_from_available_ranges heap ranges \<noteq> Panic" by auto
  assume "fa_from_available_ranges heap ranges = Ok fa"
  then have "fa_wf fa" "\<forall>e \<in> set (fa_frames fa). fe_generation e = INITIAL"
    "fa_view fa = (\<lambda>p. if p \<in> \<Union> (mfr_pages ` set ranges) then Some Free else None)" using c by simp_all
  then show "fa_ok n {} fa"
    using n by (auto simp: fa_ok_def frames.leased_empty generations_margin_def fa_generations_def INITIAL_def)
qed

lemma om_with_capacity_total: "om_with_capacity heap C \<noteq> Panic"
  by (auto simp: om_with_capacity_def result_simps)

lemma kernel_new_ok:
  assumes r: "list_all mfr_ok ranges" and bound: "B * P + 16 * D + 4 * n < usize_max"
  shows "kernel_new heap D P ranges \<noteq> Panic"
    and "kernel_new heap D P ranges = Ok k \<Longrightarrow> kernel_ok B n {#} k"
proof -
  have n: "n + 1 < 2 ^ 64" and D: "D \<le> usize_max" using bound by (simp_all add: usize_max_def)
  show "kernel_new heap D P ranges \<noteq> Panic"
    using om_with_capacity_total fa_from_available_ranges_ok(1) [OF r n]
    by (auto simp: kernel_new_def result_simps ptb_with_capacity_def)
  assume "kernel_new heap D P ranges = Ok k"
  then obtain om fa where om: "om_with_capacity heap D = Ok om" and fa: "fa_from_available_ranges heap ranges = Ok fa"
    and k: "k = \<lparr>k_objects = om, k_processes = \<lparr>ptb_processes = replicate P None, ptb_capacity = P\<rparr>, k_frames = fa\<rparr>"
    by (auto simp: kernel_new_def result_simps ptb_with_capacity_def)
  have "om_ok D n {#} {#} {} om" by (rule om_ok_empty [OF om n D])
  moreover have "fa_ok n {} fa" by (rule fa_from_available_ranges_ok(2) [OF r n fa])
  moreover have "table_refs (replicate P None) = {#}" by (simp add: table_refs_def)
  moreover have "om_capacity om = D" using om by (auto simp: om_with_capacity_def result_simps)
  ultimately show "kernel_ok B n {#} k" using k bound by (auto simp: kernel_ok_def)
qed

lemma process_new_cases:
  assumes "handle_capacity \<le> 2 ^ 32" and "n + 1 < 2 ^ 64"
  obtains (ok) p where "process_new heap i handle_capacity object_quota = Ok p" "ht_ok handle_capacity n {#} (pr_handles p)"
      "pr_budget p = \<lparr>rb_remaining_objects = object_quota\<rparr>"
  | (err) "process_new heap i handle_capacity object_quota = Err NoMemory"
proof (cases "heap SiteHandleSlots handle_capacity")
  case True
  let ?ht = "\<lparr>ht_slots = replicate handle_capacity \<lparr>hs_entry = None, hs_generation = INITIAL\<rparr>, ht_capacity = handle_capacity\<rparr>"
  have "ht_with_capacity heap handle_capacity = Ok ?ht"
    using True by (simp add: ht_with_capacity_def try_reserve_exact_def ensure_def)
  moreover have "ht_ok handle_capacity n {#} ?ht"
    using assms by (auto simp: ht_ok_def ht_wf_def generations_margin_def INITIAL_def ht_refs_def ht_entries_def)
  ultimately show ?thesis
    by (intro ok [of "\<lparr>pr_id = i, pr_handles = ?ht, pr_budget = \<lparr>rb_remaining_objects = object_quota\<rparr>,
        pr_address_space = None, pr_thread_count = 0\<rparr>"]) (simp_all add: process_new_def)
next
  case False
  then show ?thesis
    by (intro err) (simp add: process_new_def ht_with_capacity_def try_reserve_exact_def ensure_def)
qed

lemma create_bootstrap_process_ok:
  assumes ok: "kernel_ok B n lost k" and B: "B \<le> 2 ^ 32" and c: "handle_capacity \<le> B" "object_quota \<le> usize_max"
  shows "after (\<lambda>_ k'. kernel_ok B n lost k') (\<lambda>_ k'. k' = k) (create_bootstrap_process heap handle_capacity object_quota k)"
proof -
  let ?ps = "ptb_processes (k_processes k)" and ?D = "om_capacity (k_objects k)"
  have len: "length ?ps = ptb_capacity (k_processes k)" and n: "n + 1 < 2 ^ 64"
    using ok by (simp_all add: kernel_ok_def usize_max_def)
  obtain L where L: "om_ok ?D n (lost + table_refs ?ps) {#} L (k_objects k)" "fa_ok n L (k_frames k)"
    using ok by (auto simp: kernel_ok_def)
  have kk: "k\<lparr>k_processes := k_processes k, k_objects := k_objects k\<rparr> = k" by simp
  show ?thesis
  proof (cases "position (\<lambda>slot. slot = None) ?ps")
    case None
    then show ?thesis by (simp add: create_bootstrap_process_def create_bootstrap_def)
  next
    case (Some j)
    have j: "j < length ?ps" "?ps ! j = None" using position_SomeD(1,2) [OF Some] by simp_all
    have hc: "handle_capacity \<le> 2 ^ 32" using c(1) B by simp
    show ?thesis
    proof (cases rule: process_new_cases [OF hc n, where heap = heap and i = "as_u64 j" and object_quota = object_quota])
      case (1 p)
      have all: "process_ok B n q" if "Some q \<in> set ?ps" for q using ok that by (simp add: kernel_ok_def)
      have cap: "handle_capacity + size (table_refs ?ps) \<le> B * length ?ps"
      proof -
        have "slot_sum (\<lambda>p. ht_capacity (pr_handles p)) (?ps[j := Some p]) = table_capacity ?ps + handle_capacity"
          using slot_sum_update [OF j(1), of "\<lambda>p. ht_capacity (pr_handles p)" "Some p"] j(2) ht_okD(2) [OF 1(2)]
          by (simp add: table_capacity_def)
        moreover have "process_ok B n p"
          using 1(2,3) c ht_okD(2,4) [OF 1(2)] by (simp add: process_ok_def)
        then have "table_capacity (?ps[j := Some p]) \<le> B * length (?ps[j := Some p])"
          using all by (intro table_capacity_le) (auto dest!: set_update_subset_insert [THEN subsetD])
        ultimately show ?thesis
          using size_table_refs_capacity [of ?ps B n] all by (simp add: table_capacity_def)
      qed
      have "size (lost + table_refs ?ps) + handle_capacity + 16 * ?D + 4 * n < usize_max"
        using cap len ok by (simp add: kernel_ok_def)
      then have "po_ok handle_capacity ?D n (lost + table_refs ?ps) L (p, k_objects k)"
        using 1(2,3) c(2) L(1) ho_okI [of handle_capacity n "{#}" "pr_handles p" ?D "lost + table_refs ?ps" L "k_objects k"]
        by (simp add: po_ok_def)
      note create = create_object_handle_ok [OF this, of KindProcess "HR_READ OR HR_MANAGE"]
      show ?thesis
      proof (cases "create_object_handle KindProcess (HR_READ OR HR_MANAGE) (p, k_objects k)" rule: step_cases)
        case (Ok h s)
        obtain p' om' where s: "s = (p', om')" by (cases s)
        have po: "po_ok handle_capacity ?D n (lost + table_refs ?ps) L (p', om')" using create Ok s by simp
        then obtain H where H: "ht_ok handle_capacity n H (pr_handles p')" "om_ok ?D n (lost + table_refs ?ps + H) {#} L om'"
          "ht_refs (pr_handles p') = H" unfolding po_ok_def by (auto elim: ho_okE)
        have "process_ok B n p'" using H(1,3) ht_okD(2) [OF H(1)] c(1) po by (simp add: process_ok_def po_ok_def)
        then have all': "process_ok B n q" if "Some q \<in> set (?ps[j := Some p'])" for q
          using that all by (auto dest!: set_update_subset_insert [THEN subsetD])
        have eq: "lost + table_refs (?ps[j := Some p']) = lost + table_refs ?ps + H"
          using table_refs_split(2) [OF j(1), of p'] H(3) j by (simp add: ac_simps list_update_same_conv [THEN iffD2])
        have "om_ok ?D n (lost + table_refs (?ps[j := Some p'])) {#} L om'" unfolding eq by (rule H(2))
        moreover have "om_capacity om' = ?D" by (rule om_okD(8) [OF H(2)])
        moreover have "create_bootstrap_process heap handle_capacity object_quota k
            = (Ok (as_u64 j), k\<lparr>k_processes := (k_processes k)\<lparr>ptb_processes := ?ps[j := Some p']\<rparr>, k_objects := om'\<rparr>)"
          using Some 1(1) Ok s by (simp add: create_bootstrap_process_def create_bootstrap_def)
        ultimately show ?thesis using ok all' L(2) len by (auto simp: kernel_ok_def)
      next
        case (Err e s)
        then show ?thesis
          using create Some 1(1) by (cases s) (simp add: create_bootstrap_process_def create_bootstrap_def)
      qed (use create in simp)
    next
      case 2
      then show ?thesis using Some by (simp add: create_bootstrap_process_def create_bootstrap_def)
    qed
  qed
qed

section \<open>Runs of the kernel\<close>

text \<open>
  \<open>kernel_run B H n k\<close>: the kernel \<open>k\<close> is reached from a new one by creating processes with at most \<open>B\<close>
  handle slots each and by system calls, where the heap answers each allocation in any way that \<open>H\<close>
  allows, and \<open>n\<close> is what is left of the initial distance to the overflow of a 64-bit counter.  A system
  call uses up at most \<open>B + 4\<close>: closing a handle advances one generation, and a revocation closes at
  most \<open>B\<close>.
\<close>

inductive kernel_run :: "nat \<Rightarrow> (heap \<Rightarrow> bool) \<Rightarrow> nat \<Rightarrow> kernel \<Rightarrow> bool" for B H where
  run_boot: "kernel_new heap D P ranges = Ok k \<Longrightarrow> list_all mfr_ok ranges
    \<Longrightarrow> B * P + 16 * D + 4 * n < usize_max \<Longrightarrow> kernel_run B H n k"
| run_process: "kernel_run B H n k \<Longrightarrow> create_bootstrap_process heap handle_capacity object_quota k = (r, k')
    \<Longrightarrow> handle_capacity \<le> B \<Longrightarrow> object_quota \<le> usize_max \<Longrightarrow> kernel_run B H n k'"
| run_call: "kernel_run B H (n + B + 4) k \<Longrightarrow> H heap \<Longrightarrow> execute heap cx sc k = Some (r, k') \<Longrightarrow> kernel_run B H n k'"

text \<open>A heap that never refuses the vector of a receive.\<close>

definition recv_heap :: "heap \<Rightarrow> bool" where
  "recv_heap heap \<longleftrightarrow> (\<forall>n \<le> 4. heap SiteRecvHandles n)"

lemma kernel_run_ok:
  assumes "kernel_run B H n k" and B: "B \<le> 2 ^ 32"
  shows "\<exists>lost. kernel_ok B n lost k \<and> ((\<forall>heap. H heap \<longrightarrow> recv_heap heap) \<longrightarrow> lost = {#})"
  using assms(1)
proof (induction)
  case (run_boot heap D P ranges k n)
  then show ?case using kernel_new_ok(2) by blast
next
  case (run_process n k heap handle_capacity object_quota r k')
  then obtain lost where ok: "kernel_ok B n lost k" and lost: "(\<forall>heap. H heap \<longrightarrow> recv_heap heap) \<longrightarrow> lost = {#}" by blast
  from create_bootstrap_process_ok [OF ok B run_process(3,4), of heap] ok have "kernel_ok B n lost k'"
    using run_process(2) by (cases r) auto
  then show ?case using lost by blast
next
  case (run_call n k heap cx sc r k')
  then obtain lost where ok: "kernel_ok B (n + B + 4) lost k"
    and lost: "(\<forall>heap. H heap \<longrightarrow> recv_heap heap) \<longrightarrow> lost = {#}" by blast
  from ok show ?case
  proof (cases rule: execute_cases [OF ok, of heap cx sc])
    case 1
    then show ?thesis using run_call(3) kernel_ok_mono [OF ok, of n] lost by auto
  next
    case 2
    then show ?thesis using run_call(3) by simp
  next
    case (3 r s p lost')
    then have "recv_heap heap \<longrightarrow> lost' = {#}" by (auto simp: lossy_def recv_heap_def)
    then have "(\<forall>heap. H heap \<longrightarrow> recv_heap heap) \<longrightarrow> lost' + lost = {#}" using lost run_call(2) by auto
    then show ?thesis using 3(1,3) run_call(3) by auto
  qed
qed

end
