(* ===== verification/Kernel_Demo.thy ===== *)
theory Kernel_Demo
  imports Kernel_Inv
begin

text \<open>
  A small kernel on which the properties of the whole kernel are applied: four object slots, one process
  with four handle slots and a quota of four objects, two frames, a heap that always has room.
\<close>

text \<open>The definitions that a call runs through.  The congruence rules keep the simplifier out of the
  continuation of a statement until its first step has a value.\<close>

lemma step_congs:
  "x = x' \<Longrightarrow> sbind x f = sbind x' f" "r = r' \<Longrightarrow> lift r s g = lift r' s g" "r = r' \<Longrightarrow> rbind r h = rbind r' h"
  by simp_all

lemmas base_defs = frame_range_new_def frame_range_len_def is_page_aligned_def PAGE_SIZE_def u64_mul_def u64_add_def u64_sub_def
  assert_that_def ensure_def usize_max_def usize_add_def usize_sub_def usize_checked_add_def
  usize_saturating_add_def usize_saturating_sub_def checked_add_def usize_try_from_def as_usize_def as_u64_def
  next_generation_def vec_get_def vec_set_def count_where_def Let_def try_reserve_exact_def INITIAL_def
  hv_index_def hv_code HR_READ_def HR_WRITE_def HR_EXECUTE_def HR_TRANSFER_def HR_DUPLICATE_def HR_MANAGE_def
  rights_contain_def

lemmas object_defs =
  snapshot_of_def snapshot_kind_def reservation_object_id_def om_with_capacity_def om_live_count_def
  om_index_def om_entry_def om_put_def om_snapshot_def om_live_entry_def om_live_payload_def om_put_payload_def
  om_validate_def om_event_def om_memory_object_def om_address_space_def om_channel_endpoint_def
  om_reserve_entry_def om_commit_reserved_def om_create_payload_def om_create_def om_create_channel_endpoint_def
  om_signal_event_def om_clear_event_def om_add_handle_def om_remove_handle_def om_ensure_handle_can_close_def
  om_remove_slot_def om_mark_peer_closed_def om_destroy_def om_destroy_memory_object_def om_set_peer_def
  om_link_channel_pair_def om_create_channel_pair_def om_channel_peer_def om_ensure_channel_can_enqueue_def
  om_enqueue_channel_message_def om_next_channel_message_handle_count_def om_dequeue_channel_message_def
  om_add_memory_mapping_def om_remove_memory_mapping_def om_map_into_address_space_def om_map_memory_object_def
  om_unmap_address_range_def om_reclaim_memory_object_if_unreferenced_def
  om_take_address_space_tlb_invalidation_def MAX_CHANNEL_MESSAGES_def MAX_CHANNEL_MESSAGE_BYTES_def
  MAX_CHANNEL_MESSAGE_HANDLES_def channel_message_new_def message_bytes_def handle_entries_def endpoint_new_def
  endpoint_ensure_can_enqueue_def endpoint_enqueue_def endpoint_next_handle_count_def endpoint_dequeue_def

lemmas handle_defs =
  ht_with_capacity_def ht_live_count_def ht_index_def ht_slot_def ht_entry_def ht_valid_entry_def ht_lookup_def
  ht_peek_kind_def ht_free_index_def ht_reserve_slot_def ht_put_entry_def ht_install_reserved_def ht_install_def
  ht_install_entry_def ht_duplicate_def ht_remove_entry_def ht_remove_for_transfer_def ht_close_def
  ht_revoke_descendants_def

lemmas process_defs =
  reserve_object_def release_object_def pr_reserve_object_def pr_release_object_def process_new_def
  create_preflighted_object_handle_def create_object_handle_def create_address_space_handle_def
  create_memory_object_handle_def create_channel_pair_handles_def view_ref_def map_memory_object_def
  unmap_address_range_def flush_address_space_tlb_def send_channel_message_def recv_channel_message_def
  received_bytes_def ptb_with_capacity_def ptb_index_def ptb_get_def ptb_put_def create_bootstrap_def
  kernel_new_def create_bootstrap_process_def k_put_def outcome_def with_objects_def with_handles_def
  execute_def lookup_handle_def

lemmas memory_defs =
  MAX_PENDING_TLB_INVALIDATIONS_def DEFAULT_VM_RANGE_CAPACITY_def validate_size_def memory_object_new_def
  validate_mapping_def add_mapping_def remove_mapping_def can_reclaim_def paddr_try_from_def
  page_table_frame_range_def vm_end_def ranges_overlap_def live_def rs_new_def reserve_map_def commit_map_def
  reserve_unmap_def reserved_mapping_def commit_unmap_def pts_empty_def pts_reserve_def pts_commit_def
  occupied_sequences_def pts_take_next_def as_new_def mapping_count_def as_mappings_def can_destroy_def
  descriptor_virtual_range_def descriptor_validate_def page_table_rights_of_def prepare_map_def
  map_reservation_commit_def prepare_unmap_def unmap_reservation_commit_def take_pending_tlb_invalidation_def
  MEM_PAGE_SIZE_def mem_is_page_aligned_def mfr_new_def mfr_len_def mfr_frame_count_def frame_count_for_size_def
  fa_reserve_contiguous_def windows_def window_entry_ok_def contiguous_free_run_def fa_free_range_def
  in_frame_range_def fa_index_def PT_READ_def PT_WRITE_def PT_EXECUTE_def validate_page_range_def
  virtual_range_new_def virtual_range_end_def intent_map_def intent_unmap_def intent_virtual_range_def
  tlb_intent_new_def

named_theorems demo_defs \<open>the parts of the small kernel\<close>

definition demo_heap :: heap where [demo_defs]:
  "demo_heap = (\<lambda>_ _. True)"

definition demo_context :: syscall_context where [demo_defs]:
  "demo_context = \<lparr>sc_process = 0\<rparr>"

definition demo_process :: "handle_slot list \<Rightarrow> usize \<Rightarrow> process" where [demo_defs]:
  "demo_process slots budget = \<lparr>pr_id = 0, pr_handles = \<lparr>ht_slots = slots, ht_capacity = 4\<rparr>,
     pr_budget = \<lparr>rb_remaining_objects = budget\<rparr>, pr_address_space = None, pr_thread_count = 0\<rparr>"

text \<open>A kernel of this size with the given objects, handles, budget and state of the first frame.\<close>

definition demo_state :: "object_entry option list \<Rightarrow> handle_slot list \<Rightarrow> usize \<Rightarrow> frame_state \<Rightarrow> kernel" where [demo_defs]:
  "demo_state objects slots budget frame = \<lparr>
     k_objects = \<lparr>om_entries = objects, om_generations = [1, 1, 1, 1], om_capacity = 4\<rparr>,
     k_processes = \<lparr>ptb_processes = [Some (demo_process slots budget)], ptb_capacity = 1\<rparr>,
     k_frames = \<lparr>fa_frames = [\<lparr>fe_paddr = 4096, fe_generation = 1, fe_state = frame\<rparr>,
         \<lparr>fe_paddr = 8192, fe_generation = 1, fe_state = Free\<rparr>]\<rparr>\<rparr>"

lemma demo_get: "ptb_get (k_processes (demo_state objects slots budget frame)) (sc_process demo_context) = Ok (demo_process slots budget)"
  by (simp add: demo_defs base_defs process_defs)

lemma demo_at: "om_at (k_objects (demo_state objects slots budget frame)) i = (if unat i < 4 then objects ! unat i else None)"
  by (simp add: demo_state_def om_at_def)

definition demo_object :: "object_id \<Rightarrow> object_payload \<Rightarrow> usize \<Rightarrow> object_entry option" where [demo_defs]:
  "demo_object i payload handles =
     Some \<lparr>oe_id = i, oe_payload = payload, oe_generation = 1, oe_state = Live, oe_handle_count = handles\<rparr>"

definition demo_slot :: "object_id \<Rightarrow> handle_generation \<Rightarrow> handle_lineage option \<Rightarrow> object_kind \<Rightarrow> handle_rights \<Rightarrow> handle_slot" where [demo_defs]:
  "demo_slot i g parent kind rights = \<lparr>hs_entry = Some \<lparr>hte_object = i, hte_object_generation = 1,
     hte_entry_generation = g, hte_parent = parent, hte_kind = kind, hte_rights = rights\<rparr>, hs_generation = g\<rparr>"

definition demo_free_slot :: "handle_generation \<Rightarrow> handle_slot" where [demo_defs]:
  "demo_free_slot g = \<lparr>hs_entry = None, hs_generation = g\<rparr>"

section \<open>Booting\<close>

definition demo_new :: kernel where [demo_defs]:
  "demo_new = \<lparr>
     k_objects = \<lparr>om_entries = [None, None, None, None], om_generations = [1, 1, 1, 1], om_capacity = 4\<rparr>,
     k_processes = \<lparr>ptb_processes = [None], ptb_capacity = 1\<rparr>,
     k_frames = \<lparr>fa_frames = [\<lparr>fe_paddr = 4096, fe_generation = 1, fe_state = Free\<rparr>,
         \<lparr>fe_paddr = 8192, fe_generation = 1, fe_state = Free\<rparr>]\<rparr>\<rparr>"

definition demo_self :: handle_slot where [demo_defs]:
  "demo_self = demo_slot 0 1 None KindProcess 33"

definition demo_booted :: kernel where [demo_defs]:
  "demo_booted = demo_state [demo_object 0 PProcess 1, None, None, None]
     [demo_self, demo_free_slot 1, demo_free_slot 1, demo_free_slot 1] 3 Free"

lemma demo_kernel_new: "kernel_new demo_heap 4 1 [demo_range] = Ok demo_new"
  by code_simp

lemma demo_bootstrap: "create_bootstrap_process demo_heap 4 4 demo_new = (Ok 0, demo_booted)"
  by (simp add: demo_defs demo_range_def replicate_numeral base_defs object_defs handle_defs process_defs memory_defs cong: step_congs)

lemma demo_run_new:
  assumes "n < 2 ^ 60"
  shows "kernel_run 4 recv_heap n demo_new"
  by (rule run_boot [OF demo_kernel_new]) (use assms demo_reserved_ok(3) in \<open>simp_all add: usize_max_def\<close>)

lemma demo_run_booted: "n < 2 ^ 60 \<Longrightarrow> kernel_run 4 recv_heap n demo_booted"
  by (rule run_process [OF demo_run_new demo_bootstrap]) (simp_all add: usize_max_def)

lemma demo_run_call:
  assumes "kernel_run 4 recv_heap (n + 8) k" and "execute demo_heap demo_context sc k = Some (r, k')"
  shows "kernel_run 4 recv_heap n k'"
proof (rule run_call [OF _ _ assms(2)])
  have "n + 4 + 4 = n + 8" by simp
  then show "kernel_run 4 recv_heap (n + 4 + 4) k" using assms(1) by (simp only:)
qed (simp add: recv_heap_def demo_heap_def)

section \<open>A memory object\<close>

definition demo_memory_object :: object_payload where [demo_defs]:
  "demo_memory_object = PMemoryObject \<lparr>mo_size_bytes = 4096, mo_mapping_policy = \<lparr>mp_max_rights = 7\<rparr>,
     mo_frame_range = \<lparr>mfr_start = 4096, mfr_end = 8192\<rparr>, mo_active_mappings = 0\<rparr>"

definition demo_create :: syscall where [demo_defs]:
  "demo_create = CreateMemoryObject 4096 (HR_READ OR HR_DUPLICATE)"

definition demo_handle :: handle_value where [demo_defs]:
  "demo_handle = 0x100000001"

definition demo_kernel :: kernel where [demo_defs]:
  "demo_kernel = demo_state [demo_object 0 PProcess 1, demo_object 1 demo_memory_object 1, None, None]
     [demo_self, demo_slot 1 1 None KindMemoryObject 17, demo_free_slot 1, demo_free_slot 1] 2
     (Allocated (OwnerMemoryObject 1 1))"

lemma demo_created: "execute demo_heap demo_context demo_create demo_booted = Some (Ok (OutcomeHandle demo_handle), demo_kernel)"
  by (simp add: demo_defs demo_range_def replicate_numeral base_defs object_defs handle_defs process_defs memory_defs cong: step_congs)

lemma demo_run: "n < 2 ^ 59 \<Longrightarrow> kernel_run 4 recv_heap n demo_kernel"
  by (rule demo_run_call [OF demo_run_booted demo_created]) simp

text \<open>Closing its last handle.\<close>

lemma demo_close: "\<exists>k'. execute demo_heap demo_context (CloseHandle demo_handle) demo_kernel = Some (Ok OutcomeClosed, k')"
proof -
  have "map_option fst (execute demo_heap demo_context (CloseHandle demo_handle) demo_kernel) = Some (Ok OutcomeClosed)"
    by (simp add: demo_defs demo_range_def replicate_numeral base_defs object_defs handle_defs process_defs memory_defs cong: step_congs)
  then show ?thesis by auto
qed

section \<open>A family of handles\<close>

text \<open>The handle is duplicated, and its duplicate is duplicated again.\<close>

definition demo_child :: handle_value where [demo_defs]:
  "demo_child = 0x100000002"

definition demo_grandchild :: handle_value where [demo_defs]:
  "demo_grandchild = 0x100000003"

definition demo_parent :: "handle_value \<Rightarrow> handle_lineage option" where [demo_defs]:
  "demo_parent h = Some \<lparr>hl_handle = h, hl_object = 1, hl_object_generation = 1\<rparr>"

definition demo_memory_slot :: handle_slot where [demo_defs]:
  "demo_memory_slot = demo_slot 1 1 None KindMemoryObject 17"

definition demo_family :: "usize \<Rightarrow> handle_slot \<Rightarrow> handle_slot \<Rightarrow> kernel" where [demo_defs]:
  "demo_family handles child grandchild = demo_state
     [demo_object 0 PProcess 1, demo_object 1 demo_memory_object handles, None, None]
     [demo_self, demo_memory_slot, child, grandchild] 2 (Allocated (OwnerMemoryObject 1 1))"

definition demo_child_slot :: handle_slot where [demo_defs]:
  "demo_child_slot = demo_slot 1 1 (demo_parent demo_handle) KindMemoryObject 17"

definition demo_grandchild_slot :: handle_slot where [demo_defs]:
  "demo_grandchild_slot = demo_slot 1 1 (demo_parent demo_child) KindMemoryObject 1"

definition demo_dup :: kernel where [demo_defs]:
  "demo_dup = demo_family 2 demo_child_slot (demo_free_slot 1)"

definition demo_dup2 :: kernel where [demo_defs]:
  "demo_dup2 = demo_family 3 demo_child_slot demo_grandchild_slot"

definition demo_orphaned :: kernel where [demo_defs]:
  "demo_orphaned = demo_family 2 (demo_free_slot 2) demo_grandchild_slot"

lemma demo_duplicated: "execute demo_heap demo_context (DuplicateHandle demo_handle 17) demo_kernel
    = Some (Ok (OutcomeHandle demo_child), demo_dup)"
  by (simp add: demo_defs demo_range_def replicate_numeral base_defs object_defs handle_defs process_defs memory_defs cong: step_congs)

lemma demo_duplicated2: "execute demo_heap demo_context (DuplicateHandle demo_child HR_READ) demo_dup
    = Some (Ok (OutcomeHandle demo_grandchild), demo_dup2)"
  by (simp add: demo_defs demo_range_def replicate_numeral base_defs object_defs handle_defs process_defs memory_defs cong: step_congs)

lemma demo_child_closed: "execute demo_heap demo_context (CloseHandle demo_child) demo_dup2
    = Some (Ok OutcomeClosed, demo_orphaned)"
  by (simp add: demo_defs demo_range_def replicate_numeral base_defs object_defs handle_defs process_defs memory_defs cong: step_congs)

lemma demo_run_dup2: "n < 2 ^ 58 \<Longrightarrow> kernel_run 4 recv_heap n demo_dup2"
  by (rule demo_run_call [OF demo_run_call [OF demo_run demo_duplicated] demo_duplicated2]) simp

section \<open>A channel\<close>

definition demo_endpoint :: "object_id \<Rightarrow> usize \<Rightarrow> channel_message option \<Rightarrow> object_payload" where [demo_defs]:
  "demo_endpoint peer queued message = PChannelEndpoint \<lparr>ce_peer = Some \<lparr>or_id = peer, or_generation = 1\<rparr>,
     ce_queued_messages = queued, ce_max_messages = 2, ce_peer_closed = False, ce_messages = [message, None, None, None]\<rparr>"

definition demo_channel :: "usize \<Rightarrow> channel_message option \<Rightarrow> handle_slot \<Rightarrow> kernel" where [demo_defs]:
  "demo_channel queued message slot = demo_state
     [demo_object 0 PProcess 1, demo_object 1 (demo_endpoint 2 0 None) 1, demo_object 2 (demo_endpoint 1 queued message) 1,
      demo_object 3 (PEvent \<lparr>eo_state = Unsignaled\<rparr>) 1]
     [demo_self, demo_slot 1 1 None KindChannelEndpoint 3, demo_slot 2 1 None KindChannelEndpoint 3, slot] 0 Free"

definition demo_pair :: kernel where [demo_defs]:
  "demo_pair = demo_state
     [demo_object 0 PProcess 1, demo_object 1 (demo_endpoint 2 0 None) 1, demo_object 2 (demo_endpoint 1 0 None) 1, None]
     [demo_self, demo_slot 1 1 None KindChannelEndpoint 3, demo_slot 2 1 None KindChannelEndpoint 3, demo_free_slot 1] 1 Free"

definition demo_event :: kernel where [demo_defs]:
  "demo_event = demo_channel 0 None (demo_slot 3 1 None KindEvent 9)"

definition demo_message :: channel_message where [demo_defs]:
  "demo_message = \<lparr>cm_bytes = 7 # replicate 63 0, cm_byte_len = 1,
     cm_handles = [Some \<lparr>hte_object = 3, hte_object_generation = 1, hte_entry_generation = 1, hte_parent = None,
       hte_kind = KindEvent, hte_rights = 9\<rparr>, None, None, None], cm_handle_count = 1\<rparr>"

definition demo_sent :: kernel where [demo_defs]:
  "demo_sent = demo_channel 1 (Some demo_message) (demo_free_slot 2)"

definition demo_received :: kernel where [demo_defs]:
  "demo_received = demo_channel 0 None (demo_slot 3 2 None KindEvent 9)"

text \<open>The event moves from one handle slot through the channel back to the same slot, under a new generation.\<close>

lemma demo_paired: "execute demo_heap demo_context (CreateChannelPair 2 3) demo_booted
    = Some (Ok (OutcomeHandlePair 0x100000001 0x100000002), demo_pair)"
  by (simp add: demo_defs demo_range_def replicate_numeral base_defs object_defs handle_defs process_defs memory_defs cong: step_congs)

lemma demo_event_created: "execute demo_heap demo_context (CreateObject KindEvent (HR_READ OR HR_TRANSFER)) demo_pair
    = Some (Ok (OutcomeHandle 0x100000003), demo_event)"
  by (simp add: demo_defs demo_range_def replicate_numeral base_defs object_defs handle_defs process_defs memory_defs cong: step_congs)

lemma demo_send: "execute demo_heap demo_context (ChannelSend 0x100000001 [7] [0x100000003]) demo_event
    = Some (Ok OutcomeClosed, demo_sent)"
  by (simp add: demo_defs demo_range_def replicate_numeral base_defs object_defs handle_defs process_defs memory_defs cong: step_congs)

lemma demo_recv: "execute demo_heap demo_context (ChannelRecv 0x100000002) demo_sent
    = Some (Ok (OutcomeMessage (7 # replicate 63 0) 1 [0x200000003]), demo_received)"
  by (simp add: demo_defs demo_range_def replicate_numeral base_defs object_defs handle_defs process_defs memory_defs cong: step_congs)

lemma demo_run_event: "n < 2 ^ 58 \<Longrightarrow> kernel_run 4 recv_heap n demo_event"
  by (rule demo_run_call [OF demo_run_call [OF demo_run_booted demo_paired] demo_event_created]) simp

lemma demo_run_sent: "n < 2 ^ 57 \<Longrightarrow> kernel_run 4 recv_heap n demo_sent"
  by (rule demo_run_call [OF demo_run_event demo_send]) simp

section \<open>A mapping\<close>

definition demo_address_space :: "vm_mapping option \<Rightarrow> usize \<Rightarrow> object_payload" where [demo_defs]:
  "demo_address_space mapping n = PAddressSpace \<lparr>
     as_pending = \<lparr>pts_count = 0, pts_next_sequence = 0, pts_work = replicate 8 None\<rparr>,
     as_range_set = \<lparr>rs_mappings = mapping # replicate 7 None, rs_count = n\<rparr>\<rparr>"

definition demo_vm :: "object_payload \<Rightarrow> object_payload \<Rightarrow> kernel" where [demo_defs]:
  "demo_vm memory space = demo_state [demo_object 0 PProcess 1, demo_object 1 memory 1, demo_object 2 space 1, None]
     [demo_self, demo_memory_slot, demo_slot 2 1 None KindAddressSpace 32, demo_free_slot 1] 1 (Allocated (OwnerMemoryObject 1 1))"

definition demo_space :: kernel where [demo_defs]:
  "demo_space = demo_vm demo_memory_object (demo_address_space None 0)"

definition demo_map_kernel :: kernel where [demo_defs]:
  "demo_map_kernel = demo_vm
     (PMemoryObject \<lparr>mo_size_bytes = 4096, mo_mapping_policy = \<lparr>mp_max_rights = 7\<rparr>,
        mo_frame_range = \<lparr>mfr_start = 4096, mfr_end = 8192\<rparr>, mo_active_mappings = 1\<rparr>)
     (demo_address_space (Some \<lparr>vm_base = 4096, vm_size_bytes = 4096, vm_memory = \<lparr>or_id = 1, or_generation = 1\<rparr>,
        vm_memory_offset = 0, vm_rights = 1\<rparr>) 1)"

lemma demo_space_created: "execute demo_heap demo_context (CreateAddressSpace HR_MANAGE) demo_kernel
    = Some (Ok (OutcomeHandle 0x100000002), demo_space)"
  by (simp add: demo_defs demo_range_def replicate_numeral base_defs object_defs handle_defs process_defs memory_defs cong: step_congs)

lemma demo_map_call: "\<exists>r. execute demo_heap demo_context (MapMemoryObject 0x100000002 demo_handle 0x1000 0x1000 0 HR_READ) demo_space
    = Some (r, demo_map_kernel)"
proof -
  have "map_option snd (execute demo_heap demo_context (MapMemoryObject 0x100000002 demo_handle 0x1000 0x1000 0 HR_READ) demo_space)
      = Some demo_map_kernel"
    by (simp add: demo_defs demo_range_def replicate_numeral base_defs object_defs handle_defs process_defs memory_defs cong: step_congs)
  then show ?thesis by auto
qed

lemma demo_run_map: "n < 2 ^ 58 \<Longrightarrow> kernel_run 4 recv_heap n demo_map_kernel"
  using demo_map_call demo_run_call [OF demo_run_call [OF demo_run demo_space_created], of n] by auto

end
