(* ===== verification/Ostd_Console.thy ===== *)
theory Ostd_Console
  imports Prelude
begin

text \<open>
  The early consoles of \<^verbatim>\<open>ostd\<close>: the PL011 of AArch64 (\<^verbatim>\<open>arch/aarch64/console.rs\<close>) and the NS16550A of x86
  (\<^verbatim>\<open>console/uart_ns16650a.rs\<close>, \<^verbatim>\<open>arch/x86_64/console.rs\<close>).  A console keeps the log of its register writes.
  What the device answers to its n-th status read is a parameter; a loop that waits for the device is a
  partial function, with value \<open>None\<close> when the device never gets ready.  A string is a list of bytes.
\<close>

section \<open>Sending bytes one after the other\<close>

fun send_all :: "(u8 \<Rightarrow> 's \<Rightarrow> 's option) \<Rightarrow> u8 list \<Rightarrow> 's \<Rightarrow> 's option" where
  "send_all send [] s = Some s"
| "send_all send (b # bs) s = Option.bind (send b s) (send_all send bs)"

definition bytes_of :: "string \<Rightarrow> u8 list" where
  "bytes_of = map of_char"

text \<open>A port that gets every byte out as long as its device is ready again and again.\<close>

locale byte_port =
  fixes send :: "u8 \<Rightarrow> 's \<Rightarrow> 's option" and log :: "'s \<Rightarrow> 'w list" and wire :: "u8 \<Rightarrow> 'w" and ready :: "'s \<Rightarrow> bool"
  assumes send_ready: "ready s \<Longrightarrow> \<exists>s'. send b s = Some s' \<and> log s' = log s @ [wire b] \<and> ready s'"
begin

lemma send_all_ready: "ready s \<Longrightarrow> \<exists>s'. send_all send bs s = Some s' \<and> log s' = log s @ map wire bs \<and> ready s'"
proof (induction bs arbitrary: s)
  case (Cons b bs)
  obtain s1 where s1: "send b s = Some s1" "log s1 = log s @ [wire b]" "ready s1" using send_ready [OF Cons.prems] by blast
  then show ?case using Cons.IH [OF s1(3)] by simp
qed simp

end

section \<open>The PL011 of AArch64\<close>

datatype pl011_register = DR | CR | ICR | IBRD | FBRD | LCRH | IMSC

record pl011 =
  pl_initialized :: bool
  pl_status_reads :: nat
  pl_writes :: "(pl011_register \<times> u32) list"

text \<open>A bit field with all bits set, and the fields of the source.\<close>

definition field_set :: "nat \<Rightarrow> nat \<Rightarrow> u32" where
  "field_set offset numbits = push_bit offset (mask numbits)"

definition FR_TXFF :: u32 where "FR_TXFF = field_set 5 1"
definition LCRH_WLEN_EIGHT_BIT :: u32 where "LCRH_WLEN_EIGHT_BIT = push_bit 5 3"
definition LCRH_FEN :: u32 where "LCRH_FEN = field_set 4 1"
definition CR_RXE :: u32 where "CR_RXE = field_set 9 1"
definition CR_TXE :: u32 where "CR_TXE = field_set 8 1"
definition CR_UARTEN :: u32 where "CR_UARTEN = field_set 0 1"
definition ICR_ALL :: u32 where "ICR_ALL = field_set 0 11"

definition pl011_write :: "pl011_register \<Rightarrow> u32 \<Rightarrow> pl011 \<Rightarrow> pl011" where
  "pl011_write r v s = s\<lparr>pl_writes := pl_writes s @ [(r, v)]\<rparr>"

definition pl011_init :: "pl011 \<Rightarrow> pl011" where
  "pl011_init s = fold (\<lambda>(r, v). pl011_write r v)
     [(CR, 0), (ICR, ICR_ALL), (IBRD, 1), (FBRD, 40), (LCRH, LCRH_WLEN_EIGHT_BIT OR LCRH_FEN), (IMSC, 0),
      (CR, CR_UARTEN OR CR_TXE OR CR_RXE)] s"

definition init_once :: "pl011 \<Rightarrow> pl011" where
  "init_once s = (if pl_initialized s then s else pl011_init (s\<lparr>pl_initialized := True\<rparr>))"

partial_function (option) put_char :: "(nat \<Rightarrow> u32) \<Rightarrow> u8 \<Rightarrow> pl011 \<Rightarrow> pl011 option" where
  "put_char status byte s =
     (let s' = s\<lparr>pl_status_reads := pl_status_reads s + 1\<rparr> in
      if status (pl_status_reads s) AND FR_TXFF = FR_TXFF then put_char status byte s'
      else Some (pl011_write DR (ucast byte) s'))"

definition early_print :: "(nat \<Rightarrow> u32) \<Rightarrow> string \<Rightarrow> pl011 \<Rightarrow> pl011 option" where
  "early_print status message s = send_all (put_char status) (bytes_of message) (init_once s)"

definition early_println :: "(nat \<Rightarrow> u32) \<Rightarrow> string \<Rightarrow> pl011 \<Rightarrow> pl011 option" where
  "early_println status message s =
     Option.bind (send_all (put_char status) (bytes_of message) (init_once s)) (put_char status 10)"

text \<open>The transmit queue has room again and again.\<close>

definition drains :: "(nat \<Rightarrow> u32) \<Rightarrow> bool" where
  "drains status \<longleftrightarrow> (\<forall>n. \<exists>m \<ge> n. status m AND FR_TXFF \<noteq> FR_TXFF)"

lemma put_char_waits:
  assumes "status m AND FR_TXFF \<noteq> FR_TXFF" and "pl_status_reads s \<le> m"
  shows "\<exists>s'. put_char status b s = Some s' \<and> pl_writes s' = pl_writes s @ [(DR, ucast b)] \<and> pl_initialized s' = pl_initialized s"
  using assms
proof (induction "m - pl_status_reads s" arbitrary: s)
  case 0
  then show ?case by (subst put_char.simps) (simp add: pl011_write_def Let_def)
next
  case (Suc d)
  then have "\<exists>s'. put_char status b (s\<lparr>pl_status_reads := pl_status_reads s + 1\<rparr>) = Some s'
    \<and> pl_writes s' = pl_writes s @ [(DR, ucast b)] \<and> pl_initialized s' = pl_initialized s"
    using Suc.hyps(1) [of "s\<lparr>pl_status_reads := pl_status_reads s + 1\<rparr>"] by auto
  then show ?case by (subst put_char.simps) (auto simp: pl011_write_def Let_def)
qed

interpretation pl011: byte_port "put_char status" pl_writes "\<lambda>b. (DR, ucast b)" "\<lambda>s. drains status \<and> pl_initialized s" for status
  by unfold_locales (use put_char_waits in \<open>fastforce simp: drains_def\<close>)

text \<open>What is written before the first byte.\<close>

definition pl011_setup :: "pl011 \<Rightarrow> (pl011_register \<times> u32) list" where
  "pl011_setup s = (if pl_initialized s then []
     else [(CR, 0), (ICR, 0x7FF), (IBRD, 1), (FBRD, 40), (LCRH, 0x70), (IMSC, 0), (CR, 0x301)])"

lemma init_once_writes: "pl_initialized (init_once s)" "pl_writes (init_once s) = pl_writes s @ pl011_setup s"
  by (simp_all add: init_once_def pl011_init_def pl011_write_def pl011_setup_def field_set_def
      LCRH_WLEN_EIGHT_BIT_def LCRH_FEN_def CR_RXE_def CR_TXE_def CR_UARTEN_def ICR_ALL_def mask_numeral)

text \<open>C29 (liveness). Printing a line on AArch64 returns when the transmit queue drains again and again, and has then
  written exactly the set-up of the device, once, the bytes of the line and a newline.\<close>

theorem pl011_prints_the_line:
  assumes "drains status"
  shows "\<exists>s'. early_println status message s = Some s'
    \<and> pl_writes s' = pl_writes s @ pl011_setup s @ map (\<lambda>b. (DR, ucast b)) (bytes_of message @ [10]) \<and> pl_initialized s'"
proof -
  obtain s1 where s1: "send_all (put_char status) (bytes_of message) (init_once s) = Some s1" "pl_initialized s1"
    "pl_writes s1 = pl_writes s @ pl011_setup s @ map (\<lambda>b. (DR, ucast b)) (bytes_of message)"
    using pl011.send_all_ready [of status "init_once s" "bytes_of message"] assms init_once_writes [of s] by auto
  then show ?thesis using pl011.send_ready [of status s1 10] assms by (auto simp: early_println_def)
qed

definition demo_pl011 :: pl011 where
  "demo_pl011 = \<lparr>pl_initialized = False, pl_status_reads = 0, pl_writes = []\<rparr>"

text \<open>A queue that is full at every other read.\<close>

definition demo_status :: "nat \<Rightarrow> u32" where
  "demo_status n = (if even n then 0x20 else 0)"

theorem pl011_prints_the_line_witness:
  "\<exists>s'. early_println demo_status ''A'' demo_pl011 = Some s' \<and> drop 7 (pl_writes s') = [(DR, 65), (DR, 10)]"
proof -
  have "drains demo_status"
    unfolding drains_def
  proof
    fix n
    show "\<exists>m \<ge> n. demo_status m AND FR_TXFF \<noteq> FR_TXFF"
      by (rule exI [of _ "2 * n + 1"]) (simp add: demo_status_def FR_TXFF_def field_set_def mask_numeral)
  qed
  from pl011_prints_the_line [OF this, of "''A''" demo_pl011]
  show ?thesis by (auto simp: demo_pl011_def pl011_setup_def bytes_of_def of_char_def)
qed

section \<open>The NS16550A\<close>

datatype ns16550a_register =
    DataOrDivisorLo | IntEnOrDivisorHi | FifoCtrl | LineCtrl | ModemCtrl | LineStat | ModemStat

fun register_index :: "ns16550a_register \<Rightarrow> nat" where
  "register_index DataOrDivisorLo = 0"
| "register_index IntEnOrDivisorHi = 1"
| "register_index FifoCtrl = 2"
| "register_index LineCtrl = 3"
| "register_index ModemCtrl = 4"
| "register_index LineStat = 5"
| "register_index ModemStat = 6"

text \<open>The trait \<^verbatim>\<open>Ns16550aAccess\<close>: reading a register may change the device.\<close>

record 's ns16550a_access =
  acc_read :: "ns16550a_register \<Rightarrow> 's \<Rightarrow> u8 \<times> 's"
  acc_write :: "ns16550a_register \<Rightarrow> u8 \<Rightarrow> 's \<Rightarrow> 's"

definition STAT_DR :: u8 where "STAT_DR = push_bit 0 1"
definition STAT_THRE :: u8 where "STAT_THRE = push_bit 5 1"

text \<open>\<^verbatim>\<open>LineStat::from_bits_truncate\<close> keeps the two bits that are named.\<close>

definition line_stat :: "('s, 'm) ns16550a_access_scheme \<Rightarrow> 's \<Rightarrow> u8 \<times> 's" where
  "line_stat access s = (let (v, s) = acc_read access LineStat s in (v AND (STAT_DR OR STAT_THRE), s))"

definition ns16550a_init :: "('s, 'm) ns16550a_access_scheme \<Rightarrow> 's \<Rightarrow> 's" where
  "ns16550a_init access = fold (\<lambda>(r, v). acc_write access r v)
     [(LineCtrl, 0x80), (DataOrDivisorLo, 0x01), (IntEnOrDivisorHi, 0x00),
      (LineCtrl, 0x03), (FifoCtrl, 0x00), (ModemCtrl, 0x0B), (IntEnOrDivisorHi, 0x01)]"

partial_function (option) ns16550a_send :: "('s, 'm) ns16550a_access_scheme \<Rightarrow> u8 \<Rightarrow> 's \<Rightarrow> 's option" where
  "ns16550a_send access data s =
     (let (v, s) = line_stat access s in
      if v AND STAT_THRE \<noteq> STAT_THRE then ns16550a_send access data s
      else Some (acc_write access DataOrDivisorLo data s))"

definition ns16550a_recv :: "('s, 'm) ns16550a_access_scheme \<Rightarrow> 's \<Rightarrow> u8 option \<times> 's" where
  "ns16550a_recv access s =
     (let (v, s) = line_stat access s in
      if v AND STAT_DR \<noteq> STAT_DR then (None, s)
      else apfst Some (acc_read access DataOrDivisorLo s))"

fun write_str :: "('s, 'm) ns16550a_access_scheme \<Rightarrow> u8 list \<Rightarrow> 's \<Rightarrow> 's option" where
  "write_str access [] s = Some s"
| "write_str access (c # cs) s =
     Option.bind (if c = 10 then ns16550a_send access 13 s else Some s) (\<lambda>s.
     Option.bind (ns16550a_send access c s) (\<lambda>s. write_str access cs s))"

text \<open>The bytes that go out: a carriage return before every newline.\<close>

fun crlf :: "u8 list \<Rightarrow> u8 list" where
  "crlf [] = []"
| "crlf (c # cs) = (if c = 10 then [13, c] else [c]) @ crlf cs"

lemma write_str_sends: "write_str access bytes s = send_all (ns16550a_send access) (crlf bytes) s"
  by (induction bytes arbitrary: s) (simp_all cong: Option.bind_cong split: if_splits)

section \<open>The serial port of x86\<close>

text \<open>The port \<open>n\<close>-th read answers \<open>answer n port\<close>.\<close>

record serial_port =
  sp_reads :: nat
  sp_writes :: "(16 word \<times> u8) list"

definition SERIAL_BASE :: "16 word" where
  "SERIAL_BASE = 0x3F8"

definition serial_register_port :: "ns16550a_register \<Rightarrow> 16 word" where
  "serial_register_port r = SERIAL_BASE + of_nat (register_index r)"

definition serial_access :: "(nat \<Rightarrow> 16 word \<Rightarrow> u8) \<Rightarrow> serial_port ns16550a_access" where
  "serial_access answer = \<lparr>
     acc_read = (\<lambda>r s. (answer (sp_reads s) (serial_register_port r), s\<lparr>sp_reads := sp_reads s + 1\<rparr>)),
     acc_write = (\<lambda>r v s. s\<lparr>sp_writes := sp_writes s @ [(serial_register_port r, v)]\<rparr>)\<rparr>"

definition serial_println :: "(nat \<Rightarrow> 16 word \<Rightarrow> u8) \<Rightarrow> string \<Rightarrow> serial_port \<Rightarrow> serial_port option" where
  "serial_println answer message s =
     Option.bind (write_str (serial_access answer) (bytes_of message) (ns16550a_init (serial_access answer) s))
       (write_str (serial_access answer) [10])"

definition transmits :: "(nat \<Rightarrow> 16 word \<Rightarrow> u8) \<Rightarrow> bool" where
  "transmits answer \<longleftrightarrow> (\<forall>n. \<exists>m \<ge> n. answer m 0x3FD AND STAT_THRE = STAT_THRE)"

lemma line_stat_serial:
  "line_stat (serial_access answer) s = (answer (sp_reads s) 0x3FD AND (STAT_DR OR STAT_THRE), s\<lparr>sp_reads := sp_reads s + 1\<rparr>)"
  by (simp add: line_stat_def serial_access_def serial_register_port_def SERIAL_BASE_def)

lemma stat_thre: "(v AND (STAT_DR OR STAT_THRE)) AND STAT_THRE = v AND STAT_THRE" for v :: u8
  by (simp add: STAT_DR_def STAT_THRE_def and.assoc)

lemma serial_send_waits:
  assumes "answer m 0x3FD AND STAT_THRE = STAT_THRE" and "sp_reads s \<le> m"
  shows "\<exists>s'. ns16550a_send (serial_access answer) b s = Some s' \<and> sp_writes s' = sp_writes s @ [(0x3F8, b)]"
  using assms
proof (induction "m - sp_reads s" arbitrary: s)
  case 0
  then show ?case
    by (subst ns16550a_send.simps)
      (simp add: line_stat_serial stat_thre, simp add: serial_access_def serial_register_port_def SERIAL_BASE_def)
next
  case (Suc d)
  then have "\<exists>s'. ns16550a_send (serial_access answer) b (s\<lparr>sp_reads := sp_reads s + 1\<rparr>) = Some s'
    \<and> sp_writes s' = sp_writes s @ [(0x3F8, b)]"
    using Suc.hyps(1) [of "s\<lparr>sp_reads := sp_reads s + 1\<rparr>"] by auto
  then show ?case
    by (subst ns16550a_send.simps)
      (auto simp: line_stat_serial stat_thre, simp add: serial_access_def serial_register_port_def SERIAL_BASE_def)
qed

interpretation serial: byte_port "ns16550a_send (serial_access answer)" sp_writes "\<lambda>b. (0x3F8, b)" "\<lambda>_. transmits answer" for answer
  by unfold_locales (use serial_send_waits in \<open>fastforce simp: transmits_def\<close>)

definition serial_setup :: "(16 word \<times> u8) list" where
  "serial_setup = [(0x3FB, 0x80), (0x3F8, 0x01), (0x3F9, 0), (0x3FB, 0x03), (0x3FA, 0), (0x3FC, 0x0B), (0x3F9, 0x01)]"

lemma serial_init_writes: "sp_writes (ns16550a_init (serial_access answer) s) = sp_writes s @ serial_setup"
  by (simp add: ns16550a_init_def serial_access_def serial_register_port_def SERIAL_BASE_def serial_setup_def)

text \<open>Printing a line on x86 returns when the transmitter gets empty again and again, and has then
  written the set-up of the device, the bytes of the line with a carriage return before every newline, and the end of
  the line.\<close>

lemma serial_prints_the_line:
  assumes "transmits answer"
  shows "\<exists>s'. serial_println answer message s = Some s'
    \<and> sp_writes s' = sp_writes s @ serial_setup @ map (\<lambda>b. (0x3F8, b)) (crlf (bytes_of message) @ [13, 10])"
proof -
  obtain s1 where s1: "write_str (serial_access answer) (bytes_of message) (ns16550a_init (serial_access answer) s) = Some s1"
    "sp_writes s1 = sp_writes s @ serial_setup @ map (\<lambda>b. (0x3F8, b)) (crlf (bytes_of message))"
    using serial.send_all_ready [of answer "crlf (bytes_of message)"] assms serial_init_writes [of answer s]
    by (fastforce simp: write_str_sends)
  then show ?thesis
    using serial.send_all_ready [of answer "[13, 10]" s1] assms by (auto simp: serial_println_def write_str_sends)
qed

definition demo_answer :: "nat \<Rightarrow> 16 word \<Rightarrow> u8" where
  "demo_answer n port = (if even n then 0 else 0x60)"

lemma serial_prints_the_line_witness:
  "\<exists>s'. serial_println demo_answer ''A'' \<lparr>sp_reads = 0, sp_writes = []\<rparr> = Some s'
    \<and> drop 7 (sp_writes s') = [(0x3F8, 65), (0x3F8, 13), (0x3F8, 10)]"
proof -
  have "transmits demo_answer"
    unfolding transmits_def
  proof
    fix n
    show "\<exists>m \<ge> n. demo_answer m 0x3FD AND STAT_THRE = STAT_THRE"
      by (rule exI [of _ "2 * n + 1"]) (simp add: demo_answer_def STAT_THRE_def)
  qed
  from serial_prints_the_line [OF this, of "''A''" "\<lparr>sp_reads = 0, sp_writes = []\<rparr>"]
  show ?thesis by (auto simp: serial_setup_def bytes_of_def of_char_def)
qed

end
