(* ===== verification/Qemu_Runner.thy ===== *)
theory Qemu_Runner
  imports Prelude "HOL-Library.Sublist"
begin

text \<open>
  The host tool that builds the kernel and runs it under QEMU, \<^verbatim>\<open>tools/qemu-runner/src/main.rs\<close>.  The command
  line is parsed by a third-party library; what the operating system answers is a parameter: the status of
  commands, the file system, the clock, the child process and its log at each poll.
\<close>

section \<open>Constants and commands\<close>

definition TARGET :: string where "TARGET = ''aarch64-unknown-none''"
definition QEMU_CPUS :: string where "QEMU_CPUS = ''2''"
definition BOOT_MARKER :: string where "BOOT_MARKER = ''Ousia kernel booted on aarch64''"
definition EXCEPTION_MARKER :: string where "EXCEPTION_MARKER = ''Ousia AArch64 exception''"

text \<open>In milliseconds.\<close>

definition SMOKE_TIMEOUT :: nat where "SMOKE_TIMEOUT = 5000"

record runner_args =
  ra_smoke :: bool
  ra_exception_smoke :: bool

type_synonym command = "string \<times> string list"

definition build_command :: "runner_args \<Rightarrow> command" where
  "build_command args = (''cargo'',
     [''build'', ''-p'', ''kernel-bin'', ''--target'', TARGET]
     @ (if ra_exception_smoke args then [''--features'', ''exception-smoke''] else [])
     @ [''-Zbuild-std=core,alloc'', ''-Zbuild-std-features=compiler-builtins-mem''])"

definition path_join :: "string \<Rightarrow> string \<Rightarrow> string" where
  "path_join a b = a @ ''/'' @ b"

definition kernel_path :: "string \<Rightarrow> string" where
  "kernel_path root = path_join (path_join (path_join (path_join root ''target'') TARGET) ''debug'') ''kernel''"

definition qemu_command :: "string \<Rightarrow> command" where
  "qemu_command path = (''qemu-system-aarch64'',
     [''-machine'', ''virt'', ''-cpu'', ''cortex-a53'', ''-m'', ''1G'', ''-smp'', QEMU_CPUS, ''-kernel'', path,
      ''-monitor'', ''none'', ''-display'', ''none'', ''-no-reboot'', ''-no-shutdown''])"

definition add_args :: "command \<Rightarrow> string list \<Rightarrow> command" where
  "add_args c args = (fst c, snd c @ args)"

section \<open>The world of the tool\<close>

text \<open>How a command ended: with an exit code, or without one when a signal ended it.\<close>

datatype command_status = LaunchError | Exited "int option"

definition success :: "command_status \<Rightarrow> bool" where
  "success status \<longleftrightarrow> status = Exited (Some 0)"

text \<open>What \<^verbatim>\<open>Child::wait\<close> comes to: it blocks while the process runs, or fails, or the process has ended.\<close>

datatype wait_answer = Blocks | WaitError | Ended

text \<open>The answers about the child at turn \<open>i\<close> of the loop: whether \<^verbatim>\<open>try_wait\<close> finds it ended, whether \<^verbatim>\<open>kill\<close>
  succeeds, and the outcome of \<^verbatim>\<open>wait\<close>.\<close>

record runner_world =
  rw_status :: "command \<Rightarrow> command_status"
  rw_clear_log :: "string \<Rightarrow> bool"
  rw_spawn :: "command \<Rightarrow> bool"
  rw_clock :: "nat \<Rightarrow> nat"
  rw_exited :: "nat \<Rightarrow> bool"
  rw_kill :: "nat \<Rightarrow> bool"
  rw_wait :: "nat \<Rightarrow> wait_answer"
  rw_log :: "nat \<Rightarrow> string option"

definition EXIT_SUCCESS :: u8 where "EXIT_SUCCESS = 0"
definition EXIT_FAILURE :: u8 where "EXIT_FAILURE = 1"

text \<open>What a run of the tool comes to: its exit code, whether it started QEMU in the background, whether QEMU has
  been seen to end, and whether the tool has reported that it failed to stop QEMU.\<close>

record runner_result =
  rr_exit :: u8
  rr_started :: bool
  rr_ended :: bool
  rr_stop_failed :: bool

definition log_contains :: "string option \<Rightarrow> string \<Rightarrow> bool" where
  "log_contains log marker = (case log of None \<Rightarrow> False | Some text \<Rightarrow> sublist marker text)"

text \<open>The tool kills QEMU, reports when that fails, and in both cases waits for it; the answer to the wait is dropped.
  The run does not come to an end if the wait does not.\<close>

definition stop_qemu :: "runner_world \<Rightarrow> nat \<Rightarrow> u8 \<Rightarrow> runner_result option" where
  "stop_qemu w i code =
     (case rw_wait w i of
        Blocks \<Rightarrow> None
      | answer \<Rightarrow> Some \<lparr>rr_exit = code, rr_started = True, rr_ended = (answer = Ended), rr_stop_failed = (\<not> rw_kill w i)\<rparr>)"

text \<open>The \<open>i\<close>-th turn of the polling loop; the clock was first read for the deadline.\<close>

partial_function (option) poll :: "runner_world \<Rightarrow> string \<Rightarrow> nat \<Rightarrow> nat \<Rightarrow> runner_result option" where
  "poll w marker deadline i =
     (if rw_clock w (Suc i) < deadline then
        if rw_exited w i then Some \<lparr>rr_exit = EXIT_FAILURE, rr_started = True, rr_ended = True, rr_stop_failed = False\<rparr>
        else if log_contains (rw_log w i) marker then stop_qemu w i EXIT_SUCCESS
        else poll w marker deadline (Suc i)
      else stop_qemu w i EXIT_FAILURE)"

definition smoke_log_path :: "string \<Rightarrow> string" where
  "smoke_log_path root = path_join (path_join root ''target'') ''qemu-aarch64.log''"

definition smoke_command :: "string \<Rightarrow> string \<Rightarrow> command" where
  "smoke_command root path = add_args (qemu_command path)
     [''-chardev'', ''file,id=serial0,path='' @ smoke_log_path root, ''-serial'', ''chardev:serial0'']"

definition not_started :: runner_result where
  "not_started = \<lparr>rr_exit = EXIT_FAILURE, rr_started = False, rr_ended = False, rr_stop_failed = False\<rparr>"

definition run_smoke :: "runner_world \<Rightarrow> string \<Rightarrow> string \<Rightarrow> string \<Rightarrow> runner_result option" where
  "run_smoke w root path marker =
     (if \<not> rw_clear_log w (smoke_log_path root) then Some not_started
      else if \<not> rw_spawn w (smoke_command root path) then Some not_started
      else poll w marker (rw_clock w 0 + SMOKE_TIMEOUT) 0)"

definition run_command :: "runner_world \<Rightarrow> command \<Rightarrow> bool" where
  "run_command w c = success (rw_status w c)"

definition exit_of_status :: "command_status \<Rightarrow> u8" where
  "exit_of_status status =
     (case status of
        LaunchError \<Rightarrow> EXIT_FAILURE
      | Exited code \<Rightarrow> if success status then EXIT_SUCCESS
          else word_of_int (case code of Some c \<Rightarrow> c | None \<Rightarrow> 1))"

definition runner_main :: "runner_world \<Rightarrow> string \<Rightarrow> runner_args \<Rightarrow> runner_result option" where
  "runner_main w root args =
     (if \<not> run_command w (build_command args) then Some not_started
      else if ra_smoke args \<or> ra_exception_smoke args
      then run_smoke w root (kernel_path root) (if ra_exception_smoke args then EXCEPTION_MARKER else BOOT_MARKER)
      else Some \<lparr>rr_exit = exit_of_status (rw_status w (add_args (qemu_command (kernel_path root)) [''-serial'', ''stdio''])),
        rr_started = False, rr_ended = False, rr_stop_failed = False\<rparr>)"

section \<open>The smoke test\<close>

text \<open>The clock never goes back, and a turn of the loop takes at least the 100 ms that it sleeps.\<close>

definition sleeps :: "(nat \<Rightarrow> nat) \<Rightarrow> bool" where
  "sleeps clock \<longleftrightarrow> clock 0 \<le> clock 1 \<and> (\<forall>i. clock (Suc i) + 100 \<le> clock (Suc (Suc i)))"

text \<open>The loop keeps polling up to turn \<open>i\<close>.\<close>

definition polls :: "runner_world \<Rightarrow> string \<Rightarrow> nat \<Rightarrow> nat \<Rightarrow> bool" where
  "polls w marker deadline i \<longleftrightarrow> rw_clock w (Suc i) < deadline \<and> \<not> rw_exited w i \<and> \<not> log_contains (rw_log w i) marker"

lemma clock_advances: "sleeps clock \<Longrightarrow> clock 0 + 100 * i \<le> clock (Suc i)"
proof (induction i)
  case (Suc i)
  then have "clock (Suc i) + 100 \<le> clock (Suc (Suc i))" by (simp add: sleeps_def)
  with Suc show ?case by simp
qed (simp add: sleeps_def)

lemma clock_mono: "sleeps clock \<Longrightarrow> i \<le> k \<Longrightarrow> clock (Suc i) \<le> clock (Suc k)"
  by (rule lift_Suc_mono_le [of "\<lambda>i. clock (Suc i)"]) (auto simp: sleeps_def intro: add_leD1)

lemma poll_from:
  assumes "polls w marker deadline i"
  shows "poll w marker deadline i = poll w marker deadline (Suc i)"
  using assms by (subst poll.simps) (simp add: polls_def)

lemma poll_until:
  assumes "\<And>j. j < i \<Longrightarrow> polls w marker deadline j"
  shows "poll w marker deadline 0 = poll w marker deadline i"
  using assms by (induction i) (simp_all add: poll_from)

lemma poll_stops:
  assumes "sleeps (rw_clock w)" and "deadline = rw_clock w 0 + SMOKE_TIMEOUT"
  obtains i where "\<not> polls w marker deadline i" "\<And>j. j < i \<Longrightarrow> polls w marker deadline j"
proof -
  have "\<not> polls w marker deadline 50"
    using clock_advances [OF assms(1), of 50] assms(2) by (simp add: polls_def SMOKE_TIMEOUT_def)
  then obtain i where "\<not> polls w marker deadline i" "\<forall>j < i. polls w marker deadline j"
    using exists_least_iff [of "\<lambda>i. \<not> polls w marker deadline i"] by blast
  then show ?thesis by (intro that) blast+
qed

definition marker_seen :: "runner_world \<Rightarrow> string \<Rightarrow> nat \<Rightarrow> bool" where
  "marker_seen w marker i \<longleftrightarrow> rw_clock w (Suc i) < rw_clock w 0 + SMOKE_TIMEOUT \<and> \<not> rw_exited w i
     \<and> log_contains (rw_log w i) marker"

text \<open>The turn at which the loop stops polling, and QEMU has not ended by itself: the tool stops QEMU at this turn.\<close>

definition stops_at :: "runner_world \<Rightarrow> string \<Rightarrow> nat \<Rightarrow> bool" where
  "stops_at w marker i \<longleftrightarrow> (\<forall>j < i. polls w marker (rw_clock w 0 + SMOKE_TIMEOUT) j)
     \<and> (rw_clock w (Suc i) < rw_clock w 0 + SMOKE_TIMEOUT \<longrightarrow> \<not> rw_exited w i \<and> log_contains (rw_log w i) marker)"

lemma run_smoke_turn:
  assumes "sleeps (rw_clock w)" and "rw_clear_log w (smoke_log_path root)" and "rw_spawn w (smoke_command root path)"
  obtains (exited) i where "rw_exited w i" "rw_clock w (Suc i) < rw_clock w 0 + SMOKE_TIMEOUT"
      "\<And>j. j < i \<Longrightarrow> polls w marker (rw_clock w 0 + SMOKE_TIMEOUT) j"
      "run_smoke w root path marker = Some \<lparr>rr_exit = EXIT_FAILURE, rr_started = True, rr_ended = True, rr_stop_failed = False\<rparr>"
  | (stopped) i where "stops_at w marker i"
      "run_smoke w root path marker = stop_qemu w i (if marker_seen w marker i then EXIT_SUCCESS else EXIT_FAILURE)"
proof -
  let ?d = "rw_clock w 0 + SMOKE_TIMEOUT"
  obtain i where i: "\<not> polls w marker ?d i" "\<And>j. j < i \<Longrightarrow> polls w marker ?d j"
    by (rule poll_stops [OF assms(1) refl, of marker]) blast
  have smoke: "run_smoke w root path marker = poll w marker ?d i"
    using assms(2,3) poll_until [OF i(2)] by (simp add: run_smoke_def)
  show ?thesis
  proof (cases "rw_clock w (Suc i) < ?d \<and> rw_exited w i")
    case True
    then show ?thesis by (intro exited [OF _ _ i(2)]) (simp_all add: smoke, subst poll.simps, simp)
  next
    case False
    have "poll w marker ?d i = stop_qemu w i (if marker_seen w marker i then EXIT_SUCCESS else EXIT_FAILURE)"
      by (subst poll.simps) (use False i(1) in \<open>auto simp: polls_def marker_seen_def\<close>)
    moreover have "stops_at w marker i" using False i by (auto simp: stops_at_def polls_def)
    ultimately show ?thesis using smoke by (intro stopped) simp_all
  qed
qed

text \<open>The marker is seen only at the turn at which the loop ends.\<close>

lemma marker_seen_unique:
  assumes "sleeps (rw_clock w)" and "\<not> polls w marker (rw_clock w 0 + SMOKE_TIMEOUT) i"
    and "\<And>j. j < i \<Longrightarrow> polls w marker (rw_clock w 0 + SMOKE_TIMEOUT) j"
  shows "(\<exists>k. marker_seen w marker k \<and> (\<forall>j < k. \<not> rw_exited w j)) \<longleftrightarrow> marker_seen w marker i"
proof
  assume "\<exists>k. marker_seen w marker k \<and> (\<forall>j < k. \<not> rw_exited w j)"
  then obtain k where k: "marker_seen w marker k" "\<forall>j < k. \<not> rw_exited w j" by blast
  have not_less: "\<not> k < i" using assms(3) [of k] k(1) by (auto simp: marker_seen_def polls_def)
  show "marker_seen w marker i"
  proof (cases "k = i")
    case False
    then have "i < k" using not_less by simp
    then have "rw_clock w (Suc i) < rw_clock w 0 + SMOKE_TIMEOUT"
      using clock_mono [OF assms(1), of i k] k(1) by (simp add: marker_seen_def)
    then show ?thesis using assms(2) k(2) \<open>i < k\<close> by (auto simp: polls_def marker_seen_def)
  qed (use k(1) in simp)
qed (use assms(3) in \<open>auto simp: polls_def\<close>)

lemma stops_atD: "stops_at w marker i \<Longrightarrow> \<not> polls w marker (rw_clock w 0 + SMOKE_TIMEOUT) i"
  by (auto simp: stops_at_def polls_def)

lemma stops_at_unique: "stops_at w marker i \<Longrightarrow> stops_at w marker k \<longleftrightarrow> k = i"
  using stops_atD by (metis stops_at_def linorder_neqE_nat)

text \<open>C28 (termination). When sleeping takes its time, the smoke test comes to an end, unless it stops QEMU and the wait
  that follows blocks for ever, as it may after a kill that failed.  When it ends, it has passed exactly when QEMU was
  started and, at some poll before the deadline, the log had the marker while QEMU had run at all polls so far; QEMU,
  once started, has ended, unless the wait for it failed; and a kill that failed has been reported.\<close>

theorem smoke_test_ends_and_passes_exactly:
  assumes "sleeps (rw_clock w)" and started: "started \<longleftrightarrow> rw_clear_log w (smoke_log_path root) \<and> rw_spawn w (smoke_command root path)"
  shows "(run_smoke w root path marker = None \<longleftrightarrow> started \<and> (\<exists>i. stops_at w marker i \<and> rw_wait w i = Blocks))
    \<and> (\<forall>r. run_smoke w root path marker = Some r \<longrightarrow>
        (rr_exit r = EXIT_SUCCESS \<longleftrightarrow> started \<and> (\<exists>i. marker_seen w marker i \<and> (\<forall>j < i. \<not> rw_exited w j)))
        \<and> rr_started r = started
        \<and> (started \<and> \<not> rr_ended r \<longrightarrow> (\<exists>i. stops_at w marker i \<and> rw_wait w i = WaitError))
        \<and> (rr_stop_failed r \<longleftrightarrow> started \<and> (\<exists>i. stops_at w marker i \<and> \<not> rw_kill w i)))"
proof (cases started)
  case True
  then have go: "rw_clear_log w (smoke_log_path root)" "rw_spawn w (smoke_command root path)" using started by simp_all
  show ?thesis
  proof (cases rule: run_smoke_turn [OF assms(1) go, of marker])
    case (1 i)
    have "\<not> stops_at w marker k" for k
    proof (cases k i rule: linorder_cases)
      case less
      then show ?thesis using 1(3) stops_atD by blast
    qed (use 1(1,2) in \<open>auto simp: stops_at_def polls_def\<close>)
    moreover have "\<not> polls w marker (rw_clock w 0 + SMOKE_TIMEOUT) i" using 1(1) by (simp add: polls_def)
    from marker_seen_unique [OF assms(1) this 1(3)]
    have "\<not> (\<exists>k. marker_seen w marker k \<and> (\<forall>j < k. \<not> rw_exited w j))" using 1(1) by (simp add: marker_seen_def)
    ultimately show ?thesis using True 1(4) by (simp add: EXIT_SUCCESS_def EXIT_FAILURE_def)
  next
    case (2 i)
    have unique: "\<And>k. stops_at w marker k \<longleftrightarrow> k = i" by (rule stops_at_unique [OF 2(1)])
    have before: "\<And>j. j < i \<Longrightarrow> polls w marker (rw_clock w 0 + SMOKE_TIMEOUT) j" using 2(1) by (simp add: stops_at_def)
    note seen = marker_seen_unique [OF assms(1) stops_atD [OF 2(1)] before]
    show ?thesis
      unfolding 2(2) unique
      by (cases "rw_wait w i") (use True seen in \<open>auto simp: stop_qemu_def EXIT_SUCCESS_def EXIT_FAILURE_def\<close>)
  qed
qed (use started in \<open>auto simp: run_smoke_def not_started_def EXIT_SUCCESS_def EXIT_FAILURE_def\<close>)

definition demo_world :: runner_world where
  "demo_world = \<lparr>rw_status = (\<lambda>_. Exited (Some 0)), rw_clear_log = (\<lambda>_. True), rw_spawn = (\<lambda>_. True),
     rw_clock = (\<lambda>i. 100 * i), rw_exited = (\<lambda>_. False), rw_kill = (\<lambda>_. True), rw_wait = (\<lambda>_. Ended),
     rw_log = (\<lambda>i. if i < 3 then None else Some (''> '' @ BOOT_MARKER))\<rparr>"

theorem smoke_test_ends_and_passes_exactly_witness:
  "\<exists>r. run_smoke demo_world ''/ousia'' ''kernel'' BOOT_MARKER = Some r \<and> rr_exit r = EXIT_SUCCESS \<and> rr_ended r"
proof -
  have sleeps: "sleeps (rw_clock demo_world)" by (simp add: sleeps_def demo_world_def)
  have started: "True \<longleftrightarrow> rw_clear_log demo_world (smoke_log_path ''/ousia'') \<and> rw_spawn demo_world (smoke_command ''/ousia'' ''kernel'')"
    by (simp add: demo_world_def)
  have "sublist BOOT_MARKER (''> '' @ BOOT_MARKER)" unfolding sublist_def by (rule exI [of _ "''> ''"], rule exI [of _ "[]"]) simp
  then have seen: "marker_seen demo_world BOOT_MARKER 3"
    by (simp add: marker_seen_def demo_world_def SMOKE_TIMEOUT_def log_contains_def)
  have wait: "rw_wait demo_world i = Ended" "\<not> rw_exited demo_world i" for i by (simp_all add: demo_world_def)
  note ends = smoke_test_ends_and_passes_exactly [OF sleeps started, of BOOT_MARKER]
  obtain r where r: "run_smoke demo_world ''/ousia'' ''kernel'' BOOT_MARKER = Some r" using ends wait(1) by (cases "run_smoke demo_world ''/ousia'' ''kernel'' BOOT_MARKER") simp_all
  then show ?thesis using ends seen wait by auto
qed

end
