(* ===== verification/Kernel_Boot.thy ===== *)
theory Kernel_Boot
  imports Kernel_Demo Ostd_Console Qemu_Runner
begin

text \<open>
  The entry point of the kernel, \<^verbatim>\<open>kernel-bin/src/entry.rs\<close>, with the early heap of \<^verbatim>\<open>ostd/src/mm/heap.rs\<close>: the
  calls of the smoke scenario, and the boot message.
\<close>

section \<open>The early heap\<close>

definition EARLY_HEAP_SIZE :: usize where
  "EARLY_HEAP_SIZE = 1024 * 1024"

text \<open>The third-party allocator is represented by the regions it was given.\<close>

record early_heap =
  eh_initialized :: bool
  eh_regions :: "(usize \<times> usize) list"

definition init_early_heap :: "usize \<Rightarrow> early_heap \<Rightarrow> early_heap" where
  "init_early_heap start h =
     (if eh_initialized h then h
      else \<lparr>eh_initialized = True, eh_regions = eh_regions h @ [(start, EARLY_HEAP_SIZE)]\<rparr>)"

section \<open>The scenario\<close>

text \<open>A system call that is expected to succeed; none of the scenario can fail to return.\<close>

definition expect_call :: "heap \<Rightarrow> syscall_context \<Rightarrow> syscall \<Rightarrow> kernel \<Rightarrow> (syscall_outcome \<Rightarrow> kernel \<Rightarrow> 'a kernel_result) \<Rightarrow> 'a kernel_result" where
  "expect_call heap cx sc k f =
     (case execute heap cx sc k of
        Some (Ok v, k') \<Rightarrow> f v k'
      | _ \<Rightarrow> Panic)"

fun outcome_handle :: "syscall_outcome \<Rightarrow> handle_value kernel_result" where
  "outcome_handle (OutcomeHandle h) = Ok h"
| "outcome_handle _ = Panic"

text \<open>The calls of the scenario on a kernel and its process.  How the source makes the kernel is not modelled: it calls
  \<^verbatim>\<open>Kernel::new(16, 1)\<close>, without the frame ranges that the constructor takes, and does not compile.\<close>

definition run_smoke_on :: "heap \<Rightarrow> kernel \<Rightarrow> process_id \<Rightarrow> kernel kernel_result" where
  "run_smoke_on heap k process =
     (let cx = \<lparr>sc_process = process\<rparr> in
      expect_call heap cx (CreateObject KindEvent (HR_READ OR HR_WRITE)) k (\<lambda>r k.
      rbind (outcome_handle r) (\<lambda>event.
      rbind (expect_ok (lookup_handle k process event KindEvent HR_READ)) (\<lambda>_.
      expect_call heap cx (CreateChannelPair 1 (HR_READ OR HR_WRITE OR HR_TRANSFER)) k (\<lambda>r k.
      case r of OutcomeHandlePair first second \<Rightarrow>
        expect_call heap cx (ChannelSend first [1, 2, 3] []) k (\<lambda>_ k.
        expect_call heap cx (ChannelRecv second) k (\<lambda>r k.
        case r of OutcomeMessage _ byte_len _ \<Rightarrow>
          if byte_len \<noteq> 3 then Panic
          else
            expect_call heap cx (CreateMemoryObject 0x2000 HR_READ) k (\<lambda>r k.
            rbind (outcome_handle r) (\<lambda>memory.
            expect_call heap cx (CreateAddressSpace HR_MANAGE) k (\<lambda>r k.
            rbind (outcome_handle r) (\<lambda>address_space.
            expect_call heap cx (MapMemoryObject address_space memory 0x1000 0x1000 0 HR_READ) k (\<lambda>_ k. Ok k)))))
        | _ \<Rightarrow> Panic))
      | _ \<Rightarrow> Panic)))))"

datatype target_arch = ArchAarch64 | ArchX86

fun boot_message :: "target_arch \<Rightarrow> string" where
  "boot_message ArchAarch64 = ''Ousia kernel booted on aarch64''"
| "boot_message ArchX86 = ''Ousia kernel booted on amd64''"

section \<open>Its states\<close>

definition smoke_state :: "object_entry option list \<Rightarrow> handle_slot list \<Rightarrow> usize \<Rightarrow> frame_allocator \<Rightarrow> kernel" where
  "smoke_state objects slots budget fa = \<lparr>
     k_objects = \<lparr>om_entries = objects @ replicate (16 - length objects) None, om_generations = replicate 16 1, om_capacity = 16\<rparr>,
     k_processes = \<lparr>ptb_processes = [Some \<lparr>pr_id = 0,
         pr_handles = \<lparr>ht_slots = slots @ replicate (16 - length slots) (demo_free_slot 1), ht_capacity = 16\<rparr>,
         pr_budget = \<lparr>rb_remaining_objects = budget\<rparr>, pr_address_space = None, pr_thread_count = 0\<rparr>], ptb_capacity = 1\<rparr>,
     k_frames = fa\<rparr>"

lemma smoke_new:
  assumes "\<And>site n. heap site n" and "fa_from_available_ranges heap ranges = Ok fa"
  shows "\<exists>k. kernel_new heap 16 1 ranges = Ok k
    \<and> create_bootstrap_process heap 16 16 k = (Ok 0, smoke_state [demo_object 0 PProcess 1] [demo_self] 15 fa)"
  by (simp add: assms smoke_state_def demo_object_def demo_self_def demo_slot_def demo_free_slot_def kernel_new_def
      replicate_numeral base_defs object_defs handle_defs process_defs cong: step_congs)


definition smoke_context :: syscall_context where
  "smoke_context = \<lparr>sc_process = 0\<rparr>"

definition smoke_endpoint :: "object_id \<Rightarrow> object_payload" where
  "smoke_endpoint peer = PChannelEndpoint \<lparr>ce_peer = Some \<lparr>or_id = peer, or_generation = 1\<rparr>,
     ce_queued_messages = 0, ce_max_messages = 1, ce_peer_closed = False, ce_messages = replicate 4 None\<rparr>"

definition smoke_waiting :: object_payload where
  "smoke_waiting = PChannelEndpoint \<lparr>ce_peer = Some \<lparr>or_id = 2, or_generation = 1\<rparr>,
     ce_queued_messages = 1, ce_max_messages = 1, ce_peer_closed = False,
     ce_messages = Some \<lparr>cm_bytes = [1, 2, 3] @ replicate 61 0, cm_byte_len = 3, cm_handles = replicate 4 None, cm_handle_count = 0\<rparr>
       # replicate 3 None\<rparr>"

definition smoke_objects :: "object_payload \<Rightarrow> object_entry option list" where
  "smoke_objects waiting = [demo_object 0 PProcess 1, demo_object 1 (PEvent \<lparr>eo_state = Unsignaled\<rparr>) 1,
     demo_object 2 (smoke_endpoint 3) 1, demo_object 3 waiting 1]"

definition smoke_slots :: "handle_slot list" where
  "smoke_slots = [demo_self, demo_slot 1 1 None KindEvent 3, demo_slot 2 1 None KindChannelEndpoint 11,
     demo_slot 3 1 None KindChannelEndpoint 11]"

lemmas smoke_defs = smoke_state_def smoke_context_def smoke_endpoint_def smoke_waiting_def smoke_objects_def smoke_slots_def
  demo_object_def demo_self_def demo_slot_def demo_free_slot_def replicate_numeral

lemma smoke_event:
  "execute heap smoke_context (CreateObject KindEvent (HR_READ OR HR_WRITE)) (smoke_state [demo_object 0 PProcess 1] [demo_self] 15 fa)
    = Some (Ok (OutcomeHandle 0x100000001), smoke_state (take 2 (smoke_objects x)) (take 2 smoke_slots) 14 fa)"
  by (simp add: smoke_defs base_defs object_defs handle_defs process_defs cong: step_congs)

lemma smoke_lookup:
  "\<exists>v. lookup_handle (smoke_state (take 2 (smoke_objects x)) (take 2 smoke_slots) 14 fa) 0 0x100000001 KindEvent HR_READ = Ok v"
  by (simp add: smoke_defs base_defs object_defs handle_defs process_defs cong: step_congs)

lemma smoke_channel:
  "execute heap smoke_context (CreateChannelPair 1 (HR_READ OR HR_WRITE OR HR_TRANSFER)) (smoke_state (take 2 (smoke_objects x)) (take 2 smoke_slots) 14 fa)
    = Some (Ok (OutcomeHandlePair 0x100000002 0x100000003), smoke_state (smoke_objects (smoke_endpoint 2)) smoke_slots 12 fa)"
  by (simp add: smoke_defs base_defs object_defs handle_defs process_defs cong: step_congs)

lemma smoke_send:
  assumes "\<And>site n. heap site n"
  shows "execute heap smoke_context (ChannelSend 0x100000002 [1, 2, 3] []) (smoke_state (smoke_objects (smoke_endpoint 2)) smoke_slots 12 fa)
    = Some (Ok OutcomeClosed, smoke_state (smoke_objects smoke_waiting) smoke_slots 12 fa)"
  by (simp add: assms smoke_defs base_defs object_defs handle_defs process_defs cong: step_congs)

lemma smoke_recv:
  assumes "\<And>site n. heap site n"
  shows "\<exists>bytes. execute heap smoke_context (ChannelRecv 0x100000003) (smoke_state (smoke_objects smoke_waiting) smoke_slots 12 fa)
    = Some (Ok (OutcomeMessage bytes 3 []), smoke_state (smoke_objects (smoke_endpoint 2)) smoke_slots 12 fa)"
  by (simp add: assms smoke_defs base_defs object_defs handle_defs process_defs cong: step_congs)

definition smoke_memory :: "memory_frame_range \<Rightarrow> usize \<Rightarrow> memory_object" where
  "smoke_memory r mappings = \<lparr>mo_size_bytes = 0x2000, mo_mapping_policy = \<lparr>mp_max_rights = 7\<rparr>, mo_frame_range = r,
     mo_active_mappings = mappings\<rparr>"

lemma smoke_create_memory:
  assumes fa: "fa_reserve_contiguous (OwnerMemoryObject 4 1) 0x2000 fa = (Ok r, fa')"
    and r: "unat (mfr_end r) = unat (mfr_start r) + 0x2000"
  shows "execute heap smoke_context (CreateMemoryObject 0x2000 HR_READ) (smoke_state (smoke_objects (smoke_endpoint 2)) smoke_slots 12 fa)
    = Some (Ok (OutcomeHandle 0x100000004),
        smoke_state (smoke_objects (smoke_endpoint 2) @ [demo_object 4 (PMemoryObject (smoke_memory r 0)) 1])
          (smoke_slots @ [demo_slot 4 1 None KindMemoryObject 1]) 11 fa')"
proof -
  have "mfr_end r - mfr_start r = 0x2000" using r by (simp add: word_unat_eq_iff unat_sub word_le_nat_alt)
  then have len: "mfr_len r = (Ok 0x2000 :: u64 kernel_result)" using r by (simp add: mfr_len_def u64_sub_def word_le_nat_alt)
  show ?thesis
    by (simp add: fa len virtual_range_new_def validate_page_range_def memory_object_new_def validate_size_def MEM_PAGE_SIZE_def mem_is_page_aligned_def smoke_memory_def smoke_defs base_defs object_defs handle_defs process_defs cong: step_congs)
qed

lemma smoke_create_space:
  "execute heap smoke_context (CreateAddressSpace HR_MANAGE)
      (smoke_state (smoke_objects (smoke_endpoint 2) @ [demo_object 4 (PMemoryObject m) 1])
          (smoke_slots @ [demo_slot 4 1 None KindMemoryObject 1]) 11 fa)
    = Some (Ok (OutcomeHandle 0x100000005),
        smoke_state (smoke_objects (smoke_endpoint 2) @ [demo_object 4 (PMemoryObject m) 1, demo_object 5 (PAddressSpace as_new) 1])
          (smoke_slots @ [demo_slot 4 1 None KindMemoryObject 1, demo_slot 5 1 None KindAddressSpace 32]) 10 fa)"
  by (simp add: smoke_defs base_defs object_defs handle_defs process_defs cong: step_congs)

lemma smoke_map:
  assumes "prepare_map as_new \<lparr>or_id = 4, or_generation = 1\<rparr> (smoke_memory r 0)
      \<lparr>vd_base = 0x1000, vd_size_bytes = 0x1000, vd_memory_offset = 0, vd_rights = HR_READ\<rparr> = Ok reservation"
    and "map_reservation_commit reservation as_new = Ok a"
  shows "\<exists>v. execute heap smoke_context (MapMemoryObject 0x100000005 0x100000004 0x1000 0x1000 0 HR_READ)
      (smoke_state (smoke_objects (smoke_endpoint 2) @ [demo_object 4 (PMemoryObject (smoke_memory r 0)) 1, demo_object 5 (PAddressSpace as_new) 1])
          (smoke_slots @ [demo_slot 4 1 None KindMemoryObject 1, demo_slot 5 1 None KindAddressSpace 32]) 10 fa)
    = Some (Ok v,
        smoke_state (smoke_objects (smoke_endpoint 2) @ [demo_object 4 (PMemoryObject (smoke_memory r 1)) 1, demo_object 5 (PAddressSpace a) 1])
          (smoke_slots @ [demo_slot 4 1 None KindMemoryObject 1, demo_slot 5 1 None KindAddressSpace 32]) 10 fa)"
  using assms
  by (simp add: add_mapping_def smoke_memory_def smoke_defs base_defs object_defs handle_defs process_defs cong: step_congs)


lemma smoke_mapping:
  assumes r: "mfr_ok r" "unat (mfr_end r) = unat (mfr_start r) + 0x2000"
  obtains reservation a where "prepare_map as_new \<lparr>or_id = 4, or_generation = 1\<rparr> (smoke_memory r 0)
      \<lparr>vd_base = 0x1000, vd_size_bytes = 0x1000, vd_memory_offset = 0, vd_rights = HR_READ\<rparr> = Ok reservation"
    "map_reservation_commit reservation as_new = Ok a"
    "set (as_mappings a) = {\<lparr>vm_base = 0x1000, vm_size_bytes = 0x1000, vm_memory = \<lparr>or_id = 4, or_generation = 1\<rparr>,
      vm_memory_offset = 0, vm_rights = HR_READ\<rparr>}"
proof -
  let ?d = "\<lparr>vd_base = 0x1000, vd_size_bytes = 0x1000, vd_memory_offset = 0, vd_rights = HR_READ\<rparr>"
  let ?m = "\<lparr>or_id = 4, or_generation = 1\<rparr>"
  have m: "memory_ok (smoke_memory r 0)" using r by (simp add: memory_ok_def smoke_memory_def)
  have ready: "map_ready as_new (smoke_memory r 0) ?d"
    by (simp add: map_ready_def descriptor_ok_def vrange_ok_def within_memory_def smoke_memory_def as_wf_new as_new_def mapping_count_def
        rs_new_def DEFAULT_VM_RANGE_CAPACITY_def HR_READ_def rights_contain_def as_mappings_def)
  show ?thesis
  proof (cases rule: prepare_map_cases [OF as_wf_new(1) m, of ?m ?d])
    case (1 i)
    from map_commit_ok [OF as_wf_new(1) ready 1(3,4), of ?m "map_intent (smoke_memory r 0) ?d"]
    show ?thesis using that 1(1) by (auto simp: mapping_of_def as_wf_new)
  qed (use ready in simp)
qed

text \<open>On a new kernel with sixteen object slots, the bootstrap process, two free pages in a row and a heap that always has
  room, the calls of the scenario all succeed: the message arrives with its three bytes, and in the end one page of
  the memory object is mapped.\<close>

lemma scenario_succeeds:
  assumes heap: "\<And>site n. heap site n" and ranges: "list_all mfr_ok ranges" "ranges_disjoint ranges"
    and pages: "p \<in> \<Union> (mfr_pages ` set ranges)" "p + 1 \<in> \<Union> (mfr_pages ` set ranges)"
    and new: "kernel_new heap 16 1 ranges = Ok k" and boot: "create_bootstrap_process heap 16 16 k = (process, k')"
  shows "process = Ok 0 \<and> (\<exists>k'' r m a d. run_smoke_on heap k' 0 = Ok k'' \<and> mfr_pages r \<subseteq> \<Union> (mfr_pages ` set ranges)
    \<and> om_at (k_objects k'') 4 = Some m \<and> oe_payload m = PMemoryObject (smoke_memory r 1)
    \<and> om_at (k_objects k'') 5 = Some d \<and> oe_payload d = PAddressSpace a
    \<and> set (as_mappings a) = {\<lparr>vm_base = 0x1000, vm_size_bytes = 0x1000, vm_memory = \<lparr>or_id = 4, or_generation = 1\<rparr>,
        vm_memory_offset = 0, vm_rights = HR_READ\<rparr>})"
proof -
  obtain fa where fa: "fa_from_available_ranges heap ranges = Ok fa" "fa_wf fa"
    "fa_view fa = (\<lambda>p. if p \<in> \<Union> (mfr_pages ` set ranges) then Some Free else None)"
    using fa_from_available_ranges_cases [OF ranges(1), of heap] heap ranges(2) pages(1)
    by (auto split: result.splits kernel_error.splits)
  have run: "free_run (fa_view fa) p 2" using pages by (simp add: free_run_def fa(3) less_Suc_eq numeral_2_eq_2)
  obtain r fa' where r: "fa_reserve_contiguous (OwnerMemoryObject 4 1) 0x2000 fa = (Ok r, fa')" "mfr_ok r"
    "unat (mfr_end r) = unat (mfr_start r) + 0x2000" "\<forall>p \<in> mfr_pages r. fa_view fa p = Some Free"
    by (cases rule: fa_reserve_contiguous_cases [OF fa(2), of "OwnerMemoryObject 4 1" "0x2000"]) (use run in auto)
  have inside: "mfr_pages r \<subseteq> \<Union> (mfr_pages ` set ranges)" using r(4) by (auto simp: fa(3) split: if_split_asm)
  obtain reservation a where map: "prepare_map as_new \<lparr>or_id = 4, or_generation = 1\<rparr> (smoke_memory r 0)
      \<lparr>vd_base = 0x1000, vd_size_bytes = 0x1000, vd_memory_offset = 0, vd_rights = HR_READ\<rparr> = Ok reservation"
    "map_reservation_commit reservation as_new = Ok a"
    "set (as_mappings a) = {\<lparr>vm_base = 0x1000, vm_size_bytes = 0x1000, vm_memory = \<lparr>or_id = 4, or_generation = 1\<rparr>,
      vm_memory_offset = 0, vm_rights = HR_READ\<rparr>}"
    by (rule smoke_mapping [OF r(2,3)])
  have k: "process = Ok 0" "k' = smoke_state [demo_object 0 PProcess 1] [demo_self] 15 fa"
    using smoke_new [of heap, OF heap fa(1)] new boot by auto
  obtain v where v: "lookup_handle (smoke_state (take 2 (smoke_objects (smoke_endpoint 2))) (take 2 smoke_slots) 14 fa) 0 0x100000001
      KindEvent HR_READ = Ok v" using smoke_lookup by blast
  obtain bytes where recv: "execute heap smoke_context (ChannelRecv 0x100000003) (smoke_state (smoke_objects smoke_waiting) smoke_slots 12 fa)
    = Some (Ok (OutcomeMessage bytes 3 []), smoke_state (smoke_objects (smoke_endpoint 2)) smoke_slots 12 fa)"
    using smoke_recv [of heap, OF heap] by blast
  obtain w where w: "execute heap smoke_context (MapMemoryObject 0x100000005 0x100000004 0x1000 0x1000 0 HR_READ)
      (smoke_state (smoke_objects (smoke_endpoint 2) @ [demo_object 4 (PMemoryObject (smoke_memory r 0)) 1, demo_object 5 (PAddressSpace as_new) 1])
          (smoke_slots @ [demo_slot 4 1 None KindMemoryObject 1, demo_slot 5 1 None KindAddressSpace 32]) 10 fa')
    = Some (Ok w,
        smoke_state (smoke_objects (smoke_endpoint 2) @ [demo_object 4 (PMemoryObject (smoke_memory r 1)) 1, demo_object 5 (PAddressSpace a) 1])
          (smoke_slots @ [demo_slot 4 1 None KindMemoryObject 1, demo_slot 5 1 None KindAddressSpace 32]) 10 fa')"
    using smoke_map [OF map(1,2)] by blast
  let ?k = "smoke_state (smoke_objects (smoke_endpoint 2) @ [demo_object 4 (PMemoryObject (smoke_memory r 1)) 1, demo_object 5 (PAddressSpace a) 1])
          (smoke_slots @ [demo_slot 4 1 None KindMemoryObject 1, demo_slot 5 1 None KindAddressSpace 32]) 10 fa'"
  note calls = smoke_event [where x = "smoke_endpoint 2"] v smoke_channel smoke_send [of heap, OF heap] recv smoke_create_memory [OF r(1,3)]
    smoke_create_space w
  have "run_smoke_on heap k' 0 = Ok ?k"
    unfolding run_smoke_on_def by (simp add: k expect_call_def calls smoke_context_def [symmetric] Let_def del: One_nat_def)
  moreover have "om_at (k_objects ?k) 4 = demo_object 4 (PMemoryObject (smoke_memory r 1)) 1"
    "om_at (k_objects ?k) 5 = demo_object 5 (PAddressSpace a) 1"
    by (simp_all add: om_at_def smoke_state_def smoke_objects_def nth_append)
  ultimately show ?thesis using inside map(3) k(1) by (auto simp: demo_object_def)
qed

text \<open>The boot message is what the QEMU runner looks for.\<close>

lemma boot_message_is_the_marker: "boot_message ArchAarch64 = BOOT_MARKER"
  by (simp add: BOOT_MARKER_def)

end
