(* ===== verification/Object_Names.thy ===== *)
theory Object_Names
  imports Kernel_Inv Slot_Arena
begin

text \<open>
  How an object manager may change: a slot gets an entry or a new state of its entry, or it is emptied and its
  generation advances.  So the object table is a slot arena too, and the name of an object that is gone never
  names another one.  The lemmas hold for every operation and every outcome, errors and panics included, and
  they also track the mappings: only the map operation adds one, with the rights that it was called with.
\<close>

section \<open>Steps of an object manager\<close>

definition om_occupied :: "object_manager \<Rightarrow> nat \<Rightarrow> bool" where
  "om_occupied om k \<longleftrightarrow> k < length (om_entries om) \<and> om_entries om ! k \<noteq> None"

definition om_slot_generation :: "object_manager \<Rightarrow> nat \<Rightarrow> u64" where
  "om_slot_generation om k = (if k < length (om_generations om) then om_generations om ! k else 0)"

definition om_set_entry :: "object_manager \<Rightarrow> nat \<Rightarrow> object_entry \<Rightarrow> object_manager" where
  "om_set_entry om k e = om\<lparr>om_entries := (om_entries om)[k := Some e]\<rparr>"

definition om_empty_slot :: "object_manager \<Rightarrow> nat \<Rightarrow> object_manager" where
  "om_empty_slot om k = om\<lparr>om_entries := (om_entries om)[k := None], om_generations := (om_generations om)[k := om_generations om ! k + 1]\<rparr>"

inductive om_step :: "object_manager \<Rightarrow> object_manager \<Rightarrow> bool" where
  step_set: "k < length (om_entries om) \<Longrightarrow> om_step om (om_set_entry om k e)"
| step_empty: "om_occupied om k \<Longrightarrow> k < length (om_generations om) \<Longrightarrow> unat (om_generations om ! k) + 1 < 2 ^ 64
    \<Longrightarrow> om_step om (om_empty_slot om k)"

abbreviation om_steps :: "object_manager \<Rightarrow> object_manager \<Rightarrow> bool" where
  "om_steps \<equiv> om_step\<^sup>*\<^sup>*"

lemma om_set_entry_slots [simp]:
  "om_occupied (om_set_entry om k e) j \<longleftrightarrow> om_occupied om j \<or> j = k \<and> k < length (om_entries om)"
  "om_slot_generation (om_set_entry om k e) = om_slot_generation om"
proof -
  show "om_occupied (om_set_entry om k e) j \<longleftrightarrow> om_occupied om j \<or> j = k \<and> k < length (om_entries om)"
    by (cases "j = k") (auto simp: om_occupied_def om_set_entry_def)
qed (simp add: om_slot_generation_def om_set_entry_def fun_eq_iff)

lemma om_empty_slot_slots:
  "om_occupied (om_empty_slot om k) j \<longleftrightarrow> om_occupied om j \<and> j \<noteq> k"
  "k < length (om_generations om) \<Longrightarrow> om_slot_generation (om_empty_slot om k) j
    = (if j = k then om_slot_generation om k + 1 else om_slot_generation om j)"
  by (cases "j = k"; auto simp: om_occupied_def om_empty_slot_def om_slot_generation_def)+

lemma om_slot_generation_eq: "k < length (om_generations om) \<Longrightarrow> om_slot_generation om k = om_generations om ! k"
  by (simp add: om_slot_generation_def)

lemma next_u64: "unat g + 1 < 2 ^ 64 \<Longrightarrow> unat (g + 1) = unat g + 1" for g :: u64
  by (simp add: unat_word_ariths)

interpretation object_names: slot_arena om_occupied om_slot_generation om_step
proof unfold_locales
  fix om om' k assume "om_step om om'"
  then show "om_slot_generation om k \<le> om_slot_generation om' k"
    by cases (auto simp: om_empty_slot_slots word_le_nat_alt om_slot_generation_eq next_u64)
next
  fix om om' k assume "om_step om om'" "om_occupied om k" "\<not> om_occupied om' k"
  then show "om_slot_generation om k < om_slot_generation om' k"
    by cases (auto simp: om_empty_slot_slots word_less_nat_alt om_slot_generation_eq next_u64)
next
  fix om om' k assume "om_step om om'" "om_occupied om k" "om_occupied om' k"
  then show "om_slot_generation om' k = om_slot_generation om k"
    by cases (auto simp: om_empty_slot_slots)
qed

section \<open>Mappings\<close>

text \<open>What an address space holds: memory that it maps with some rights, and memory that it maps or has yet to flush
  from the TLBs.\<close>

type_synonym holding = "object_ref \<times> handle_rights option"

fun payload_holds :: "object_payload \<Rightarrow> holding set" where
  "payload_holds (PAddressSpace a) = (\<lambda>m. (vm_memory m, Some (vm_rights m))) ` set (as_mappings a) \<union> (\<lambda>r. (r, None)) ` set_mset (as_refs a)"
| "payload_holds _ = {}"

definition oe_ref :: "object_entry \<Rightarrow> object_ref" where
  "oe_ref e = \<lparr>or_id = oe_id e, or_generation = oe_generation e\<rparr>"

definition om_holds :: "object_manager \<Rightarrow> (object_ref \<times> holding) set" where
  "om_holds om = (\<Union>e \<in> set (live (om_entries om)). Pair (oe_ref e) ` payload_holds (oe_payload e))"

definition om_mappings :: "object_manager \<Rightarrow> (object_ref \<times> handle_rights) set" where
  "om_mappings om = {(memory, rights). \<exists>space. (space, memory, Some rights) \<in> om_holds om}"

lemma om_holds_iff:
  "x \<in> om_holds om \<longleftrightarrow> (\<exists>k e. k < length (om_entries om) \<and> om_entries om ! k = Some e \<and> x \<in> Pair (oe_ref e) ` payload_holds (oe_payload e))"
proof -
  have "x \<in> om_holds om \<longleftrightarrow> (\<exists>e. Some e \<in> set (om_entries om) \<and> x \<in> Pair (oe_ref e) ` payload_holds (oe_payload e))"
    by (auto simp: om_holds_def in_live)
  then show ?thesis unfolding in_set_conv_nth by blast
qed

text \<open>The holdings that a mapping of a memory object in an address space adds.\<close>

definition mapping_of :: "object_ref \<Rightarrow> object_ref \<Rightarrow> handle_rights \<Rightarrow> (object_ref \<times> holding) set" where
  "mapping_of space memory rights = {(space, memory, Some rights), (space, memory, None)}"

section \<open>Evolution\<close>

text \<open>An entry carries the generation of its slot; an operation that starts in such a state may then do steps
  and add the mappings in \<open>A\<close>.\<close>

definition om_named :: "object_manager \<Rightarrow> bool" where
  "om_named om \<longleftrightarrow> length (om_entries om) = length (om_generations om)
     \<and> (\<forall>k e. k < length (om_entries om) \<longrightarrow> om_entries om ! k = Some e
         \<longrightarrow> oe_id e = of_nat k \<and> oe_generation e = om_generations om ! k)"

definition evolves :: "(object_ref \<times> holding) set \<Rightarrow> object_manager \<Rightarrow> object_manager \<Rightarrow> bool" where
  "evolves A om om' \<longleftrightarrow> (om_named om \<longrightarrow> om_named om' \<and> om_steps om om' \<and> om_holds om' \<subseteq> om_holds om \<union> A)"

lemma evolvesI: "(om_named om \<Longrightarrow> evolves A om om') \<Longrightarrow> evolves A om om'"
  by (simp add: evolves_def)

lemma evolves_refl [simp]: "evolves A om om"
  by (simp add: evolves_def)

lemma evolves_trans [trans]: "evolves A om om' \<Longrightarrow> evolves A om' om'' \<Longrightarrow> evolves A om om''"
  unfolding evolves_def by (blast intro: rtranclp_trans)

lemma evolves_mono: "evolves A om om' \<Longrightarrow> A \<subseteq> B \<Longrightarrow> evolves B om om'"
  unfolding evolves_def by blast

lemma om_named_entry:
  "om_named om \<Longrightarrow> om_entries om ! k = Some e \<Longrightarrow> k < length (om_entries om) \<Longrightarrow> oe_generation e = om_generations om ! k"
  "om_named om \<Longrightarrow> om_entries om ! k = Some e \<Longrightarrow> k < length (om_entries om) \<Longrightarrow> oe_id e = of_nat k"
  by (simp_all add: om_named_def)

lemma evolves_set:
  assumes k: "k < length (om_entries om)" and g: "oe_id e = of_nat k" "oe_generation e = om_generations om ! k"
    and m: "Pair (oe_ref e) ` payload_holds (oe_payload e) \<subseteq> om_holds om \<union> A"
  shows "evolves A om (om_set_entry om k e)"
proof (rule evolvesI)
  assume named: "om_named om"
  have "oe_id d = of_nat j \<and> oe_generation d = om_generations om ! j"
    if "j < length (om_entries om)" "(om_entries om)[k := Some e] ! j = Some d" for j d
    using that named g by (cases "j = k") (simp_all add: om_named_def)
  then have "om_named (om_set_entry om k e)" using named by (simp add: om_named_def om_set_entry_def)
  moreover have "om_holds (om_set_entry om k e) \<subseteq> om_holds om \<union> A"
  proof
    fix x assume "x \<in> om_holds (om_set_entry om k e)"
    then obtain j d where d: "j < length (om_entries om)" "(om_entries om)[k := Some e] ! j = Some d" "x \<in> Pair (oe_ref d) ` payload_holds (oe_payload d)"
      by (auto simp: om_holds_iff om_set_entry_def)
    then show "x \<in> om_holds om \<union> A" using m k by (cases "j = k") (auto simp: om_holds_iff)
  qed
  ultimately show "evolves A om (om_set_entry om k e)" using step_set [OF k, of e] by (auto simp: evolves_def)
qed

lemma evolves_update:
  assumes k: "k < length (om_entries om)" "om_entries om ! k = Some d" and g: "oe_id e = oe_id d" "oe_generation e = oe_generation d"
    and m: "Pair (oe_ref d) ` payload_holds (oe_payload e) \<subseteq> Pair (oe_ref d) ` payload_holds (oe_payload d) \<union> A"
  shows "evolves A om (om_set_entry om k e)"
proof (rule evolvesI)
  assume named: "om_named om"
  have "oe_id e = of_nat k" "oe_generation e = om_generations om ! k" using om_named_entry [OF named k(2,1)] g by simp_all
  moreover have held: "Pair (oe_ref d) ` payload_holds (oe_payload d) \<subseteq> om_holds om" using k unfolding om_holds_iff subset_iff by blast
  have same: "oe_ref e = oe_ref d" using g by (simp add: oe_ref_def)
  have "Pair (oe_ref e) ` payload_holds (oe_payload e) \<subseteq> om_holds om \<union> A"
    unfolding same by (rule order_trans [OF m Un_mono [OF held order_refl]])
  ultimately show "evolves A om (om_set_entry om k e)" by (intro evolves_set k(1))
qed

lemma evolves_empty:
  assumes k: "om_occupied om k" "unat (om_generations om ! k) + 1 < 2 ^ 64"
  shows "evolves A om (om_empty_slot om k)"
proof (rule evolvesI)
  assume named: "om_named om"
  then have kg: "k < length (om_generations om)" using k(1) by (simp add: om_named_def om_occupied_def)
  have "oe_id d = of_nat j \<and> oe_generation d = (om_generations om)[k := om_generations om ! k + 1] ! j"
    if "j < length (om_entries om)" "(om_entries om)[k := None] ! j = Some d" for j d
    using that named by (cases "j = k") (simp_all add: om_named_def)
  then have "om_named (om_empty_slot om k)" using named by (simp add: om_named_def om_empty_slot_def)
  moreover have "om_holds (om_empty_slot om k) \<subseteq> om_holds om"
  proof
    fix x assume "x \<in> om_holds (om_empty_slot om k)"
    then obtain j d where d: "j < length (om_entries om)" "(om_entries om)[k := None] ! j = Some d" "x \<in> Pair (oe_ref d) ` payload_holds (oe_payload d)"
      by (auto simp: om_holds_iff om_empty_slot_def)
    then show "x \<in> om_holds om" by (cases "j = k") (auto simp: om_holds_iff)
  qed
  ultimately show "evolves A om (om_empty_slot om k)" using step_empty [OF k(1) kg k(2)] by (auto simp: evolves_def)
qed

section \<open>The operations on objects\<close>

lemma lift_allE: "lift r s f = (x, s') \<Longrightarrow> (s' = s \<Longrightarrow> thesis) \<Longrightarrow> (\<And>a. r = Ok a \<Longrightarrow> f a = (x, s') \<Longrightarrow> thesis) \<Longrightarrow> thesis"
  by (cases r) auto

lemma sbind_allE:
  "sbind y f = (x, s') \<Longrightarrow> (\<And>r. y = (r, s') \<Longrightarrow> thesis) \<Longrightarrow> (\<And>a s. y = (Ok a, s) \<Longrightarrow> f a s = (x, s') \<Longrightarrow> thesis) \<Longrightarrow> thesis"
  by (cases "(y, f)" rule: sbind.cases) auto

lemma discard_allE: "discard y = (x, s) \<Longrightarrow> (\<And>r. y = (r, s) \<Longrightarrow> thesis) \<Longrightarrow> thesis"
  by (cases y rule: discard.cases) auto

lemmas outcome_elims = lift_allE sbind_allE discard_allE apsndE

lemma evolves_put_count:
  assumes "om_entry om i = Ok e"
  shows "evolves A om (om_put om i (e\<lparr>oe_handle_count := n\<rparr>))"
proof -
  have k: "unat i < length (om_entries om)" "om_entries om ! unat i = Some e"
    using assms by (auto simp: om_entry_def om_index_def as_usize_def vec_get_def result_simps split: if_split_asm)
  show ?thesis
    using evolves_update [OF k, of "e\<lparr>oe_handle_count := n\<rparr>" A] by (simp add: om_put_def om_set_entry_def as_usize_def)
qed

lemma evolves_put_payload:
  assumes live: "om_live_payload om i g = Ok p"
    and m: "Pair \<lparr>or_id = i, or_generation = g\<rparr> ` payload_holds p' \<subseteq> Pair \<lparr>or_id = i, or_generation = g\<rparr> ` payload_holds p \<union> A"
  shows "evolves A om (om_put_payload om i p')"
proof (rule evolvesI)
  assume named: "om_named om"
  obtain e where k: "unat i < length (om_entries om)" "om_entries om ! unat i = Some e" "oe_payload e = p" "oe_generation e = g"
    using live by (auto simp: om_live_payload_def om_live_entry_def om_entry_def om_index_def as_usize_def vec_get_def result_simps split: if_split_asm)
  have "oe_ref e = \<lparr>or_id = i, or_generation = g\<rparr>" using om_named_entry(2) [OF named k(2,1)] k(4) by (simp add: oe_ref_def)
  moreover have "om_put_payload om i p' = om_set_entry om (unat i) (e\<lparr>oe_payload := p'\<rparr>)"
    using k by (simp add: om_put_payload_def om_set_entry_def as_usize_def)
  ultimately show "evolves A om (om_put_payload om i p')"
    using evolves_update [OF k(1,2), of "e\<lparr>oe_payload := p'\<rparr>" A] m k(3) by simp
qed

lemma evolves_put_same: "om_live_payload om i g = Ok p \<Longrightarrow> payload_holds p' \<subseteq> payload_holds p \<Longrightarrow> evolves A om (om_put_payload om i p')"
  by (rule evolves_put_payload) blast+

lemma add_handle_evolves: "om_add_handle i g om = (r, om') \<Longrightarrow> evolves A om om'"
  by (auto simp: om_add_handle_def elim!: outcome_elims split: if_split_asm intro: evolves_put_count)

lemma remove_handle_evolves: "om_remove_handle i g om = (r, om') \<Longrightarrow> evolves A om om'"
  by (auto simp: om_remove_handle_def elim!: outcome_elims split: if_split_asm intro: evolves_put_count)

lemma commit_evolves:
  assumes "om_commit_reserved rv p om = (r, om')" and "payload_holds p = {}"
  shows "evolves A om om'"
  using assms(1)
  by (auto simp: om_commit_reserved_def Let_def vec_get_def elim!: outcome_elims split: if_split_asm
      intro!: evolves_set [unfolded om_set_entry_def] simp: assms(2) as_u64_def)

lemma remove_slot_evolves:
  assumes "om_remove_slot k g om = (r, om')" and "om_occupied om k" "om_generations om ! k = g"
  shows "evolves A om om'"
  using assms evolves_empty [OF assms(2), of A]
  by (auto simp: om_remove_slot_def vec_set_def result_simps om_empty_slot_def elim!: outcome_elims split: if_split_asm)

lemma mark_peer_evolves:
  "evolves A om (om_mark_peer_closed peer om)" "om_generations (om_mark_peer_closed peer om) = om_generations om"
  "om_occupied om k \<Longrightarrow> om_occupied (om_mark_peer_closed peer om) k"
proof -
  have "\<exists>(i :: object_id) e p. om_mark_peer_closed peer om = om_set_entry om (unat i) (e\<lparr>oe_payload := PChannelEndpoint p\<rparr>)
      \<and> unat i < length (om_entries om) \<and> om_entries om ! unat i = Some e" if changed: "om_mark_peer_closed peer om \<noteq> om"
  proof -
    obtain r where peer: "peer = Some r" using changed by (cases peer) (simp_all add: om_mark_peer_closed_def)
    then obtain e where e: "om_entry om (or_id r) = Ok e" using changed by (cases "om_entry om (or_id r)") (simp_all add: om_mark_peer_closed_def)
    then obtain c where "oe_payload e = PChannelEndpoint c" using changed peer by (cases "oe_payload e") (simp_all add: om_mark_peer_closed_def)
    then have r: "om_entry om (or_id r) = Ok e"
      "om_mark_peer_closed peer om = om_put_payload om (or_id r) (PChannelEndpoint (c\<lparr>ce_peer_closed := True\<rparr>))"
      using changed peer e by (auto simp: om_mark_peer_closed_def split: if_split_asm)
    then have "unat (or_id r) < length (om_entries om)" "om_entries om ! unat (or_id r) = Some e"
      by (auto simp: om_entry_def om_index_def as_usize_def vec_get_def result_simps split: if_split_asm)
    then show ?thesis
      using r(2) by (intro exI [of _ "or_id r"] exI [of _ e] exI [of _ "c\<lparr>ce_peer_closed := True\<rparr>"])
        (simp add: om_put_payload_def om_set_entry_def as_usize_def)
  qed
  then consider "om_mark_peer_closed peer om = om"
    | i :: object_id and e p where "om_mark_peer_closed peer om = om_set_entry om (unat i) (e\<lparr>oe_payload := PChannelEndpoint p\<rparr>)"
      "unat i < length (om_entries om)" "om_entries om ! unat i = Some e" by blast
  note cases = this
  show "evolves A om (om_mark_peer_closed peer om)"
    by (cases rule: cases) (auto intro: evolves_update)
  show "om_generations (om_mark_peer_closed peer om) = om_generations om"
    by (cases rule: cases) (simp_all add: om_set_entry_def)
  show "om_occupied om k \<Longrightarrow> om_occupied (om_mark_peer_closed peer om) k"
    by (cases rule: cases) simp_all
qed

lemma destroy_evolves:
  assumes d: "om_destroy i g om = (r, om')"
  shows "evolves A om om'"
proof (rule evolvesI)
  assume named: "om_named om"
  show "evolves A om om'"
  proof (cases "om' = om")
    case False
    note d = d [unfolded om_destroy_def om_index_def as_usize_def vec_get_def]
    from d False obtain e where e: "unat i < length (om_entries om)" "om_entries om ! unat i = Some e" "oe_generation e = g"
      by (auto elim!: outcome_elims split: if_split_asm option.split_asm)
    from d False have "om_remove_slot (unat i) g om = (r, om') \<or> (\<exists>c. om_remove_slot (unat i) g (om_mark_peer_closed c om) = (r, om'))"
      by (auto elim!: outcome_elims split: if_split_asm option.split_asm object_payload.split_asm)
    moreover have occ: "om_occupied om (unat i)" using e by (simp add: om_occupied_def)
    moreover have g: "om_generations om ! unat i = g" using om_named_entry(1) [OF named e(2,1)] e(3) by simp
    ultimately show ?thesis
    proof (elim disjE exE)
      assume rm: "om_remove_slot (unat i) g om = (r, om')"
      show ?thesis by (rule remove_slot_evolves [OF rm occ g])
    next
      fix c assume rm: "om_remove_slot (unat i) g (om_mark_peer_closed c om) = (r, om')"
      show ?thesis
        by (rule evolves_trans [OF mark_peer_evolves(1) remove_slot_evolves [OF rm mark_peer_evolves(3) [OF occ]]])
          (simp add: mark_peer_evolves(2) g)
    qed
  qed simp
qed

lemma destroy_memory_evolves:
  assumes d: "om_destroy_memory_object i g om = (r, om')"
  shows "evolves A om om'"
proof (rule evolvesI)
  assume named: "om_named om"
  show "evolves A om om'"
  proof (cases "om' = om")
    case False
    then obtain e where e: "unat i < length (om_entries om)" "om_entries om ! unat i = Some e" "oe_generation e = g"
      and rm: "om_remove_slot (unat i) g om = (r, om')"
      using d by (auto simp: om_destroy_memory_object_def om_index_def as_usize_def vec_get_def elim!: outcome_elims
          split: if_split_asm option.split_asm)
    show ?thesis
      by (rule remove_slot_evolves [OF rm]) (use e om_named_entry(1) [OF named e(2,1)] in \<open>simp_all add: om_occupied_def\<close>)
  qed simp
qed

lemma reclaim_evolves: "om_reclaim_memory_object_if_unreferenced i g (om, fa) = (r, (om', fa')) \<Longrightarrow> evolves A om om'"
  by (auto simp: om_reclaim_memory_object_if_unreferenced_def elim!: outcome_elims
      split: object_payload.split_asm if_split_asm prod.split_asm result.split_asm dest: destroy_memory_evolves)

lemma enqueue_evolves: "om_enqueue_channel_message i g m om = (r, om') \<Longrightarrow> evolves A om om'"
  by (auto simp: om_enqueue_channel_message_def elim!: outcome_elims intro: evolves_put_same)

lemma dequeue_evolves: "om_dequeue_channel_message i g om = (r, om') \<Longrightarrow> evolves A om om'"
  by (auto simp: om_dequeue_channel_message_def elim!: outcome_elims intro: evolves_put_same)

lemma add_mapping_evolves: "om_add_memory_mapping i g om = (r, om') \<Longrightarrow> evolves A om om'"
  by (auto simp: om_add_memory_mapping_def elim!: outcome_elims intro: evolves_put_same)

lemma remove_mapping_evolves: "om_remove_memory_mapping i g om = (r, om') \<Longrightarrow> evolves A om om'"
  by (auto simp: om_remove_memory_mapping_def elim!: outcome_elims intro: evolves_put_same)

lemma create_payload_evolves: "om_create_payload p om = (r, om') \<Longrightarrow> payload_holds p = {} \<Longrightarrow> evolves A om om'"
  by (auto simp: om_create_payload_def elim!: outcome_elims intro: commit_evolves)

lemma create_endpoint_evolves: "om_create_channel_endpoint n om = (r, om') \<Longrightarrow> evolves A om om'"
  by (auto simp: om_create_channel_endpoint_def elim!: outcome_elims intro: create_payload_evolves)

lemma set_peer_evolves: "om_set_peer s s' om = (r, om') \<Longrightarrow> evolves A om om'"
  by (auto simp: om_set_peer_def elim!: outcome_elims intro: evolves_put_same)

lemma link_evolves: "om_link_channel_pair s s' om = (r, om') \<Longrightarrow> evolves A om om'"
  by (auto simp: om_link_channel_pair_def elim!: outcome_elims dest: set_peer_evolves intro: evolves_trans)

lemma create_pair_evolves:
  assumes "om_create_channel_pair n om = (r, om')"
  shows "evolves A om om'"
  using assms
  by (auto simp: om_create_channel_pair_def elim!: outcome_elims split: prod.split_asm result.split_asm
      dest!: create_endpoint_evolves [where A = A] link_evolves [where A = A] destroy_evolves [where A = A])
    (blast intro: evolves_trans)+

section \<open>Mapping\<close>

lemma holds_space:
  "payload_holds (PAddressSpace a) = (\<lambda>m. (vm_memory m, Some (vm_rights m))) ` set (live (rs_mappings (as_range_set a)))
    \<union> (\<lambda>m. (vm_memory m, None)) ` set (live (rs_mappings (as_range_set a)))
    \<union> (\<lambda>x. (pti_deferred_reclaim x, None)) ` set (live (pts_work (as_pending a)))"
  by (auto simp: as_mappings_def as_refs_def)

lemma live_update: "set (live (xs[i := x])) \<subseteq> set (live xs) \<union> set_option x"
  by (auto simp: in_live dest!: set_update_subset_insert [THEN subsetD])

lemma map_holds:
  assumes prepared: "prepare_map a memory m d = Ok rv" and committed: "map_reservation_commit rv a = Ok a'"
  shows "payload_holds (PAddressSpace a') \<subseteq> payload_holds (PAddressSpace a) \<union> {(memory, Some (vd_rights d)), (memory, None)}"
proof -
  have "vm_memory (vmr_mapping rv) = memory" "vm_rights (vmr_mapping rv) = vd_rights d"
    using prepared by (auto simp: prepare_map_def Let_def result_simps)
  moreover obtain i where "rs_mappings (as_range_set a') = (rs_mappings (as_range_set a))[i := Some (vmr_mapping rv)]"
    "as_pending a' = as_pending a"
    using committed by (auto simp: map_reservation_commit_def commit_map_def result_simps)
  ultimately show ?thesis
    using live_update [of "rs_mappings (as_range_set a)" i "Some (vmr_mapping rv)"] unfolding holds_space by auto
qed

lemma unmap_holds:
  assumes prepared: "prepare_unmap a base size_bytes = Ok rv" and committed: "unmap_reservation_commit rv a = Ok a'"
  shows "payload_holds (PAddressSpace a') \<subseteq> payload_holds (PAddressSpace a)"
proof -
  let ?xs = "rs_mappings (as_range_set a)" and ?ws = "pts_work (as_pending a)"
  obtain i m where i: "i < length ?xs" "?xs ! i = Some m" "vur_index rv = i" "ptr_deferred_reclaim (vur_tlb_slot rv) = vm_memory m"
    using prepared by (auto simp: prepare_unmap_def reserved_mapping_def pts_reserve_def result_simps split: if_split_asm)
  obtain j x where a': "rs_mappings (as_range_set a') = ?xs[i := None]" "pts_work (as_pending a') = ?ws[j := Some x]"
    "pti_deferred_reclaim x = vm_memory m"
    using committed i(3,4) by (auto simp: unmap_reservation_commit_def commit_unmap_def pts_commit_def result_simps)
  have "m \<in> set (live ?xs)" using nth_mem [OF i(1)] i(2) by (simp add: in_live)
  then show ?thesis
    using live_update [of ?xs i None] live_update [of ?ws j "Some x"] a'(3) unfolding holds_space a'(1,2) by auto
qed

lemma take_holds:
  assumes "take_pending_tlb_invalidation a = Ok (w, a')"
  shows "payload_holds (PAddressSpace a') \<subseteq> payload_holds (PAddressSpace a)"
proof -
  obtain p where p: "pts_take_next (as_pending a) = Ok (w, p)" and a': "a' = a\<lparr>as_pending := p\<rparr>"
    using assms by (auto simp: take_pending_tlb_invalidation_def result_simps)
  have "p = as_pending a \<or> (\<exists>i. pts_work p = (pts_work (as_pending a))[i := None])"
    using p by (auto simp: pts_take_next_def result_simps split: option.split_asm prod.split_asm)
  then have "set (live (pts_work p)) \<subseteq> set (live (pts_work (as_pending a)))"
  proof (elim disjE exE)
    fix i assume "pts_work p = (pts_work (as_pending a))[i := None]"
    then show ?thesis using live_update [of "pts_work (as_pending a)" i None] by simp
  qed simp
  then show ?thesis unfolding holds_space a' by auto
qed

lemma map_into_evolves:
  assumes "om_map_into_address_space space memory m d om = (r, om')"
  shows "evolves (mapping_of space memory (vd_rights d)) om om'"
proof -
  have "evolves (mapping_of space memory (vd_rights d)) om (om_put_payload om (or_id space) (PAddressSpace a'))"
    if live: "om_live_payload om (or_id space) (or_generation space) = Ok (PAddressSpace a)"
      and rv: "prepare_map a memory m d = Ok rv" "map_reservation_commit rv a = Ok a'" for a a' rv
    by (rule evolves_put_payload [OF live]) (use map_holds [OF rv] in \<open>auto simp: mapping_of_def simp del: payload_holds.simps\<close>)
  then show ?thesis
    using assms by (auto simp: om_map_into_address_space_def elim!: outcome_elims as_address_space.elims)
qed

lemma map_memory_evolves:
  assumes "om_map_memory_object space memory base size_bytes offset rights om = (r, om')"
  shows "evolves (mapping_of space memory rights) om om'"
proof -
  let ?A = "mapping_of space memory rights"
  show ?thesis
    using assms
    by (auto simp: om_map_memory_object_def Let_def elim!: outcome_elims split: prod.split_asm result.split_asm
        dest!: add_mapping_evolves [where A = ?A] remove_mapping_evolves [where A = ?A] map_into_evolves)
      (blast intro: evolves_trans)+
qed

lemma unmap_evolves: "om_unmap_address_range space base size_bytes om = (r, om') \<Longrightarrow> evolves A om om'"
  by (auto simp: om_unmap_address_range_def elim!: outcome_elims as_address_space.elims
      intro: evolves_put_same [OF _ unmap_holds])

lemma take_tlb_evolves:
  assumes "om_take_address_space_tlb_invalidation space (om, fa) = (r, (om', fa'))"
  shows "evolves A om om'"
proof -
  have put: "evolves A om (om_put_payload om i (PAddressSpace a'))"
    if "om_live_payload om i g = Ok (PAddressSpace a)" "take_pending_tlb_invalidation a = Ok (w, a')" for i g a w a'
    by (rule evolves_put_same [OF that(1) take_holds [OF that(2)]])
  show ?thesis
    using assms
    by (auto simp: om_take_address_space_tlb_invalidation_def Let_def elim!: outcome_elims as_address_space.elims
        split: prod.split_asm result.split_asm dest!: put remove_mapping_evolves [where A = A] reclaim_evolves [where A = A])
      (blast intro: evolves_trans)+
qed

section \<open>The operations on handles and processes\<close>

lemma install_reserved_evolves: "ht_install_reserved rv object rights (ht, om) = (r, (ht', om')) \<Longrightarrow> evolves A om om'"
  by (auto simp: ht_install_reserved_def elim!: outcome_elims split: if_split_asm dest: add_handle_evolves)

lemma install_evolves: "ht_install object rights (ht, om) = (r, (ht', om')) \<Longrightarrow> evolves A om om'"
  by (auto simp: ht_install_def elim!: outcome_elims dest: install_reserved_evolves)

lemma duplicate_evolves: "ht_duplicate source rights (ht, om) = (r, (ht', om')) \<Longrightarrow> evolves A om om'"
  by (auto simp: ht_duplicate_def elim!: outcome_elims split: if_split_asm dest: install_evolves)

lemma close_evolves: "ht_close h (ht, om, fa) = (r, (ht', om', fa')) \<Longrightarrow> evolves A om om'"
  by (auto simp: ht_close_def elim!: outcome_elims dest!: remove_handle_evolves [where A = A] reclaim_evolves [where A = A])
    (blast intro: evolves_trans)+

lemma close_all_evolves: "close_all hs (ht, om, fa) = (r, (ht', om', fa')) \<Longrightarrow> evolves A om om'"
proof (induction hs arbitrary: ht om fa)
  case (Cons h hs)
  from Cons.prems show ?case
    by (auto elim!: sbind_allE dest!: close_evolves [where A = A] Cons.IH) (blast intro: evolves_trans)+
qed simp

lemma revoke_evolves:
  assumes "ht_revoke_descendants heap root (ht, om, fa) = Some (r, (ht', om', fa'))"
  shows "evolves A om om'"
  using assms by (auto simp: ht_revoke_descendants_def elim!: sbind_allE split: result.split_asm option.split_asm dest: close_all_evolves)

end
