(* ===== verification/Handle_Names.thy ===== *)
theory Handle_Names
  imports Kernel_Inv Slot_Arena
begin

text \<open>
  What the operations can do to a handle table, as atomic steps: a free slot gets an entry, or a slot is
  emptied and its generation advances.  The steps make a handle table a slot arena, so a handle value that
  was closed or moved away never resolves again.
\<close>

section \<open>Steps of a handle table\<close>

definition ht_occupied :: "handle_table \<Rightarrow> nat \<Rightarrow> bool" where
  "ht_occupied ht i \<longleftrightarrow> i < length (ht_slots ht) \<and> hs_entry (ht_slots ht ! i) \<noteq> None"

definition ht_slot_generation :: "handle_table \<Rightarrow> nat \<Rightarrow> u64" where
  "ht_slot_generation ht i = (if i < length (ht_slots ht) then hs_generation (ht_slots ht ! i) else 0)"

definition ht_fillable :: "handle_table \<Rightarrow> nat \<Rightarrow> handle_table_entry \<Rightarrow> bool" where
  "ht_fillable ht i e \<longleftrightarrow> i < length (ht_slots ht) \<and> hs_entry (ht_slots ht ! i) = None
     \<and> hte_entry_generation e = hs_generation (ht_slots ht ! i)"

definition ht_clear :: "handle_table \<Rightarrow> nat \<Rightarrow> handle_table" where
  "ht_clear ht i = ht\<lparr>ht_slots := (ht_slots ht)[i :=
     \<lparr>hs_entry = None, hs_generation = hs_generation (ht_slots ht ! i) + 1\<rparr>]\<rparr>"

inductive ht_step :: "handle_table \<Rightarrow> handle_table \<Rightarrow> bool" where
  step_fill: "ht_fillable ht i e \<Longrightarrow> ht_step ht (ht_put_entry ht i (Some e))"
| step_remove: "ht_occupied ht i \<Longrightarrow> unat (hs_generation (ht_slots ht ! i)) + 1 < 2 ^ 64
    \<Longrightarrow> ht_step ht (ht_clear ht i)"

abbreviation ht_steps :: "handle_table \<Rightarrow> handle_table \<Rightarrow> bool" where
  "ht_steps \<equiv> ht_step\<^sup>*\<^sup>*"

lemma ht_step_cases:
  assumes "ht_step ht ht'"
  obtains (fill) i e where "ht_fillable ht i e" "ht' = ht_put_entry ht i (Some e)"
  | (clear) i where "ht_occupied ht i" "unat (hs_generation (ht_slots ht ! i)) + 1 < 2 ^ 64" "ht' = ht_clear ht i"
  using assms by (cases rule: ht_step.cases) blast+

lemma ht_put_slot:
  assumes "i < length (ht_slots ht)"
  shows "length (ht_slots (ht_put_entry ht i e)) = length (ht_slots ht)"
    and "ht_slots (ht_put_entry ht i e) ! j = (if j = i then (ht_slots ht ! i)\<lparr>hs_entry := e\<rparr> else ht_slots ht ! j)"
  using assms by (simp_all add: ht_put_entry_def nth_list_update)

lemma ht_clear_slot:
  assumes "i < length (ht_slots ht)"
  shows "length (ht_slots (ht_clear ht i)) = length (ht_slots ht)"
    and "ht_slots (ht_clear ht i) ! j = (if j = i then \<lparr>hs_entry = None, hs_generation = hs_generation (ht_slots ht ! i) + 1\<rparr>
      else ht_slots ht ! j)"
  using assms by (simp_all add: ht_clear_def nth_list_update)

lemma ht_step_wf:
  assumes "ht_step ht ht'" and "ht_wf ht"
  shows "ht_wf ht'"
  using assms
  by (cases rule: ht_step_cases)
    (auto simp: ht_wf_def ht_fillable_def ht_put_entry_def ht_clear_def dest!: set_update_subset_insert [THEN subsetD])

lemma ht_steps_wf: "ht_steps ht ht' \<Longrightarrow> ht_wf ht \<Longrightarrow> ht_wf ht'"
  by (induction rule: rtranclp_induct) (auto intro: ht_step_wf)

lemma u64_plus_one: "unat g + 1 < 2 ^ 64 \<Longrightarrow> unat (g + 1) = unat g + 1" for g :: u64
  by (simp add: unat_word_ariths)

interpretation handle_names: slot_arena ht_occupied ht_slot_generation ht_step
proof unfold_locales
  fix ht ht' i assume step: "ht_step ht ht'"
  then show "ht_slot_generation ht i \<le> ht_slot_generation ht' i"
    by (cases rule: ht_step_cases)
      (auto simp: ht_slot_generation_def ht_fillable_def ht_occupied_def ht_put_slot ht_clear_slot word_le_nat_alt u64_plus_one)
next
  fix ht ht' i assume step: "ht_step ht ht'" and "ht_occupied ht i" "\<not> ht_occupied ht' i"
  then show "ht_slot_generation ht i < ht_slot_generation ht' i"
    by (cases rule: ht_step_cases)
      (auto simp: ht_slot_generation_def ht_fillable_def ht_occupied_def ht_put_slot ht_clear_slot word_less_nat_alt u64_plus_one
        split: if_splits)
next
  fix ht ht' i assume step: "ht_step ht ht'" and "ht_occupied ht i" "ht_occupied ht' i"
  then show "ht_slot_generation ht' i = ht_slot_generation ht i"
    by (cases rule: ht_step_cases)
      (auto simp: ht_slot_generation_def ht_fillable_def ht_occupied_def ht_put_slot ht_clear_slot split: if_splits)
qed

text \<open>A handle value is valid exactly when the name it packs resolves.\<close>

lemma ht_valid_entry_iff:
  assumes "ht_wf ht"
  shows "(\<exists>e. ht_valid_entry ht h = Ok e) \<longleftrightarrow> handle_names.resolves ht (unat (hv_index h)) (hv_generation h)"
proof -
  have "ht_ok (ht_capacity ht) 0 (ht_refs ht) ht"
    using assms unat_u64_less by (auto simp: ht_ok_def generations_margin_def)
  then show ?thesis
  proof (cases rule: ht_valid_entry_cases [of _ _ _ _ h])
    case (valid i e)
    then show ?thesis using assms
      by (auto simp: handle_names.resolves_def ht_occupied_def ht_slot_generation_def ht_wf_def)
  next
    case (err err)
    show ?thesis
    proof
      assume "handle_names.resolves ht (unat (hv_index h)) (hv_generation h)"
      then obtain e where i: "unat (hv_index h) < length (ht_slots ht)" "hs_entry (ht_slots ht ! unat (hv_index h)) = Some e"
        and g: "hs_generation (ht_slots ht ! unat (hv_index h)) = hv_generation h"
        by (auto simp: handle_names.resolves_def ht_occupied_def ht_slot_generation_def)
      from nth_mem [OF i(1)] have "hte_entry_generation e = hv_generation h"
        using assms i(2) g unfolding ht_wf_def by metis
      then show "\<exists>e. ht_valid_entry ht h = Ok e"
        using i assms by (simp add: ht_valid_entry_def ht_entry_def ht_slot_def ht_index_eq vec_get_def ht_wf_def)
    qed (use err in simp)
  qed
qed

lemma released_handle_never_valid:
  assumes "ht_wf ht" and "ht_steps ht ht'" and "ht_steps ht' ht''"
    and "ht_valid_entry ht h = Ok e" and "\<And>e. ht_valid_entry ht' h \<noteq> Ok e"
  shows "ht_valid_entry ht'' h \<noteq> Ok d"
proof -
  have wf: "ht_wf ht'" "ht_wf ht''" using ht_steps_wf assms(1-3) by blast+
  from handle_names.released_name_never_resolves [OF assms(2) _ _ assms(3)]
  show ?thesis
    using assms(4,5) ht_valid_entry_iff [OF assms(1), of h] ht_valid_entry_iff [OF wf(1), of h]
      ht_valid_entry_iff [OF wf(2), of h] by blast
qed

section \<open>The operations as steps\<close>

text \<open>A new handle: no parent, and it names the object it was made for.\<close>

lemma ht_install_reserved_fills:
  assumes "ht_install_reserved r object rights (ht, om) = (Ok h, (ht', om'))"
  obtains i e where "ht_fillable ht i e" "ht' = ht_put_entry ht i (Some e)" "hte_parent e = None"
    "hte_object e = sn_id object" "hte_object_generation e = sn_generation object"
    "om_add_handle (sn_id object) (sn_generation object) om = (Ok (), om')"
proof -
  let ?e = "\<lparr>hte_object = sn_id object, hte_object_generation = sn_generation object,
    hte_entry_generation = hsr_generation r, hte_parent = None, hte_kind = snapshot_kind object, hte_rights = rights\<rparr>"
  have "ht_fillable ht (hsr_index r) ?e \<and> ht' = ht_put_entry ht (hsr_index r) (Some ?e)
      \<and> om_add_handle (sn_id object) (sn_generation object) om = (Ok (), om')"
    using assms
    by (cases "om_add_handle (sn_id object) (sn_generation object) om" rule: step_cases)
      (auto simp: ht_install_reserved_def ht_fillable_def result_simps split: if_splits)
  then show ?thesis using that [of "hsr_index r" ?e] by simp
qed

lemma ht_install_fills:
  assumes "ht_install object rights (ht, om) = (Ok h, (ht', om'))"
  obtains i e where "ht_fillable ht i e" "ht' = ht_put_entry ht i (Some e)" "hte_parent e = None"
    "hte_object e = sn_id object" "hte_object_generation e = sn_generation object"
    "om_add_handle (sn_id object) (sn_generation object) om = (Ok (), om')"
  using assms by (auto simp: ht_install_def elim!: lift_OkE ht_install_reserved_fills)

text \<open>The handle that comes back packs the slot and its generation, and resolves if the generation fits.\<close>

lemma ht_install_value:
  assumes "ht_install object rights (ht, om) = (Ok h, (ht', om'))"
  obtains i e where "ht_fillable ht i e" "ht' = ht_put_entry ht i (Some e)" "h = hv_new (as_u64 i) (hs_generation (ht_slots ht ! i))"
    "hte_object e = sn_id object" "hte_object_generation e = sn_generation object" "hte_rights e = rights" "hte_parent e = None"
proof -
  obtain r where r: "ht_install_reserved r object rights (ht, om) = (Ok h, (ht', om'))"
    using assms by (auto simp: ht_install_def elim!: lift_OkE)
  let ?e = "\<lparr>hte_object = sn_id object, hte_object_generation = sn_generation object,
    hte_entry_generation = hsr_generation r, hte_parent = None, hte_kind = snapshot_kind object, hte_rights = rights\<rparr>"
  have "ht_fillable ht (hsr_index r) ?e \<and> ht' = ht_put_entry ht (hsr_index r) (Some ?e)
      \<and> h = hv_new (as_u64 (hsr_index r)) (hs_generation (ht_slots ht ! hsr_index r))"
    using r by (cases "om_add_handle (sn_id object) (sn_generation object) om" rule: step_cases)
      (auto simp: ht_install_reserved_def ht_fillable_def result_simps split: if_splits)
  then show ?thesis using that [of "hsr_index r" ?e] by simp
qed

lemma ht_valid_new:
  assumes wf: "ht_wf ht" and f: "ht_fillable ht i e"
  shows "ht_valid_entry (ht_put_entry ht i (Some e)) (hv_new (as_u64 i) (hs_generation (ht_slots ht ! i)))
    = (if unat (hs_generation (ht_slots ht ! i)) < 2 ^ 32 then Ok e else Err StaleHandle)"
proof -
  let ?g = "hs_generation (ht_slots ht ! i)"
  have i: "i < length (ht_slots ht)" "hte_entry_generation e = ?g" "i < ht_capacity ht" "i < 2 ^ 32"
    using f wf by (auto simp: ht_fillable_def ht_wf_def)
  have "unat (as_u64 i) = i" using i(4) by (simp add: as_u64_def unat_of_nat_u64 usize_max_def)
  then have "ht_valid_entry (ht_put_entry ht i (Some e)) (hv_new (as_u64 i) ?g)
      = (if ?g = hv_generation (hv_new (as_u64 i) ?g) then Ok e else Err StaleHandle)"
    using i by (simp add: ht_valid_entry_def ht_entry_def ht_slot_def ht_index_eq vec_get_def ht_put_entry_def hv_index_new)
  moreover have "?g = hv_generation (hv_new (as_u64 i) ?g) \<longleftrightarrow> unat ?g < 2 ^ 32"
    using unat_hv_generation [of "hv_new (as_u64 i) ?g"] hv_generation_new [of ?g] by metis
  ultimately show ?thesis by simp
qed

lemma ht_install_reserved_steps:
  assumes "ht_install_reserved r object rights (ht, om) = (Ok h, (ht', om'))"
  shows "ht_steps ht ht'"
  by (rule ht_install_reserved_fills [OF assms]) (auto intro!: r_into_rtranclp step_fill)

lemma ht_install_steps:
  assumes "ht_install object rights (ht, om) = (Ok h, (ht', om'))"
  shows "ht_steps ht ht'"
  by (rule ht_install_fills [OF assms]) (auto intro!: r_into_rtranclp step_fill)

lemma ht_install_entry_steps:
  assumes "ht_install_entry e ht = (r, ht')"
  shows "ht_steps ht ht'"
proof (cases "ht_free_index ht")
  case (Ok i)
  then have "hs_entry (ht_slots ht ! i) = None" "i < length (ht_slots ht)"
    using position_SomeD [of _ "ht_slots ht" i] by (auto simp: ht_free_index_def result_simps)
  then show ?thesis
    using assms Ok step_fill [of ht i "e\<lparr>hte_entry_generation := hs_generation (ht_slots ht ! i)\<rparr>"]
    by (auto simp: ht_install_entry_def vec_get_def ht_fillable_def)
qed (use assms in \<open>simp_all add: ht_install_entry_def\<close>)

text \<open>Removing, closing, revoking and sending only empty slots.\<close>

inductive ht_clears :: "handle_table \<Rightarrow> handle_table \<Rightarrow> bool" where
  clears_none: "ht_clears ht ht"
| clears_slot: "ht_clears ht ht' \<Longrightarrow> ht_occupied ht' i \<Longrightarrow> unat (hs_generation (ht_slots ht' ! i)) + 1 < 2 ^ 64
    \<Longrightarrow> ht_clears ht (ht_clear ht' i)"

lemma ht_clears_trans: "ht_clears ht' ht'' \<Longrightarrow> ht_clears ht ht' \<Longrightarrow> ht_clears ht ht''"
  by (induction rule: ht_clears.induct) (auto intro: ht_clears.intros)

lemma ht_clears_steps: "ht_clears ht ht' \<Longrightarrow> ht_steps ht ht'"
  by (induction rule: ht_clears.induct) (blast intro: step_remove rtranclp.rtrancl_into_rtrancl)+

lemma ht_remove_entry_clears:
  assumes "ht_remove_entry h ht = (r, ht')"
  shows "ht_clears ht ht'"
proof (cases "ht' = ht")
  case False
  then obtain i e where i: "ht_index ht h = Ok i" "ht_valid_entry ht h = Ok e" "i < length (ht_slots ht)"
    using assms
    by (cases "ht_index ht h"; cases "ht_valid_entry ht h"; cases "vec_get (ht_slots ht) (unat (hv_index h))")
      (auto simp: ht_remove_entry_def ht_index_eq vec_get_def split: if_splits)
  then have "ht_occupied ht i \<and> unat (hs_generation (ht_slots ht ! i)) + 1 < 2 ^ 64 \<and> ht' = ht_clear ht i"
    using assms False
    by (cases "hs_entry (ht_slots ht ! i)"; cases "unat (hs_generation (ht_slots ht ! i)) + 1 < 2 ^ 64")
      (auto simp: ht_remove_entry_def ht_occupied_def ht_clear_def vec_get_def next_generation_def checked_add_def)
  then show ?thesis by (auto intro: ht_clears.intros)
qed (simp add: clears_none)

lemma ht_remove_entry_steps: "ht_remove_entry h ht = (r, ht') \<Longrightarrow> ht_steps ht ht'"
  by (rule ht_clears_steps [OF ht_remove_entry_clears])

lemma ht_close_clears:
  assumes "ht_close h (ht, om, fa) = (r, (ht', s))"
  shows "ht_clears ht ht'"
proof -
  have "ht' = ht \<or> (\<exists>r. ht_remove_entry h ht = (r, ht'))"
  proof (cases "ht_valid_entry ht h")
    case (Ok e)
    show ?thesis
    proof (cases "om_ensure_handle_can_close om (hte_object e) (hte_object_generation e)")
      case (Ok u)
      then show ?thesis
        using assms \<open>ht_valid_entry ht h = Ok e\<close>
        by (cases "om_remove_handle (hte_object e) (hte_object_generation e) om" rule: step_cases;
          cases "ht_remove_entry h ht" rule: step_cases)
          (auto simp: ht_close_def apsnd_def map_prod_def split: prod.splits)
    qed (use assms Ok in \<open>auto simp: ht_close_def\<close>)
  qed (use assms in \<open>auto simp: ht_close_def\<close>)
  then show ?thesis using ht_remove_entry_clears clears_none by blast
qed

lemma ht_close_steps: "ht_close h (ht, om, fa) = (r, (ht', s)) \<Longrightarrow> ht_steps ht ht'"
  by (rule ht_clears_steps [OF ht_close_clears])

lemma close_all_clears:
  assumes "close_all hs (ht, om, fa) = (r, (ht', s'))"
  shows "ht_clears ht ht'"
  using assms
proof (induction hs arbitrary: ht om fa)
  case (Cons h hs)
  obtain r1 ht1 om1 fa1 where c: "ht_close h (ht, om, fa) = (r1, (ht1, om1, fa1))" by (metis prod_cases4)
  from ht_close_clears [OF this] have "ht_clears ht ht1" .
  then show ?case using Cons c by (cases r1) (auto intro: ht_clears_trans)
qed (simp add: clears_none)

lemma ht_revoke_clears:
  assumes "ht_revoke_descendants heap root (ht, om, fa) = Some (r, (ht', s'))"
  shows "ht_clears ht ht'"
proof (cases "ht' = ht")
  case False
  then obtain hs where "sbind (close_all hs (ht, om, fa)) (\<lambda>_ s. (Ok (length hs), s)) = (r, (ht', s'))"
    using assms by (auto simp: ht_revoke_descendants_def split: result.splits option.splits)
  then show ?thesis
    by (cases "close_all hs (ht, om, fa)" rule: step_cases) (auto intro: close_all_clears)
qed (simp add: clears_none)

lemma ht_revoke_steps: "ht_revoke_descendants heap root (ht, om, fa) = Some (r, (ht', s')) \<Longrightarrow> ht_steps ht ht'"
  by (rule ht_clears_steps [OF ht_revoke_clears])

lemma ht_duplicate_cases:
  assumes ok: "ho_ok C D n X L (ht, om)" and dup: "ht_duplicate source rights (ht, om) = (Ok h, (ht', om'))"
  obtains e i d where "ht_valid_entry ht source = Ok e" "rights_contain (hte_rights e) HR_DUPLICATE"
    "rights_contain (hte_rights e) rights" "ht_fillable ht i d" "ht' = ht_put_entry ht i (Some d)"
    "hte_rights d = rights" "hte_ref d = hte_ref e" "h = hv_new (as_u64 i) (hs_generation (ht_slots ht ! i))"
    "hte_parent d = Some \<lparr>hl_handle = source, hl_object = hte_object e, hl_object_generation = hte_object_generation e\<rparr>"
    "ht_index ht' h = Ok i" "names om' = names om"
proof -
  obtain H where H: "ht_ok C n H ht" "om_ok D n (X + H) {#} L om" by (rule ho_okE [OF ok])
  obtain e where e: "ht_valid_entry ht source = Ok e" "rights_contain (hte_rights e) HR_DUPLICATE" "rights_contain (hte_rights e) rights"
    using dup by (cases "ht_valid_entry ht source") (auto simp: ht_duplicate_def split: if_splits)
  have nm: "names om (hte_object e, hte_object_generation e, hte_kind e)" by (rule ht_valid_entry_names [OF ok e(1)])
  obtain d where d: "om_validate om (hte_object e) (hte_object_generation e) (hte_kind e) = Ok (snapshot_of d)"
    "oe_generation d = hte_object_generation e" "payload_kind (oe_payload d) = hte_kind e" "oe_id d = hte_object e"
    by (rule om_validate_names [OF H(2) nm])
  have s: "names om (sn_id (snapshot_of d), sn_generation (snapshot_of d), snapshot_kind (snapshot_of d))"
    using nm d by simp
  show ?thesis
  proof (cases rule: ht_install_cases [OF ok s, where rights = rights])
    case (1 i h1 ht1 om1 d1)
    obtain H' where H': "ht_ok C n H' ht1" by (rule ho_okE [OF 1(2)])
    let ?p = "Some \<lparr>hl_handle = source, hl_object = hte_object e, hl_object_generation = hte_object_generation e\<rparr>"
    let ?d = "d1\<lparr>hte_parent := ?p\<rparr>"
    have il: "i < length (ht_slots ht1)" "i < length (ht_slots ht)" using 1(5) ht_okD(5) [OF H'] ht_okD(5) [OF H(1)] by simp_all
    then have en: "hs_entry (ht_slots ht1 ! i) = Some d1" using 1(6) by simp
    have cap: "ht_capacity ht1 = ht_capacity ht" using ht_okD(2) [OF H'] ht_okD(2) [OF H(1)] by simp
    have put: "ht_put_entry ht1 i (Some ?d) = ht_put_entry ht i (Some ?d)"
      using 1(6) il cap by (simp add: ht_put_entry_def)
    have eq: "h = h1" "ht' = ht_put_entry ht i (Some ?d)" "om' = om1"
      using dup e d(1) 1(1,4) il en put by (simp_all add: ht_duplicate_def vec_get_def)
    have gen: "hte_entry_generation d1 = hs_generation (ht_slots ht ! i)"
      using ht_ok_nth(1) [OF H' 1(5) en] 1(6) il by simp
    show ?thesis
      by (rule that [OF e, of i ?d])
        (use eq gen 1 il d cap in \<open>simp_all add: ht_fillable_def hte_ref_def ht_index_eq ht_put_entry_def\<close>)
  next
    case 2
    then show ?thesis using dup e d(1) by (simp add: ht_duplicate_def)
  qed
qed

lemma ht_duplicate_steps:
  assumes ok: "ho_ok C D n X L (ht, om)" and dup: "ht_duplicate source rights (ht, om) = (Ok h, (ht', om'))"
  shows "ht_steps ht ht'"
  by (rule ht_duplicate_cases [OF assms]) (auto intro!: r_into_rtranclp step_fill)

lemma move_handles_clears:
  assumes "move_handles om hs moved ht = (r, ht')"
  shows "ht_clears ht ht'"
  using assms
proof (induction hs arbitrary: moved ht)
  case (Cons h hs)
  obtain r1 ht1 where t: "ht_remove_for_transfer om h ht = (r1, ht1)" by (metis surj_pair)
  have "ht_clears ht ht1"
  proof (cases "ht_valid_entry ht h")
    case (Ok e)
    then show ?thesis
      using t by (cases "om_validate om (hte_object e) (hte_object_generation e) (hte_kind e)")
        (auto simp: ht_remove_for_transfer_def split: if_splits intro: ht_remove_entry_clears clears_none)
  qed (use t in \<open>simp_all add: ht_remove_for_transfer_def clears_none\<close>)
  then show ?case using Cons t by (cases r1) (auto intro: ht_clears_trans)
qed (simp add: clears_none)

lemma move_handles_steps: "move_handles om hs moved ht = (r, ht') \<Longrightarrow> ht_steps ht ht'"
  by (rule ht_clears_steps [OF move_handles_clears])

lemma receive_handles_steps:
  assumes "receive_handles es hs ht = (r, ht')"
  shows "ht_steps ht ht'"
  using assms
proof (induction es arbitrary: hs ht)
  case (Cons e es)
  obtain r1 ht1 where t: "ht_install_entry e ht = (r1, ht1)" by (metis surj_pair)
  from ht_install_entry_steps [OF this] have "ht_steps ht ht1" .
  then show ?case using Cons t by (cases r1) (auto intro: rtranclp_trans)
qed simp

lemma pr_release_object_handles [simp]: "pr_handles (pr_release_object p) = pr_handles p"
  by (simp add: pr_release_object_def)

lemma pr_reserve_object_handles: "pr_reserve_object p = (r, p') \<Longrightarrow> pr_handles p' = pr_handles p"
  by (auto simp: pr_reserve_object_def reserve_object_def split: if_splits)

lemma create_preflighted_steps:
  assumes "create_preflighted_object_handle rights payload (p, om) = (Ok h, (p', om'))"
  shows "ht_steps (pr_handles p) (pr_handles p')"
  using assms
  by (auto simp: create_preflighted_object_handle_def elim!: step_elims
      dest!: pr_reserve_object_handles dest!: ht_install_reserved_steps)

lemma create_object_steps:
  assumes "create_object_handle kind rights (p, om) = (Ok h, (p', om'))"
  shows "ht_steps (pr_handles p) (pr_handles p')"
  using assms by (cases "payload_for_kind kind") (auto simp: create_object_handle_def intro: create_preflighted_steps)

lemma create_memory_object_steps:
  assumes "create_memory_object_handle size_bytes rights (p, om, fa) = (Ok h, (p', om', fa'))"
  shows "ht_steps (pr_handles p) (pr_handles p')"
  using assms
  by (auto simp: create_memory_object_handle_def Let_def elim!: step_elims
      dest!: pr_reserve_object_handles dest!: ht_install_reserved_steps)

lemma create_channel_pair_steps:
  assumes "create_channel_pair_handles max_messages rights (p, om, fa) = (Ok h, (p', om', fa'))"
  shows "ht_steps (pr_handles p) (pr_handles p')"
  using assms
  by (auto simp: create_channel_pair_handles_def Let_def split: if_split_asm elim!: step_elims
      dest!: pr_reserve_object_handles dest!: ht_install_steps intro: rtranclp_trans)

lemma send_channel_message_steps:
  assumes "send_channel_message heap channel bytes handles (p, om) = (Ok u, (p', om'))"
  shows "ht_steps (pr_handles p) (pr_handles p')"
  using assms
  by (auto simp: send_channel_message_def split: if_split_asm elim!: step_elims
      dest!: move_handles_steps)

lemma recv_channel_message_steps:
  assumes "recv_channel_message heap channel (p, om) = (Ok m, (p', om'))"
  shows "ht_steps (pr_handles p) (pr_handles p')"
  using assms
  by (auto simp: recv_channel_message_def split: if_split_asm elim!: step_elims
      dest!: receive_handles_steps)

section \<open>System calls as steps\<close>

lemma outcome_OkE:
  assumes "outcome f i k x = (Ok v, k')"
  obtains a s where "x = (Ok a, s)" "v = f a" "k' = k_put i k s"
  using assms by (cases x rule: step_cases) (auto simp: outcome_def)

lemma outcomeE:
  assumes "outcome f i k x = (r, k')"
  obtains r0 s where "x = (r0, s)" "r = map_ok f r0" "k' = k_put i k s"
  using assms by (cases x) (auto simp: outcome_def)

text \<open>The kernel \<open>k'\<close> is \<open>k\<close> with process \<open>i\<close>, that was \<open>p\<close>, written back after some steps of its handles.\<close>

definition put_steps :: "process_id \<Rightarrow> process \<Rightarrow> kernel \<Rightarrow> kernel \<Rightarrow> bool" where
  "put_steps i p k k' \<longleftrightarrow> (\<exists>s. k' = k_put i k s \<and> ht_steps (pr_handles p) (pr_handles (fst s)))"

lemma put_stepsI: "ht_steps (pr_handles p) (pr_handles (fst s)) \<Longrightarrow> put_steps i p k (k_put i k s)"
  unfolding put_steps_def by blast

lemma dispatch_steps:
  assumes ok: "proc_ok C D (n + B + 4) X (p, om, fa)" and C: "C \<le> B"
    and d: "dispatch heap sc i k (p, om, fa) = Some (r, k')"
  shows "put_steps i p k k'"
proof -
  obtain s where k': "k' = k_put i k s" and st: "settles heap sc C D n X (p, om, fa) (r, s)"
    using dispatch_settles [OF ok C, where heap = heap and sc = sc and i = i and k = k] d by auto
  obtain L where po: "po_ok C D (n + B + 4) X L (p, om)" by (rule proc_okE [OF ok])
  then have ho: "ho_ok C D (n + B + 4) X L (pr_handles p, om)" by (simp add: po_ok_def)
  have po1: "po_ok C D (Suc (n + B + 3)) X L (p, om)" using po by (simp add: eval_nat_numeral)
  note defs = with_objects_def with_handles_def
  note elims = outcome_OkE step_elims
  show ?thesis
  proof (cases "\<exists>root. sc = RevokeDescendants root")
    case True
    then obtain root where "sc = RevokeDescendants root" ..
    then show ?thesis
      using d by (auto intro!: put_stepsI simp: defs elim!: outcomeE apsndE dest!: ht_revoke_steps)
  next
    case not_revoke: False
    show ?thesis
    proof (cases r)
      case (Ok v)
      note d = d [unfolded Ok]
      show ?thesis
      proof (cases sc)
        case (CreateObject kind rights)
        then show ?thesis
          using d by (auto intro!: put_stepsI simp: defs elim!: elims dest!: create_object_steps)
      next
        case (CreateMemoryObject size_bytes rights)
        then show ?thesis
          using d by (auto intro!: put_stepsI elim!: elims dest!: create_memory_object_steps)
      next
        case (CreateAddressSpace rights)
        then show ?thesis
          using d by (auto intro!: put_stepsI simp: defs create_address_space_handle_eq elim!: elims dest!: create_object_steps)
      next
        case (MapMemoryObject a m base size_bytes offset rights)
        then show ?thesis using d by (auto intro!: put_stepsI simp: defs map_memory_object_def elim!: elims)
      next
        case (UnmapAddressRange a base size_bytes)
        then show ?thesis using d by (auto intro!: put_stepsI simp: defs unmap_address_range_def elim!: elims)
      next
        case (FlushAddressSpaceTlb a)
        then show ?thesis using d by (auto intro!: put_stepsI simp: defs flush_address_space_tlb_def elim!: elims)
      next
        case (CreateChannelPair max_messages rights)
        then show ?thesis
          using d by (auto intro!: put_stepsI elim!: elims dest!: create_channel_pair_steps)
      next
        case (ChannelSend channel bytes handles)
        then show ?thesis
          using d by (auto intro!: put_stepsI simp: defs elim!: elims dest!: send_channel_message_steps)
      next
        case (ChannelRecv channel)
        then show ?thesis
          using d by (auto intro!: put_stepsI simp: defs elim!: elims dest!: recv_channel_message_steps)
      next
        case (DuplicateHandle source rights)
        then show ?thesis
          using d by (auto intro!: put_stepsI simp: defs elim!: elims dest!: ht_duplicate_steps [OF ho])
      next
        case (CloseHandle h)
        then show ?thesis
          using d by (auto intro!: put_stepsI simp: defs elim!: elims dest!: ht_close_steps)
      qed (use not_revoke in simp)
    next
      case (Err e)
      show ?thesis
      proof (cases "\<exists>channel. sc = ChannelRecv channel")
        case True
        then obtain channel where sc: "sc = ChannelRecv channel" ..
        have "after (\<lambda>_ _. True) (\<lambda>_ s. fst s = p) (recv_channel_message heap channel (p, om))"
          by (rule after_mono [OF recv_channel_message_ok [OF po1]]) auto
        then show ?thesis
          using sc d Err
          by (cases "recv_channel_message heap channel (p, om)" rule: step_cases) (auto intro!: put_stepsI simp: defs outcome_def)
      next
        case False
        have "failure_keeps sc e (p, om, fa) s" using st Err by (simp add: settles_def)
        then have "fst s = p" using False not_revoke by (cases s; cases sc) auto
        then show ?thesis using k' by (auto intro!: put_stepsI)
      qed
    next
      case Panic
      then show ?thesis using st by (simp add: settles_def)
    qed
  qed
qed

section \<open>Runs from one kernel to another\<close>

text \<open>
  \<open>kernel_later B H (n, k) (m, k')\<close>: the kernel \<open>k'\<close> is reached from \<open>k\<close> by creating processes and by
  system calls; \<open>n\<close> and \<open>m\<close> are the distances to overflow, as for \<open>kernel_run\<close>.
\<close>

inductive kernel_next :: "nat \<Rightarrow> (heap \<Rightarrow> bool) \<Rightarrow> nat \<times> kernel \<Rightarrow> nat \<times> kernel \<Rightarrow> bool"
  for B H where
  next_process: "create_bootstrap_process heap handle_capacity object_quota k = (r, k')
    \<Longrightarrow> handle_capacity \<le> B \<Longrightarrow> object_quota \<le> usize_max \<Longrightarrow> kernel_next B H (n, k) (n, k')"
| next_call: "H heap \<Longrightarrow> execute heap cx sc k = Some (r, k') \<Longrightarrow> kernel_next B H (n + B + 4, k) (n, k')"

abbreviation kernel_later :: "nat \<Rightarrow> (heap \<Rightarrow> bool) \<Rightarrow> nat \<times> kernel \<Rightarrow> nat \<times> kernel \<Rightarrow> bool" where
  "kernel_later B H \<equiv> (kernel_next B H)\<^sup>*\<^sup>*"

lemma kernel_next_run:
  assumes "kernel_next B H (n, k) (m, k')" and "kernel_run B H n k"
  shows "kernel_run B H m k'"
  using assms by (cases rule: kernel_next.cases) (auto intro: run_process run_call)

lemma kernel_later_run:
  assumes "kernel_later B H (n, k) (m, k')" and "kernel_run B H n k"
  shows "kernel_run B H m k'"
  using assms by (induction rule: rtranclp_induct2) (auto intro: kernel_next_run)

lemma ptb_get_put:
  assumes "ptb_get t i = Ok p"
  shows "ptb_get (ptb_put t j q) i = Ok (if i = j then q else p)"
  using assms by (auto simp: ptb_get_def ptb_index_def ptb_put_def as_usize_def vec_get_def nth_list_update result_simps
      word_unat_eq_iff split: if_splits)

lemma execute_process_steps:
  assumes ok: "kernel_ok B (n + B + 4) lost k" and ex: "execute heap cx sc k = Some (r, k')"
    and p: "ptb_get (k_processes k) i = Ok p"
  shows "\<exists>p'. ptb_get (k_processes k') i = Ok p'
    \<and> ht_steps (pr_handles p) (pr_handles p')"
proof -
  let ?j = "sc_process cx"
  have "length (ptb_processes (k_processes k)) = ptb_capacity (k_processes k)" using ok by (simp add: kernel_ok_def)
  then show ?thesis
  proof (cases rule: ptb_get_cases [of _ ?j])
    case (found q)
    note pr = kernel_ok_process [OF ok found(2,3)]
    have "put_steps ?j q k k'"
      using dispatch_steps [OF pr, where heap = heap and sc = sc and i = ?j and k = k and r = r and k' = k'] ex found(1)
      by (simp add: execute_def)
    then obtain s where k': "k' = k_put ?j k s" and steps: "ht_steps (pr_handles q) (pr_handles (fst s))"
      by (auto simp: put_steps_def)
    have "k_processes k' = ptb_put (k_processes k) ?j (fst s)" using k' by (cases s) (simp add: k_put_def)
    then show ?thesis
      using ptb_get_put [OF p, of ?j "fst s"] steps found(1) p by (cases "i = ?j") auto
  next
    case none
    then show ?thesis using ex p by (simp add: execute_def)
  qed
qed

lemma bootstrap_keeps_process:
  assumes b: "create_bootstrap_process heap handle_capacity object_quota k = (r, k')" and p: "ptb_get (k_processes k) i = Ok p"
  shows "ptb_get (k_processes k') i = Ok p"
proof -
  have "k_processes k' = k_processes k \<or> (\<exists>j q. ptb_processes (k_processes k) ! j = None
      \<and> k_processes k' = (k_processes k)\<lparr>ptb_processes := (ptb_processes (k_processes k))[j := Some q]\<rparr>)"
  proof (cases "position (\<lambda>slot. slot = None) (ptb_processes (k_processes k))")
    case (Some j)
    show ?thesis
    proof (cases "process_new heap (as_u64 j) handle_capacity object_quota")
      case (Ok q)
      note new = Ok
      show ?thesis
      proof (cases "create_object_handle KindProcess (HR_READ OR HR_MANAGE) (q, k_objects k)" rule: step_cases)
        case (Ok h s)
        then show ?thesis
          using b Some new position_SomeD(2) [OF Some]
          by (cases s; intro disjI2 exI [of _ j] exI [of _ "fst s"]) (auto simp: create_bootstrap_process_def create_bootstrap_def)
      qed (use b Some new in \<open>auto simp: create_bootstrap_process_def create_bootstrap_def\<close>)
    qed (use b Some in \<open>auto simp: create_bootstrap_process_def create_bootstrap_def\<close>)
  qed (use b in \<open>auto simp: create_bootstrap_process_def create_bootstrap_def\<close>)
  moreover have "xs[j := q] ! m = Some p" if "xs ! m = Some p" "xs ! j = None" for xs :: "process option list" and j m q
    by (cases "j = m") (use that in auto)
  ultimately show ?thesis
    using p by (auto simp: ptb_get_def ptb_index_def as_usize_def vec_get_def result_simps split: if_splits)
qed

lemma kernel_later_steps:
  assumes "kernel_later B H (n, k) (m, k')" and run: "kernel_run B H n k" and B: "B \<le> 2 ^ 32"
    and p: "ptb_get (k_processes k) i = Ok p"
  shows "\<exists>p'. ptb_get (k_processes k') i = Ok p' \<and> ht_steps (pr_handles p) (pr_handles p')"
  using assms(1)
proof (induction rule: rtranclp_induct2)
  case refl
  then show ?case using p by blast
next
  case (step m1 k1 m2 k2)
  then obtain p1 where p1: "ptb_get (k_processes k1) i = Ok p1" "ht_steps (pr_handles p) (pr_handles p1)" by blast
  have run1: "kernel_run B H m1 k1" by (rule kernel_later_run [OF step.hyps(1) run])
  from step.hyps(2) show ?case
  proof (cases rule: kernel_next.cases)
    case (next_process heap handle_capacity object_quota r)
    then show ?thesis using bootstrap_keeps_process p1 by blast
  next
    case (next_call heap cx sc r)
    obtain lost where ok: "kernel_ok B (m2 + B + 4) lost k1" using kernel_run_ok [OF run1 B] next_call(1) by blast
    obtain p2 where "ptb_get (k_processes k2) i = Ok p2" "ht_steps (pr_handles p1) (pr_handles p2)"
      using execute_process_steps [OF ok next_call(3) p1(1)] by blast
    then show ?thesis using p1(2) by (meson rtranclp_trans)
  qed
qed

end
