(* ===== verification/Handle_Lineage.thy ===== *)
theory Handle_Lineage
  imports Handle_Names
begin

text \<open>
  The lineage of duplicated handles.  A derived handle names its parent by value, and the parent was there
  before its child; so the lineages have no cycles, the walk of \<open>descends_from\<close> ends, and a revocation
  returns and leaves no descendant.
\<close>

section \<open>Lineages without cycles\<close>

definition child_of :: "handle_table \<Rightarrow> (nat \<Rightarrow> nat) \<Rightarrow> nat \<Rightarrow> handle_value \<Rightarrow> bool" where
  "child_of ht rank i h \<longleftrightarrow> (let j = unat (hv_index h) in j < length (ht_slots ht)
     \<and> (hv_generation h < hs_generation (ht_slots ht ! j)
        \<or> hv_generation h = hs_generation (ht_slots ht ! j) \<and> hs_entry (ht_slots ht ! j) \<noteq> None \<and> rank j < rank i))"

definition ranked :: "handle_table \<Rightarrow> (nat \<Rightarrow> nat) \<Rightarrow> bool" where
  "ranked ht rank \<longleftrightarrow> (\<forall>i e p. i < length (ht_slots ht) \<longrightarrow> hs_entry (ht_slots ht ! i) = Some e
     \<longrightarrow> hte_parent e = Some p \<longrightarrow> child_of ht rank i (hl_handle p))"

definition lineage_ok :: "handle_table \<Rightarrow> bool" where
  "lineage_ok ht \<longleftrightarrow> (\<exists>rank. ranked ht rank)"

definition no_parents :: "handle_table \<Rightarrow> bool" where
  "no_parents ht \<longleftrightarrow> (\<forall>slot \<in> set (ht_slots ht). \<forall>e. hs_entry slot = Some e \<longrightarrow> hte_parent e = None)"

lemma no_parents_lineage: "no_parents ht \<Longrightarrow> lineage_ok ht"
  unfolding lineage_ok_def ranked_def no_parents_def by (metis nth_mem option.distinct(1))

lemma ht_valid_entry_slot:
  assumes "ht_wf ht" and "ht_valid_entry ht h = Ok e"
  shows "unat (hv_index h) < length (ht_slots ht)" "hs_entry (ht_slots ht ! unat (hv_index h)) = Some e"
    "hs_generation (ht_slots ht ! unat (hv_index h)) = hv_generation h"
proof -
  have ok: "ht_ok (ht_capacity ht) 0 (ht_refs ht) ht"
    using assms(1) unat_u64_less by (auto simp: ht_ok_def generations_margin_def)
  show "unat (hv_index h) < length (ht_slots ht)" "hs_entry (ht_slots ht ! unat (hv_index h)) = Some e"
    "hs_generation (ht_slots ht ! unat (hv_index h)) = hv_generation h"
    using assms(2) ht_okD(5) [OF ok] by (cases rule: ht_valid_entry_cases [OF ok, of h]; simp)+
qed

text \<open>A handle value that names a slot of the table, now or in the past.\<close>

definition below :: "handle_table \<Rightarrow> handle_value \<Rightarrow> bool" where
  "below ht h \<longleftrightarrow> (let j = unat (hv_index h) in j < length (ht_slots ht)
     \<and> (hv_generation h < hs_generation (ht_slots ht ! j)
        \<or> hv_generation h = hs_generation (ht_slots ht ! j) \<and> hs_entry (ht_slots ht ! j) \<noteq> None))"

lemma ht_valid_entry_below: "ht_wf ht \<Longrightarrow> ht_valid_entry ht h = Ok e \<Longrightarrow> below ht h"
  using ht_valid_entry_slot [of ht h e] by (simp add: below_def Let_def)

lemma child_of_below: "child_of ht rank i h \<Longrightarrow> below ht h"
  by (auto simp: child_of_def below_def Let_def)

lemma below_fill: "ht_fillable ht i e \<Longrightarrow> below ht h \<Longrightarrow> below (ht_put_entry ht i (Some e)) h"
  by (auto simp: below_def Let_def ht_fillable_def ht_put_slot)

lemma below_clear:
  assumes "ht_occupied ht i" and "unat (hs_generation (ht_slots ht ! i)) + 1 < 2 ^ 64" and "below ht h"
  shows "below (ht_clear ht i) h"
  using assms u64_plus_one [OF assms(2)]
  by (cases "unat (hv_index h) = i") (auto simp: below_def Let_def ht_occupied_def ht_clear_slot word_less_nat_alt)

lemma ranked_fill:
  assumes wf: "ht_wf ht" and r: "ranked ht rank" and f: "ht_fillable ht i e"
    and e: "\<And>p. hte_parent e = Some p \<Longrightarrow> below ht (hl_handle p)"
  shows "lineage_ok (ht_put_entry ht i (Some e))"
proof -
  let ?ht = "ht_put_entry ht i (Some e)"
  have i: "i < length (ht_slots ht)" "hs_entry (ht_slots ht ! i) = None" using f by (simp_all add: ht_fillable_def)
  define rank' where "rank' = (case hte_parent e of None \<Rightarrow> rank | Some p \<Rightarrow> rank(i := Suc (rank (unat (hv_index (hl_handle p))))))"
  have same: "rank' k = rank k" if "k \<noteq> i" for k using that by (simp add: rank'_def split: option.splits)
  have keep: "child_of ?ht rank' k h" if "child_of ht rank k h" "k \<noteq> i" for k h
  proof (cases "unat (hv_index h) = i")
    case True
    then show ?thesis using that i by (auto simp: child_of_def Let_def ht_put_slot)
  next
    case False
    then show ?thesis using that i same by (auto simp: child_of_def Let_def ht_put_slot)
  qed
  have new: "child_of ?ht rank' i (hl_handle p)" if p: "hte_parent e = Some p" for p
    using e [OF p] p i by (auto simp: below_def child_of_def Let_def ht_put_slot rank'_def)
  have "ranked ?ht rank'"
    unfolding ranked_def
  proof (intro allI impI)
    fix k d p assume d: "k < length (ht_slots ?ht)" "hs_entry (ht_slots ?ht ! k) = Some d" "hte_parent d = Some p"
    show "child_of ?ht rank' k (hl_handle p)"
    proof (cases "k = i")
      case True
      then show ?thesis using d i new by (simp add: ht_put_slot)
    next
      case False
      then show ?thesis using d i r keep by (simp add: ht_put_slot ranked_def)
    qed
  qed
  then show ?thesis by (auto simp: lineage_ok_def)
qed

lemma ranked_clear:
  assumes r: "ranked ht rank" and i: "i < length (ht_slots ht)" and g: "unat (hs_generation (ht_slots ht ! i)) + 1 < 2 ^ 64"
  shows "ranked (ht_clear ht i) rank"
  unfolding ranked_def
proof (intro allI impI)
  fix k d p assume d: "k < length (ht_slots (ht_clear ht i))" "hs_entry (ht_slots (ht_clear ht i) ! k) = Some d" "hte_parent d = Some p"
  then have "child_of ht rank k (hl_handle p)" "k \<noteq> i" using r i by (auto simp: ht_clear_slot ranked_def split: if_splits)
  then show "child_of (ht_clear ht i) rank k (hl_handle p)"
    using i u64_plus_one [OF g]
    by (cases "unat (hv_index (hl_handle p)) = i") (auto simp: child_of_def Let_def ht_clear_slot word_less_nat_alt)
qed

section \<open>The walk ends\<close>

text \<open>What the walk finds: the chain of parents, each read through the table, reaches the root.\<close>

inductive descendant :: "handle_table \<Rightarrow> handle_value \<Rightarrow> handle_table_entry \<Rightarrow> handle_table_entry \<Rightarrow> bool" for ht root root_entry where
  descendant_child: "hte_parent e = Some p \<Longrightarrow> hl_handle p = root \<Longrightarrow> hl_object p = hte_object root_entry
    \<Longrightarrow> hl_object_generation p = hte_object_generation root_entry \<Longrightarrow> descendant ht root root_entry e"
| descendant_walk: "hte_parent e = Some p \<Longrightarrow> ht_valid_entry ht (hl_handle p) = Ok d
    \<Longrightarrow> descendant ht root root_entry d \<Longrightarrow> descendant ht root root_entry e"

inductive_simps descendant_iff: "descendant ht root root_entry e"

lemma descends_from_lineage:
  assumes wf: "ht_wf ht" and r: "ranked ht rank"
    and "i < length (ht_slots ht)" and "hs_entry (ht_slots ht ! i) = Some e"
  shows "descends_from ht e root root_entry = Some (Ok (descendant ht root root_entry e))"
  using assms(3,4)
proof (induction "rank i" arbitrary: i e rule: less_induct)
  case less
  show ?case
  proof (cases "hte_parent e")
    case None
    then show ?thesis by (simp add: descends_from.simps descendant_iff [of _ _ _ e])
  next
    case (Some p)
    show ?thesis
    proof (cases "hl_handle p = root \<and> hl_object p = hte_object root_entry \<and> hl_object_generation p = hte_object_generation root_entry")
      case True
      then show ?thesis using Some by (simp add: descends_from.simps descendant_iff [of _ _ _ e])
    next
      case False
      have ok: "ht_ok (ht_capacity ht) 0 (ht_refs ht) ht"
        using wf unat_u64_less by (auto simp: ht_ok_def generations_margin_def)
      show ?thesis
      proof (cases "ht_valid_entry ht (hl_handle p)")
        case (Ok d)
        note v = ht_valid_entry_slot [OF wf Ok]
        have "child_of ht rank i (hl_handle p)" using r less.prems Some by (simp add: ranked_def)
        then have "rank (unat (hv_index (hl_handle p))) < rank i" using v(3) by (auto simp: child_of_def Let_def)
        from less.hyps [OF this v(1,2)] show ?thesis
          using Some False Ok by (auto simp: descends_from.simps [of ht e] descendant_iff [of _ _ _ e])
      qed (use Some False ht_valid_entry_total [OF ok] in \<open>auto simp: descends_from.simps descendant_iff [of _ _ _ e]\<close>)
    qed
  qed
qed

text \<open>The root is not among its own descendants.\<close>

lemma descendant_rank:
  assumes "descendant ht root root_entry e" and wf: "ht_wf ht" and r: "ranked ht rank"
    and root: "ht_valid_entry ht root = Ok d"
    and "i < length (ht_slots ht)" and "hs_entry (ht_slots ht ! i) = Some e"
  shows "rank (unat (hv_index root)) < rank i"
  using assms(1,5,6)
proof (induction arbitrary: i)
  case (descendant_child e p)
  then have "child_of ht rank i root" using r by (auto simp: ranked_def)
  then show ?case using ht_valid_entry_slot [OF wf root] by (auto simp: child_of_def Let_def)
next
  case (descendant_walk e p d)
  note v = ht_valid_entry_slot [OF wf descendant_walk.hyps(2)]
  have "child_of ht rank i (hl_handle p)" using r descendant_walk by (simp add: ranked_def)
  then have "rank (unat (hv_index (hl_handle p))) < rank i" using v(3) by (auto simp: child_of_def Let_def)
  then show ?case using descendant_walk.IH [OF v(1,2)] by simp
qed

section \<open>What a revocation collects and closes\<close>

definition revoked :: "handle_table \<Rightarrow> handle_value \<Rightarrow> handle_table_entry \<Rightarrow> nat \<Rightarrow> bool" where
  "revoked ht root root_entry i \<longleftrightarrow> (\<exists>e. hs_entry (ht_slots ht ! i) = Some e \<and> descendant ht root root_entry e)"

definition slot_value :: "handle_table \<Rightarrow> nat \<Rightarrow> handle_value" where
  "slot_value ht i = hv_new (as_u64 i) (hs_generation (ht_slots ht ! i))"

lemma slot_entry_generation:
  assumes "ht_wf ht" and "i < length (ht_slots ht)" and "hs_entry (ht_slots ht ! i) = Some e"
  shows "hte_entry_generation e = hs_generation (ht_slots ht ! i)"
  using assms nth_mem [OF assms(2)] unfolding ht_wf_def by metis

lemma collect_descendants_lineage:
  assumes wf: "ht_wf ht" and r: "ranked ht rank" and root: "ht_valid_entry ht root = Ok root_entry"
    and "slots = drop i (ht_slots ht)" and "i \<le> length (ht_slots ht)"
  shows "collect_descendants ht root root_entry i slots ds
    = Some (Ok (ds @ map (slot_value ht) (filter (revoked ht root root_entry) [i..<length (ht_slots ht)])))"
  using assms(4,5)
proof (induction slots arbitrary: i ds)
  case Nil
  then show ?case by simp
next
  case (Cons slot slots)
  have i: "i < length (ht_slots ht)" using Cons.prems by (cases "i < length (ht_slots ht)") auto
  have slot: "slot = ht_slots ht ! i" and slots: "slots = drop (Suc i) (ht_slots ht)"
    using Cons.prems(1) by (simp_all add: Cons_nth_drop_Suc [OF i, symmetric])
  note IH = Cons.IH [OF slots Suc_leI [OF i]]
  have upt: "[i..<length (ht_slots ht)] = i # [Suc i..<length (ht_slots ht)]" by (rule upt_conv_Cons [OF i])
  show ?case
  proof (cases "hs_entry slot")
    case None
    then show ?thesis using IH slot by (simp add: upt revoked_def)
  next
    case (Some e)
    then have e: "hs_entry (ht_slots ht ! i) = Some e" using slot by simp
    note desc = descends_from_lineage [OF wf r i e, of root root_entry]
    have "unat (as_u64 i) = i" using i wf by (simp add: as_u64_def unat_of_nat_u64 usize_max_def ht_wf_def)
    then have root_not: "\<not> descendant ht root root_entry e" if "as_u64 i = hv_index root"
      using descendant_rank [OF _ wf r root i e, of root_entry] that by auto
    show ?thesis
    proof (cases "hte_entry_generation e = hv_generation root \<and> as_u64 i = hv_index root")
      case True
      then show ?thesis using IH Some e root_not by (simp add: upt revoked_def)
    next
      case False
      then show ?thesis
        using IH Some e desc slot_entry_generation [OF wf i e] by (auto simp: upt revoked_def slot_value_def)
    qed
  qed
qed

lemma ht_revoke_returns:
  assumes "ht_wf ht" and "lineage_ok ht"
  shows "\<exists>x. ht_revoke_descendants heap root (ht, om, fa) = Some x"
proof -
  obtain rank where r: "ranked ht rank" using assms(2) by (auto simp: lineage_ok_def)
  show ?thesis
  proof (cases "ht_valid_entry ht root")
    case (Ok re)
    then show ?thesis
      using collect_descendants_lineage [OF assms(1) r Ok, of "ht_slots ht" 0 "[]"]
      by (cases "try_reserve_exact heap SiteRevoke (ht_live_count ht)") (simp_all add: ht_revoke_descendants_def del: split_paired_Ex)
  qed (simp_all add: ht_revoke_descendants_def)
qed

lemma ht_remove_entry_clear:
  assumes "ht_remove_entry h ht = (Ok e, ht')"
  shows "ht' = ht_clear ht (unat (hv_index h))" "unat (hv_index h) < length (ht_slots ht)"
  using assms
  by (auto simp: ht_remove_entry_def ht_index_eq ht_clear_def next_generation_def checked_add_def result_simps
      split: if_split_asm option.split_asm elim!: step_elims)

lemma ht_close_clear:
  assumes "ht_close h (ht, om, fa) = (Ok u, (ht', s'))"
  shows "ht' = ht_clear ht (unat (hv_index h))" "unat (hv_index h) < length (ht_slots ht)"
  using assms by (auto simp: ht_close_def elim!: step_elims dest: ht_remove_entry_clear)

lemma close_all_empties:
  assumes "close_all hs (ht, om, fa) = (Ok u, (ht', s'))"
  shows "length (ht_slots ht') = length (ht_slots ht)
    \<and> (\<forall>i < length (ht_slots ht). hs_entry (ht_slots ht' ! i)
        = (if i \<in> (\<lambda>h. unat (hv_index h)) ` set hs then None else hs_entry (ht_slots ht ! i)))"
  using assms
proof (induction hs arbitrary: ht om fa)
  case Nil
  then show ?case by simp
next
  case (Cons h hs)
  obtain ht1 om1 fa1 where c: "ht_close h (ht, om, fa) = (Ok (), (ht1, om1, fa1))"
    and rest: "close_all hs (ht1, om1, fa1) = (Ok u, (ht', s'))"
    using Cons.prems by (auto elim!: step_elims)
  note clear = ht_close_clear [OF c]
  show ?case using Cons.IH [OF rest] clear by (auto simp: ht_clear_slot)
qed

lemma ht_revoke_spec:
  assumes wf: "ht_wf ht" and lin: "lineage_ok ht" and root: "ht_valid_entry ht root = Ok root_entry"
    and rv: "ht_revoke_descendants heap root (ht, om, fa) = Some (Ok n, (ht', s'))"
  shows "length (ht_slots ht') = length (ht_slots ht)" and "n = card {i. i < length (ht_slots ht) \<and> revoked ht root root_entry i}"
    and "i < length (ht_slots ht) \<Longrightarrow> hs_entry (ht_slots ht' ! i)
      = (if revoked ht root root_entry i then None else hs_entry (ht_slots ht ! i))"
proof -
  let ?is = "filter (revoked ht root root_entry) [0..<length (ht_slots ht)]"
  obtain rank where r: "ranked ht rank" using lin by (auto simp: lineage_ok_def)
  have close: "close_all (map (slot_value ht) ?is) (ht, om, fa) = (Ok (), (ht', s'))" and n: "n = length ?is"
    using rv root collect_descendants_lineage [OF wf r root, of "ht_slots ht" 0 "[]"]
    by (auto simp: ht_revoke_descendants_def split: result.splits elim!: step_elims)
  have idx: "unat (hv_index (slot_value ht j)) = j" if "j \<in> set ?is" for j
  proof -
    have "j < 2 ^ 32" using that wf by (auto simp: ht_wf_def)
    then show ?thesis by (simp add: slot_value_def hv_index_new as_u64_def unat_of_nat_u64 usize_max_def)
  qed
  have "(\<lambda>h. unat (hv_index h)) ` set (map (slot_value ht) ?is) = set ?is"
    using idx by (auto simp: image_iff)
  note clears = close_all_empties [OF close, unfolded this]
  then show "length (ht_slots ht') = length (ht_slots ht)" by blast
  show "i < length (ht_slots ht) \<Longrightarrow> hs_entry (ht_slots ht' ! i)
      = (if revoked ht root root_entry i then None else hs_entry (ht_slots ht ! i))"
    using clears by auto
  have "n = card (set ?is)" unfolding n by (rule distinct_card [symmetric]) simp
  also have "set ?is = {i. i < length (ht_slots ht) \<and> revoked ht root root_entry i}" by auto
  finally show "n = card {i. i < length (ht_slots ht) \<and> revoked ht root root_entry i}" .
qed

end
