(* ===== verification/Channel_Transfer.thy ===== *)
theory Channel_Transfer
  imports Handle_Names
begin

text \<open>
  What a send and a receive do to handles: the entries leave the table of the sender for good, travel in
  the message, and are installed unchanged, under new handle values, in the table of the receiver.
\<close>

section \<open>Filling slots\<close>

lemma ht_valid_fill:
  assumes wf: "ht_wf ht" and f: "ht_fillable ht i e"
  shows "unat (hs_generation (ht_slots ht ! i)) < 2 ^ 32
      \<Longrightarrow> ht_valid_entry (ht_put_entry ht i (Some e)) (hv_new (as_u64 i) (hs_generation (ht_slots ht ! i))) = Ok e"
    and "ht_valid_entry ht h = Ok d \<Longrightarrow> ht_valid_entry (ht_put_entry ht i (Some e)) h = Ok d"
proof -
  show "unat (hs_generation (ht_slots ht ! i)) < 2 ^ 32
      \<Longrightarrow> ht_valid_entry (ht_put_entry ht i (Some e)) (hv_new (as_u64 i) (hs_generation (ht_slots ht ! i))) = Ok e"
    by (simp add: ht_valid_new [OF wf f])
  have i: "hs_entry (ht_slots ht ! i) = None" using f by (simp add: ht_fillable_def)
  assume h: "ht_valid_entry ht h = Ok d"
  obtain e' where "hs_entry (ht_slots ht ! unat (hv_index h)) = Some e'"
    using h by (auto simp: ht_valid_entry_def ht_entry_def ht_slot_def ht_index_eq vec_get_def result_simps split: if_splits)
  then have "unat (hv_index h) \<noteq> i" using i by auto
  then show "ht_valid_entry (ht_put_entry ht i (Some e)) h = Ok d"
    using h ht_valid_entry_other [of h i] by (simp add: ht_put_entry_def)
qed

text \<open>A new entry is in its slot whatever the generation of the slot; the handle that is given out for it resolves
  while that generation has 32 bits.\<close>

definition holds :: "handle_table \<Rightarrow> handle_value \<Rightarrow> handle_table_entry \<Rightarrow> bool" where
  "holds ht h e \<longleftrightarrow> ht_entry ht h = Ok e
     \<and> ht_valid_entry ht h = (if unat (hte_entry_generation e) < 2 ^ 32 then Ok e else Err StaleHandle)"

lemma holds_new:
  assumes wf: "ht_wf ht" and f: "ht_fillable ht i e"
  shows "holds (ht_put_entry ht i (Some e)) (hv_new (as_u64 i) (hs_generation (ht_slots ht ! i))) e"
proof -
  have i: "i < length (ht_slots ht)" "hte_entry_generation e = hs_generation (ht_slots ht ! i)" "i < ht_capacity ht" "i < 2 ^ 32"
    using f wf by (auto simp: ht_fillable_def ht_wf_def)
  have "unat (as_u64 i) = i" using i(4) by (simp add: as_u64_def unat_of_nat_u64 usize_max_def)
  then have "ht_entry (ht_put_entry ht i (Some e)) (hv_new (as_u64 i) (hs_generation (ht_slots ht ! i))) = Ok e"
    using i by (simp add: ht_entry_def ht_slot_def ht_index_eq vec_get_def ht_put_entry_def hv_index_new)
  then show ?thesis using ht_valid_new [OF wf f] i(2) by (simp add: holds_def)
qed

lemma holds_kept:
  assumes wf: "ht_wf ht" and f: "ht_fillable ht i d" and h: "holds ht h e"
  shows "holds (ht_put_entry ht i (Some d)) h e"
proof -
  have "unat (hv_index h) \<noteq> i"
    using h f by (auto simp: holds_def ht_fillable_def ht_entry_def ht_slot_def ht_index_eq vec_get_def result_simps split: if_splits)
  then have "ht_entry (ht_put_entry ht i (Some d)) h = ht_entry ht h" "ht_valid_entry (ht_put_entry ht i (Some d)) h = ht_valid_entry ht h"
    by (simp_all add: ht_valid_entry_def ht_entry_def ht_slot_def ht_index_eq vec_get_def ht_put_entry_def)
  then show ?thesis using h by (simp add: holds_def)
qed

lemma ht_install_entry_fills:
  assumes "ht_install_entry e ht = (Ok h, ht')"
  obtains i where "ht_fillable ht i (e\<lparr>hte_entry_generation := hs_generation (ht_slots ht ! i)\<rparr>)"
    "h = hv_new (as_u64 i) (hs_generation (ht_slots ht ! i))"
    "ht' = ht_put_entry ht i (Some (e\<lparr>hte_entry_generation := hs_generation (ht_slots ht ! i)\<rparr>))"
proof -
  obtain i where i: "ht_free_index ht = Ok i" "i < length (ht_slots ht)"
    "h = hv_new (as_u64 i) (hs_generation (ht_slots ht ! i))"
    "ht' = ht_put_entry ht i (Some (e\<lparr>hte_entry_generation := hs_generation (ht_slots ht ! i)\<rparr>))"
    using assms by (auto simp: ht_install_entry_def result_simps elim!: step_elims)
  moreover have "hs_entry (ht_slots ht ! i) = None"
    using i(1) position_SomeD(2) [of _ "ht_slots ht" i] by (auto simp: ht_free_index_def result_simps)
  ultimately show ?thesis by (intro that [of i]) (simp_all add: ht_fillable_def)
qed

text \<open>The handles that a receive installs hold the entries of the message.\<close>

definition regenerated :: "handle_table_entry \<Rightarrow> handle_table_entry \<Rightarrow> bool" where
  "regenerated e d \<longleftrightarrow> (\<exists>g. d = e\<lparr>hte_entry_generation := g\<rparr>)"

lemma receive_handles_hold:
  assumes "receive_handles es hs ht = (Ok hs', ht')" and "ht_wf ht"
  shows "\<exists>new. hs' = hs @ new \<and> list_all2 (\<lambda>h e. \<exists>d. regenerated e d \<and> holds ht' h d) new es
    \<and> (\<forall>h d. holds ht h d \<longrightarrow> holds ht' h d)"
  using assms
proof (induction es arbitrary: hs ht)
  case Nil
  then show ?case by simp
next
  case (Cons e es)
  obtain h ht1 where h: "ht_install_entry e ht = (Ok h, ht1)" and rest: "receive_handles es (hs @ [h]) ht1 = (Ok hs', ht')"
    using Cons.prems(1) by (auto elim!: step_elims)
  obtain i where i: "ht_fillable ht i (e\<lparr>hte_entry_generation := hs_generation (ht_slots ht ! i)\<rparr>)"
    "h = hv_new (as_u64 i) (hs_generation (ht_slots ht ! i))"
    "ht1 = ht_put_entry ht i (Some (e\<lparr>hte_entry_generation := hs_generation (ht_slots ht ! i)\<rparr>))"
    by (rule ht_install_entry_fills [OF h])
  have new: "holds ht1 h (e\<lparr>hte_entry_generation := hs_generation (ht_slots ht ! i)\<rparr>)"
    using holds_new [OF Cons.prems(2) i(1)] i(2,3) by simp
  have "ht_wf ht1" using ht_step_wf [OF step_fill [OF i(1)] Cons.prems(2)] i(3) by simp
  from Cons.IH [OF rest this]
  obtain new' where "hs' = (hs @ [h]) @ new'" "list_all2 (\<lambda>h e. \<exists>d. regenerated e d \<and> holds ht' h d) new' es"
    "\<forall>h d. holds ht1 h d \<longrightarrow> holds ht' h d" by auto
  moreover have "\<exists>d. regenerated e d \<and> holds ht1 h d" using new unfolding regenerated_def by blast
  ultimately show ?case using holds_kept [OF Cons.prems(2) i(1)] i(3) by (intro exI [of _ "h # new'"]) auto
qed

section \<open>The message at the endpoint\<close>

lemma om_enqueue_OkE:
  assumes ok: "om_ok C n T M L om" and enqueue: "om_enqueue_channel_message i g m om = (Ok u, om')"
  obtains d c c' where "om_at om i = Some d" "oe_generation d = g" "oe_payload d = PChannelEndpoint c" "endpoint_enqueue m c = Ok c'"
    "om' = om_put om i (d\<lparr>oe_payload := PChannelEndpoint c'\<rparr>)"
proof (cases rule: om_live_payload_cases [OF ok, of i g])
  case (1 d)
  show ?thesis
  proof (cases "oe_payload d" rule: as_channel_cases)
    case (channel c)
    then show ?thesis
      using enqueue 1 om_put_payload_eq [OF 1(1)]
      by (auto simp: om_enqueue_channel_message_def intro!: that elim!: step_elims)
  qed (use enqueue 1 in \<open>simp add: om_enqueue_channel_message_def\<close>)
qed (use enqueue in \<open>simp add: om_enqueue_channel_message_def\<close>)

lemma om_dequeue_OkE:
  assumes ok: "om_ok C n T M L om" and dequeue: "om_dequeue_channel_message i g om = (Ok m, om')"
  obtains d c c' where "om_at om i = Some d" "oe_generation d = g" "oe_payload d = PChannelEndpoint c" "endpoint_dequeue c = Ok (m, c')"
    "om' = om_put om i (d\<lparr>oe_payload := PChannelEndpoint c'\<rparr>)"
proof (cases rule: om_live_payload_cases [OF ok, of i g])
  case (1 d)
  show ?thesis
  proof (cases "oe_payload d" rule: as_channel_cases)
    case (channel c)
    then show ?thesis
      using dequeue 1 om_put_payload_eq [OF 1(1)]
      by (auto simp: om_dequeue_channel_message_def intro!: that elim!: step_elims)
  qed (use dequeue 1 in \<open>simp add: om_dequeue_channel_message_def\<close>)
qed (use dequeue in \<open>simp add: om_dequeue_channel_message_def\<close>)

section \<open>Sending\<close>

lemma moved_handles_gone:
  assumes "move_handles om hs moved ht = (Ok es, ht')" and "ht_wf ht" and "h \<in> set hs"
  shows "ht_valid_entry ht' h \<noteq> Ok e"
  using assms
proof (induction hs arbitrary: moved ht)
  case (Cons h' hs)
  obtain e1 ht1 where r: "ht_remove_for_transfer om h' ht = (Ok e1, ht1)"
    and rest: "move_handles om hs (moved @ [e1]) ht1 = (Ok es, ht')"
    using Cons.prems(1) by (auto elim!: step_elims)
  have rem: "ht_remove_entry h' ht = (Ok e1, ht1)" and valid: "ht_valid_entry ht h' = Ok e1"
    using r by (auto simp: ht_remove_for_transfer_def ht_remove_entry_def split: if_split_asm elim!: step_elims)
  have wf1: "ht_wf ht1" by (rule ht_steps_wf [OF ht_remove_entry_steps [OF rem] Cons.prems(2)])
  show ?case
  proof (cases "h \<in> set hs")
    case True
    then show ?thesis by (rule Cons.IH [OF rest wf1])
  next
    case False
    then have h: "h = h'" using Cons.prems(3) by simp
    have "ht_valid_entry ht1 h' \<noteq> Ok d" for d
      using rem by (auto simp: ht_remove_entry_def ht_valid_entry_def ht_entry_def ht_slot_def ht_index_eq vec_get_def
          result_simps split: if_split_asm elim!: step_elims)
    then show ?thesis
      using released_handle_never_valid [OF Cons.prems(2) ht_remove_entry_steps [OF rem]
          move_handles_steps [OF rest] valid, of e] h by blast
  qed
qed simp

lemma send_channel_message_OkE:
  assumes ok: "po_ok C D (n + 4) X L (p, om)"
    and send: "send_channel_message heap channel bytes handles (p, om) = (Ok u, (p', om'))"
  obtains v peer es m d c c' where
    "ht_lookup (pr_handles p) om channel KindChannelEndpoint HR_WRITE = Ok v"
    "om_channel_peer om (sn_id (hvw_object v)) (sn_generation (hvw_object v)) = Ok peer"
    "list_all2 (sendable (pr_handles p)) handles es" "distinct handles" "channel_message_new bytes es = Ok m"
    "om_at om (sn_id peer) = Some d" "oe_payload d = PChannelEndpoint c" "endpoint_enqueue m c = Ok c'"
    "om' = om_put om (sn_id peer) (d\<lparr>oe_payload := PChannelEndpoint c'\<rparr>)"
    "\<exists>es'. move_handles om handles [] (pr_handles p) = (Ok es', pr_handles p')"
proof -
  have ho: "ho_ok C D (n + 4) X L (pr_handles p, om)" using ok by (simp add: po_ok_def)
  obtain H where H: "om_ok D (n + 4) (X + H) {#} L om" by (rule ho_okE [OF ho])
  obtain v peer es m ht1 es' where a: "ht_lookup (pr_handles p) om channel KindChannelEndpoint HR_WRITE = Ok v"
    "om_channel_peer om (sn_id (hvw_object v)) (sn_generation (hvw_object v)) = Ok peer"
    "collect_entries (pr_handles p) om [] handles [] = Ok es" "channel_message_new bytes es = Ok m"
    "move_handles om handles [] (pr_handles p) = (Ok es', ht1)" "p' = p\<lparr>pr_handles := ht1\<rparr>"
    "om_enqueue_channel_message (sn_id peer) (sn_generation peer) m om = (Ok (), om')"
    using send by (auto simp: send_channel_message_def elim!: step_elims)
  have es: "list_all2 (sendable (pr_handles p)) handles es" "distinct handles"
    using collect_entries_spec [OF ho, of "[]" handles "[]"] a(3) by auto
  show ?thesis by (rule om_enqueue_OkE [OF H a(7)]) (use a es in \<open>intro that; auto\<close>)
qed

section \<open>Receiving\<close>

lemma recv_channel_message_OkE:
  assumes ok: "po_ok C D n X L (p, om)" and recv: "recv_channel_message heap channel (p, om) = (Ok rm, (p', om'))"
  obtains v d c m c' where
    "ht_lookup (pr_handles p) om channel KindChannelEndpoint HR_READ = Ok v"
    "om_at om (sn_id (hvw_object v)) = Some d" "oe_payload d = PChannelEndpoint c" "endpoint_dequeue c = Ok (m, c')"
    "om' = om_put om (sn_id (hvw_object v)) (d\<lparr>oe_payload := PChannelEndpoint c'\<rparr>)"
    "receive_handles (handle_entries m) [] (pr_handles p) = (Ok (rm_handles rm), pr_handles p')"
    "rm_bytes rm = cm_bytes m" "rm_byte_len rm = cm_byte_len m"
proof -
  have ho: "ho_ok C D n X L (pr_handles p, om)" using ok by (simp add: po_ok_def)
  obtain H where H: "om_ok D n (X + H) {#} L om" by (rule ho_okE [OF ho])
  obtain v m hs ht' where a: "ht_lookup (pr_handles p) om channel KindChannelEndpoint HR_READ = Ok v"
    "om_dequeue_channel_message (sn_id (hvw_object v)) (sn_generation (hvw_object v)) om = (Ok m, om')"
    "receive_handles (handle_entries m) [] (pr_handles p) = (Ok hs, ht')" "p' = p\<lparr>pr_handles := ht'\<rparr>"
    "rm = \<lparr>rm_bytes = cm_bytes m, rm_byte_len = cm_byte_len m, rm_handles = hs\<rparr>"
    using recv by (auto simp: recv_channel_message_def split: if_split_asm elim!: step_elims)
  show ?thesis by (rule om_dequeue_OkE [OF H a(2)]) (use a in \<open>intro that; auto\<close>)
qed

section \<open>From the sender to the receiver\<close>

lemma message_delivery:
  assumes sender: "po_ok C D (n + 4) X L (p, om)"
    and send: "send_channel_message heap channel bytes handles (p, om) = (Ok u, (p', om'))"
    and v: "ht_lookup (pr_handles p) om channel KindChannelEndpoint HR_WRITE = Ok v"
    and peer: "om_channel_peer om (sn_id (hvw_object v)) (sn_generation (hvw_object v)) = Ok peer"
    and empty: "om_at om (sn_id peer) = Some d" "oe_payload d = PChannelEndpoint c" "endpoint_bag c = {#}"
    and receiver: "po_ok C' D' n' X' L' (q, om')"
    and v': "ht_lookup (pr_handles q) om' channel' KindChannelEndpoint HR_READ = Ok v'" "sn_id (hvw_object v') = sn_id peer"
    and recv: "recv_channel_message heap' channel' (q, om') = (Ok rm, (q', om''))"
  shows "received_bytes rm = Ok bytes"
    and "list_all2 (\<lambda>h h'. \<exists>e. ht_valid_entry (pr_handles p) h = Ok e \<and> rights_contain (hte_rights e) HR_TRANSFER
      \<and> (\<exists>d. regenerated e d \<and> holds (pr_handles q') h' d)) handles (rm_handles rm)"
    and "\<forall>h \<in> set handles. \<forall>e. ht_valid_entry (pr_handles p') h \<noteq> Ok e"
proof -
  have ho: "ho_ok C D (n + 4) X L (pr_handles p, om)" using sender by (simp add: po_ok_def)
  obtain H where H: "ht_ok C (n + 4) H (pr_handles p)" "om_ok D (n + 4) (X + H) {#} L om" by (rule ho_okE [OF ho])
  have wf: "endpoint_wf c" using om_ok_at(4) [OF H(2) empty(1)] empty(2) by simp
  obtain es m c' es' where es: "list_all2 (sendable (pr_handles p)) handles es" "channel_message_new bytes es = Ok m"
    and c': "endpoint_enqueue m c = Ok c'" and om': "om' = om_put om (sn_id peer) (d\<lparr>oe_payload := PChannelEndpoint c'\<rparr>)"
    and mv: "move_handles om handles [] (pr_handles p) = (Ok es', pr_handles p')"
    by (rule send_channel_message_OkE [OF sender send]) (use v peer empty in auto)
  have m: "message_wf m" "handle_entries m = es" "message_bytes m = Ok bytes"
  proof -
    have "message_wf m \<and> handle_entries m = es \<and> message_bytes m = Ok bytes"
      by (rule channel_message_new_cases [of bytes es]) (use es(2) in simp_all)
    then show "message_wf m" "handle_entries m = es" "message_bytes m = Ok bytes" by simp_all
  qed
  have bag: "endpoint_wf c'" "endpoint_bag c' = {#m#}"
    using c' empty(3) by (cases rule: endpoint_enqueue_cases [OF wf m(1)]; simp)+
  have at: "om_at om' (sn_id peer) = Some (d\<lparr>oe_payload := PChannelEndpoint c'\<rparr>)"
    using om' om_at_put [OF om_okD(3) [OF H(2)] om_at_bound [OF empty(1)]] by simp
  obtain m' c'' where m': "endpoint_dequeue c' = Ok (m', c'')"
    and rh: "receive_handles (handle_entries m') [] (pr_handles q) = (Ok (rm_handles rm), pr_handles q')"
    and rm: "rm_bytes rm = cm_bytes m'" "rm_byte_len rm = cm_byte_len m'"
    by (rule recv_channel_message_OkE [OF receiver recv]) (use v' at in auto)
  have "m' = m" using m' bag(2) by (cases rule: endpoint_dequeue_cases [OF bag(1)]) auto
  note rh = rh [unfolded this m(2)] and rm = rm [unfolded this]
  show "received_bytes rm = Ok bytes" using m(3) rm by (simp only: received_bytes_def message_bytes_def)
  have "ht_wf (pr_handles q)" using receiver by (auto simp: po_ok_def elim!: ho_okE dest: ht_okD(1))
  from receive_handles_hold [OF rh this]
  have new: "list_all2 (\<lambda>h e. \<exists>d. regenerated e d \<and> holds (pr_handles q') h d) (rm_handles rm) es" by auto
  show "list_all2 (\<lambda>h h'. \<exists>e. ht_valid_entry (pr_handles p) h = Ok e \<and> rights_contain (hte_rights e) HR_TRANSFER
      \<and> (\<exists>d. regenerated e d \<and> holds (pr_handles q') h' d)) handles (rm_handles rm)"
    (is "list_all2 ?R _ _")
  proof (rule list_all2_all_nthI)
    show "length handles = length (rm_handles rm)" using list_all2_lengthD [OF es(1)] list_all2_lengthD [OF new] by simp
  next
    fix i assume "i < length handles"
    then have "sendable (pr_handles p) (handles ! i) (es ! i)"
      "\<exists>d. regenerated (es ! i) d \<and> holds (pr_handles q') (rm_handles rm ! i) d"
      using list_all2_nthD [OF es(1)] list_all2_nthD2 [OF new] list_all2_lengthD [OF es(1)] by simp_all
    then show "?R (handles ! i) (rm_handles rm ! i)" by (auto simp: sendable_def)
  qed
  show "\<forall>h \<in> set handles. \<forall>e. ht_valid_entry (pr_handles p') h \<noteq> Ok e"
    using moved_handles_gone [OF mv ht_okD(1) [OF H(1)]] by blast
qed

end
