(* ===== verification/Ownership.thy ===== *)
theory Ownership
  imports Handle_Lineage Channel_Transfer
begin

text \<open>
  Who holds what: the handle tables of the processes and the channel endpoints with their waiting messages.
  Every object has one owner; the tables of other processes have no handle to it, and no message for them
  carries one.  The lemmas say which changes of one table or one endpoint keep this.
\<close>

type_synonym owners = "object_id \<times> object_generation \<Rightarrow> process_id"
type_synonym tables = "process_id \<rightharpoonup> handle_table"
type_synonym endpoints = "object_id \<rightharpoonup> object_generation \<times> channel_endpoint_object"

section \<open>Handles in tables and in messages\<close>

definition object_of :: "handle_table_entry \<Rightarrow> object_id \<times> object_generation" where
  "object_of e = (hte_object e, hte_object_generation e)"

definition ht_has :: "handle_table \<Rightarrow> handle_table_entry \<Rightarrow> bool" where
  "ht_has ht e \<longleftrightarrow> (\<exists>i < length (ht_slots ht). hs_entry (ht_slots ht ! i) = Some e)"

definition waits :: "channel_endpoint_object \<Rightarrow> handle_table_entry \<Rightarrow> bool" where
  "waits c e \<longleftrightarrow> (\<exists>m \<in># endpoint_bag c. e \<in> set (live (cm_handles m)))"

definition parent_below :: "handle_table \<Rightarrow> handle_table_entry \<Rightarrow> bool" where
  "parent_below ht e \<longleftrightarrow> (\<forall>p. hte_parent e = Some p \<longrightarrow> below ht (hl_handle p))"

lemma object_of_reparent [simp]:
  "object_of (e\<lparr>hte_parent := p\<rparr>) = object_of e" "object_of (e\<lparr>hte_entry_generation := g\<rparr>) = object_of e"
  "parent_below ht (e\<lparr>hte_entry_generation := g\<rparr>) = parent_below ht e"
  by (simp_all add: object_of_def parent_below_def)

lemma ht_has_put: "i < length (ht_slots ht) \<Longrightarrow> ht_has (ht_put_entry ht i (Some e)) d \<Longrightarrow> d = e \<or> ht_has ht d"
  by (auto simp: ht_has_def ht_put_slot split: if_splits)

lemma ht_has_clear: "i < length (ht_slots ht) \<Longrightarrow> ht_has (ht_clear ht i) d \<Longrightarrow> ht_has ht d"
  by (auto simp: ht_has_def ht_clear_slot split: if_splits)

lemma ht_valid_entry_has: "ht_wf ht \<Longrightarrow> ht_valid_entry ht h = Ok e \<Longrightarrow> ht_has ht e"
  using ht_valid_entry_slot [of ht h e] by (auto simp: ht_has_def)

lemma ht_has_parent_below: "lineage_ok ht \<Longrightarrow> ht_has ht e \<Longrightarrow> parent_below ht e"
  by (auto simp: lineage_ok_def ranked_def ht_has_def parent_below_def intro: child_of_below)

lemma waits_enqueue: "endpoint_bag c' = add_mset m (endpoint_bag c) \<Longrightarrow> waits c' e \<Longrightarrow> waits c e \<or> e \<in> set (live (cm_handles m))"
  by (auto simp: waits_def)

lemma waits_dequeue: "endpoint_bag c = add_mset m (endpoint_bag c') \<Longrightarrow> waits c' e \<Longrightarrow> waits c e"
  by (auto simp: waits_def)

lemma waits_first: "endpoint_bag c = add_mset m (endpoint_bag c') \<Longrightarrow> e \<in> set (live (cm_handles m)) \<Longrightarrow> waits c e"
  by (auto simp: waits_def)

section \<open>Isolation\<close>

definition table_owned :: "owners \<Rightarrow> process_id \<Rightarrow> handle_table \<Rightarrow> bool" where
  "table_owned own i ht \<longleftrightarrow> ht_wf ht \<and> lineage_ok ht \<and> (\<forall>e. ht_has ht e \<longrightarrow> own (object_of e) = i)"

definition waiting_owned :: "owners \<Rightarrow> tables \<Rightarrow> process_id \<Rightarrow> handle_table_entry \<Rightarrow> bool" where
  "waiting_owned own T i e \<longleftrightarrow> own (object_of e) = i \<and> (hte_parent e \<noteq> None \<longrightarrow> (\<exists>ht. T i = Some ht \<and> parent_below ht e))"

definition peer_owned :: "owners \<Rightarrow> endpoints \<Rightarrow> process_id \<Rightarrow> object_ref \<Rightarrow> bool" where
  "peer_owned own E i r \<longleftrightarrow> own (or_id r, or_generation r) = i \<and> (\<exists>c. E (or_id r) = Some (or_generation r, c))"

definition endpoint_owned :: "owners \<Rightarrow> tables \<Rightarrow> endpoints \<Rightarrow> process_id \<Rightarrow> channel_endpoint_object \<Rightarrow> bool" where
  "endpoint_owned own T E i c \<longleftrightarrow> (\<forall>e. waits c e \<longrightarrow> waiting_owned own T i e)
     \<and> (\<forall>r. ce_peer c = Some r \<longrightarrow> peer_owned own E i r)"

definition isolated :: "owners \<Rightarrow> tables \<Rightarrow> endpoints \<Rightarrow> bool" where
  "isolated own T E \<longleftrightarrow> (\<forall>i ht. T i = Some ht \<longrightarrow> table_owned own i ht)
     \<and> (\<forall>j g c. E j = Some (g, c) \<longrightarrow> endpoint_owned own T E (own (j, g)) c)"

lemma isolatedD:
  assumes "isolated own T E"
  shows "T i = Some ht \<Longrightarrow> table_owned own i ht" "E j = Some (g, c) \<Longrightarrow> endpoint_owned own T E (own (j, g)) c"
  using assms by (simp_all add: isolated_def)

lemma table_ownedD:
  assumes "table_owned own i ht"
  shows "ht_wf ht" "lineage_ok ht" "ht_has ht e \<Longrightarrow> own (object_of e) = i" "ht_has ht e \<Longrightarrow> parent_below ht e"
    "ht_valid_entry ht h = Ok e \<Longrightarrow> own (object_of e) = i"
  using assms ht_has_parent_below ht_valid_entry_has by (auto simp: table_owned_def)

text \<open>One table may be replaced by a later state of it.\<close>

lemma waiting_owned_table:
  assumes "T i = Some ht" and "\<And>h. below ht h \<Longrightarrow> below ht' h" and "waiting_owned own T j e"
  shows "waiting_owned own (T(i \<mapsto> ht')) j e"
  using assms by (auto simp: waiting_owned_def parent_below_def)

lemma isolated_table:
  assumes iso: "isolated own T E" and i: "T i = Some ht" and ht': "table_owned own i ht'" "\<And>h. below ht h \<Longrightarrow> below ht' h"
  shows "isolated own (T(i \<mapsto> ht')) E"
proof -
  have "waiting_owned own (T(i \<mapsto> ht')) j e" if "waiting_owned own T j e" for j e
    by (rule waiting_owned_table [of T i ht ht', OF i ht'(2) that])
  then show ?thesis using iso ht'(1) by (auto simp: isolated_def endpoint_owned_def)
qed

lemma table_owned_fill:
  assumes ht: "table_owned own i ht" and f: "ht_fillable ht s e" and e: "own (object_of e) = i" "parent_below ht e"
  shows "table_owned own i (ht_put_entry ht s (Some e))"
proof -
  obtain rank where r: "ranked ht rank" using ht by (auto simp: table_owned_def lineage_ok_def)
  have "lineage_ok (ht_put_entry ht s (Some e))"
    by (rule ranked_fill [OF _ r f]) (use ht e(2) in \<open>simp_all add: table_owned_def parent_below_def\<close>)
  moreover have "ht_wf (ht_put_entry ht s (Some e))"
    by (rule ht_step_wf [OF step_fill [OF f]]) (use ht in \<open>simp_all add: table_owned_def\<close>)
  moreover have "s < length (ht_slots ht)" using f by (simp add: ht_fillable_def)
  ultimately show ?thesis using ht e(1) ht_has_put by (fastforce simp: table_owned_def)
qed

lemma isolated_fill:
  assumes iso: "isolated own T E" and i: "T i = Some ht" and f: "ht_fillable ht s e" and e: "own (object_of e) = i" "parent_below ht e"
  shows "isolated own (T(i \<mapsto> ht_put_entry ht s (Some e))) E"
  by (rule isolated_table [OF iso i table_owned_fill [OF isolatedD(1) [OF iso i] f e] below_fill [OF f]])

lemma ht_clears_owned:
  assumes "ht_clears ht ht'" and "table_owned own i ht"
  shows "table_owned own i ht' \<and> (\<forall>h. below ht h \<longrightarrow> below ht' h)"
  using assms
proof (induction rule: ht_clears.induct)
  case (clears_slot ht ht' s)
  then have ht': "table_owned own i ht'" and s: "s < length (ht_slots ht')" by (simp_all add: ht_occupied_def)
  obtain rank where r: "ranked ht' rank" using ht' by (auto simp: table_owned_def lineage_ok_def)
  have "ht_wf (ht_clear ht' s)"
    by (rule ht_step_wf [OF step_remove [OF clears_slot.hyps(2,3)]]) (use ht' in \<open>simp add: table_owned_def\<close>)
  moreover have "lineage_ok (ht_clear ht' s)"
    using ranked_clear [OF r s clears_slot.hyps(3)] by (auto simp: lineage_ok_def)
  moreover have "below (ht_clear ht' s) h" if "below ht h" for h
    using below_clear [OF clears_slot.hyps(2,3)] clears_slot that by blast
  ultimately show ?case using ht' ht_has_clear [OF s] by (auto simp: table_owned_def)
qed simp

lemma isolated_clears:
  assumes iso: "isolated own T E" and i: "T i = Some ht" and "ht_clears ht ht'"
  shows "isolated own (T(i \<mapsto> ht')) E"
  using ht_clears_owned [OF assms(3) isolatedD(1) [OF iso i]] by (intro isolated_table [OF iso i]) auto

lemma isolated_new_table:
  assumes iso: "isolated own T E" and i: "T i = None" and ht: "ht_wf ht" "\<And>e. \<not> ht_has ht e"
  shows "isolated own (T(i \<mapsto> ht)) E"
proof -
  have "lineage_ok ht" by (rule no_parents_lineage) (use ht(2) in \<open>auto simp: no_parents_def ht_has_def in_set_conv_nth\<close>)
  then have "table_owned own i ht" using ht by (simp add: table_owned_def)
  moreover have "waiting_owned own (T(i \<mapsto> ht)) j e" if "waiting_owned own T j e" for j e
    using that i by (auto simp: waiting_owned_def)
  ultimately show ?thesis using iso by (auto simp: isolated_def endpoint_owned_def)
qed

text \<open>One endpoint may change its messages and its peer, and a new one may appear.\<close>

lemma isolated_endpoint:
  assumes iso: "isolated own T E" and same: "\<And>h d. E j = Some (h, d) \<Longrightarrow> h = g"
    and c: "\<And>e. waits c e \<Longrightarrow> waiting_owned own T (own (j, g)) e"
      "\<And>r. ce_peer c = Some r \<Longrightarrow> own (or_id r, or_generation r) = own (j, g) \<and> (\<exists>c'. (E(j \<mapsto> (g, c))) (or_id r) = Some (or_generation r, c'))"
  shows "isolated own T (E(j \<mapsto> (g, c)))"
proof -
  have peer: "peer_owned own (E(j \<mapsto> (g, c))) i r" if "peer_owned own E i r" for i r
    using that same by (auto simp: peer_owned_def)
  have "endpoint_owned own T (E(j \<mapsto> (g, c))) (own (j', g')) c'" if "(E(j \<mapsto> (g, c))) j' = Some (g', c')" for j' g' c'
  proof (cases "j' = j")
    case True
    then show ?thesis using that c by (auto simp: endpoint_owned_def peer_owned_def)
  next
    case False
    then have "E j' = Some (g', c')" using that by simp
    then show ?thesis using isolatedD(2) [OF iso] peer by (auto simp: endpoint_owned_def)
  qed
  then show ?thesis using iso by (simp add: isolated_def)
qed

lemma isolated_new_endpoint:
  assumes "isolated own T E" and "E j = None" and "endpoint_bag c = {#}" and "ce_peer c = None"
  shows "isolated own T (E(j \<mapsto> (g, c)))"
  by (rule isolated_endpoint [OF assms(1)]) (use assms in \<open>simp_all add: waits_def\<close>)

lemma isolated_peer:
  assumes iso: "isolated own T E" and j: "E j = Some (g, c)" and l: "E l = Some (h, d)" and own: "own (l, h) = own (j, g)"
  shows "isolated own T (E(j \<mapsto> (g, c\<lparr>ce_peer := Some \<lparr>or_id = l, or_generation = h\<rparr>\<rparr>)))"
proof -
  have "endpoint_owned own T E (own (j, g)) c" by (rule isolatedD(2) [OF iso j])
  then show ?thesis
    by (intro isolated_endpoint [OF iso])
      (use j l own in \<open>auto simp: endpoint_owned_def waits_def endpoint_bag_def\<close>)
qed

lemma isolated_pair:
  assumes iso: "isolated own T E" and fresh: "E j = None" "E l = None" "j \<noteq> l" and own: "own (j, g) = own (l, h)"
    and c: "endpoint_bag c = {#}"
  shows "isolated own T (E(j \<mapsto> (g, c\<lparr>ce_peer := Some \<lparr>or_id = l, or_generation = h\<rparr>\<rparr>),
    l \<mapsto> (h, c\<lparr>ce_peer := Some \<lparr>or_id = j, or_generation = g\<rparr>\<rparr>)))"
proof -
  let ?c = "c\<lparr>ce_peer := None\<rparr>"
  let ?E = "E(j \<mapsto> (g, ?c), l \<mapsto> (h, ?c))"
  let ?E1 = "?E(j \<mapsto> (g, ?c\<lparr>ce_peer := Some \<lparr>or_id = l, or_generation = h\<rparr>\<rparr>))"
  have "isolated own T ?E"
    by (intro isolated_new_endpoint iso) (use fresh c in \<open>simp_all add: endpoint_bag_def\<close>)
  then have "isolated own T ?E1" by (rule isolated_peer) (use fresh(3) own in simp_all)
  then have "isolated own T (?E1(l \<mapsto> (h, ?c\<lparr>ce_peer := Some \<lparr>or_id = j, or_generation = g\<rparr>\<rparr>)))"
    by (rule isolated_peer) (use fresh(3) own in simp_all)
  then show ?thesis using fresh(3) by (simp add: fun_upd_twist)
qed

lemma isolated_enqueue:
  assumes iso: "isolated own T E" and j: "E j = Some (g, c)" and bag: "endpoint_bag c' = add_mset m (endpoint_bag c)" "ce_peer c' = ce_peer c"
    and m: "\<And>e. e \<in> set (live (cm_handles m)) \<Longrightarrow> waiting_owned own T (own (j, g)) e"
  shows "isolated own T (E(j \<mapsto> (g, c')))"
proof -
  have c: "endpoint_owned own T E (own (j, g)) c" by (rule isolatedD(2) [OF iso j])
  show ?thesis
    by (rule isolated_endpoint [OF iso])
      (use j c bag(2) m waits_enqueue [OF bag(1)] in \<open>auto simp: endpoint_owned_def peer_owned_def\<close>)
qed

lemma isolated_dequeue:
  assumes iso: "isolated own T E" and j: "E j = Some (g, c)" and bag: "endpoint_bag c = add_mset m (endpoint_bag c')" "ce_peer c' = ce_peer c"
  shows "isolated own T (E(j \<mapsto> (g, c')))" "e \<in> set (live (cm_handles m)) \<Longrightarrow> waiting_owned own T (own (j, g)) e"
proof -
  have c: "endpoint_owned own T E (own (j, g)) c" by (rule isolatedD(2) [OF iso j])
  show "isolated own T (E(j \<mapsto> (g, c')))"
    by (rule isolated_endpoint [OF iso])
      (use j c bag(2) waits_dequeue [OF bag(1)] in \<open>auto simp: endpoint_owned_def peer_owned_def\<close>)
  show "e \<in> set (live (cm_handles m)) \<Longrightarrow> waiting_owned own T (own (j, g)) e"
    using c waits_first [OF bag(1)] by (auto simp: endpoint_owned_def)
qed

text \<open>An object that nothing refers to may get any owner.\<close>

definition unused :: "tables \<Rightarrow> endpoints \<Rightarrow> object_id \<times> object_generation \<Rightarrow> bool" where
  "unused T E x \<longleftrightarrow> (\<forall>i ht e. T i = Some ht \<longrightarrow> ht_has ht e \<longrightarrow> object_of e \<noteq> x)
     \<and> (\<forall>j g c. E j = Some (g, c) \<longrightarrow> (j, g) \<noteq> x \<and> (\<forall>e. waits c e \<longrightarrow> object_of e \<noteq> x))"

lemma isolated_own:
  assumes iso: "isolated own T E" and x: "unused T E x"
  shows "isolated (own(x := i)) T E"
proof -
  have "table_owned (own(x := i)) j ht" if "T j = Some ht" for j ht
    using isolatedD(1) [OF iso that] that x by (auto simp: table_owned_def unused_def)
  moreover have "endpoint_owned (own(x := i)) T E ((own(x := i)) (j, g)) c" if E: "E j = Some (g, c)" for j g c
  proof -
    have "(j, g) \<noteq> x" and w: "waits c e \<Longrightarrow> object_of e \<noteq> x" for e using E x by (auto simp: unused_def)
    moreover have "endpoint_owned own T E (own (j, g)) c" by (rule isolatedD(2) [OF iso E])
    moreover have "(or_id r, or_generation r) \<noteq> x" if "peer_owned own E k r" for k r
      using that x unfolding peer_owned_def unused_def by blast
    ultimately show ?thesis by (auto simp: endpoint_owned_def waiting_owned_def peer_owned_def)
  qed
  ultimately show ?thesis by (simp add: isolated_def)
qed

end
