(* ===== verification/Object_Reach.thy ===== *)
theory Object_Reach
  imports Object_Names Ownership
begin

text \<open>
  Which objects an operation may change.  The objects of one owner form a set of slots that is closed under the
  references an object makes: an endpoint to its peer, an address space to its memory.  An operation on an object
  of such a set stays within the set: every other slot is as it was, whatever the outcome.
\<close>

section \<open>Closed sets of objects\<close>

fun targets :: "object_payload \<Rightarrow> object_ref set" where
  "targets (PChannelEndpoint c) = set_option (ce_peer c)"
| "targets (PAddressSpace a) = set_mset (as_refs a)"
| "targets _ = {}"

abbreviation inside :: "nat set \<Rightarrow> object_payload \<Rightarrow> bool" where
  "inside S p \<equiv> \<forall>r \<in> targets p. unat (or_id r) \<in> S"

text \<open>Outside \<open>S\<close> the slots are as in \<open>E\<close>; a free slot is in \<open>S\<close>, and what is in \<open>S\<close> refers to \<open>S\<close>.\<close>

definition fits :: "nat set \<Rightarrow> object_entry option list \<Rightarrow> nat \<Rightarrow> object_entry option \<Rightarrow> bool" where
  "fits S E k x \<longleftrightarrow> (k \<notin> S \<longrightarrow> x = E ! k) \<and> (x = None \<longrightarrow> k \<in> S)
     \<and> (\<forall>e. x = Some e \<longrightarrow> oe_id e = of_nat k \<and> (k \<in> S \<longrightarrow> inside S (oe_payload e)))"

definition within :: "nat set \<Rightarrow> object_entry option list \<Rightarrow> object_manager \<Rightarrow> bool" where
  "within S E om \<longleftrightarrow> length (om_entries om) = length E \<and> length E \<le> usize_max \<and> (\<forall>k < length E. fits S E k (om_entries om ! k))"

lemma withinD:
  assumes "within S E om" and "k < length (om_entries om)"
  shows "om_entries om ! k = None \<Longrightarrow> k \<in> S" "om_entries om ! k = Some e \<Longrightarrow> oe_id e = of_nat k"
    "om_entries om ! k = Some e \<Longrightarrow> k \<in> S \<Longrightarrow> inside S (oe_payload e)" "unat (of_nat k :: u64) = k"
proof -
  have "fits S E k (om_entries om ! k)" "k \<le> usize_max" using assms by (simp_all add: within_def)
  then show "om_entries om ! k = None \<Longrightarrow> k \<in> S" "om_entries om ! k = Some e \<Longrightarrow> oe_id e = of_nat k"
    "om_entries om ! k = Some e \<Longrightarrow> k \<in> S \<Longrightarrow> inside S (oe_payload e)" "unat (of_nat k :: u64) = k"
    by (simp_all add: fits_def unat_of_nat_u64)
qed

lemma within_slot:
  assumes w: "within S E om" and k: "k \<in> S" and x: "\<And>e. x = Some e \<Longrightarrow> oe_id e = of_nat k \<and> inside S (oe_payload e)"
  shows "within S E (om\<lparr>om_entries := (om_entries om)[k := x]\<rparr>)"
proof -
  have "fits S E k x" using k x by (auto simp: fits_def)
  then have "fits S E j ((om_entries om)[k := x] ! j)" if "j < length E" for j
    using w that by (cases "j = k") (simp_all add: within_def)
  then show ?thesis using w by (simp add: within_def)
qed

lemma within_generations [simp]: "within S E (om\<lparr>om_generations := g\<rparr>) = within S E om"
  by (simp add: within_def)

lemma om_entryE:
  assumes "om_entry om i = Ok e"
  obtains "unat i < length (om_entries om)" "om_entries om ! unat i = Some e"
  using assms by (auto simp: om_entry_def om_index_def as_usize_def vec_get_def result_simps split: if_split_asm)

lemma om_live_payloadE:
  assumes "om_live_payload om i g = Ok p"
  obtains e where "unat i < length (om_entries om)" "om_entries om ! unat i = Some e" "oe_payload e = p"
  using assms by (auto simp: om_live_payload_def om_live_entry_def result_simps split: if_split_asm elim!: om_entryE)

lemma live_payload_inside:
  assumes w: "within S E om" and i: "unat i \<in> S" and p: "om_live_payload om i g = Ok p"
  shows "inside S p"
  by (rule om_live_payloadE [OF p]) (use withinD(3) [OF w _ _ i] in blast)

lemma within_put:
  assumes w: "within S E om" and i: "unat i \<in> S" and e: "om_entry om i = Ok e"
  shows "within S E (om_put om i (e\<lparr>oe_handle_count := n\<rparr>))"
proof (rule om_entryE [OF e])
  assume k: "unat i < length (om_entries om)" "om_entries om ! unat i = Some e"
  show ?thesis
    unfolding om_put_def as_usize_def by (rule within_slot [OF w i]) (use withinD(2,3) [OF w k] i in auto)
qed

lemma within_put_payload:
  assumes w: "within S E om" and i: "unat i \<in> S" and p: "om_live_payload om i g = Ok p" and p': "inside S p'"
  shows "within S E (om_put_payload om i p')"
proof (rule om_live_payloadE [OF p])
  fix e assume k: "unat i < length (om_entries om)" "om_entries om ! unat i = Some e"
  show ?thesis
    unfolding om_put_payload_def as_usize_def by (rule within_slot [OF w i]) (use k p' withinD(2) [OF w k] in auto)
qed

lemma validate_id:
  assumes w: "within S E om" and v: "om_validate om i g kind = Ok s"
  shows "sn_id s = i"
proof -
  obtain e where e: "om_entry om i = Ok e" "sn_id s = oe_id e"
    using v by (auto simp: om_validate_def snapshot_of_def result_simps split: if_split_asm)
  show ?thesis by (rule om_entryE [OF e(1)]) (use withinD(2) [OF w] e(2) in simp)
qed

section \<open>The operations on objects\<close>

lemma lift_outE:
  "lift r s f = (x, s') \<Longrightarrow> (s' = s \<Longrightarrow> \<forall>y. x \<noteq> Ok y \<Longrightarrow> thesis) \<Longrightarrow> (\<And>a. r = Ok a \<Longrightarrow> f a = (x, s') \<Longrightarrow> thesis) \<Longrightarrow> thesis"
  by (cases r) auto

lemma sbind_outE:
  "sbind y f = (x, s') \<Longrightarrow> (\<And>r. y = (r, s') \<Longrightarrow> \<forall>y. x \<noteq> Ok y \<Longrightarrow> thesis)
    \<Longrightarrow> (\<And>a s. y = (Ok a, s) \<Longrightarrow> f a s = (x, s') \<Longrightarrow> thesis) \<Longrightarrow> thesis"
  by (cases "(y, f)" rule: sbind.cases) auto

lemma add_handle_within: "om_add_handle i g om = (r, om') \<Longrightarrow> within S E om \<Longrightarrow> unat i \<in> S \<Longrightarrow> within S E om'"
  by (auto simp: om_add_handle_def elim!: outcome_elims split: if_split_asm intro: within_put)

lemma remove_handle_within: "om_remove_handle i g om = (r, om') \<Longrightarrow> within S E om \<Longrightarrow> unat i \<in> S \<Longrightarrow> within S E om'"
  by (auto simp: om_remove_handle_def elim!: outcome_elims split: if_split_asm intro: within_put)

text \<open>A new object is put into a free slot.\<close>

lemma commit_within:
  assumes c: "om_commit_reserved rv p om = (r, om')" and w: "within S E om" and p: "inside S p"
  shows "within S E om' \<and> (\<forall>s. r = Ok s \<longrightarrow> unat (sn_id s) \<in> S)"
proof (cases "om_capacity om \<le> oer_index rv \<or> length (om_entries om) \<le> oer_index rv \<or> length (om_generations om) \<le> oer_index rv
    \<or> om_entries om ! oer_index rv \<noteq> None \<or> om_generations om ! oer_index rv \<noteq> oer_generation rv")
  case True
  then have "om' = om \<and> (\<forall>s. r \<noteq> Ok s)" using c by (auto simp: om_commit_reserved_def vec_get_def Let_def split: if_split_asm)
  then show ?thesis using w by simp
next
  case False
  let ?k = "oer_index rv"
  let ?e = "\<lparr>oe_id = as_u64 ?k, oe_payload = p, oe_generation = oer_generation rv, oe_state = Live, oe_handle_count = 0\<rparr>"
  have k: "?k < length (om_entries om)" "om_entries om ! ?k = None" using False by simp_all
  have r: "r = Ok (snapshot_of ?e)" "om' = om\<lparr>om_entries := (om_entries om)[?k := Some ?e]\<rparr>"
    using c False by (simp_all add: om_commit_reserved_def vec_get_def Let_def)
  have "?k \<in> S" by (rule withinD(1) [OF w k])
  moreover have "unat (sn_id (snapshot_of ?e)) = ?k" using withinD(4) [OF w k(1)] by (simp add: snapshot_of_def as_u64_def)
  ultimately show ?thesis unfolding r using within_slot [OF w, of ?k "Some ?e"] p by (simp add: as_u64_def)
qed

lemma remove_slot_within: "om_remove_slot k g om = (r, om') \<Longrightarrow> within S E om \<Longrightarrow> k \<in> S \<Longrightarrow> within S E om'"
  using within_slot [of S E om k None]
  by (auto simp: om_remove_slot_def vec_set_def result_simps elim!: outcome_elims split: if_split_asm)

lemma mark_peer_within:
  assumes w: "within S E om" and peer: "\<And>r. peer = Some r \<Longrightarrow> unat (or_id r) \<in> S"
  shows "within S E (om_mark_peer_closed peer om)"
proof (cases "om_mark_peer_closed peer om = om")
  case False
  then obtain r where r: "peer = Some r" by (cases peer) (simp_all add: om_mark_peer_closed_def)
  then obtain e where e: "om_entry om (or_id r) = Ok e" "oe_generation e = or_generation r"
    using False by (cases "om_entry om (or_id r)") (auto simp: om_mark_peer_closed_def split: if_split_asm)
  then obtain c where c: "oe_payload e = PChannelEndpoint c"
    "om_mark_peer_closed peer om = om_put_payload om (or_id r) (PChannelEndpoint (c\<lparr>ce_peer_closed := True\<rparr>))"
    using False r by (cases "oe_payload e") (auto simp: om_mark_peer_closed_def)
  show ?thesis
  proof (rule om_entryE [OF e(1)])
    assume k: "unat (or_id r) < length (om_entries om)" "om_entries om ! unat (or_id r) = Some e"
    have "inside S (PChannelEndpoint c)" using withinD(3) [OF w k peer [OF r]] c(1) by simp
    then show ?thesis
      unfolding c(2) om_put_payload_def as_usize_def
      by (intro within_slot [OF w peer [OF r]]) (use k withinD(2) [OF w k] in auto)
  qed
qed (use w in simp)

lemma destroy_within:
  assumes d: "om_destroy i g om = (r, om')" and w: "within S E om" and i: "unat i \<in> S"
  shows "within S E om'"
proof (cases "om' = om")
  case False
  note d = d [unfolded om_destroy_def om_index_def as_usize_def vec_get_def]
  from d False obtain e where e: "unat i < length (om_entries om)" "om_entries om ! unat i = Some e"
    and c: "om_remove_slot (unat i) g om = (r, om')
      \<or> (\<exists>c. oe_payload e = PChannelEndpoint c \<and> om_remove_slot (unat i) g (om_mark_peer_closed (ce_peer c) om) = (r, om'))"
    by (auto elim!: outcome_elims split: if_split_asm option.split_asm object_payload.split_asm)
  have "within S E (om_mark_peer_closed (ce_peer c) om)" if "oe_payload e = PChannelEndpoint c" for c
    by (rule mark_peer_within [OF w]) (use withinD(3) [OF w e i] that in simp)
  then show ?thesis using c w i by (auto intro: remove_slot_within)
qed (use w in simp)

lemma destroy_memory_within: "om_destroy_memory_object i g om = (r, om') \<Longrightarrow> within S E om \<Longrightarrow> unat i \<in> S \<Longrightarrow> within S E om'"
  by (auto simp: om_destroy_memory_object_def om_index_def as_usize_def vec_get_def elim!: outcome_elims
      split: if_split_asm option.split_asm intro: remove_slot_within)

lemma reclaim_within:
  "om_reclaim_memory_object_if_unreferenced i g (om, fa) = (r, (om', fa')) \<Longrightarrow> within S E om \<Longrightarrow> unat i \<in> S \<Longrightarrow> within S E om'"
  by (auto simp: om_reclaim_memory_object_if_unreferenced_def elim!: outcome_elims
      split: object_payload.split_asm if_split_asm prod.split_asm result.split_asm dest: destroy_memory_within)

section \<open>Channels\<close>

lemma enqueue_peer: "endpoint_enqueue m c = Ok c' \<Longrightarrow> ce_peer c' = ce_peer c"
  by (auto simp: endpoint_enqueue_def result_simps split: if_split_asm)

lemma dequeue_peer: "endpoint_dequeue c = Ok (m, c') \<Longrightarrow> ce_peer c' = ce_peer c"
  by (auto simp: endpoint_dequeue_def result_simps split: option.split_asm if_split_asm)

lemma as_channel_eq [result_simps]: "as_channel p = Ok c \<longleftrightarrow> p = PChannelEndpoint c"
  by (cases p) auto

lemma as_address_space_eq [result_simps]: "as_address_space p = Ok a \<longleftrightarrow> p = PAddressSpace a"
  by (cases p) auto

lemma put_channel_within:
  assumes "within S E om" and "unat i \<in> S" and "om_live_payload om i g = Ok (PChannelEndpoint c)" and "ce_peer c' = ce_peer c"
  shows "within S E (om_put_payload om i (PChannelEndpoint c'))"
  by (rule within_put_payload [OF assms(1-3)]) (use live_payload_inside [OF assms(1-3)] assms(4) in simp)

lemma enqueue_within: "om_enqueue_channel_message i g m om = (r, om') \<Longrightarrow> within S E om \<Longrightarrow> unat i \<in> S \<Longrightarrow> within S E om'"
  by (auto simp: om_enqueue_channel_message_def result_simps elim!: outcome_elims intro: put_channel_within dest: enqueue_peer)

lemma dequeue_within: "om_dequeue_channel_message i g om = (r, om') \<Longrightarrow> within S E om \<Longrightarrow> unat i \<in> S \<Longrightarrow> within S E om'"
  by (auto simp: om_dequeue_channel_message_def result_simps elim!: outcome_elims intro: put_channel_within dest: dequeue_peer)

lemma channel_peer_within:
  assumes w: "within S E om" and i: "unat i \<in> S" and p: "om_channel_peer om i g = Ok s"
  shows "unat (sn_id s) \<in> S"
proof -
  obtain c r where c: "om_live_payload om i g = Ok (PChannelEndpoint c)" "ce_peer c = Some r"
    and v: "om_validate om (or_id r) (or_generation r) KindChannelEndpoint = Ok s"
    using p by (auto simp: om_channel_peer_def om_channel_endpoint_def result_simps split: if_split_asm)
  show ?thesis using live_payload_inside [OF w i c(1)] c(2) validate_id [OF w v] by simp
qed

lemma create_payload_within:
  assumes "om_create_payload p om = (r, om')" and "within S E om" and "inside S p"
  shows "within S E om' \<and> (\<forall>s. r = Ok s \<longrightarrow> unat (sn_id s) \<in> S)"
  using assms commit_within [OF _ assms(2,3)] by (cases "om_reserve_entry om") (auto simp: om_create_payload_def)

lemma create_endpoint_within:
  assumes "om_create_channel_endpoint n om = (r, om')" and "within S E om"
  shows "within S E om' \<and> (\<forall>s. r = Ok s \<longrightarrow> unat (sn_id s) \<in> S)"
proof (cases "endpoint_new n")
  case (Ok c)
  then have "ce_peer c = None" by (auto simp: endpoint_new_def split: if_split_asm)
  then show ?thesis using assms(1) Ok by (intro create_payload_within [OF _ assms(2)]) (auto simp: om_create_channel_endpoint_def)
qed (use assms in \<open>auto simp: om_create_channel_endpoint_def\<close>)

lemma set_peer_within:
  "om_set_peer s s' om = (r, om') \<Longrightarrow> within S E om \<Longrightarrow> unat (sn_id s) \<in> S \<Longrightarrow> unat (sn_id s') \<in> S \<Longrightarrow> within S E om'"
  by (auto simp: om_set_peer_def result_simps elim!: outcome_elims intro: within_put_payload)

lemma link_within:
  "om_link_channel_pair s s' om = (r, om') \<Longrightarrow> within S E om \<Longrightarrow> unat (sn_id s) \<in> S \<Longrightarrow> unat (sn_id s') \<in> S \<Longrightarrow> within S E om'"
  by (auto simp: om_link_channel_pair_def elim!: outcome_elims intro: set_peer_within)

lemma snapshot_id:
  assumes w: "within S E om" and s: "om_snapshot om i = Ok s"
  shows "sn_id s = i"
proof -
  obtain e where e: "om_entry om i = Ok e" "sn_id s = oe_id e" using s by (auto simp: om_snapshot_def snapshot_of_def result_simps)
  show ?thesis by (rule om_entryE [OF e(1)]) (use withinD(2) [OF w] e(2) in simp)
qed

lemma create_pair_within:
  assumes c: "om_create_channel_pair n om = (r, om')" and w: "within S E om"
  shows "within S E om' \<and> (\<forall>s s'. r = Ok (s, s') \<longrightarrow> unat (sn_id s) \<in> S \<and> unat (sn_id s') \<in> S)"
proof -
  obtain r1 om1 where m1: "om_create_channel_endpoint n om = (r1, om1)" by fastforce
  note w1 = create_endpoint_within [OF m1 w]
  show ?thesis
  proof (cases r1)
    case (Ok s)
    obtain r2 om2 where m2: "om_create_channel_endpoint n om1 = (r2, om2)" by fastforce
    have s: "unat (sn_id s) \<in> S" and w2: "within S E om2 \<and> (\<forall>s. r2 = Ok s \<longrightarrow> unat (sn_id s) \<in> S)"
      using w1 Ok create_endpoint_within [OF m2, of S E] by simp_all
    show ?thesis
    proof (cases r2)
      case (Ok s')
      obtain r3 om3 where m3: "om_link_channel_pair s s' om2 = (r3, om3)" by fastforce
      have s': "unat (sn_id s') \<in> S" and w3: "within S E om3" using w2 Ok link_within [OF m3] s by simp_all
      show ?thesis
        using c m1 m2 m3 \<open>r1 = Ok s\<close> Ok s s' w3
        by (cases r3) (auto simp: om_create_channel_pair_def elim!: lift_outE sbind_outE discard_allE dest: destroy_within snapshot_id [rotated])
    qed (use c m1 m2 \<open>r1 = Ok s\<close> s w2 in \<open>auto simp: om_create_channel_pair_def elim!: sbind_outE discard_allE dest: destroy_within\<close>)
  qed (use c m1 w1 in \<open>auto simp: om_create_channel_pair_def\<close>)
qed

section \<open>Mappings\<close>

lemma add_mapping_within: "om_add_memory_mapping i g om = (r, om') \<Longrightarrow> within S E om \<Longrightarrow> unat i \<in> S \<Longrightarrow> within S E om'"
  by (auto simp: om_add_memory_mapping_def elim!: outcome_elims intro: within_put_payload)

lemma remove_mapping_within: "om_remove_memory_mapping i g om = (r, om') \<Longrightarrow> within S E om \<Longrightarrow> unat i \<in> S \<Longrightarrow> within S E om'"
  by (auto simp: om_remove_memory_mapping_def elim!: outcome_elims intro: within_put_payload)

lemma targets_space: "targets (PAddressSpace a) = {m. (m, None) \<in> payload_holds (PAddressSpace a)}"
  by auto

lemma put_space_within:
  assumes "within S E om" and "unat i \<in> S" and "om_live_payload om i g = Ok (PAddressSpace a)"
    and h: "payload_holds (PAddressSpace a') \<subseteq> payload_holds (PAddressSpace a) \<union> A" and A: "\<And>m x. (m, x) \<in> A \<Longrightarrow> unat (or_id m) \<in> S"
  shows "within S E (om_put_payload om i (PAddressSpace a'))"
proof (rule within_put_payload [OF assms(1-3)])
  show "inside S (PAddressSpace a')"
    using live_payload_inside [OF assms(1-3)] h A unfolding targets_space by blast
qed

lemma map_into_within:
  assumes m: "om_map_into_address_space space memory m d om = (r, om')" and w: "within S E om"
    and S: "unat (or_id space) \<in> S" "unat (or_id memory) \<in> S"
  shows "within S E om'"
  using m w S
  by (auto simp: om_map_into_address_space_def result_simps elim!: outcome_elims intro: put_space_within [OF _ _ _ map_holds])

lemma map_memory_within:
  assumes m: "om_map_memory_object space memory base size_bytes offset rights om = (r, om')" and w: "within S E om"
    and S: "unat (or_id space) \<in> S" "unat (or_id memory) \<in> S"
  shows "within S E om'"
proof -
  obtain r1 om1 where m1: "om_add_memory_mapping (or_id memory) (or_generation memory) om = (r1, om1)" by fastforce
  have w1: "within S E om1" by (rule add_mapping_within [OF m1 w S(2)])
  let ?d = "\<lparr>vd_base = base, vd_size_bytes = size_bytes, vd_memory_offset = offset, vd_rights = rights\<rparr>"
  show ?thesis
  proof (cases "om_memory_object om (or_id memory) (or_generation memory)")
    case (Ok x)
    obtain r2 om2 where m2: "om_map_into_address_space space memory x ?d om1 = (r2, om2)" by fastforce
    have w2: "within S E om2" by (rule map_into_within [OF m2 w1 S])
    obtain r3 om3 where m3: "om_remove_memory_mapping (or_id memory) (or_generation memory) om2 = (r3, om3)" by fastforce
    have w3: "within S E om3" by (rule remove_mapping_within [OF m3 w2 S(2)])
    show ?thesis
      using m Ok m1 m2 m3 w w1 w2 w3 by (cases r1; cases r2; cases r3) (auto simp: om_map_memory_object_def Let_def)
  qed (use m w in \<open>auto simp: om_map_memory_object_def\<close>)
qed

lemma unmap_within:
  assumes "om_unmap_address_range space base size_bytes om = (r, om')" and w: "within S E om" and S: "unat (or_id space) \<in> S"
  shows "within S E om'"
proof -
  have "within S E (om_put_payload om (or_id space) (PAddressSpace a'))"
    if "om_live_payload om (or_id space) g = Ok (PAddressSpace a)" "prepare_unmap a base size_bytes = Ok rv" "unmap_reservation_commit rv a = Ok a'" for g a a' rv
    by (rule put_space_within [OF w S that(1), of _ "{}"]) (use unmap_holds [OF that(2,3)] in simp_all)
  then show ?thesis
    using assms by (auto simp: om_unmap_address_range_def result_simps elim!: outcome_elims)
qed

lemma take_target:
  assumes "take_pending_tlb_invalidation a = Ok (Some w, a')"
  shows "ptw_deferred_reclaim w \<in> targets (PAddressSpace a)"
proof -
  obtain i x where x: "i < length (pts_work (as_pending a))" "pts_work (as_pending a) ! i = Some x" "ptw_deferred_reclaim w = pti_deferred_reclaim x"
    using assms by (auto simp: take_pending_tlb_invalidation_def pts_take_next_def result_simps split: option.split_asm prod.split_asm)
  have "x \<in> set (live (pts_work (as_pending a)))" using nth_mem [OF x(1)] x(2) by (simp add: in_live)
  then show ?thesis using x(3) by (simp add: as_refs_def)
qed

lemma take_tlb_within:
  assumes "om_take_address_space_tlb_invalidation space (om, fa) = (r, (om', fa'))" and w: "within S E om" and S: "unat (or_id space) \<in> S"
  shows "within S E om'"
proof -
  have put: "within S E (om_put_payload om (or_id space) (PAddressSpace a'))"
    if "om_live_payload om (or_id space) g = Ok (PAddressSpace a)" "take_pending_tlb_invalidation a = Ok (x, a')" for g a a' x
    by (rule put_space_within [OF w S that(1), of _ "{}"]) (use take_holds [OF that(2)] in simp_all)
  have target: "unat (or_id (ptw_deferred_reclaim x)) \<in> S"
    if "om_live_payload om (or_id space) g = Ok (PAddressSpace a)" "take_pending_tlb_invalidation a = Ok (Some x, a')" for g a a' x
    using live_payload_inside [OF w S that(1)] take_target [OF that(2)] by blast
  show ?thesis
  proof (cases "om_live_payload om (or_id space) (or_generation space)")
    case (Ok p)
    show ?thesis
    proof (cases "rbind (as_address_space p) take_pending_tlb_invalidation")
      case out: (Ok y)
      obtain a x a' where p: "p = PAddressSpace a" "take_pending_tlb_invalidation a = Ok (x, a')"
        using out by (cases y) (auto simp: result_simps)
      let ?om1 = "om_put_payload om (or_id space) (PAddressSpace a')"
      have w1: "within S E ?om1" by (rule put [OF Ok [unfolded p(1)] p(2)])
      show ?thesis
      proof (cases x)
        case (Some wk)
        let ?m = "ptw_deferred_reclaim wk"
        have i: "unat (or_id ?m) \<in> S" by (rule target [OF Ok [unfolded p(1)] p(2) [unfolded Some]])
        obtain r2 om2 where m2: "om_remove_memory_mapping (or_id ?m) (or_generation ?m) ?om1 = (r2, om2)" by fastforce
        have w2: "within S E om2" by (rule remove_mapping_within [OF m2 w1 i])
        show ?thesis
          using assms(1) Ok p Some m2 w2 i
          by (cases r2) (auto simp: om_take_address_space_tlb_invalidation_def Let_def elim!: sbind_allE dest: reclaim_within)
      qed (use assms(1) Ok p w1 in \<open>auto simp: om_take_address_space_tlb_invalidation_def\<close>)
    qed (use assms(1) Ok w in \<open>auto simp: om_take_address_space_tlb_invalidation_def result_simps\<close>)
  qed (use assms(1) w in \<open>auto simp: om_take_address_space_tlb_invalidation_def\<close>)
qed

end
