(* ===== verification/Capability_Machine.thy ===== *)
theory Capability_Machine
  imports Ownership
begin

text \<open>
  An abstract machine for the authority in the kernel.  Its state has the handle tables of the processes, the
  channel endpoints with their waiting messages, and the live objects with their generations; budgets, frames,
  mappings and payloads are gone.  A process makes six kinds of steps.  Handles come into being only as the
  handle of a new object, as a duplicate with some of the rights of its source, or out of a message; so two
  invariants hold for every step: processes stay isolated, and authority over an existing object never grows.
\<close>

type_synonym live_objects = "object_id \<rightharpoonup> object_generation"
type_synonym cap_state = "tables \<times> endpoints \<times> live_objects"

datatype cap_action =
    Idle
  | Drop
  | Create
  | CreatePair
  | Duplicate handle_value handle_rights
  | Send handle_value "handle_value list"
  | Receive handle_value

definition linked :: "channel_endpoint_object \<Rightarrow> object_id \<Rightarrow> object_generation \<Rightarrow> channel_endpoint_object" where
  "linked c i g = c\<lparr>ce_peer := Some \<lparr>or_id = i, or_generation = g\<rparr>\<rparr>"

inductive cap_step :: "process_id \<Rightarrow> cap_action \<Rightarrow> cap_state \<Rightarrow> cap_state \<Rightarrow> bool" for i where
  step_idle: "G' \<subseteq>\<^sub>m G \<Longrightarrow> cap_step i Idle (T, E, G) (T, E, G')"
| step_drop: "T i = Some ht \<Longrightarrow> ht_clears ht ht' \<Longrightarrow> G' \<subseteq>\<^sub>m G \<Longrightarrow> cap_step i Drop (T, E, G) (T(i \<mapsto> ht'), E, G')"
| step_create: "T i = Some ht \<Longrightarrow> G j = None
    \<Longrightarrow> E' = E \<or> (\<exists>c. endpoint_bag c = {#} \<and> ce_peer c = None \<and> E' = E(j \<mapsto> (g, c)))
    \<Longrightarrow> ht_fillable ht s d \<Longrightarrow> object_of d = (j, g) \<Longrightarrow> hte_parent d = None \<Longrightarrow> G' \<subseteq>\<^sub>m G(j \<mapsto> g)
    \<Longrightarrow> cap_step i Create (T, E, G) (T(i \<mapsto> ht_put_entry ht s (Some d)), E', G')"
| step_create_pair: "T i = Some ht \<Longrightarrow> G j = None \<Longrightarrow> G l = None \<Longrightarrow> j \<noteq> l \<Longrightarrow> endpoint_bag c = {#}
    \<Longrightarrow> ht_fillable ht s d \<Longrightarrow> object_of d = (j, g) \<Longrightarrow> hte_parent d = None \<Longrightarrow> ht1 = ht_put_entry ht s (Some d)
    \<Longrightarrow> ht_fillable ht1 s' d' \<Longrightarrow> object_of d' = (l, h) \<Longrightarrow> hte_parent d' = None \<Longrightarrow> G' \<subseteq>\<^sub>m G(j \<mapsto> g, l \<mapsto> h)
    \<Longrightarrow> cap_step i CreatePair (T, E, G)
      (T(i \<mapsto> ht_put_entry ht1 s' (Some d')), E(j \<mapsto> (g, linked c l h), l \<mapsto> (h, linked c j g)), G')"
| step_duplicate: "T i = Some ht \<Longrightarrow> ht_valid_entry ht source = Ok e
    \<Longrightarrow> rights_contain (hte_rights e) HR_DUPLICATE \<Longrightarrow> rights_contain (hte_rights e) rights
    \<Longrightarrow> ht_fillable ht s d \<Longrightarrow> object_of d = object_of e \<Longrightarrow> hte_rights d = rights
    \<Longrightarrow> hte_parent d = Some \<lparr>hl_handle = source, hl_object = hte_object e, hl_object_generation = hte_object_generation e\<rparr>
    \<Longrightarrow> G' \<subseteq>\<^sub>m G \<Longrightarrow> cap_step i (Duplicate source rights) (T, E, G) (T(i \<mapsto> ht_put_entry ht s (Some d)), E, G')"
| step_send: "T i = Some ht \<Longrightarrow> ht_valid_entry ht channel = Ok x \<Longrightarrow> rights_contain (hte_rights x) HR_WRITE
    \<Longrightarrow> E (hte_object x) = Some (hte_object_generation x, c0) \<Longrightarrow> ce_peer c0 = Some r
    \<Longrightarrow> E (or_id r) = Some (or_generation r, c) \<Longrightarrow> ce_peer c' = ce_peer c
    \<Longrightarrow> endpoint_bag c' = add_mset m (endpoint_bag c) \<Longrightarrow> list_all2 (sendable ht) hs (live (cm_handles m))
    \<Longrightarrow> ht_clears ht ht' \<Longrightarrow> (\<And>h e. h \<in> set hs \<Longrightarrow> ht_valid_entry ht' h \<noteq> Ok e) \<Longrightarrow> G' \<subseteq>\<^sub>m G
    \<Longrightarrow> cap_step i (Send channel hs) (T, E, G) (T(i \<mapsto> ht'), E(or_id r \<mapsto> (or_generation r, c')), G')"
| step_receive: "T i = Some ht \<Longrightarrow> ht_valid_entry ht channel = Ok x \<Longrightarrow> rights_contain (hte_rights x) HR_READ
    \<Longrightarrow> E (hte_object x) = Some (hte_object_generation x, c) \<Longrightarrow> ce_peer c' = ce_peer c
    \<Longrightarrow> endpoint_bag c = add_mset m (endpoint_bag c')
    \<Longrightarrow> ht' = ht \<or> (\<exists>hs. receive_handles (live (cm_handles m)) [] ht = (Ok hs, ht')) \<Longrightarrow> G' \<subseteq>\<^sub>m G
    \<Longrightarrow> cap_step i (Receive channel) (T, E, G) (T(i \<mapsto> ht'), E(hte_object x \<mapsto> (hte_object_generation x, c')), G')"

inductive_cases cap_stepE [elim]: "cap_step i a (T, E, G) (T', E', G')"

text \<open>Every handle names a live object.\<close>

definition cap_handles :: "tables \<Rightarrow> endpoints \<Rightarrow> handle_table_entry set" where
  "cap_handles T E = {e. (\<exists>i ht. T i = Some ht \<and> ht_has ht e) \<or> (\<exists>j g c. E j = Some (g, c) \<and> waits c e)}"

definition cap_live :: "cap_state \<Rightarrow> bool" where
  "cap_live = (\<lambda>(T, E, G). (\<forall>e \<in> cap_handles T E. G (hte_object e) \<noteq> None) \<and> dom E \<subseteq> dom G)"

lemma cap_handlesI:
  "T i = Some ht \<Longrightarrow> ht_has ht e \<Longrightarrow> e \<in> cap_handles T E"
  "E j = Some (g, c) \<Longrightarrow> waits c e \<Longrightarrow> e \<in> cap_handles T E"
  by (auto simp: cap_handles_def)

lemma cap_live_unused:
  assumes live: "cap_live (T, E, G)" and j: "G j = None"
  shows "unused T E (j, g)" "E j = None"
proof -
  have "hte_object e \<noteq> j" if "e \<in> cap_handles T E" for e using live that j by (auto simp: cap_live_def)
  moreover show E: "E j = None" using live j by (auto simp: cap_live_def)
  ultimately show "unused T E (j, g)"
    unfolding unused_def object_of_def by (fastforce dest: cap_handlesI)
qed

section \<open>The machine keeps processes apart\<close>

lemma sendable_waiting:
  assumes iso: "isolated own T E" and i: "T i = Some ht" and es: "list_all2 (sendable ht) hs es" and e: "e \<in> set es"
  shows "waiting_owned own T i e"
proof -
  note ht = isolatedD(1) [OF iso i]
  obtain h where "ht_valid_entry ht h = Ok e" using es e by (auto simp: list_all2_conv_all_nth in_set_conv_nth sendable_def)
  then have "ht_has ht e" "own (object_of e) = i" using ht_valid_entry_has table_ownedD(1,5) [OF ht] by blast+
  then show ?thesis using table_ownedD(4) [OF ht] i by (auto simp: waiting_owned_def)
qed

lemma isolated_receive_handles:
  assumes "receive_handles es hs ht = (Ok hs', ht')" and "isolated own T E" and "T i = Some ht"
    and "\<forall>e \<in> set es. waiting_owned own T i e"
  shows "isolated own (T(i \<mapsto> ht')) E"
  using assms
proof (induction es arbitrary: hs ht T)
  case Nil
  then show ?case by (simp add: fun_upd_idem)
next
  case (Cons e es)
  obtain h ht1 where h: "ht_install_entry e ht = (Ok h, ht1)" and rest: "receive_handles es (hs @ [h]) ht1 = (Ok hs', ht')"
    using Cons.prems(1) by (auto elim!: step_elims)
  obtain s where s: "ht_fillable ht s (e\<lparr>hte_entry_generation := hs_generation (ht_slots ht ! s)\<rparr>)"
    "ht1 = ht_put_entry ht s (Some (e\<lparr>hte_entry_generation := hs_generation (ht_slots ht ! s)\<rparr>))"
    by (rule ht_install_entry_fills [OF h])
  have e: "own (object_of e) = i" "parent_below ht e"
    using Cons.prems(3,4) by (auto simp: waiting_owned_def parent_below_def)
  have iso1: "isolated own (T(i \<mapsto> ht1)) E"
    unfolding s(2) by (rule isolated_fill [OF Cons.prems(2,3) s(1)]) (use e in simp_all)
  have "waiting_owned own (T(i \<mapsto> ht1)) i d" if "d \<in> set es" for d
    unfolding s(2) by (rule waiting_owned_table [of T i ht]) (use Cons.prems(3,4) that below_fill [OF s(1)] in auto)
  then have w: "\<forall>d \<in> set es. waiting_owned own (T(i \<mapsto> ht1)) i d" by blast
  have "isolated own ((T(i \<mapsto> ht1))(i \<mapsto> ht')) E" by (rule Cons.IH [OF rest iso1 _ w]) simp
  then show ?case by (simp only: fun_upd_upd)
qed

lemma isolated_create:
  assumes iso: "isolated own T E" and i: "T i = Some ht" and un: "unused T E (j, g)" and Ej: "E j = None"
    and E': "E' = E \<or> (\<exists>c. endpoint_bag c = {#} \<and> ce_peer c = None \<and> E' = E(j \<mapsto> (g, c)))"
    and d: "ht_fillable ht s d" "object_of d = (j, g)" "hte_parent d = None"
  shows "isolated (own((j, g) := i)) (T(i \<mapsto> ht_put_entry ht s (Some d))) E'"
proof -
  have "isolated (own((j, g) := i)) T E" by (rule isolated_own [OF iso un])
  then have "isolated (own((j, g) := i)) T E'" using E' by (auto intro: isolated_new_endpoint Ej)
  from isolated_fill [OF this i d(1)] d(2,3) show ?thesis by (simp add: parent_below_def)
qed

lemma isolated_create_pair:
  assumes iso: "isolated own T E" and i: "T i = Some ht" and un: "unused T E (j, g)" "unused T E (l, h)"
    and E: "E j = None" "E l = None" "j \<noteq> l" and c: "endpoint_bag c = {#}"
    and d: "ht_fillable ht s d" "object_of d = (j, g)" "hte_parent d = None" "ht1 = ht_put_entry ht s (Some d)"
    and d': "ht_fillable ht1 s' d'" "object_of d' = (l, h)" "hte_parent d' = None"
  shows "isolated (own((j, g) := i, (l, h) := i)) (T(i \<mapsto> ht_put_entry ht1 s' (Some d'))) (E(j \<mapsto> (g, linked c l h), l \<mapsto> (h, linked c j g)))"
    (is "isolated ?own _ ?E")
proof -
  have "isolated ?own T E" by (intro isolated_own iso un)
  from isolated_pair [OF this E, of g h c] c have "isolated ?own T ?E" by (simp add: linked_def)
  from isolated_fill [OF this i d(1)] d(2-4) have "isolated ?own (T(i \<mapsto> ht1)) ?E" by (simp add: parent_below_def)
  from isolated_fill [OF this _ d'(1)] d'(2,3) show ?thesis by (simp add: parent_below_def)
qed

lemma isolated_send:
  assumes iso: "isolated own T E" and i: "T i = Some ht" and x: "ht_valid_entry ht channel = Ok x"
    and c0: "E (hte_object x) = Some (hte_object_generation x, c0)" "ce_peer c0 = Some r"
    and c: "E (or_id r) = Some (or_generation r, c)" "ce_peer c' = ce_peer c" "endpoint_bag c' = add_mset m (endpoint_bag c)"
    and hs: "list_all2 (sendable ht) hs (live (cm_handles m))" and ht': "ht_clears ht ht'"
  shows "isolated own (T(i \<mapsto> ht')) (E(or_id r \<mapsto> (or_generation r, c')))"
proof -
  have "own (hte_object x, hte_object_generation x) = i"
    using table_ownedD(5) [OF isolatedD(1) [OF iso i] x] by (simp add: object_of_def)
  then have "peer_owned own E i r" using isolatedD(2) [OF iso c0(1)] c0(2) by (simp add: endpoint_owned_def)
  then have own: "own (or_id r, or_generation r) = i" by (auto simp: peer_owned_def)
  have "isolated own T (E(or_id r \<mapsto> (or_generation r, c')))"
    by (intro isolated_enqueue [OF iso c(1,3,2)]) (use sendable_waiting [OF iso i hs] own in simp)
  from isolated_clears [OF this i ht'] show ?thesis .
qed

lemma isolated_receive:
  assumes iso: "isolated own T E" and i: "T i = Some ht" and x: "ht_valid_entry ht channel = Ok x"
    and c: "E (hte_object x) = Some (hte_object_generation x, c)" "ce_peer c' = ce_peer c" "endpoint_bag c = add_mset m (endpoint_bag c')"
    and ht': "ht' = ht \<or> (\<exists>hs. receive_handles (live (cm_handles m)) [] ht = (Ok hs, ht'))"
  shows "isolated own (T(i \<mapsto> ht')) (E(hte_object x \<mapsto> (hte_object_generation x, c')))"
proof -
  have own: "own (hte_object x, hte_object_generation x) = i"
    using table_ownedD(5) [OF isolatedD(1) [OF iso i] x] by (simp add: object_of_def)
  note deq = isolated_dequeue [OF iso c(1,3,2)]
  from ht' show ?thesis
  proof
    assume "ht' = ht"
    then show ?thesis using deq(1) i by (simp add: fun_upd_idem)
  next
    assume "\<exists>hs. receive_handles (live (cm_handles m)) [] ht = (Ok hs, ht')"
    then obtain hs where "receive_handles (live (cm_handles m)) [] ht = (Ok hs, ht')" ..
    from isolated_receive_handles [OF this deq(1) i] deq(2) own show ?thesis by simp
  qed
qed

text \<open>A step gives owners to the objects it creates and changes no others.\<close>

lemma cap_step_owners:
  assumes step: "cap_step i a (T, E, G) (T', E', G')" and live: "cap_live (T, E, G)" and iso: "isolated own T E"
  shows "\<exists>own'. isolated own' T' E' \<and> (\<forall>j g. G j \<noteq> None \<longrightarrow> own' (j, g) = own (j, g))"
proof -
  have same: ?thesis if "isolated own T' E'" using that by blast
  show ?thesis
    using step
  proof cases
    case step_idle
    then show ?thesis using iso by blast
  next
    case (step_drop ht ht')
    then show ?thesis using isolated_clears [OF iso] by blast
  next
    case (step_create ht j g s d)
    have "isolated (own((j, g) := i)) T' E'"
      using isolated_create [OF iso step_create(3) cap_live_unused [OF live step_create(4)] step_create(5-8)] step_create(2) by simp
    then show ?thesis by (rule_tac x = "own((j, g) := i)" in exI) (use step_create(4) in auto)
  next
    case (step_create_pair ht j l c s d g ht1 s' d' h)
    note j = cap_live_unused [OF live step_create_pair(5)] and l = cap_live_unused [OF live step_create_pair(6)]
    have "isolated (own((j, g) := i, (l, h) := i)) T' E'"
      using isolated_create_pair [OF iso step_create_pair(4) j(1) l(1) j(2) l(2) step_create_pair(7-15)] step_create_pair(2,3) by simp
    then show ?thesis by (rule_tac x = "own((j, g) := i, (l, h) := i)" in exI) (use step_create_pair(5,6) in auto)
  next
    case (step_duplicate ht source e rights s d)
    have "own (object_of d) = i"
      using table_ownedD(5) [OF isolatedD(1) [OF iso step_duplicate(4)] step_duplicate(5)] step_duplicate(9) by simp
    moreover have "parent_below ht d"
      using ht_valid_entry_below [OF table_ownedD(1) [OF isolatedD(1) [OF iso step_duplicate(4)]] step_duplicate(5)] step_duplicate(11)
      by (simp add: parent_below_def)
    ultimately show ?thesis
      by (intro same) (use isolated_fill [OF iso step_duplicate(4,8)] step_duplicate(2,3) in blast)
  next
    case (step_send ht channel x c0 r c c' m hs ht')
    then show ?thesis by (intro same) (use isolated_send [OF iso] in blast)
  next
    case (step_receive ht channel x c c' m ht')
    then show ?thesis by (intro same) (use isolated_receive [OF iso] in blast)
  qed
qed

lemma cap_step_isolated:
  "cap_step i a (T, E, G) (T', E', G') \<Longrightarrow> cap_live (T, E, G) \<Longrightarrow> isolated own T E \<Longrightarrow> \<exists>own'. isolated own' T' E'"
  using cap_step_owners by blast

section \<open>Authority never grows\<close>

definition attenuates :: "handle_table_entry \<Rightarrow> handle_table_entry \<Rightarrow> bool" where
  "attenuates e d \<longleftrightarrow> object_of d = object_of e \<and> rights_contain (hte_rights e) (hte_rights d)"

lemma attenuates_refl [simp]: "attenuates e e"
  by (simp add: attenuates_def)

lemma attenuates_trans: "attenuates e d \<Longrightarrow> attenuates d c \<Longrightarrow> attenuates e c"
  by (auto simp: attenuates_def intro: rights_contain_trans)

lemma attenuates_moved [simp]: "attenuates e (e\<lparr>hte_entry_generation := g\<rparr>)"
  by (simp add: attenuates_def)

lemma ht_clears_has: "ht_clears ht ht' \<Longrightarrow> ht_has ht' d \<Longrightarrow> ht_has ht d"
  by (induction rule: ht_clears.induct) (auto simp: ht_occupied_def dest: ht_has_clear)

lemma fillable_has: "ht_fillable ht s e \<Longrightarrow> ht_has (ht_put_entry ht s (Some e)) d \<Longrightarrow> d = e \<or> ht_has ht d"
  by (rule ht_has_put) (simp_all add: ht_fillable_def)

lemma receive_handles_has:
  assumes "receive_handles es hs ht = (Ok hs', ht')" and "ht_has ht' d"
  shows "ht_has ht d \<or> (\<exists>e \<in> set es. attenuates e d)"
  using assms
proof (induction es arbitrary: hs ht)
  case (Cons e es)
  obtain h ht1 where h: "ht_install_entry e ht = (Ok h, ht1)" and rest: "receive_handles es (hs @ [h]) ht1 = (Ok hs', ht')"
    using Cons.prems(1) by (auto elim!: step_elims)
  obtain s where s: "ht_fillable ht s (e\<lparr>hte_entry_generation := hs_generation (ht_slots ht ! s)\<rparr>)"
    "ht1 = ht_put_entry ht s (Some (e\<lparr>hte_entry_generation := hs_generation (ht_slots ht ! s)\<rparr>))"
    by (rule ht_install_entry_fills [OF h])
  from Cons.IH [OF rest Cons.prems(2)] show ?case using fillable_has [OF s(1)] s(2) attenuates_moved by fastforce
qed simp

text \<open>The handles after a step, when one table and one endpoint have changed.\<close>

lemma cap_handles_table_upd:
  assumes "d \<in> cap_handles (T(i \<mapsto> ht')) E"
  shows "ht_has ht' d \<or> d \<in> cap_handles T E"
proof -
  from assms consider (table) j ht where "(T(i \<mapsto> ht')) j = Some ht" "ht_has ht d" | (message) j g c where "E j = Some (g, c)" "waits c d"
    unfolding cap_handles_def by blast
  then show ?thesis
  proof cases
    case table
    then show ?thesis using cap_handlesI(1) [of T j ht d E] by (cases "j = i") simp_all
  qed (blast intro: cap_handlesI(2))
qed

lemma cap_handles_endpoint_upd:
  assumes "d \<in> cap_handles T (E(j \<mapsto> (g, c)))"
  shows "waits c d \<or> d \<in> cap_handles T E"
proof -
  from assms consider (table) i ht where "T i = Some ht" "ht_has ht d" | (message) l g' c' where "(E(j \<mapsto> (g, c))) l = Some (g', c')" "waits c' d"
    unfolding cap_handles_def by blast
  then show ?thesis
  proof cases
    case message
    then show ?thesis using cap_handlesI(2) [of E l g' c' d T] by (cases "l = j") simp_all
  qed (blast intro: cap_handlesI(1))
qed

lemmas cap_handles_table = cap_handles_table_upd [THEN disjE]
  and cap_handles_endpoint = cap_handles_endpoint_upd [THEN disjE]

lemma no_waits: "endpoint_bag c = {#} \<Longrightarrow> \<not> waits c d" "waits (linked c j g) d = waits c d"
  by (simp_all add: waits_def linked_def endpoint_bag_def)

lemma sendable_has: "ht_wf ht \<Longrightarrow> list_all2 (sendable ht) hs es \<Longrightarrow> e \<in> set es \<Longrightarrow> ht_has ht e"
  by (auto simp: list_all2_conv_all_nth in_set_conv_nth sendable_def dest!: spec intro: ht_valid_entry_has)

lemma cap_step_authority:
  assumes step: "cap_step i a (T, E, G) (T', E', G')" and wf: "\<And>ht. T i = Some ht \<Longrightarrow> ht_wf ht"
    and d: "d \<in> cap_handles T' E'"
  shows "(\<exists>e \<in> cap_handles T E. attenuates e d) \<or> G (hte_object d) = None"
proof -
  have old: ?thesis if "d \<in> cap_handles T E" using that attenuates_refl [of d] by metis
  have has: ?thesis if "T i = Some ht" "ht_has ht d" for ht by (rule old [OF cap_handlesI(1) [of T i ht d E, OF that]])
  from step show ?thesis
  proof cases
    case step_idle
    then show ?thesis using d old by simp
  next
    case (step_drop ht ht')
    show ?thesis
      using d [unfolded step_drop(2,3)] by (rule cap_handles_table)
        (fact has [OF step_drop(4) ht_clears_has [OF step_drop(5)]], fact old)
  next
    case (step_create ht j g s e)
    have "d \<in> cap_handles (T(i \<mapsto> ht_put_entry ht s (Some e))) E"
      using step_create(5) d [unfolded step_create(2)] no_waits(1) by (auto elim!: cap_handles_endpoint)
    then consider "ht_has (ht_put_entry ht s (Some e)) d" | "d \<in> cap_handles T E" by (rule cap_handles_table)
    then show ?thesis
    proof cases
      case 1
      from fillable_has [OF step_create(6) 1] show ?thesis
        using has [OF step_create(3)] step_create(4,7) by (auto simp: object_of_def)
    qed (rule old)
  next
    case (step_create_pair ht j l c s e g ht1 s' e' h)
    let ?ht = "ht_put_entry ht1 s' (Some e')"
    have "d \<in> cap_handles (T(i \<mapsto> ?ht)) E"
      using d [unfolded step_create_pair(2,3)] no_waits step_create_pair(8) by (auto elim!: cap_handles_endpoint)
    then consider "ht_has ?ht d" | "d \<in> cap_handles T E" by (rule cap_handles_table)
    then show ?thesis
    proof cases
      case 1
      from fillable_has [OF step_create_pair(13) 1] have "d = e' \<or> d = e \<or> ht_has ht d"
        using fillable_has [OF step_create_pair(9)] step_create_pair(12) by auto
      then show ?thesis
        using has [OF step_create_pair(4)] step_create_pair(5,6,10,14) by (auto simp: object_of_def)
    qed (rule old)
  next
    case (step_duplicate ht source e rights s f)
    from d [unfolded step_duplicate(2,3)] consider "ht_has (ht_put_entry ht s (Some f)) d" | "d \<in> cap_handles T E"
      by (rule cap_handles_table)
    then show ?thesis
    proof cases
      case 1
      have "e \<in> cap_handles T E"
        by (rule cap_handlesI(1) [of T i ht e E, OF step_duplicate(4) ht_valid_entry_has [OF wf [OF step_duplicate(4)] step_duplicate(5)]])
      moreover have "attenuates e f" using step_duplicate(7,9,10) by (simp add: attenuates_def)
      ultimately show ?thesis using fillable_has [OF step_duplicate(8) 1] has [OF step_duplicate(4)] by metis
    qed (rule old)
  next
    case (step_send ht channel x c0 r c c' m hs ht')
    from d [unfolded step_send(2,3)] consider "waits c' d" | "d \<in> cap_handles (T(i \<mapsto> ht')) E"
      by (rule cap_handles_endpoint)
    then show ?thesis
    proof cases
      case 1
      from waits_enqueue [OF step_send(11) 1] show ?thesis
        using sendable_has [OF wf [OF step_send(4)] step_send(12)] has [OF step_send(4)] old cap_handlesI(2) [of E, OF step_send(9)]
        by metis
    next
      case 2
      then show ?thesis
        by (rule cap_handles_table) (fact has [OF step_send(4) ht_clears_has [OF step_send(13)]], fact old)
    qed
  next
    case (step_receive ht channel x c c' m ht')
    have waits: "e \<in> cap_handles T E" if "waits c e" for e using cap_handlesI(2) [of E, OF step_receive(7) that] .
    from d [unfolded step_receive(2,3)] consider "waits c' d" | "d \<in> cap_handles (T(i \<mapsto> ht')) E"
      by (rule cap_handles_endpoint)
    then show ?thesis
    proof cases
      case 1
      then show ?thesis using waits_dequeue [OF step_receive(9)] waits old by metis
    next
      case 2
      then show ?thesis
      proof (rule cap_handles_table)
        assume "ht_has ht' d"
        then have "ht_has ht d \<or> (\<exists>e \<in> set (live (cm_handles m)). attenuates e d)"
          using step_receive(10) receive_handles_has by metis
        then show ?thesis using has [OF step_receive(4)] waits waits_first [OF step_receive(9)] by metis
      qed (rule old)
    qed
  qed
qed

end
