(* ===== verification/Process_Budget.thy ===== *)
theory Process_Budget
  imports Handle_Names
begin

text \<open>
  What a successful system call costs its process: one unit of the object budget for each object it
  creates, and nothing comes back, not even when an object is destroyed.
\<close>

fun call_cost :: "syscall \<Rightarrow> nat" where
  "call_cost (CreateObject _ _) = 1"
| "call_cost (CreateMemoryObject _ _) = 1"
| "call_cost (CreateAddressSpace _) = 1"
| "call_cost (CreateChannelPair _ _) = 2"
| "call_cost _ = 0"

abbreviation remaining :: "process \<Rightarrow> nat" where
  "remaining p \<equiv> rb_remaining_objects (pr_budget p)"

lemma pr_reserve_object_cost: "pr_reserve_object p = (Ok r, p') \<Longrightarrow> remaining p = Suc (remaining p')"
  by (auto simp: pr_reserve_object_def reserve_object_def split: if_splits)

lemma create_preflighted_cost:
  assumes "create_preflighted_object_handle rights payload (p, om) = (Ok h, (p', om'))"
  shows "remaining p = Suc (remaining p')"
  using assms
  by (auto simp: create_preflighted_object_handle_def elim!: step_elims dest!: pr_reserve_object_cost)

lemma create_object_cost:
  assumes "create_object_handle kind rights (p, om) = (Ok h, (p', om'))"
  shows "remaining p = Suc (remaining p')"
  using assms by (cases "payload_for_kind kind") (auto simp: create_object_handle_def intro: create_preflighted_cost)

lemma create_memory_object_cost:
  assumes "create_memory_object_handle size_bytes rights (p, om, fa) = (Ok h, (p', om', fa'))"
  shows "remaining p = Suc (remaining p')"
  using assms
  by (auto simp: create_memory_object_handle_def Let_def elim!: step_elims dest!: pr_reserve_object_cost)

lemma create_channel_pair_cost:
  assumes "create_channel_pair_handles max_messages rights (p, om, fa) = (Ok h, (p', om', fa'))"
  shows "remaining p = Suc (Suc (remaining p'))"
  using assms
  by (auto simp: create_channel_pair_handles_def Let_def split: if_split_asm elim!: step_elims dest!: pr_reserve_object_cost)

definition put_cost :: "nat \<Rightarrow> process_id \<Rightarrow> process \<Rightarrow> kernel \<Rightarrow> kernel \<Rightarrow> bool" where
  "put_cost c i p k k' \<longleftrightarrow> (\<exists>s. k' = k_put i k s \<and> remaining p = remaining (fst s) + c)"

lemma put_costI: "remaining p = remaining (fst s) + c \<Longrightarrow> put_cost c i p k (k_put i k s)"
  unfolding put_cost_def by blast

lemma dispatch_cost:
  assumes "dispatch heap sc i k (p, om, fa) = Some (Ok v, k')"
  shows "put_cost (call_cost sc) i p k k'"
proof -
  note d = assms
  note defs = with_objects_def with_handles_def
  note elims = outcome_OkE step_elims
  show ?thesis
  proof (cases sc)
    case (CreateObject kind rights)
    then show ?thesis using d by (auto intro!: put_costI simp: defs elim!: elims dest!: create_object_cost)
  next
    case (CreateMemoryObject size_bytes rights)
    then show ?thesis using d by (auto intro!: put_costI elim!: elims dest!: create_memory_object_cost)
  next
    case (CreateAddressSpace rights)
    then show ?thesis
      using d by (auto intro!: put_costI simp: defs create_address_space_handle_eq elim!: elims dest!: create_object_cost)
  next
    case (MapMemoryObject a m base size_bytes offset rights)
    then show ?thesis using d by (auto intro!: put_costI simp: defs map_memory_object_def elim!: elims)
  next
    case (UnmapAddressRange a base size_bytes)
    then show ?thesis using d by (auto intro!: put_costI simp: defs unmap_address_range_def elim!: elims)
  next
    case (FlushAddressSpaceTlb a)
    then show ?thesis using d by (auto intro!: put_costI simp: defs flush_address_space_tlb_def elim!: elims)
  next
    case (CreateChannelPair max_messages rights)
    then show ?thesis using d by (auto intro!: put_costI elim!: elims dest!: create_channel_pair_cost)
  next
    case (ChannelSend channel bytes handles)
    then show ?thesis using d by (auto intro!: put_costI simp: defs send_channel_message_def elim!: elims)
  next
    case (ChannelRecv channel)
    then show ?thesis
      using d by (auto intro!: put_costI simp: defs recv_channel_message_def split: if_split_asm elim!: elims)
  next
    case (DuplicateHandle source rights)
    then show ?thesis using d by (auto intro!: put_costI simp: defs elim!: elims)
  next
    case (CloseHandle h)
    then show ?thesis using d by (auto intro!: put_costI simp: defs elim!: elims)
  next
    case (RevokeDescendants root)
    then show ?thesis using d by (auto intro!: put_costI simp: defs elim!: elims)
  qed
qed

end
