(* ===== verification/Kernel_Reach.thy ===== *)
theory Kernel_Reach
  imports Handle_Lineage Channel_Transfer Process_Budget
begin

text \<open>
  What every reachable kernel satisfies, read off the invariant: the parts of a kernel that a run gives,
  the process of a call, the leases of the frames.
\<close>

lemma kernel_run_objects:
  assumes "kernel_run B H n k" and "B \<le> 2 ^ 32"
  obtains lost L where "om_ok (om_capacity (k_objects k)) n (lost + table_refs (ptb_processes (k_processes k))) {#} L (k_objects k)"
    "fa_ok n L (k_frames k)" "(\<forall>heap. H heap \<longrightarrow> recv_heap heap) \<longrightarrow> lost = {#}"
  using kernel_run_ok [OF assms] by (auto simp: kernel_ok_def)

lemma ptb_get_slot:
  assumes "ptb_get (k_processes k) i = Ok p"
  shows "unat i < ptb_capacity (k_processes k)" "ptb_processes (k_processes k) ! unat i = Some p"
  using assms by (auto simp: ptb_get_def ptb_index_def as_usize_def vec_get_def result_simps split: if_splits)

lemma kernel_run_process:
  assumes run: "kernel_run B H n k" and B: "B \<le> 2 ^ 32" and p: "ptb_get (k_processes k) i = Ok p"
  obtains C X where "proc_ok C (om_capacity (k_objects k)) n X (p, k_objects k, k_frames k)" "C \<le> B" "ht_wf (pr_handles p)"
proof -
  obtain lost where ok: "kernel_ok B n lost k" using kernel_run_ok [OF run B] by blast
  note proc = kernel_ok_process [OF ok ptb_get_slot [OF p]]
  obtain L where "po_ok (ht_capacity (pr_handles p)) (om_capacity (k_objects k)) n (lost + other_refs k i) L (p, k_objects k)"
    by (rule proc_okE [OF proc(1)])
  then have "ht_wf (pr_handles p)" by (auto simp: po_ok_def elim!: ho_okE dest: ht_okD(1))
  with proc show ?thesis by (rule that)
qed

lemma execute_at:
  assumes "ptb_get (k_processes k) (sc_process cx) = Ok p"
  shows "execute heap cx sc k = dispatch heap sc (sc_process cx) k (p, k_objects k, k_frames k)"
  using assms by (simp add: execute_def)

lemma k_put_simps [simp]:
  "k_objects (k_put i k (p, om, fa)) = om" "k_frames (k_put i k (p, om, fa)) = fa"
  "k_processes (k_put i k (p, om, fa)) = ptb_put (k_processes k) i p"
  by (simp_all add: k_put_def)

lemma k_put_same:
  assumes "ptb_get (k_processes k) i = Ok p"
  shows "k_put i k (p, k_objects k, k_frames k) = k"
proof -
  have "(ptb_processes (k_processes k))[unat i := Some p] = ptb_processes (k_processes k)"
    using ptb_get_slot(2) [OF assms] list_update_id [of "ptb_processes (k_processes k)" "unat i"] by simp
  then show ?thesis by (simp add: k_put_def ptb_put_def as_usize_def)
qed

lemma memory_lease_iff:
  assumes om: "om_ok C n T M L om"
  shows "(owner, r) \<in> L \<longleftrightarrow> (\<exists>i e m. om_at om i = Some e \<and> oe_payload e = PMemoryObject m
    \<and> owner = OwnerMemoryObject i (oe_generation e) \<and> r = mo_frame_range m)" (is "_ \<longleftrightarrow> ?R")
proof
  assume "(owner, r) \<in> L"
  then obtain i e where e: "om_at om i = Some e" "owner = OwnerMemoryObject (oe_id e) (oe_generation e)"
    "payload_lease (oe_payload e) = Some r"
    using om_okD(7) [OF om] by (auto simp: om_leases_def entry_leases_def)
  then show ?R using om_ok_at(1) [OF om e(1)] by (cases "oe_payload e") auto
next
  assume ?R
  then show "(owner, r) \<in> L" using om_lease_unique [OF om] by auto
qed

lemma as_refs_counted:
  assumes "om_at om i = Some e" and "oe_payload e = PAddressSpace a" and "om_shape om"
  shows "as_refs a \<subseteq># om_maps om"
proof -
  have "Some e \<in> set (om_entries om)"
    using assms(1,3) by (auto simp: om_at_def om_shape_def in_set_conv_nth split: if_splits)
  from slot_sum_member [OF this, of "\<lambda>e. payload_maps (oe_payload e)"] show ?thesis
    using assms(2) by (simp add: om_maps_def om_sum_def)
qed

lemma kernel_run_po:
  assumes "kernel_run B H n k" and "B \<le> 2 ^ 32" and "ptb_get (k_processes k) i = Ok p"
  obtains C D X L where "po_ok C D n X L (p, k_objects k)"
  using assms by (meson kernel_run_process proc_okE)

lemma kernel_run_handles:
  assumes "kernel_run B H n k" and "B \<le> 2 ^ 32" and "ptb_get (k_processes k) i = Ok p"
  obtains C D X L where "ho_ok C D n X L (pr_handles p, k_objects k)"
  by (rule kernel_run_po [OF assms]) (auto simp: po_ok_def)

lemma execute_revoke_OkE:
  assumes ex: "execute heap cx (RevokeDescendants root) k = Some (Ok r, k')" and p: "ptb_get (k_processes k) (sc_process cx) = Ok p"
  obtains c ht' om' fa' where "ht_revoke_descendants heap root (pr_handles p, k_objects k, k_frames k) = Some (Ok c, (ht', om', fa'))"
    "r = OutcomeRevoked c" "ptb_get (k_processes k') (sc_process cx) = Ok (p\<lparr>pr_handles := ht'\<rparr>)"
proof -
  obtain x where x: "ht_revoke_descendants heap root (pr_handles p, k_objects k, k_frames k) = Some x"
    "outcome OutcomeRevoked (sc_process cx) k (with_handles p x) = (Ok r, k')"
    using ex by (auto simp: execute_at [OF p] simp del: split_paired_Ex)
  obtain y ht' om' fa' where xe: "x = (y, (ht', om', fa'))" by (metis prod_cases3)
  obtain c where c: "y = Ok c" "r = OutcomeRevoked c" "k' = k_put (sc_process cx) k (p\<lparr>pr_handles := ht'\<rparr>, om', fa')"
    using x(2) xe by (auto simp: with_handles_def elim!: outcome_OkE apsndE)
  show ?thesis by (rule that [of c ht' om' fa']) (use x(1) xe c ptb_get_put [OF p] in simp_all)
qed

lemma ht_revoke_root:
  assumes "ht_revoke_descendants heap root (ht, om, fa) = Some (Ok c, s')"
  obtains e where "ht_valid_entry ht root = Ok e"
  using assms by (cases "ht_valid_entry ht root") (auto simp: ht_revoke_descendants_def)

end
