(* ===== verification/Capability_Refinement.thy ===== *)
theory Capability_Refinement
  imports Capability_Machine Kernel_Reach
begin

text \<open>
  Every system call is a step of the capability machine: the abstraction of a kernel is the handle tables of its
  processes, its endpoints, and its live objects.  A call that succeeds makes the step of its kind; one that
  fails makes none, except a revocation that stops half-way and a receive that has lost its message.
\<close>

section \<open>The endpoints and the live objects of an object manager\<close>

fun payload_endpoint :: "object_payload \<Rightarrow> channel_endpoint_object option" where
  "payload_endpoint (PChannelEndpoint c) = Some c"
| "payload_endpoint _ = None"

definition entry_endpoint :: "object_entry \<Rightarrow> (object_generation \<times> channel_endpoint_object) option" where
  "entry_endpoint e = map_option (Pair (oe_generation e)) (payload_endpoint (oe_payload e))"

definition endpoint_at :: "object_manager \<Rightarrow> endpoints" where
  "endpoint_at om j = Option.bind (om_at om j) entry_endpoint"

lemma payload_endpoint_kind: "payload_endpoint p = None \<longleftrightarrow> payload_kind p \<noteq> KindChannelEndpoint"
  by (cases p) simp_all

lemma payload_endpoint_Some: "payload_endpoint p = Some c \<longleftrightarrow> p = PChannelEndpoint c"
  by (cases p) simp_all

lemma endpoint_at_iff: "endpoint_at om j = Some (g, c) \<longleftrightarrow> (\<exists>e. om_at om j = Some e \<and> oe_generation e = g \<and> oe_payload e = PChannelEndpoint c)"
  by (cases "om_at om j") (auto simp: endpoint_at_def entry_endpoint_def payload_endpoint_Some)

lemma endpoint_at_upd: "om_at om' = (om_at om)(i := x) \<Longrightarrow> endpoint_at om' = (endpoint_at om)(i := Option.bind x entry_endpoint)"
  by (simp add: fun_eq_iff endpoint_at_def)

definition live_at :: "object_manager \<Rightarrow> live_objects" where
  "live_at om j = map_option oe_generation (om_at om j)"

lemma live_at_upd: "om_at om' = (om_at om)(i := x) \<Longrightarrow> live_at om' = (live_at om)(i := map_option oe_generation x)"
  by (simp add: fun_eq_iff live_at_def)

lemma live_at_None [simp]: "live_at om j = None \<longleftrightarrow> om_at om j = None"
  by (simp add: live_at_def)

text \<open>A quiet operation changes no endpoint and makes no object.\<close>

definition quiet :: "object_manager \<Rightarrow> object_manager \<Rightarrow> bool" where
  "quiet om om' \<longleftrightarrow> (om_shape om \<longrightarrow> om_shape om' \<and> endpoint_at om' = endpoint_at om \<and> live_at om' \<subseteq>\<^sub>m live_at om)"

lemma quietI: "(om_shape om \<Longrightarrow> quiet om om') \<Longrightarrow> quiet om om'"
  by (simp add: quiet_def)

lemma quiet_refl [simp]: "quiet om om"
  by (simp add: quiet_def)

lemma quiet_trans [trans]: "quiet om om' \<Longrightarrow> quiet om' om'' \<Longrightarrow> quiet om om''"
  by (auto simp: quiet_def intro: map_le_trans)

lemma quiet_put:
  assumes e: "om_at om i = Some e" and same: "oe_generation e' = oe_generation e" "entry_endpoint e' = entry_endpoint e"
  shows "quiet om (om_put om i e')"
proof (rule quietI)
  assume "om_shape om"
  note at = om_at_put [OF this om_at_bound [OF e], of e']
  have "endpoint_at (om_put om i e') = endpoint_at om"
    using endpoint_at_upd [OF at] e same(2) by (simp add: fun_eq_iff endpoint_at_def)
  moreover have "live_at (om_put om i e') = live_at om"
    using live_at_upd [OF at] e same(1) by (simp add: fun_eq_iff live_at_def)
  ultimately show "quiet om (om_put om i e')" by (simp add: quiet_def)
qed

lemma om_entry_OkD: "om_shape om \<Longrightarrow> om_entry om i = Ok e \<Longrightarrow> om_at om i = Some e"
  by (auto simp: om_entry_eq split: option.splits)

lemma om_live_payload_OkD:
  assumes "om_shape om" and "om_live_payload om i g = Ok p"
  obtains e where "om_at om i = Some e" "oe_generation e = g" "oe_payload e = p"
  using assms by (auto simp: om_live_payload_def om_live_entry_def om_entry_eq result_simps split: option.splits if_splits)

lemma quiet_put_payload:
  assumes "om_live_payload om i g = Ok p" and "payload_kind p \<noteq> KindChannelEndpoint" and "payload_kind p' \<noteq> KindChannelEndpoint"
  shows "quiet om (om_put_payload om i p')"
proof (rule quietI)
  assume "om_shape om"
  then obtain e where e: "om_at om i = Some e" "oe_payload e = p" using om_live_payload_OkD [OF _ assms(1)] by metis
  show "quiet om (om_put_payload om i p')"
    unfolding om_put_payload_eq [OF e(1)]
    by (rule quiet_put [OF e(1)]) (use assms(2,3) e(2) in \<open>simp_all add: entry_endpoint_def payload_endpoint_kind [THEN iffD2]\<close>)
qed

lemma quiet_add_handle:
  assumes "om_add_handle i g om = (r, om')"
  shows "quiet om om'"
proof (rule quietI)
  assume shape: "om_shape om"
  show "quiet om om'"
    using assms om_entry_OkD [OF shape, of i]
    by (cases "om_entry om i") (auto simp: om_add_handle_def entry_endpoint_def split: if_splits intro!: quiet_put)
qed

lemma quiet_remove_handle:
  assumes "om_remove_handle i g om = (r, om')"
  shows "quiet om om'"
proof (rule quietI)
  assume shape: "om_shape om"
  show "quiet om om'"
    using assms om_entry_OkD [OF shape, of i]
    by (cases "om_entry om i") (auto simp: om_remove_handle_def entry_endpoint_def split: if_splits intro!: quiet_put)
qed

lemma quiet_add_mapping: "om_add_memory_mapping i g om = (Ok u, om') \<Longrightarrow> quiet om om'"
  by (auto simp: om_add_memory_mapping_def elim!: step_elims as_memory.elims intro!: quiet_put_payload)

lemma quiet_remove_mapping: "om_remove_memory_mapping i g om = (Ok u, om') \<Longrightarrow> quiet om om'"
  by (auto simp: om_remove_memory_mapping_def elim!: step_elims as_memory.elims intro!: quiet_put_payload)

lemma quiet_map: "om_map_memory_object a m base size_bytes offset rights om = (Ok v, om') \<Longrightarrow> quiet om om'"
  by (auto simp: om_map_memory_object_def om_map_into_address_space_def Let_def elim!: step_elims as_address_space.elims
      dest!: quiet_add_mapping elim!: quiet_trans intro!: quiet_put_payload)

lemma quiet_unmap: "om_unmap_address_range a base size_bytes om = (Ok v, om') \<Longrightarrow> quiet om om'"
  by (auto simp: om_unmap_address_range_def elim!: step_elims as_address_space.elims intro!: quiet_put_payload)

lemma quiet_destroy_memory:
  assumes "om_destroy_memory_object i g om = (Ok u, om')"
  shows "quiet om om'"
proof (rule quietI)
  assume shape: "om_shape om"
  obtain e m g' where k: "unat i < om_capacity om" "om_entries om ! unat i = Some e" "oe_payload e = PMemoryObject m"
    and om': "om' = om\<lparr>om_entries := (om_entries om)[unat i := None], om_generations := (om_generations om)[unat i := g']\<rparr>"
    using assms by (auto simp: om_destroy_memory_object_def om_remove_slot_def om_index_eq vec_get_def vec_set_def result_simps
        split: option.split_asm if_split_asm elim!: step_elims as_memory.elims)
  have "om_at om' = (om_at om)(i := None)"
    using om' k(1) shape by (auto simp: fun_eq_iff om_at_def om_shape_def nth_list_update word_unat_eq_iff)
  from endpoint_at_upd [OF this] have "endpoint_at om' = (endpoint_at om)(i := None)" by simp
  moreover have "endpoint_at om i = None" using k by (simp add: endpoint_at_def om_at_def entry_endpoint_def)
  moreover have "live_at om' \<subseteq>\<^sub>m live_at om" using live_at_upd [OF \<open>om_at om' = (om_at om)(i := None)\<close>] by (auto simp: map_le_def)
  moreover have "om_shape om'" using shape om' by (simp add: om_shape_def)
  ultimately show "quiet om om'" by (auto simp: quiet_def)
qed

lemma quiet_reclaim:
  assumes "om_reclaim_memory_object_if_unreferenced i g (om, fa) = (r, (om', fa'))" and "r \<noteq> Panic"
  shows "quiet om om'"
  using assms
  by (cases "om_entry om i") (auto simp: om_reclaim_memory_object_if_unreferenced_def assert_that_def
      split: result.split_asm object_payload.split_asm if_split_asm prod.split_asm dest: quiet_destroy_memory)

lemma quiet_take_tlb:
  assumes "om_take_address_space_tlb_invalidation a (om, fa) = (Ok v, (om', fa'))"
  shows "quiet om om'"
proof -
  obtain p b om1 where p: "om_live_payload om (or_id a) (or_generation a) = Ok (PAddressSpace p)"
    and rest: "quiet (om_put_payload om (or_id a) (PAddressSpace b)) om1" "quiet om1 om'"
    using assms
    by (auto simp: om_take_address_space_tlb_invalidation_def Let_def elim!: step_elims as_address_space.elims
        dest!: quiet_remove_mapping quiet_reclaim)
  have "quiet om (om_put_payload om (or_id a) (PAddressSpace b))" by (rule quiet_put_payload [OF p]) simp_all
  then show ?thesis using rest quiet_trans by blast
qed

lemma quiet_close:
  assumes close: "ht_close h (ht, om, fa) = (r, (ht', om', fa'))" and r: "r \<noteq> Panic"
  shows "quiet om om'"
proof (cases "ht_valid_entry ht h")
  case (Ok e)
  note e = Ok
  show ?thesis
  proof (cases "om_ensure_handle_can_close om (hte_object e) (hte_object_generation e)")
    case (Ok u)
    obtain r1 om1 where rm: "om_remove_handle (hte_object e) (hte_object_generation e) om = (r1, om1)" by (metis surj_pair)
    obtain r2 ht2 where re: "ht_remove_entry h ht = (r2, ht2)" by (metis surj_pair)
    obtain r3 om3 fa3 where rc: "om_reclaim_memory_object_if_unreferenced (hte_object e) (hte_object_generation e) (om1, fa) = (r3, (om3, fa3))"
      by (metis prod_cases3)
    show ?thesis
      using close r e Ok rm re rc quiet_remove_handle [OF rm] quiet_reclaim [OF rc]
      by (cases r1; cases r2; cases r3) (auto simp: ht_close_def intro: quiet_trans)
  qed (use close e in \<open>auto simp: ht_close_def\<close>)
qed (use close in \<open>auto simp: ht_close_def\<close>)

lemma quiet_close_all:
  assumes "close_all hs (ht, om, fa) = (r, (ht', om', fa'))" and "r \<noteq> Panic"
  shows "quiet om om'"
  using assms
proof (induction hs arbitrary: ht om fa)
  case (Cons h hs)
  obtain r1 ht1 om1 fa1 where c: "ht_close h (ht, om, fa) = (r1, (ht1, om1, fa1))" by (metis prod_cases4)
  then show ?case using Cons quiet_close [OF c] by (cases r1) (auto intro: quiet_trans)
qed simp

lemma quiet_revoke:
  assumes "ht_revoke_descendants heap root (ht, om, fa) = Some (r, (ht', om', fa'))" and "r \<noteq> Panic"
  shows "quiet om om'"
proof (cases "om' = om")
  case False
  then obtain hs where "sbind (close_all hs (ht, om, fa)) (\<lambda>_ s. (Ok (length hs), s)) = (r, (ht', om', fa'))"
    using assms(1) by (auto simp: ht_revoke_descendants_def split: result.splits option.splits)
  then show ?thesis
    using assms(2) by (cases "close_all hs (ht, om, fa)" rule: step_cases) (auto dest: quiet_close_all)
qed simp

section \<open>New objects\<close>

definition cap_state :: "tables \<Rightarrow> object_manager \<Rightarrow> cap_state" where
  "cap_state T om = (T, endpoint_at om, live_at om)"

definition payload_empty :: "object_payload \<Rightarrow> bool" where
  "payload_empty p \<longleftrightarrow> (\<forall>c. p = PChannelEndpoint c \<longrightarrow> endpoint_bag c = {#} \<and> ce_peer c = None)"

lemma om_commit_reserved_fresh:
  assumes "om_shape om" and "om_commit_reserved r p om = (Ok s, om')"
  obtains e where "om_at om (sn_id s) = None" "om_at om' = (om_at om)(sn_id s \<mapsto> e)" "oe_payload e = p"
    "oe_generation e = sn_generation s" "om_shape om'"
proof -
  let ?e = "\<lparr>oe_id = as_u64 (oer_index r), oe_payload = p, oe_generation = oer_generation r, oe_state = Live, oe_handle_count = 0\<rparr>"
  have r: "oer_index r < om_capacity om" "om_entries om ! oer_index r = None" "s = snapshot_of ?e"
    "om' = om\<lparr>om_entries := (om_entries om)[oer_index r := Some ?e]\<rparr>"
    using assms(2) by (auto simp: om_commit_reserved_def Let_def vec_get_def result_simps split: if_split_asm elim!: step_elims)
  then have u: "unat (as_u64 (oer_index r)) = oer_index r" using assms(1) by (simp add: as_u64_def unat_of_nat_u64 om_shape_def)
  have "om_at om' = (om_at om)(sn_id s \<mapsto> ?e)"
    using r u assms(1) by (auto simp: fun_eq_iff om_at_def om_shape_def nth_list_update snapshot_of_def word_unat_eq_iff)
  then show ?thesis
    by (rule that [rotated]) (use r u assms(1) in \<open>simp_all add: snapshot_of_def om_at_def om_shape_def\<close>)
qed

lemma new_object_step:
  assumes i: "T i = Some ht"
    and j: "om_at om j = None" "om_at om1 = (om_at om)(j \<mapsto> e)" "om_shape om1" "payload_empty (oe_payload e)"
    and q: "quiet om1 om2"
    and d: "ht_fillable ht s d" "object_of d = (j, oe_generation e)" "hte_parent d = None"
  shows "cap_step i Create (cap_state T om) (cap_state (T(i \<mapsto> ht_put_entry ht s (Some d))) om2)"
  unfolding cap_state_def
proof (rule step_create [where T = T, OF i _ _ d])
  have E: "endpoint_at om2 = (endpoint_at om)(j := entry_endpoint e)" and "live_at om2 \<subseteq>\<^sub>m live_at om1"
    using q j(3) endpoint_at_upd [OF j(2)] by (simp_all add: quiet_def)
  then show "live_at om2 \<subseteq>\<^sub>m (live_at om)(j \<mapsto> oe_generation e)" using live_at_upd [OF j(2)] by simp
  show "endpoint_at om2 = endpoint_at om \<or> (\<exists>c. endpoint_bag c = {#} \<and> ce_peer c = None
      \<and> endpoint_at om2 = (endpoint_at om)(j \<mapsto> (oe_generation e, c)))"
  proof (cases "payload_endpoint (oe_payload e)")
    case None
    then show ?thesis using E j(1) by (simp add: entry_endpoint_def fun_upd_idem endpoint_at_def)
  next
    case (Some c)
    then show ?thesis using E j(4) by (auto simp: entry_endpoint_def payload_empty_def payload_endpoint_Some)
  qed
qed (use j(1) in simp)

lemma create_preflighted_step:
  assumes i: "T i = Some (pr_handles p)" and shape: "om_shape om"
    and c: "create_preflighted_object_handle rights payload (p, om) = (Ok h, (p', om'))" and e: "payload_empty payload"
  shows "cap_step i Create (cap_state T om) (cap_state (T(i \<mapsto> pr_handles p')) om')"
proof -
  obtain r s om1 slot ht' where co: "om_commit_reserved r payload om = (Ok s, om1)"
    and inst: "ht_install_reserved slot s rights (pr_handles p, om1) = (Ok h, (ht', om'))" and p': "pr_handles p' = ht'"
    using c by (auto simp: create_preflighted_object_handle_def elim!: step_elims dest!: pr_reserve_object_handles)
  obtain en where en: "om_at om (sn_id s) = None" "om_at om1 = (om_at om)(sn_id s \<mapsto> en)" "oe_payload en = payload"
    "oe_generation en = sn_generation s" "om_shape om1" by (rule om_commit_reserved_fresh [OF shape co])
  obtain k d where d: "ht_fillable (pr_handles p) k d" "ht' = ht_put_entry (pr_handles p) k (Some d)" "hte_parent d = None"
    "hte_object d = sn_id s" "hte_object_generation d = sn_generation s" "om_add_handle (sn_id s) (sn_generation s) om1 = (Ok (), om')"
    by (rule ht_install_reserved_fills [OF inst])
  show ?thesis
    using new_object_step [where T = T, OF i en(1,2,5) _ quiet_add_handle [OF d(6)] d(1)] d(2-5) en e p'
    by (simp add: object_of_def)
qed

lemma payload_for_kind_empty: "payload_for_kind kind = Ok p \<Longrightarrow> payload_empty p"
  by (cases kind) (auto simp: payload_empty_def endpoint_bag_def)

lemma create_object_step:
  assumes i: "T i = Some (pr_handles p)" and shape: "om_shape om" and c: "create_object_handle kind rights (p, om) = (Ok h, (p', om'))"
  shows "cap_step i Create (cap_state T om) (cap_state (T(i \<mapsto> pr_handles p')) om')"
proof (cases "payload_for_kind kind")
  case (Ok payload)
  then have "create_preflighted_object_handle rights payload (p, om) = (Ok h, (p', om'))" using c by (simp add: create_object_handle_def)
  from create_preflighted_step [where T = T, OF i shape this payload_for_kind_empty [OF Ok]] show ?thesis .
qed (use c in \<open>simp_all add: create_object_handle_def\<close>)

lemma create_memory_object_step:
  assumes i: "T i = Some (pr_handles p)" and shape: "om_shape om"
    and c: "create_memory_object_handle size_bytes rights (p, om, fa) = (Ok h, (p', om', fa'))"
  shows "cap_step i Create (cap_state T om) (cap_state (T(i \<mapsto> pr_handles p')) om')"
proof -
  obtain r s m om1 slot ht' where co: "om_commit_reserved r (PMemoryObject m) om = (Ok s, om1)"
    and inst: "ht_install_reserved slot s rights (pr_handles p, om1) = (Ok h, (ht', om'))" and p': "pr_handles p' = ht'"
    using c by (auto simp: create_memory_object_handle_def Let_def elim!: step_elims dest!: pr_reserve_object_handles)
  obtain en where en: "om_at om (sn_id s) = None" "om_at om1 = (om_at om)(sn_id s \<mapsto> en)" "oe_payload en = PMemoryObject m"
    "oe_generation en = sn_generation s" "om_shape om1" by (rule om_commit_reserved_fresh [OF shape co])
  obtain k d where d: "ht_fillable (pr_handles p) k d" "ht' = ht_put_entry (pr_handles p) k (Some d)" "hte_parent d = None"
    "hte_object d = sn_id s" "hte_object_generation d = sn_generation s" "om_add_handle (sn_id s) (sn_generation s) om1 = (Ok (), om')"
    by (rule ht_install_reserved_fills [OF inst])
  show ?thesis
    using new_object_step [where T = T, OF i en(1,2,5) _ quiet_add_handle [OF d(6)] d(1)] d(2-5) en p'
    by (simp add: object_of_def payload_empty_def)
qed

lemma create_channel_pair_step:
  assumes i: "T i = Some (pr_handles p)" and ok: "om_ok C (Suc n) H M L om" and C: "C \<le> usize_max"
    and c: "create_channel_pair_handles max_messages rights (p, om, fa) = (Ok hs, (p', om', fa'))"
  shows "cap_step i CreatePair (cap_state T om) (cap_state (T(i \<mapsto> pr_handles p')) om')"
proof -
  obtain s1 s2 om1 h1 h2 ht1 om2 ht2 where pair: "om_create_channel_pair max_messages om = (Ok (s1, s2), om1)"
    and inst: "ht_install s1 rights (pr_handles p, om1) = (Ok h1, (ht1, om2))" "ht_install s2 rights (ht1, om2) = (Ok h2, (ht2, om'))"
    and p': "pr_handles p' = ht2"
    using c by (auto simp: create_channel_pair_handles_def Let_def split: if_split_asm elim!: step_elims dest!: pr_reserve_object_handles)
  obtain cc where cc: "endpoint_bag cc = {#}" "linked_pair om om1 cc s1 s2" "om_shape om1"
    using om_create_channel_pair_ok [OF ok C, of max_messages] pair by (auto dest: om_okD(3))
  obtain e1 e2 where e: "om_at om (sn_id s1) = None" "om_at om (sn_id s2) = None" "sn_id s1 \<noteq> sn_id s2"
    "om_at om1 = (om_at om)(sn_id s1 \<mapsto> e1, sn_id s2 \<mapsto> e2)"
    "oe_generation e1 = sn_generation s1" "oe_payload e1 = linked_endpoint cc s2"
    "oe_generation e2 = sn_generation s2" "oe_payload e2 = linked_endpoint cc s1"
    using cc(2) by (auto simp: linked_pair_def)
  have E: "endpoint_at om1 = (endpoint_at om)(sn_id s1 \<mapsto> (sn_generation s1, linked cc (sn_id s2) (sn_generation s2)),
      sn_id s2 \<mapsto> (sn_generation s2, linked cc (sn_id s1) (sn_generation s1)))"
    using e by (simp add: endpoint_at_def fun_eq_iff entry_endpoint_def linked_endpoint_def linked_def)
  have G: "live_at om1 = (live_at om)(sn_id s1 \<mapsto> sn_generation s1, sn_id s2 \<mapsto> sn_generation s2)"
    using e by (simp add: live_at_def fun_eq_iff)
  obtain k d where d: "ht_fillable (pr_handles p) k d" "ht1 = ht_put_entry (pr_handles p) k (Some d)" "hte_parent d = None"
    "object_of d = (sn_id s1, sn_generation s1)" "quiet om1 om2"
    by (rule ht_install_fills [OF inst(1)]) (auto simp: object_of_def dest: quiet_add_handle)
  obtain l f where f: "ht_fillable ht1 l f" "ht2 = ht_put_entry ht1 l (Some f)" "hte_parent f = None"
    "object_of f = (sn_id s2, sn_generation s2)" "quiet om2 om'"
    by (rule ht_install_fills [OF inst(2)]) (auto simp: object_of_def dest: quiet_add_handle)
  have q: "quiet om1 om'" using quiet_trans [OF d(5) f(5)] .
  show ?thesis
    unfolding cap_state_def p' f(2)
    using step_create_pair [where T = T, OF i _ _ e(3) cc(1) d(1,4,3,2) f(1,4,3), of "live_at om" "live_at om'" "endpoint_at om"] e(1,2) q cc(3) E G
    by (simp add: quiet_def)
qed

section \<open>Duplicates and messages\<close>

lemma duplicate_step:
  assumes i: "T i = Some ht" and shape: "om_shape om"
    and ok: "ho_ok C D n X L (ht, om)" and dup: "ht_duplicate source rights (ht, om) = (Ok h, (ht', om'))"
  shows "cap_step i (Duplicate source rights) (cap_state T om) (cap_state (T(i \<mapsto> ht')) om')"
proof -
  have "quiet om om'"
    using dup by (auto simp: ht_duplicate_def split: if_split_asm elim!: step_elims ht_install_fills dest: quiet_add_handle)
  then have E: "endpoint_at om' = endpoint_at om" "live_at om' \<subseteq>\<^sub>m live_at om" using shape by (simp_all add: quiet_def)
  show ?thesis
  proof (rule ht_duplicate_cases [OF ok dup])
    fix e s d
    assume e: "ht_valid_entry ht source = Ok e" "rights_contain (hte_rights e) HR_DUPLICATE" "rights_contain (hte_rights e) rights"
      and d: "ht_fillable ht s d" "ht' = ht_put_entry ht s (Some d)" "hte_rights d = rights" "hte_ref d = hte_ref e"
        "hte_parent d = Some \<lparr>hl_handle = source, hl_object = hte_object e, hl_object_generation = hte_object_generation e\<rparr>"
    have "object_of d = object_of e" using d(4) by (simp add: object_of_def hte_ref_def)
    then show ?thesis
      unfolding cap_state_def d(2) E(1) by (rule step_duplicate [where T = T, OF i e d(1) _ d(3,5) E(2)])
  qed
qed

lemma om_channel_peer_OkD:
  assumes ok: "om_ok C n T M L om" and peer: "om_channel_peer om i g = Ok s"
  obtains c r d where "endpoint_at om i = Some (g, c)" "ce_peer c = Some r" "sn_id s = or_id r" "sn_generation s = or_generation r"
    "om_at om (or_id r) = Some d" "oe_generation d = or_generation r"
proof -
  obtain c r where c: "om_channel_endpoint om i g = Ok c" "ce_peer c = Some r"
    and v: "om_validate om (or_id r) (or_generation r) KindChannelEndpoint = Ok s"
    using peer by (auto simp: om_channel_peer_def result_simps split: if_split_asm)
  then have p: "om_live_payload om i g = Ok (PChannelEndpoint c)"
    by (auto simp: om_channel_endpoint_def result_simps elim: as_channel.elims)
  obtain e where e: "om_at om i = Some e" "oe_generation e = g" "oe_payload e = PChannelEndpoint c"
    by (rule om_live_payload_OkD [OF om_okD(3) [OF ok] p])
  obtain d where d: "om_at om (or_id r) = Some d" "oe_generation d = or_generation r" "s = snapshot_of d"
    using v by (cases rule: om_validate_cases [OF ok, of "or_id r" "or_generation r" KindChannelEndpoint]) auto
  have "endpoint_at om i = Some (g, c)" using e by (simp add: endpoint_at_iff)
  then show ?thesis by (rule that) (use c d om_ok_at(1) [OF ok d(1)] in simp_all)
qed

lemma ht_lookup_valid:
  assumes ok: "ho_ok C D n X L (ht, om)" and v: "ht_lookup ht om h kind rights = Ok v"
  obtains x where "ht_valid_entry ht h = Ok x" "rights_contain (hte_rights x) rights"
    "hte_object x = sn_id (hvw_object v)" "hte_object_generation x = sn_generation (hvw_object v)"
  by (cases rule: ht_lookup_cases [OF ok, of h kind rights]) (use v in \<open>auto intro!: that\<close>)

lemma entry_endpoint_put:
  assumes shape: "om_shape om" and d: "om_at om i = Some d" "oe_payload d = PChannelEndpoint c"
  shows "endpoint_at om i = Some (oe_generation d, c)"
    and "live_at (om_put om i (d\<lparr>oe_payload := PChannelEndpoint c'\<rparr>)) = live_at om"
    and "endpoint_at (om_put om i (d\<lparr>oe_payload := PChannelEndpoint c'\<rparr>)) = (endpoint_at om)(i \<mapsto> (oe_generation d, c'))"
  using d endpoint_at_upd [OF om_at_put [OF shape om_at_bound [OF d(1)], of "d\<lparr>oe_payload := PChannelEndpoint c'\<rparr>"]]
    live_at_upd [OF om_at_put [OF shape om_at_bound [OF d(1)], of "d\<lparr>oe_payload := PChannelEndpoint c'\<rparr>"]]
  by (simp_all add: endpoint_at_iff entry_endpoint_def fun_eq_iff live_at_def)

lemma send_step:
  assumes i: "T i = Some (pr_handles p)" and ok: "po_ok C D (n + 4) X L (p, om)"
    and send: "send_channel_message heap channel bytes handles (p, om) = (Ok u, (p', om'))"
  shows "cap_step i (Send channel handles) (cap_state T om) (cap_state (T(i \<mapsto> pr_handles p')) om')"
proof -
  have ho: "ho_ok C D (n + 4) X L (pr_handles p, om)" using ok by (simp add: po_ok_def)
  obtain H where om: "om_ok D (n + 4) (X + H) {#} L om" by (rule ho_okE [OF ho])
  note shape = om_okD(3) [OF om]
  obtain v peer es m d c c' es' where v: "ht_lookup (pr_handles p) om channel KindChannelEndpoint HR_WRITE = Ok v"
    and peer: "om_channel_peer om (sn_id (hvw_object v)) (sn_generation (hvw_object v)) = Ok peer"
    and es: "list_all2 (sendable (pr_handles p)) handles es" and m: "channel_message_new bytes es = Ok m"
    and d: "om_at om (sn_id peer) = Some d" "oe_payload d = PChannelEndpoint c" "endpoint_enqueue m c = Ok c'"
    and om': "om' = om_put om (sn_id peer) (d\<lparr>oe_payload := PChannelEndpoint c'\<rparr>)"
    and mv: "move_handles om handles [] (pr_handles p) = (Ok es', pr_handles p')"
    by (rule send_channel_message_OkE [OF ok send]) blast
  have "message_wf m \<and> live (cm_handles m) = es"
    by (rule channel_message_new_cases [of bytes es]) (use m in simp_all)
  then have wf: "message_wf m" and entries: "live (cm_handles m) = es" by simp_all
  have c: "endpoint_wf c" using om_ok_at(4) [OF om d(1)] d(2) by simp
  have bag: "endpoint_bag c' = add_mset m (endpoint_bag c)" "ce_peer c' = ce_peer c"
    using d(3) by (cases rule: endpoint_enqueue_cases [OF c wf]; auto)+
  obtain c0 r d' where c0: "endpoint_at om (sn_id (hvw_object v)) = Some (sn_generation (hvw_object v), c0)"
    "ce_peer c0 = Some r" "sn_id peer = or_id r" "sn_generation peer = or_generation r"
    "om_at om (or_id r) = Some d'" "oe_generation d' = or_generation r"
    by (rule om_channel_peer_OkD [OF om peer])
  have E: "endpoint_at om (sn_id peer) = Some (oe_generation d, c)" "live_at om' = live_at om"
    "endpoint_at om' = (endpoint_at om)(sn_id peer \<mapsto> (oe_generation d, c'))"
    using entry_endpoint_put [OF shape d(1,2)] om' by simp_all
  obtain x where x: "ht_valid_entry (pr_handles p) channel = Ok x" "rights_contain (hte_rights x) HR_WRITE"
    "hte_object x = sn_id (hvw_object v)" "hte_object_generation x = sn_generation (hvw_object v)"
    by (rule ht_lookup_valid [OF ho v])
  have wfp: "ht_wf (pr_handles p)" using ho by (auto elim!: ho_okE dest: ht_okD(1))
  have gen: "oe_generation d = or_generation r" using d(1) c0(3,5,6) by simp
  have at: "endpoint_at om (or_id r) = Some (or_generation r, c)" using E(1) c0(3) gen by simp
  show ?thesis
    unfolding cap_state_def E(2,3) c0(3) gen
    by (rule step_send [where T = T and E = "endpoint_at om", OF i x(1,2) _ c0(2) at bag(2,1) _ move_handles_clears [OF mv] moved_handles_gone [OF mv wfp]])
      (use c0(1) x(3,4) es entries in simp_all)
qed

lemma receive_handles_not_Err: "receive_handles es hs ht \<noteq> (Err e, ht')"
  by (induction es arbitrary: hs ht) (auto split: prod.splits result.splits)

lemma lift_ErrE: "lift r s f = (Err e, s') \<Longrightarrow> (s' = s \<Longrightarrow> thesis) \<Longrightarrow> (\<And>a. f a = (Err e, s') \<Longrightarrow> thesis) \<Longrightarrow> thesis"
  by (cases r) auto

lemma dequeue_Err_same: "om_dequeue_channel_message i g om = (Err e, om') \<Longrightarrow> om' = om"
  by (auto simp: om_dequeue_channel_message_def elim!: lift_ErrE split: prod.split_asm)

text \<open>A receive that does anything has taken a message out of its endpoint.\<close>

definition took_message :: "handle_value \<Rightarrow> process \<Rightarrow> object_manager \<Rightarrow> process \<Rightarrow> object_manager \<Rightarrow> bool" where
  "took_message channel p om p' om' \<longleftrightarrow> (\<exists>v m. ht_lookup (pr_handles p) om channel KindChannelEndpoint HR_READ = Ok v
     \<and> om_dequeue_channel_message (sn_id (hvw_object v)) (sn_generation (hvw_object v)) om = (Ok m, om')
     \<and> (p' = p \<or> (\<exists>hs. receive_handles (handle_entries m) [] (pr_handles p) = (Ok hs, pr_handles p'))))"

lemma recv_channel_message_cases:
  assumes recv: "recv_channel_message heap channel (p, om) = (r, (p', om'))" and r: "r \<noteq> Panic"
  shows "(p', om') = (p, om) \<or> took_message channel p om p' om'"
proof (cases "ht_lookup (pr_handles p) om channel KindChannelEndpoint HR_READ")
  case (Ok v)
  note v = Ok
  let ?i = "sn_id (hvw_object v)" and ?g = "sn_generation (hvw_object v)"
  show ?thesis
  proof (cases "om_dequeue_channel_message ?i ?g om" rule: step_cases)
    case (Ok m om1)
    show ?thesis
    proof (cases "(p', om') = (p, om)")
      case False
      then have "om' = om1 \<and> (p' = p \<or> (\<exists>hs. receive_handles (handle_entries m) [] (pr_handles p) = (Ok hs, pr_handles p')))"
        using recv r v Ok
        by (cases "om_next_channel_message_handle_count om ?i ?g"; cases "try_reserve_exact heap SiteRecvHandles (cm_handle_count m)";
            cases "receive_handles (handle_entries m) [] (pr_handles p)" rule: step_cases)
          (auto simp: recv_channel_message_def usize_sub_def receive_handles_not_Err split: if_split_asm)
      then show ?thesis using v Ok by (auto simp: took_message_def)
    qed simp
  next
    case (Err e om1)
    then show ?thesis
      using recv r v dequeue_Err_same [OF Err]
      by (cases "om_next_channel_message_handle_count om ?i ?g") (auto simp: recv_channel_message_def usize_sub_def split: if_split_asm)
  next
    case (Panic om1)
    then show ?thesis
      using recv r v
      by (cases "om_next_channel_message_handle_count om ?i ?g") (auto simp: recv_channel_message_def usize_sub_def split: if_split_asm)
  qed
qed (use recv in \<open>auto simp: recv_channel_message_def\<close>)

lemma recv_Ok_took: "recv_channel_message heap channel (p, om) = (Ok rm, (p', om')) \<Longrightarrow> took_message channel p om p' om'"
  by (auto simp: recv_channel_message_def took_message_def split: if_split_asm elim!: step_elims)

lemma recv_step:
  assumes i: "T i = Some (pr_handles p)" and ho: "ho_ok C D n X L (pr_handles p, om)" and took: "took_message channel p om p' om'"
  shows "cap_step i (Receive channel) (cap_state T om) (cap_state (T(i \<mapsto> pr_handles p')) om')"
proof -
  obtain H where om: "om_ok D n (X + H) {#} L om" by (rule ho_okE [OF ho])
  obtain v m where v: "ht_lookup (pr_handles p) om channel KindChannelEndpoint HR_READ = Ok v"
    and dq: "om_dequeue_channel_message (sn_id (hvw_object v)) (sn_generation (hvw_object v)) om = (Ok m, om')"
    and p': "p' = p \<or> (\<exists>hs. receive_handles (handle_entries m) [] (pr_handles p) = (Ok hs, pr_handles p'))"
    using took by (auto simp: took_message_def)
  obtain d c c' where d: "om_at om (sn_id (hvw_object v)) = Some d" "oe_generation d = sn_generation (hvw_object v)"
    "oe_payload d = PChannelEndpoint c" "endpoint_dequeue c = Ok (m, c')"
    "om' = om_put om (sn_id (hvw_object v)) (d\<lparr>oe_payload := PChannelEndpoint c'\<rparr>)"
    by (rule om_dequeue_OkE [OF om dq])
  have c: "endpoint_wf c" using om_ok_at(4) [OF om d(1)] d(3) by simp
  have bag: "endpoint_bag c = add_mset m (endpoint_bag c')" "ce_peer c' = ce_peer c" and wf: "message_wf m"
    using d(4) by (cases rule: endpoint_dequeue_cases [OF c]; auto)+
  have E: "endpoint_at om (sn_id (hvw_object v)) = Some (oe_generation d, c)" "live_at om' = live_at om"
    "endpoint_at om' = (endpoint_at om)(sn_id (hvw_object v) \<mapsto> (oe_generation d, c'))"
    using entry_endpoint_put [OF om_okD(3) [OF om] d(1,3)] d(5) by simp_all
  obtain x where x: "ht_valid_entry (pr_handles p) channel = Ok x" "rights_contain (hte_rights x) HR_READ"
    "hte_object x = sn_id (hvw_object v)" "hte_object_generation x = sn_generation (hvw_object v)"
    by (rule ht_lookup_valid [OF ho v])
  have "handle_entries m = live (cm_handles m)" using wf by (simp add: message_wf_def handle_entries_def)
  then show ?thesis
    unfolding cap_state_def E(2,3) x(3) [symmetric] d(2) x(4) [symmetric]
    using p' by (intro step_receive [where T = T and E = "endpoint_at om", OF i x(1,2) _ bag(2,1)]) (use E(1) x(3,4) d(2) in auto)
qed

section \<open>System calls\<close>

definition kernel_tables :: "kernel \<Rightarrow> tables" where
  "kernel_tables k i = (case ptb_get (k_processes k) i of Ok p \<Rightarrow> Some (pr_handles p) | _ \<Rightarrow> None)"

lemma kernel_tables_at: "ptb_get (k_processes k) i = Ok p \<Longrightarrow> kernel_tables k i = Some (pr_handles p)"
  by (simp add: kernel_tables_def)

lemma kernel_tables_iff: "kernel_tables k i = Some ht \<longleftrightarrow> (\<exists>p. ptb_get (k_processes k) i = Ok p \<and> ht = pr_handles p)"
  by (auto simp: kernel_tables_def split: result.splits)

lemma ptb_get_put_eq:
  assumes "ptb_get t i = Ok p"
  shows "ptb_get (ptb_put t i q) j = (if j = i then Ok q else ptb_get t j)"
  using assms
  by (auto simp: ptb_get_def ptb_index_def ptb_put_def as_usize_def vec_get_def nth_list_update result_simps word_unat_eq_iff split: if_splits)

lemma kernel_tables_put:
  "ptb_get (k_processes k) i = Ok p \<Longrightarrow> kernel_tables (k_put i k (q, om, fa)) = (kernel_tables k)(i \<mapsto> pr_handles q)"
  by (simp add: fun_eq_iff kernel_tables_def ptb_get_put_eq)

definition caps_of :: "kernel \<Rightarrow> cap_state" where
  "caps_of k = cap_state (kernel_tables k) (k_objects k)"

fun action_of :: "syscall \<Rightarrow> cap_action" where
  "action_of (CreateObject _ _) = Create"
| "action_of (CreateMemoryObject _ _) = Create"
| "action_of (CreateAddressSpace _) = Create"
| "action_of (CreateChannelPair _ _) = CreatePair"
| "action_of (ChannelSend channel _ handles) = Send channel handles"
| "action_of (ChannelRecv channel) = Receive channel"
| "action_of (DuplicateHandle source rights) = Duplicate source rights"
| "action_of (CloseHandle _) = Drop"
| "action_of (RevokeDescendants _) = Drop"
| "action_of _ = Idle"

text \<open>A successful call makes the step of its kind.  A failed call makes none, except a revocation that could
  not close all and a receive that found no memory for the handles.\<close>

fun allowed :: "syscall \<Rightarrow> 'a kernel_result \<Rightarrow> cap_action \<Rightarrow> bool" where
  "allowed sc (Ok _) a \<longleftrightarrow> a = action_of sc"
| "allowed sc (Err _) a \<longleftrightarrow> a = Idle \<or> a = action_of sc \<and> (case sc of RevokeDescendants _ \<Rightarrow> True | ChannelRecv _ \<Rightarrow> True | _ \<Rightarrow> False)"
| "allowed sc Panic a \<longleftrightarrow> False"

definition put_step :: "syscall \<Rightarrow> 'a kernel_result \<Rightarrow> process_id \<Rightarrow> kernel \<Rightarrow> kernel \<Rightarrow> bool" where
  "put_step sc r i k k' \<longleftrightarrow> (\<exists>p om fa a. k' = k_put i k (p, om, fa) \<and> allowed sc r a
     \<and> cap_step i a (caps_of k) (cap_state ((kernel_tables k)(i \<mapsto> pr_handles p)) om))"

lemma put_stepI:
  assumes "cap_step i a (caps_of k) (cap_state ((kernel_tables k)(i \<mapsto> pr_handles p)) om)" and "allowed sc r a"
  shows "put_step sc r i k (k_put i k (p, om, fa))"
  unfolding put_step_def using assms by blast

lemma dispatch_step:
  assumes ok: "kernel_ok B (n + B + 4) lost k" and p: "ptb_get (k_processes k) i = Ok p"
    and d: "dispatch heap sc i k (p, k_objects k, k_frames k) = Some (r, k')"
  shows "put_step sc r i k k'"
proof -
  let ?om = "k_objects k" and ?fa = "k_frames k"
  let ?T = "kernel_tables k"
  obtain C X where proc: "proc_ok C (om_capacity ?om) (n + B + 4) X (p, ?om, ?fa)" and C: "C \<le> B"
    using kernel_ok_process [OF ok ptb_get_slot [OF p]] by blast
  obtain s where k': "k' = k_put i k s" and st: "settles heap sc C (om_capacity ?om) n X (p, ?om, ?fa) (r, s)"
    using dispatch_settles [OF proc C, where heap = heap and sc = sc and i = i and k = k] d by auto
  obtain L where po: "po_ok C (om_capacity ?om) (n + B + 4) X L (p, ?om)" by (rule proc_okE [OF proc])
  then have ho: "ho_ok C (om_capacity ?om) (n + B + 4) X L (pr_handles p, ?om)" by (simp add: po_ok_def)
  obtain H where om: "om_ok (om_capacity ?om) (Suc (n + B + 3)) (X + H) {#} L ?om"
    using ho by (auto elim!: ho_okE simp: eval_nat_numeral)
  note shape = om_okD(3) [OF om] and T = kernel_tables_at [OF p]
  have cap: "om_capacity ?om \<le> usize_max" using shape by (simp add: om_shape_def)
  have same: "?T(i \<mapsto> pr_handles p) = ?T" using T by (rule fun_upd_idem)
  have drop: "cap_step i Drop (caps_of k) (cap_state (?T(i \<mapsto> ht')) om')"
    if "ht_clears (pr_handles p) ht'" "quiet ?om om'" for ht' om'
    using step_drop [where T = ?T, OF T that(1)] that(2) shape by (simp add: quiet_def caps_of_def cap_state_def)
  have idle: "cap_step i Idle (caps_of k) (cap_state (?T(i \<mapsto> pr_handles p)) om')" if "quiet ?om om'" for om'
    using that shape step_idle same by (simp add: quiet_def caps_of_def cap_state_def)
  note defs = with_objects_def with_handles_def and elims = outcome_OkE step_elims
  have np: "r \<noteq> Panic" using st by (auto simp: settles_def)
  consider (revoke) root where "sc = RevokeDescendants root" | (recv) channel where "sc = ChannelRecv channel"
    | (fails) e where "r = Err e" "\<nexists>root. sc = RevokeDescendants root" "\<nexists>channel. sc = ChannelRecv channel"
    | (succeeds) v where "r = Ok v" "\<nexists>root. sc = RevokeDescendants root" "\<nexists>channel. sc = ChannelRecv channel"
    using np by (cases r) auto
  then show ?thesis
  proof cases
    case revoke
    then obtain r0 ht' om' fa' where rv: "ht_revoke_descendants heap root (pr_handles p, ?om, ?fa) = Some (r0, (ht', om', fa'))"
      and k': "k' = k_put i k (p\<lparr>pr_handles := ht'\<rparr>, om', fa')" and r0: "r = map_ok OutcomeRevoked r0"
      using d by (auto simp: defs elim!: outcomeE apsndE)
    have "r0 \<noteq> Panic" using np r0 by auto
    note step = drop [OF ht_revoke_clears [OF rv] quiet_revoke [OF rv this]]
    have "allowed sc r Drop" using revoke np by (cases r) simp_all
    then show ?thesis unfolding k' by (intro put_stepI [where a = Drop]) (simp_all add: step)
  next
    case recv
    then obtain r0 p' om' where rc: "recv_channel_message heap channel (p, ?om) = (r0, (p', om'))"
      and k': "k' = k_put i k (p', om', ?fa)" and rm: "r = map_ok (\<lambda>m. OutcomeMessage (rm_bytes m) (rm_byte_len m) (rm_handles m)) r0"
      using d by (auto simp: defs elim!: outcomeE apsndE)
    from rm have r0: "r0 \<noteq> Panic" using np by auto
    show ?thesis
    proof (cases "took_message channel p ?om p' om'")
      case True
      note step = recv_step [where T = ?T, OF T ho this, folded caps_of_def]
      have "allowed sc r (Receive channel)" using recv np by (cases r) simp_all
      then show ?thesis unfolding k' by (intro put_stepI [where a = "Receive channel"]) (simp_all add: step)
    next
      case False
      then have same': "(p', om') = (p, ?om)" using recv_channel_message_cases [OF rc r0] by blast
      have "\<exists>e. r0 = Err e" using rc r0 recv_Ok_took False by (cases r0) auto
      then have "allowed sc r Idle" using rm by auto
      then show ?thesis unfolding k' using same' idle [OF quiet_refl] by (intro put_stepI [where a = Idle]) simp_all
    qed
  next
    case fails
    obtain p' om' fa' where s: "s = (p', om', fa')" by (cases s)
    have "failure_keeps sc e (p, ?om, ?fa) (p', om', fa')" using st fails(1) s by (simp add: settles_def)
    then have "p' = p" "om_at om' = om_at ?om" using fails by (cases sc; simp)+
    then have "cap_state (?T(i \<mapsto> pr_handles p')) om' = caps_of k"
      using same by (simp add: caps_of_def cap_state_def fun_eq_iff endpoint_at_def live_at_def)
    then show ?thesis
      unfolding k' s using idle [OF quiet_refl] same fails(1) by (intro put_stepI [where a = Idle]) (simp_all add: caps_of_def)
  next
    case succeeds
    note d = d [unfolded succeeds(1)] and defs = defs succeeds(1)
    note object = create_object_step [where T = ?T, OF T shape, folded caps_of_def]
      and memory = create_memory_object_step [where T = ?T, OF T shape, folded caps_of_def]
      and pair = create_channel_pair_step [where T = ?T, OF T om cap, folded caps_of_def]
    show ?thesis
    proof (cases sc)
      case (CreateObject kind rights)
      then show ?thesis using d by (auto intro!: put_stepI object simp: defs elim!: elims)
    next
      case (CreateMemoryObject size_bytes rights)
      then show ?thesis using d by (auto intro!: put_stepI memory simp: defs elim!: elims)
    next
      case (CreateAddressSpace rights)
      then show ?thesis using d by (auto intro!: put_stepI object simp: defs create_address_space_handle_eq elim!: elims)
    next
      case (MapMemoryObject a m base size_bytes offset rights)
      then show ?thesis using d by (auto intro!: put_stepI idle simp: defs map_memory_object_def elim!: elims dest!: quiet_map)
    next
      case (UnmapAddressRange a base size_bytes)
      then show ?thesis using d by (auto intro!: put_stepI idle simp: defs unmap_address_range_def elim!: elims dest!: quiet_unmap)
    next
      case (FlushAddressSpaceTlb a)
      then show ?thesis using d by (auto intro!: put_stepI idle simp: defs flush_address_space_tlb_def elim!: elims dest!: quiet_take_tlb)
    next
      case (CreateChannelPair max_messages rights)
      then show ?thesis using d by (auto intro!: put_stepI pair simp: defs elim!: elims)
    next
      case (ChannelSend channel bytes handles)
      have "po_ok C (om_capacity ?om) (n + B + 4) X L (p, ?om)" by (rule po)
      from send_step [where T = ?T, OF T this, folded caps_of_def] show ?thesis
        using d ChannelSend by (auto intro!: put_stepI simp: defs elim!: elims)
    next
      case (DuplicateHandle source rights)
      then show ?thesis
        using d duplicate_step [where T = ?T, OF T shape ho, folded caps_of_def] by (auto intro!: put_stepI simp: defs elim!: elims)
    next
      case (CloseHandle h)
      then show ?thesis
        using d by (auto intro!: put_stepI drop ht_close_clears quiet_close simp: defs elim!: elims)
    qed (use succeeds in auto)
  qed
qed

lemma caps_of_put:
  "ptb_get (k_processes k) i = Ok p \<Longrightarrow> caps_of (k_put i k (q, om, fa)) = cap_state ((kernel_tables k)(i \<mapsto> pr_handles q)) om"
  by (simp add: caps_of_def kernel_tables_put)

lemma execute_step:
  assumes ok: "kernel_ok B (n + B + 4) lost k" and ex: "execute heap cx sc k = Some (r, k')"
  shows "\<exists>a. allowed sc r a \<and> cap_step (sc_process cx) a (caps_of k) (caps_of k')"
proof (cases "ptb_get (k_processes k) (sc_process cx)")
  case (Ok p)
  have "put_step sc r (sc_process cx) k k'"
    by (rule dispatch_step [OF ok Ok, where heap = heap and sc = sc and r = r]) (use ex in \<open>simp add: execute_at [OF Ok]\<close>)
  then show ?thesis using caps_of_put [OF Ok] by (auto simp: put_step_def)
next
  case (Err e)
  then show ?thesis using ex step_idle [OF map_le_refl] by (auto simp: execute_def caps_of_def cap_state_def)
next
  case Panic
  have "length (ptb_processes (k_processes k)) = ptb_capacity (k_processes k)" using ok by (simp add: kernel_ok_def)
  then show ?thesis by (cases rule: ptb_get_cases [of _ "sc_process cx"]) (use Panic in simp_all)
qed

end
