(* ===== verification/Isolation.thy ===== *)
theory Isolation
  imports Capability_Refinement
begin

text \<open>
  In every reachable kernel each object has one owner: the processes are isolated, and the lineages of
  all handle tables are free of cycles, whatever was sent and received.  System calls keep this because they are
  steps of the capability machine; the rest is the start and the creation of processes.
\<close>

section \<open>Live objects\<close>

definition kernel_isolated :: "kernel \<Rightarrow> bool" where
  "kernel_isolated k \<longleftrightarrow> (\<exists>own. isolated own (kernel_tables k) (endpoint_at (k_objects k)))"

lemma ht_has_ref: "ht_has ht e \<Longrightarrow> hte_ref e \<in># ht_refs ht"
  by (force simp: ht_has_def ht_refs_def ht_entries_def in_live_nth)

lemma waits_ref: "waits c e \<Longrightarrow> hte_ref e \<in># endpoint_refs c"
  by (auto simp: waits_def endpoint_refs_def message_refs_def)

lemma kernel_handles_named:
  assumes ok: "kernel_ok B n lost k" and e: "e \<in> cap_handles (kernel_tables k) (endpoint_at (k_objects k))"
  shows "names (k_objects k) (hte_ref e)"
proof -
  obtain L where om: "om_ok (om_capacity (k_objects k)) n (lost + table_refs (ptb_processes (k_processes k))) {#} L (k_objects k)"
    using ok by (auto simp: kernel_ok_def)
  have "hte_ref e \<in># table_refs (ptb_processes (k_processes k))" if t: "kernel_tables k i = Some ht" "ht_has ht e" for i ht e
  proof -
    obtain p where p: "ptb_get (k_processes k) i = Ok p" "ht = pr_handles p" using t(1) by (auto simp: kernel_tables_iff)
    have "Some p \<in> set (ptb_processes (k_processes k))"
      using ptb_get_slot [OF p(1)] ok by (auto simp: kernel_ok_def in_set_conv_nth)
    from slot_sum_member [OF this, of "\<lambda>p. ht_refs (pr_handles p)"] ht_has_ref [OF t(2)] p(2)
    show ?thesis by (auto simp: table_refs_def dest: mset_subset_eqD)
  qed
  moreover have "hte_ref e \<in># om_refs (k_objects k)" if t: "endpoint_at (k_objects k) j = Some (g, c)" "waits c e" for j g c e
  proof -
    obtain d where d: "om_at (k_objects k) j = Some d" "oe_payload d = PChannelEndpoint c" using t(1) by (auto simp: endpoint_at_iff)
    have "Some d \<in> set (om_entries (k_objects k))" using om_slot [OF om d(1)] by (auto simp: in_set_conv_nth)
    from slot_sum_member [OF this, of "\<lambda>e. payload_refs (oe_payload e)"] waits_ref [OF t(2)] d(2)
    show ?thesis by (auto simp: om_refs_def om_sum_def dest: mset_subset_eqD)
  qed
  ultimately show ?thesis using e om_ok_names(1,2) [OF om, of "hte_ref e"] unfolding cap_handles_def by auto
qed

lemma kernel_cap_live:
  assumes ok: "kernel_ok B n lost k"
  shows "cap_live (caps_of k)"
proof -
  have "om_at (k_objects k) (hte_object e) \<noteq> None" if "e \<in> cap_handles (kernel_tables k) (endpoint_at (k_objects k))" for e
    using kernel_handles_named [OF ok that] by (auto simp: names_iff hte_ref_def)
  moreover have "dom (endpoint_at (k_objects k)) \<subseteq> dom (live_at (k_objects k))"
    by (auto simp: endpoint_at_def live_at_def dom_def split: bind_splits)
  ultimately show ?thesis by (simp add: cap_live_def caps_of_def cap_state_def live_at_def)
qed

section \<open>Runs\<close>

lemma execute_isolated:
  assumes ok: "kernel_ok B (n + B + 4) lost k" and iso: "kernel_isolated k" and ex: "execute heap cx sc k = Some (r, k')"
  shows "kernel_isolated k'"
proof -
  obtain own where own: "isolated own (kernel_tables k) (endpoint_at (k_objects k))" using iso by (auto simp: kernel_isolated_def)
  obtain a where "cap_step (sc_process cx) a (caps_of k) (caps_of k')" using execute_step [OF ok ex] by blast
  then show ?thesis
    using cap_step_isolated kernel_cap_live [OF ok] own unfolding caps_of_def cap_state_def kernel_isolated_def by blast
qed

lemma create_bootstrap_OkE:
  assumes "create_bootstrap_process heap handle_capacity object_quota k = (Ok i, k')"
  obtains j p h p' om' where "position (\<lambda>slot. slot = None) (ptb_processes (k_processes k)) = Some j" "i = as_u64 j"
    "process_new heap i handle_capacity object_quota = Ok p"
    "create_object_handle KindProcess (HR_READ OR HR_MANAGE) (p, k_objects k) = (Ok h, (p', om'))"
    "k' = k\<lparr>k_processes := (k_processes k)\<lparr>ptb_processes := (ptb_processes (k_processes k))[j := Some p']\<rparr>, k_objects := om'\<rparr>"
  using assms
  by (auto simp: create_bootstrap_process_def create_bootstrap_def result_simps elim!: step_elims split: option.split_asm)

lemma process_new_empty: "process_new heap i handle_capacity object_quota = Ok p
    \<Longrightarrow> ht_slots (pr_handles p) = replicate handle_capacity \<lparr>hs_entry = None, hs_generation = INITIAL\<rparr>
      \<and> ht_capacity (pr_handles p) = handle_capacity"
  by (auto simp: process_new_def ht_with_capacity_def result_simps)

lemma create_object_needs_slot:
  assumes "create_object_handle kind rights (p, om) = (Ok h, s)"
  shows "ht_slots (pr_handles p) \<noteq> []"
  using assms
  by (cases "payload_for_kind kind")
    (auto simp: create_object_handle_def create_preflighted_object_handle_def ht_reserve_slot_def ht_free_index_def
      elim!: step_elims dest!: pr_reserve_object_handles)

text \<open>A new process enters with an empty table, to which the handle of its own object is then added.\<close>

lemma bootstrap_table:
  assumes ok: "kernel_ok B n lost k" and B: "B \<le> 2 ^ 32"
    and c: "handle_capacity \<le> B" "object_quota \<le> usize_max"
    and b: "create_bootstrap_process heap handle_capacity object_quota k = (Ok i, k')"
  obtains p h p' where "kernel_tables k i = None" "ht_wf (pr_handles p)" "\<forall>e. \<not> ht_has (pr_handles p) e"
    "create_object_handle KindProcess (HR_READ OR HR_MANAGE) (p, k_objects k) = (Ok h, (p', k_objects k'))"
    "kernel_tables k' = (kernel_tables k)(i \<mapsto> pr_handles p')"
    "cap_step i Create (cap_state ((kernel_tables k)(i \<mapsto> pr_handles p)) (k_objects k)) (caps_of k')"
proof -
  let ?ps = "ptb_processes (k_processes k)"
  obtain j p h p' om' where j: "position (\<lambda>slot. slot = None) ?ps = Some j" and i: "i = as_u64 j"
    and p: "process_new heap i handle_capacity object_quota = Ok p"
    and cr: "create_object_handle KindProcess (HR_READ OR HR_MANAGE) (p, k_objects k) = (Ok h, (p', om'))"
    and k': "k' = k\<lparr>k_processes := (k_processes k)\<lparr>ptb_processes := ?ps[j := Some p']\<rparr>, k_objects := om'\<rparr>"
    by (rule create_bootstrap_OkE [OF b])
  have jl: "j < length ?ps" "?ps ! j = None" using position_SomeD(1,2) [OF j] by simp_all
  have len: "length ?ps = ptb_capacity (k_processes k)" using ok by (simp add: kernel_ok_def)
  have "handle_capacity \<noteq> 0" using create_object_needs_slot [OF cr] process_new_empty [OF p] by auto
  then have "B \<noteq> 0" using c(1) by simp
  then have "length ?ps \<le> B * length ?ps" by simp
  also have "\<dots> < usize_max" using ok len by (simp add: kernel_ok_def)
  finally have u: "unat i = j" using jl(1) i by (simp add: as_u64_def unat_of_nat_u64)
  have none: "kernel_tables k i = None"
    using u jl len by (simp add: kernel_tables_def ptb_get_def ptb_index_def as_usize_def vec_get_def)
  have empty: "\<not> ht_has (pr_handles p) e" for e using process_new_empty [OF p] by (auto simp: ht_has_def)
  have wf: "ht_wf (pr_handles p)" using process_new_empty [OF p] c(1) B by (simp add: ht_wf_def)
  let ?T = "(kernel_tables k)(i \<mapsto> pr_handles p)"
  have T': "kernel_tables k' = ?T(i \<mapsto> pr_handles p')"
    using jl len u by (auto simp: fun_eq_iff kernel_tables_def k' ptb_get_def ptb_index_def as_usize_def vec_get_def nth_list_update word_unat_eq_iff)
  have shape: "om_shape (k_objects k)" using ok by (auto simp: kernel_ok_def dest: om_okD(3))
  have "cap_step i Create (cap_state ?T (k_objects k)) (cap_state (?T(i \<mapsto> pr_handles p')) om')"
    by (rule create_object_step [OF _ shape cr]) simp
  then have step: "cap_step i Create (cap_state ?T (k_objects k)) (caps_of k')" using T' k' by (simp add: caps_of_def)
  show ?thesis by (rule that [OF none wf _ _ _ step, of h p']) (use empty cr T' k' in simp_all)
qed

lemma bootstrap_isolated:
  assumes ok: "kernel_ok B n lost k" and iso: "kernel_isolated k" and B: "B \<le> 2 ^ 32"
    and c: "handle_capacity \<le> B" "object_quota \<le> usize_max"
    and b: "create_bootstrap_process heap handle_capacity object_quota k = (r, k')"
  shows "kernel_isolated k'"
proof (cases r)
  case (Ok i)
  obtain own where own: "isolated own (kernel_tables k) (endpoint_at (k_objects k))" using iso by (auto simp: kernel_isolated_def)
  obtain p h p' where p: "kernel_tables k i = None" "ht_wf (pr_handles p)" "\<forall>e. \<not> ht_has (pr_handles p) e"
    and "create_object_handle KindProcess (HR_READ OR HR_MANAGE) (p, k_objects k) = (Ok h, (p', k_objects k'))"
    and "kernel_tables k' = (kernel_tables k)(i \<mapsto> pr_handles p')"
    and step: "cap_step i Create (cap_state ((kernel_tables k)(i \<mapsto> pr_handles p)) (k_objects k)) (caps_of k')"
    by (rule bootstrap_table [OF ok B c b [unfolded Ok]])
  have iso': "isolated own ((kernel_tables k)(i \<mapsto> pr_handles p)) (endpoint_at (k_objects k))" by (rule isolated_new_table [OF own p(1,2)]) (use p(3) in blast)
  have "cap_live (cap_state ((kernel_tables k)(i \<mapsto> pr_handles p)) (k_objects k))"
    using kernel_cap_live [OF ok] p(3) cap_handles_table_upd [of _ "kernel_tables k" i "pr_handles p"]
    by (auto simp: cap_live_def caps_of_def cap_state_def)
  then show ?thesis
    using cap_step_isolated step iso' unfolding cap_state_def caps_of_def kernel_isolated_def by blast
next
  case (Err e)
  then show ?thesis using create_bootstrap_process_ok [OF ok B c, of heap] b iso by simp
next
  case Panic
  then show ?thesis using create_bootstrap_process_ok [OF ok B c, of heap] b by simp
qed

lemma kernel_run_isolated:
  assumes "kernel_run B H n k" and B: "B \<le> 2 ^ 32"
  shows "kernel_isolated k"
  using assms(1)
proof (induction rule: kernel_run.induct)
  case (run_boot heap D P ranges k n)
  have "kernel_tables k = (\<lambda>_. None)" "endpoint_at (k_objects k) = (\<lambda>_. None)"
    using run_boot(1)
    by (auto simp: fun_eq_iff kernel_new_def result_simps kernel_tables_def ptb_get_def ptb_index_def vec_get_def ptb_with_capacity_def
        endpoint_at_def om_at_def om_with_capacity_def as_usize_def)
  then show ?case by (simp add: kernel_isolated_def isolated_def)
next
  case (run_process n k heap handle_capacity object_quota r k')
  obtain lost where "kernel_ok B n lost k" using kernel_run_ok [OF run_process(1) B] by blast
  from bootstrap_isolated [OF this run_process.IH B run_process(3,4,2)] show ?case .
next
  case (run_call n k heap cx sc r k')
  obtain lost where "kernel_ok B (n + B + 4) lost k" using kernel_run_ok [OF run_call(1) B] by blast
  from execute_isolated [OF this run_call.IH run_call(3)] show ?case .
qed

text \<open>So in every reachable kernel the lineages of each table are free of cycles.\<close>

lemma kernel_run_lineage:
  assumes "kernel_run B H n k" and "B \<le> 2 ^ 32" and "ptb_get (k_processes k) i = Ok p"
  shows "ht_wf (pr_handles p)" "lineage_ok (pr_handles p)"
proof -
  obtain own where "isolated own (kernel_tables k) (endpoint_at (k_objects k))"
    using kernel_run_isolated [OF assms(1,2)] by (auto simp: kernel_isolated_def)
  from table_ownedD(1,2) [OF isolatedD(1) [OF this kernel_tables_at [OF assms(3)]]]
  show "ht_wf (pr_handles p)" "lineage_ok (pr_handles p)" .
qed

end
