(* ===== verification/Authority.thy ===== *)
theory Authority
  imports Isolation Object_Names
begin

text \<open>
  Authority over objects, kernel-wide: the rights of all handles to an object, in tables and in messages, and of
  all its mappings.  A system call only hands on authority that exists, and the name of a live object is not
  given to a new one; so over any run the authority over an object never grows.
\<close>

section \<open>Processes\<close>

lemma payload_for_kind_maps: "payload_for_kind kind = Ok p \<Longrightarrow> payload_holds p = {}"
  by (cases kind) (auto simp: as_new_def as_mappings_def as_refs_def rs_new_def pts_empty_def live_def List.map_filter_def)

lemma create_preflighted_evolves:
  assumes "create_preflighted_object_handle rights payload (p, om) = (r, (p', om'))" and "payload_holds payload = {}"
  shows "evolves A om om'"
  using assms(1)
  by (auto simp: create_preflighted_object_handle_def elim!: outcome_elims split: prod.split_asm result.split_asm
      dest!: commit_evolves [where A = A, OF _ assms(2)] install_reserved_evolves [where A = A] destroy_evolves [where A = A])
    (blast intro: evolves_trans)+

lemma create_object_evolves:
  assumes "create_object_handle kind rights (p, om) = (r, (p', om'))"
  shows "evolves A om om'"
  using assms by (auto simp: create_object_handle_def elim!: outcome_elims dest!: create_preflighted_evolves [OF _ payload_for_kind_maps])

lemma create_memory_object_evolves:
  assumes "create_memory_object_handle size_bytes rights (p, om, fa) = (r, (p', om', fa'))"
  shows "evolves A om om'"
  using assms
  by (auto simp: create_memory_object_handle_def Let_def elim!: outcome_elims split: prod.split_asm result.split_asm
      dest!: commit_evolves [where A = A] install_reserved_evolves [where A = A] destroy_memory_evolves [where A = A])
    (blast intro: evolves_trans)+

lemma create_channel_pair_evolves:
  assumes "create_channel_pair_handles max_messages rights (p, om, fa) = (r, (p', om', fa'))"
  shows "evolves A om om'"
  using assms
  by (auto simp: create_channel_pair_handles_def elim!: outcome_elims split: prod.split_asm result.split_asm if_split_asm
      dest!: create_pair_evolves [where A = A] install_evolves [where A = A] destroy_evolves [where A = A] close_evolves [where A = A])
    (blast intro: evolves_trans)+

lemma send_evolves:
  assumes "send_channel_message heap channel bytes handles (p, om) = (r, (p', om'))"
  shows "evolves A om om'"
  using assms
  by (auto simp: send_channel_message_def elim!: outcome_elims split: prod.split_asm result.split_asm dest!: enqueue_evolves [where A = A])

lemma recv_evolves:
  assumes "recv_channel_message heap channel (p, om) = (r, (p', om'))"
  shows "evolves A om om'"
  using assms
  by (auto simp: recv_channel_message_def elim!: outcome_elims split: if_split_asm dest!: dequeue_evolves [where A = A])

text \<open>What a call may add to the holdings: a mapping of the memory object its handle names, with the rights the handle
  has, in the address space that its other handle names.\<close>

definition new_mappings :: "syscall \<Rightarrow> handle_table \<Rightarrow> object_manager \<Rightarrow> (object_ref \<times> holding) set" where
  "new_mappings sc ht om = \<Union> {mapping_of (view_ref va) (view_ref vm) rights | va vm a memory base size_bytes offset rights.
     sc = MapMemoryObject a memory base size_bytes offset rights \<and> ht_lookup ht om a KindAddressSpace HR_MANAGE = Ok va
     \<and> ht_lookup ht om memory KindMemoryObject rights = Ok vm}"

lemma map_evolves:
  assumes "map_memory_object a memory base size_bytes offset rights (p, om) = (r, (p', om'))"
  shows "evolves (new_mappings (MapMemoryObject a memory base size_bytes offset rights) (pr_handles p) om) om om'"
proof -
  let ?A = "new_mappings (MapMemoryObject a memory base size_bytes offset rights) (pr_handles p) om"
  have new: "mapping_of (view_ref va) (view_ref vm) rights \<subseteq> ?A"
    if "ht_lookup (pr_handles p) om a KindAddressSpace HR_MANAGE = Ok va" "ht_lookup (pr_handles p) om memory KindMemoryObject rights = Ok vm" for va vm
    using that unfolding new_mappings_def by blast
  show ?thesis
    using assms
    by (auto simp: map_memory_object_def elim!: outcome_elims dest!: map_memory_evolves intro: evolves_mono [OF _ new])
qed

definition put_evolves :: "(object_ref \<times> holding) set \<Rightarrow> process_id \<Rightarrow> kernel \<Rightarrow> object_manager \<Rightarrow> kernel \<Rightarrow> bool" where
  "put_evolves A i k om k' \<longleftrightarrow> (\<exists>p' om' fa'. k' = k_put i k (p', om', fa') \<and> evolves A om om')"

lemma put_evolvesI: "evolves A om om' \<Longrightarrow> put_evolves A i k om (k_put i k (p', om', fa'))"
  unfolding put_evolves_def by blast

lemma dispatch_evolves:
  assumes "dispatch heap sc i k (p, om, fa) = Some (r, k')"
  shows "put_evolves (new_mappings sc (pr_handles p) om) i k om k'"
proof (cases sc)
  case (MapMemoryObject a m base size_bytes offset rights)
  then show ?thesis
    using assms by (auto simp: with_objects_def outcome_def elim!: apsndE split: prod.split_asm dest!: map_evolves intro!: put_evolvesI)
qed (use assms in \<open>auto simp: with_objects_def with_handles_def outcome_def unmap_address_range_def flush_address_space_tlb_def
      create_address_space_handle_eq elim!: outcome_elims split: prod.split_asm
      intro!: put_evolvesI intro: create_object_evolves create_memory_object_evolves create_channel_pair_evolves send_evolves recv_evolves
        duplicate_evolves close_evolves revoke_evolves unmap_evolves take_tlb_evolves\<close>)

section \<open>Runs\<close>

definition kernel_handles :: "kernel \<Rightarrow> handle_table_entry set" where
  "kernel_handles k = cap_handles (kernel_tables k) (endpoint_at (k_objects k))"

lemma caps_of_eq: "caps_of k = (kernel_tables k, endpoint_at (k_objects k), live_at (k_objects k))"
  by (simp add: caps_of_def cap_state_def)

lemma kernel_ok_named:
  assumes "kernel_ok B n lost k"
  shows "om_named (k_objects k)"
proof -
  have om: "om_wf (k_objects k)" using assms by (auto simp: kernel_ok_def dest: om_okD(2))
  show ?thesis
    unfolding om_named_def
  proof (intro conjI allI impI)
    show len: "length (om_entries (k_objects k)) = length (om_generations (k_objects k))"
      using om_wf_shape [OF om] by (simp add: om_shape_def)
    fix j e assume j: "j < length (om_entries (k_objects k))" "om_entries (k_objects k) ! j = Some e"
    then have u: "unat (of_nat j :: u64) = j" using om_wf_shape [OF om] by (simp add: om_shape_def unat_of_nat_u64)
    then have "om_at (k_objects k) (of_nat j) = Some e" using j om_wf_shape [OF om] by (simp add: om_at_def om_shape_def)
    from om_wf_at(1,2) [OF om this] show "oe_id e = of_nat j" "oe_generation e = om_generations (k_objects k) ! j"
      using u by (simp_all add: om_gen_def)
  qed
qed

lemma kernel_wf_tables: "kernel_ok B n lost k \<Longrightarrow> kernel_isolated k \<Longrightarrow> kernel_tables k i = Some ht \<Longrightarrow> ht_wf ht"
  unfolding kernel_isolated_def by (blast dest: isolatedD(1) table_ownedD(1))

text \<open>One step of a run, on handles, names and mappings.\<close>

definition passes_on :: "kernel \<Rightarrow> kernel \<Rightarrow> bool" where
  "passes_on k k' \<longleftrightarrow> om_steps (k_objects k) (k_objects k')
     \<and> (\<forall>d \<in> kernel_handles k'. (\<exists>e \<in> kernel_handles k. attenuates e d) \<or> om_at (k_objects k) (hte_object d) = None)
     \<and> (\<forall>(r, rights) \<in> om_mappings (k_objects k'). (r, rights) \<in> om_mappings (k_objects k)
        \<or> (\<exists>e \<in> kernel_handles k. object_of e = (or_id r, or_generation r) \<and> rights_contain (hte_rights e) rights))"

lemma step_passes_on:
  assumes step: "cap_step i a (caps_of k) (caps_of k')" and wf: "\<And>ht. kernel_tables k i = Some ht \<Longrightarrow> ht_wf ht"
  shows "\<forall>d \<in> kernel_handles k'. (\<exists>e \<in> kernel_handles k. attenuates e d) \<or> om_at (k_objects k) (hte_object d) = None"
  using cap_step_authority [OF step [unfolded caps_of_eq] wf] by (simp add: kernel_handles_def)

text \<open>The caller has a handle to both ends of the mapping, the one to the memory object with its rights.\<close>

lemma new_mapping_handles:
  assumes ho: "ho_ok C D m X L (ht, om)" and new: "(space, memory, x) \<in> new_mappings sc ht om"
  obtains h h' e e' where "ht_valid_entry ht h = Ok e" "object_of e = (or_id space, or_generation space)"
    "ht_valid_entry ht h' = Ok e'" "object_of e' = (or_id memory, or_generation memory)"
    "\<forall>rights. x = Some rights \<longrightarrow> rights_contain (hte_rights e') rights"
proof -
  obtain va vm a mem rights where va: "ht_lookup ht om a KindAddressSpace HR_MANAGE = Ok va" "space = view_ref va"
    and vm: "ht_lookup ht om mem KindMemoryObject rights = Ok vm" "memory = view_ref vm" and x: "x = Some rights \<or> x = None"
    using new by (auto simp: new_mappings_def mapping_of_def)
  obtain e where e: "ht_valid_entry ht a = Ok e" "hte_object e = sn_id (hvw_object va)" "hte_object_generation e = sn_generation (hvw_object va)"
    by (rule ht_lookup_valid [OF ho va(1)])
  obtain e' where e': "ht_valid_entry ht mem = Ok e'" "rights_contain (hte_rights e') rights"
    "hte_object e' = sn_id (hvw_object vm)" "hte_object_generation e' = sn_generation (hvw_object vm)"
    by (rule ht_lookup_valid [OF ho vm(1)])
  show ?thesis
    by (rule that [OF e(1) _ e'(1)]) (use e e' va(2) vm(2) x in \<open>auto simp: object_of_def view_ref_def\<close>)
qed

text \<open>A system call adds no holdings but those of a new mapping.\<close>

lemma call_holds:
  assumes ok: "kernel_ok B n lost k" and p: "ptb_get (k_processes k) (sc_process cx) = Ok p" and ex: "execute heap cx sc k = Some (r, k')"
  shows "om_steps (k_objects k) (k_objects k')"
    and "om_holds (k_objects k') \<subseteq> om_holds (k_objects k) \<union> new_mappings sc (pr_handles p) (k_objects k)"
proof -
  have "put_evolves (new_mappings sc (pr_handles p) (k_objects k)) (sc_process cx) k (k_objects k) k'"
    by (rule dispatch_evolves [where r = r]) (use ex in \<open>simp add: execute_at [OF p]\<close>)
  then have "evolves (new_mappings sc (pr_handles p) (k_objects k)) (k_objects k) (k_objects k')" by (auto simp: put_evolves_def)
  then show "om_steps (k_objects k) (k_objects k')"
    "om_holds (k_objects k') \<subseteq> om_holds (k_objects k) \<union> new_mappings sc (pr_handles p) (k_objects k)"
    using kernel_ok_named [OF ok] by (simp_all add: evolves_def)
qed

lemma new_mapping_passes_on:
  assumes p: "ptb_get (k_processes k) i = Ok p" and ho: "ho_ok C D m X L (pr_handles p, k_objects k)"
    and wf: "ht_wf (pr_handles p)" and sub: "om_holds (k_objects k') \<subseteq> om_holds (k_objects k) \<union> new_mappings sc (pr_handles p) (k_objects k)"
    and held: "(r, rights) \<in> om_mappings (k_objects k')"
  shows "(r, rights) \<in> om_mappings (k_objects k)
    \<or> (\<exists>e \<in> kernel_handles k. object_of e = (or_id r, or_generation r) \<and> rights_contain (hte_rights e) rights)"
proof -
  obtain space where "(space, r, Some rights) \<in> om_holds (k_objects k')" using held by (auto simp: om_mappings_def)
  then consider "(space, r, Some rights) \<in> om_holds (k_objects k)" | "(space, r, Some rights) \<in> new_mappings sc (pr_handles p) (k_objects k)"
    using sub by blast
  then show ?thesis
  proof cases
    case 2
    then show ?thesis
    proof (rule new_mapping_handles [OF ho])
      fix h e assume e: "ht_valid_entry (pr_handles p) h = Ok e" "object_of e = (or_id r, or_generation r)"
        "\<forall>rights'. Some rights = Some rights' \<longrightarrow> rights_contain (hte_rights e) rights'"
      have "e \<in> kernel_handles k"
        unfolding kernel_handles_def
        by (rule cap_handlesI(1) [of "kernel_tables k", OF kernel_tables_at [OF p] ht_valid_entry_has [OF wf e(1)]])
      then show ?thesis using e(2,3) by blast
    qed
  qed (auto simp: om_mappings_def)
qed

lemma call_passes_on:
  assumes run: "kernel_run B H (n + B + 4) k" and B: "B \<le> 2 ^ 32" and ex: "execute heap cx sc k = Some (r, k')"
  shows "passes_on k k'"
proof -
  let ?i = "sc_process cx"
  obtain lost where ok: "kernel_ok B (n + B + 4) lost k" using kernel_run_ok [OF run B] by blast
  note iso = kernel_run_isolated [OF run B]
  obtain a where "cap_step ?i a (caps_of k) (caps_of k')" using execute_step [OF ok ex] by blast
  then have handles: "\<forall>d \<in> kernel_handles k'. (\<exists>e \<in> kernel_handles k. attenuates e d) \<or> om_at (k_objects k) (hte_object d) = None"
    by (rule step_passes_on) (rule kernel_wf_tables [OF ok iso])
  show ?thesis
  proof (cases "ptb_get (k_processes k) ?i")
    case (Ok p)
    note ev = call_holds [OF ok Ok ex]
    obtain C D X L where ho: "ho_ok C D (n + B + 4) X L (pr_handles p, k_objects k)" by (rule kernel_run_handles [OF run B Ok])
    have wf: "ht_wf (pr_handles p)" by (rule kernel_wf_tables [OF ok iso kernel_tables_at [OF Ok]])
    have "\<forall>(r, rights) \<in> om_mappings (k_objects k'). (r, rights) \<in> om_mappings (k_objects k)
        \<or> (\<exists>e \<in> kernel_handles k. object_of e = (or_id r, or_generation r) \<and> rights_contain (hte_rights e) rights)"
      using new_mapping_passes_on [OF Ok ho wf ev(2)] by blast
    then show ?thesis unfolding passes_on_def using handles ev(1) by blast
  qed (use ex handles in \<open>auto simp: execute_def passes_on_def\<close>)
qed

lemma empty_table_handles:
  assumes "\<forall>e. \<not> ht_has ht e"
  shows "cap_handles (T(i \<mapsto> ht)) E \<subseteq> cap_handles T E"
  using assms cap_handles_table_upd by blast

text \<open>What creating a process does: it enters a table without handles, which then makes the step of an object creation.\<close>

lemma process_passes_on:
  assumes run: "kernel_run B H n k" and B: "B \<le> 2 ^ 32"
    and c: "handle_capacity \<le> B" "object_quota \<le> usize_max" and b: "create_bootstrap_process heap handle_capacity object_quota k = (r, k')"
  shows "passes_on k k'"
proof -
  obtain lost where ok: "kernel_ok B n lost k" using kernel_run_ok [OF run B] by blast
  have "\<exists>e \<in> kernel_handles k. attenuates e d" if "d \<in> kernel_handles k" for d using that attenuates_refl [of d] by metis
  then have same: "passes_on k k" by (auto simp: passes_on_def)
  show ?thesis
  proof (cases r)
    case (Ok i)
    obtain p h p' where "kernel_tables k i = None" and p: "ht_wf (pr_handles p)" "\<forall>e. \<not> ht_has (pr_handles p) e"
      and cr: "create_object_handle KindProcess (HR_READ OR HR_MANAGE) (p, k_objects k) = (Ok h, (p', k_objects k'))"
      and T: "kernel_tables k' = (kernel_tables k)(i \<mapsto> pr_handles p')"
      and step: "cap_step i Create (cap_state ((kernel_tables k)(i \<mapsto> pr_handles p)) (k_objects k)) (caps_of k')"
      by (rule bootstrap_table [OF ok B c b [unfolded Ok]])
    let ?T = "(kernel_tables k)(i \<mapsto> pr_handles p)"
    have sub: "cap_handles ?T (endpoint_at (k_objects k)) \<subseteq> kernel_handles k"
      unfolding kernel_handles_def by (rule empty_table_handles [OF p(2)])
    have handles: "\<forall>d \<in> kernel_handles k'. (\<exists>e \<in> kernel_handles k. attenuates e d) \<or> om_at (k_objects k) (hte_object d) = None"
    proof
      fix d assume d: "d \<in> kernel_handles k'"
      have "(\<exists>e \<in> cap_handles ?T (endpoint_at (k_objects k)). attenuates e d) \<or> live_at (k_objects k) (hte_object d) = None"
        by (rule cap_step_authority [OF step [unfolded cap_state_def caps_of_eq]]) (use p(1) d in \<open>simp_all add: kernel_handles_def\<close>)
      then show "(\<exists>e \<in> kernel_handles k. attenuates e d) \<or> om_at (k_objects k) (hte_object d) = None"
        using sub by (metis live_at_None subsetD)
    qed
    have "om_steps (k_objects k) (k_objects k')" "om_mappings (k_objects k') \<subseteq> om_mappings (k_objects k)"
      using create_object_evolves [OF cr, of "{}"] kernel_ok_named [OF ok] by (auto simp: evolves_def om_mappings_def)
    then show ?thesis unfolding passes_on_def using handles by blast
  qed (use create_bootstrap_process_ok [OF ok B c, of heap] b same in simp_all)
qed

lemma kernel_next_passes_on:
  assumes "kernel_next B H (n, k) (m, k')" and "kernel_run B H n k" and "B \<le> 2 ^ 32"
  shows "passes_on k k'"
  using assms by (cases rule: kernel_next.cases) (auto intro: process_passes_on call_passes_on)

lemma kernel_later_objects:
  assumes "kernel_later B H (n, k) (m, k')" and run: "kernel_run B H n k" and B: "B \<le> 2 ^ 32"
  shows "om_steps (k_objects k) (k_objects k')"
  using assms(1)
proof (induction rule: rtranclp_induct2)
  case (step m1 k1 m2 k2)
  have "passes_on k1 k2" by (rule kernel_next_passes_on [OF step.hyps(2) kernel_later_run [OF step.hyps(1) run] B])
  then show ?case using step.IH by (auto simp: passes_on_def)
qed simp

text \<open>An object is at its id with its generation exactly when its name resolves in the slot arena.\<close>

lemma om_at_resolves:
  assumes "om_wf om" and "unat i < length (om_entries om)"
  shows "(\<exists>e. om_at om i = Some e \<and> oe_generation e = g) \<longleftrightarrow> object_names.resolves om (unat i) g"
proof -
  have len: "length (om_entries om) = om_capacity om" "length (om_generations om) = om_capacity om"
    using om_wf_shape [OF assms(1)] by (simp_all add: om_shape_def)
  show ?thesis
  proof (cases "om_at om i")
    case (Some e)
    then show ?thesis
      using om_wf_at(2) [OF assms(1) Some] len assms(2)
      by (auto simp: object_names.resolves_def om_occupied_def om_slot_generation_def om_gen_def om_at_def)
  qed (use len assms(2) in \<open>auto simp: object_names.resolves_def om_occupied_def om_at_def\<close>)
qed

lemma kernel_run_wf:
  assumes "kernel_run B H n k" and "B \<le> 2 ^ 32"
  shows "om_wf (k_objects k)"
  using kernel_run_ok [OF assms] by (auto simp: kernel_ok_def dest: om_okD(2))

lemma om_steps_length: "om_steps om om' \<Longrightarrow> length (om_entries om') = length (om_entries om)"
  by (induction rule: rtranclp_induct) (auto simp: om_step.simps om_set_entry_def om_empty_slot_def)

text \<open>An object that is live now and later was live all the time between: its name is not given away.\<close>

lemma live_between:
  assumes run: "kernel_run B H n k" "kernel_run B H n1 k1" "kernel_run B H n2 k2" and B: "B \<le> 2 ^ 32"
    and steps: "om_steps (k_objects k) (k_objects k1)" "om_steps (k_objects k1) (k_objects k2)"
    and x: "om_at (k_objects k) i = Some x" and y: "om_at (k_objects k2) i = Some y" "oe_generation y = oe_generation x"
  obtains z where "om_at (k_objects k1) i = Some z" "oe_generation z = oe_generation x"
proof -
  note wf = kernel_run_wf [OF run(1) B] kernel_run_wf [OF run(2) B] kernel_run_wf [OF run(3) B]
  have i: "unat i < length (om_entries (k_objects k))" 
    using x om_wf_shape [OF wf(1)] by (auto simp: om_at_def om_shape_def split: if_splits)
  have "object_names.resolves (k_objects k) (unat i) (oe_generation x)" "object_names.resolves (k_objects k2) (unat i) (oe_generation x)"
    using om_at_resolves [OF wf(1) i] om_at_resolves [OF wf(3)] x y i om_steps_length steps by auto
  then have "object_names.resolves (k_objects k1) (unat i) (oe_generation x)"
    using object_names.released_name_never_resolves [OF steps(1) _ _ steps(2)] by blast
  then show ?thesis using om_at_resolves [OF wf(2)] i om_steps_length [OF steps(1)] that by auto
qed

lemma kernel_handles_live:
  assumes run: "kernel_run B H n k" and B: "B \<le> 2 ^ 32" and d: "d \<in> kernel_handles k"
  obtains x where "om_at (k_objects k) (hte_object d) = Some x" "oe_generation x = hte_object_generation d"
proof -
  obtain lost where ok: "kernel_ok B n lost k" using kernel_run_ok [OF run B] by blast
  have "names (k_objects k) (hte_ref d)" by (rule kernel_handles_named [OF ok]) (use d in \<open>simp add: kernel_handles_def\<close>)
  then show ?thesis using that by (auto simp: names_iff hte_ref_def)
qed

lemma later_authority:
  assumes "kernel_later B H (n, k) (m, k')" and run: "kernel_run B H n k" and B: "B \<le> 2 ^ 32"
    and x: "om_at (k_objects k) i = Some x" and d: "d \<in> kernel_handles k'" "object_of d = (i, oe_generation x)"
  shows "\<exists>e \<in> kernel_handles k. attenuates e d"
  using assms(1) d
proof (induction arbitrary: d rule: rtranclp_induct2)
  case refl
  then show ?case using attenuates_refl [of d] by metis
next
  case (step m1 k1 m2 k2)
  note run1 = kernel_later_run [OF step.hyps(1) run]
  note run2 = kernel_next_run [OF step.hyps(2) run1]
  have pass: "passes_on k1 k2" by (rule kernel_next_passes_on [OF step.hyps(2) run1 B])
  obtain y where y: "om_at (k_objects k2) i = Some y" "oe_generation y = oe_generation x"
    by (rule kernel_handles_live [OF run2 B step.prems(1)]) (use step.prems(2) in \<open>simp add: object_of_def\<close>)
  obtain z where "om_at (k_objects k1) i = Some z"
    by (rule live_between [OF run run1 run2 B kernel_later_objects [OF step.hyps(1) run B] _ x y])
      (use pass in \<open>simp_all add: passes_on_def\<close>)
  then obtain e where e: "e \<in> kernel_handles k1" "attenuates e d"
    using pass step.prems by (auto simp: passes_on_def object_of_def)
  then have "object_of e = (i, oe_generation x)" using step.prems(2) by (simp add: attenuates_def)
  from step.IH [OF e(1) this] show ?case using attenuates_trans e(2) by blast
qed

lemma later_mappings:
  assumes "kernel_later B H (n, k) (m, k')" and run: "kernel_run B H n k" and B: "B \<le> 2 ^ 32"
    and x: "om_at (k_objects k) (or_id r) = Some x" "oe_generation x = or_generation r" and m: "(r, rights) \<in> om_mappings (k_objects k')"
  shows "(r, rights) \<in> om_mappings (k_objects k)
    \<or> (\<exists>e \<in> kernel_handles k. object_of e = (or_id r, or_generation r) \<and> rights_contain (hte_rights e) rights)"
  using assms(1) m
proof (induction rule: rtranclp_induct2)
  case (step m1 k1 m2 k2)
  have "passes_on k1 k2" by (rule kernel_next_passes_on [OF step.hyps(2) kernel_later_run [OF step.hyps(1) run] B])
  then consider "(r, rights) \<in> om_mappings (k_objects k1)"
    | e where "e \<in> kernel_handles k1" "object_of e = (or_id r, or_generation r)" "rights_contain (hte_rights e) rights"
    using step.prems unfolding passes_on_def by blast
  then show ?case
  proof cases
    case 1
    then show ?thesis by (rule step.IH)
  next
    case 2
    obtain d where "d \<in> kernel_handles k" "attenuates d e"
      using later_authority [OF step.hyps(1) run B x(1) 2(1)] 2(2) x(2) by auto
    then show ?thesis using 2(2,3) by (auto simp: attenuates_def intro: rights_contain_trans)
  qed
qed simp

end
