(* ===== verification/Memory_Isolation.thy ===== *)
theory Memory_Isolation
  imports Authority
begin

text \<open>
  Isolation of memory.  A process can reach a page of physical memory through a handle to a memory object that has
  the page, or through a handle to an address space that maps such an object or has yet to flush it from the TLBs.
  Address spaces only hold memory of their own owner, so no page is in the reach of two processes.
\<close>

section \<open>Reach\<close>

definition memory_pages :: "kernel \<Rightarrow> object_ref \<Rightarrow> nat set" where
  "memory_pages k r = {page. \<exists>c m. om_at (k_objects k) (or_id r) = Some c \<and> oe_generation c = or_generation r
     \<and> oe_payload c = PMemoryObject m \<and> page \<in> mfr_pages (mo_frame_range m)}"

definition object_pages :: "kernel \<Rightarrow> object_ref \<Rightarrow> nat set" where
  "object_pages k r = memory_pages k r \<union> (\<Union> {memory_pages k memory | memory x. (r, memory, x) \<in> om_holds (k_objects k)})"

definition process_pages :: "kernel \<Rightarrow> process_id \<Rightarrow> nat set" where
  "process_pages k i = \<Union> {object_pages k \<lparr>or_id = hte_object e, or_generation = hte_object_generation e\<rparr> | p e.
     ptb_get (k_processes k) i = Ok p \<and> ht_has (pr_handles p) e}"

text \<open>A page that a memory object has is allocated to it.\<close>

lemma memory_pages_allocated:
  assumes run: "kernel_run B H n k" and B: "B \<le> 2 ^ 32" and page: "page \<in> memory_pages k r"
  shows "fa_view (k_frames k) page = Some (Allocated (OwnerMemoryObject (or_id r) (or_generation r)))"
proof (rule kernel_run_objects [OF run B])
  fix lost L
  assume om: "om_ok (om_capacity (k_objects k)) n (lost + table_refs (ptb_processes (k_processes k))) {#} L (k_objects k)"
    and fa: "fa_ok n L (k_frames k)"
  obtain c m where c: "om_at (k_objects k) (or_id r) = Some c" "oe_generation c = or_generation r" "oe_payload c = PMemoryObject m"
    and p: "page \<in> mfr_pages (mo_frame_range m)" using page by (auto simp: memory_pages_def)
  have "(OwnerMemoryObject (or_id r) (or_generation r), mo_frame_range m) \<in> L" using om_lease_unique [OF om c(1)] c by simp
  then show ?thesis using fa p by (auto simp: fa_ok_def frames.leased_def)
qed

section \<open>Owners\<close>

abbreviation key :: "object_ref \<Rightarrow> object_id \<times> object_generation" where
  "key r \<equiv> (or_id r, or_generation r)"

definition kernel_owned :: "owners \<Rightarrow> kernel \<Rightarrow> bool" where
  "kernel_owned own k \<longleftrightarrow> isolated own (kernel_tables k) (endpoint_at (k_objects k))
     \<and> (\<forall>(space, memory, x) \<in> om_holds (k_objects k). own (key space) = own (key memory))"

lemma kernel_holds_at:
  assumes ok: "kernel_ok B n lost k"
  shows "(r, h) \<in> om_holds (k_objects k) \<longleftrightarrow> (\<exists>e. om_at (k_objects k) (or_id r) = Some e
    \<and> oe_generation e = or_generation r \<and> h \<in> payload_holds (oe_payload e))" (is "_ \<longleftrightarrow> ?R")
proof -
  let ?om = "k_objects k"
  obtain L where om: "om_ok (om_capacity ?om) n (lost + table_refs (ptb_processes (k_processes k))) {#} L ?om"
    using ok by (auto simp: kernel_ok_def)
  note shape = om_okD(3) [OF om]
  show ?thesis
  proof
    assume "(r, h) \<in> om_holds ?om"
    then obtain j e where j: "j < length (om_entries ?om)" "om_entries ?om ! j = Some e"
      and e: "r = oe_ref e" "h \<in> payload_holds (oe_payload e)" by (auto simp: om_holds_iff)
    have "unat (of_nat j :: u64) = j" using j(1) shape by (simp add: om_shape_def unat_of_nat_u64)
    then have "om_at ?om (oe_id e) = Some e"
      using om_named_entry(2) [OF kernel_ok_named [OF ok] j(2,1)] j shape by (simp add: om_at_def om_shape_def)
    then show ?R using e by (simp add: oe_ref_def)
  next
    assume ?R
    then obtain e where e: "om_at ?om (or_id r) = Some e" "oe_generation e = or_generation r" "h \<in> payload_holds (oe_payload e)" by blast
    have "r = oe_ref e" using e om_ok_at(1) [OF om e(1)] by (simp add: oe_ref_def)
    then show "(r, h) \<in> om_holds ?om" using om_slot [OF om e(1)] e(3) unfolding om_holds_iff by blast
  qed
qed

lemma kernel_holds_live:
  assumes ok: "kernel_ok B n lost k" and h: "(space, memory, x) \<in> om_holds (k_objects k)"
  shows "live_at (k_objects k) (or_id space) = Some (or_generation space)"
    "live_at (k_objects k) (or_id memory) = Some (or_generation memory)"
proof -
  let ?om = "k_objects k"
  obtain L where om: "om_ok (om_capacity ?om) n (lost + table_refs (ptb_processes (k_processes k))) {#} L ?om"
    using ok by (auto simp: kernel_ok_def)
  obtain e where e: "om_at ?om (or_id space) = Some e" "oe_generation e = or_generation space" "(memory, x) \<in> payload_holds (oe_payload e)"
    using h unfolding kernel_holds_at [OF ok] by blast
  then show "live_at ?om (or_id space) = Some (or_generation space)" by (simp add: live_at_def)
  obtain a where a: "oe_payload e = PAddressSpace a" "memory \<in># as_refs a"
    using e(3) by (cases "oe_payload e") (auto simp: as_refs_def)
  have "memory \<in># om_maps ?om" using mset_subset_eqD [OF as_refs_counted [OF e(1) a(1) om_okD(3) [OF om]] a(2)] .
  then have "names_memory ?om memory" by (rule om_ok_names(4) [OF om])
  then show "live_at ?om (or_id memory) = Some (or_generation memory)" by (auto simp: names_memory_def names_iff live_at_def)
qed

lemma kernel_holds_alive:
  assumes "kernel_ok B n lost k" and "(space, memory, x) \<in> om_holds (k_objects k)"
  shows "live_at (k_objects k) (or_id space) \<noteq> None \<and> live_at (k_objects k) (or_id memory) \<noteq> None"
  unfolding kernel_holds_live [OF assms] by simp

text \<open>One step: owners of objects that live do not change, and a new holding has ends with one owner.\<close>

lemma owned_step:
  assumes step: "cap_step i a (T, endpoint_at om, live_at om) (caps_of k')" and live: "cap_live (T, endpoint_at om, live_at om)"
    and iso: "isolated own T (endpoint_at om)"
    and held: "\<And>s m x. (s, m, x) \<in> om_holds (k_objects k') \<Longrightarrow> own (key s) = own (key m)
      \<and> live_at om (or_id s) \<noteq> None \<and> live_at om (or_id m) \<noteq> None"
  shows "\<exists>own'. kernel_owned own' k'"
proof -
  obtain own' where own': "isolated own' (kernel_tables k') (endpoint_at (k_objects k'))"
    "\<And>j g. live_at om j \<noteq> None \<Longrightarrow> own' (j, g) = own (j, g)"
    using cap_step_owners [OF step [unfolded caps_of_eq] live iso] by blast
  then have "own' (key s) = own' (key m)" if "(s, m, x) \<in> om_holds (k_objects k')" for s m x using held [OF that] by metis
  then have "kernel_owned own' k'" unfolding kernel_owned_def using own'(1) by blast
  then show ?thesis by (rule exI [of _ own'])
qed

lemma call_owned:
  assumes run: "kernel_run B H (n + B + 4) k" and B: "B \<le> 2 ^ 32" and owned: "kernel_owned own k"
    and ex: "execute heap cx sc k = Some (r, k')"
  shows "\<exists>own'. kernel_owned own' k'"
proof (cases "ptb_get (k_processes k) (sc_process cx)")
  case (Ok p)
  obtain lost where ok: "kernel_ok B (n + B + 4) lost k" using kernel_run_ok [OF run B] by blast
  obtain C D X L where ho: "ho_ok C D (n + B + 4) X L (pr_handles p, k_objects k)" by (rule kernel_run_handles [OF run B Ok])
  obtain a where step: "cap_step (sc_process cx) a (caps_of k) (caps_of k')" using execute_step [OF ok ex] by blast
  have iso: "isolated own (kernel_tables k) (endpoint_at (k_objects k))" using owned by (simp add: kernel_owned_def)
  have mine: "own (object_of e) = sc_process cx" "live_at (k_objects k) (hte_object e) \<noteq> None" if "ht_valid_entry (pr_handles p) h = Ok e" for h e
  proof -
    note table = isolatedD(1) [where T = "kernel_tables k", OF iso kernel_tables_at [OF Ok]]
    show "own (object_of e) = sc_process cx" by (rule table_ownedD(5) [OF table that])
    have "e \<in> cap_handles (kernel_tables k) (endpoint_at (k_objects k))"
      by (rule cap_handlesI(1) [of "kernel_tables k", OF kernel_tables_at [OF Ok] ht_valid_entry_has [OF table_ownedD(1) [OF table] that]])
    then show "live_at (k_objects k) (hte_object e) \<noteq> None"
      using kernel_handles_named [OF ok] by (fastforce simp: names_iff hte_ref_def live_at_def)
  qed
  show ?thesis
  proof (rule owned_step [OF step [unfolded caps_of_eq [of k]] kernel_cap_live [OF ok, unfolded caps_of_eq] iso])
    fix s m x assume "(s, m, x) \<in> om_holds (k_objects k')"
    then consider "(s, m, x) \<in> om_holds (k_objects k)" | "(s, m, x) \<in> new_mappings sc (pr_handles p) (k_objects k)"
      using call_holds(2) [OF ok Ok ex] by blast
    then show "own (key s) = own (key m) \<and> live_at (k_objects k) (or_id s) \<noteq> None \<and> live_at (k_objects k) (or_id m) \<noteq> None"
    proof cases
      case 1
      then show ?thesis using owned kernel_holds_alive [OF ok 1] by (auto simp: kernel_owned_def)
    next
      case 2
      then show ?thesis
      proof (rule new_mapping_handles [OF ho])
        fix h h' e e' assume e: "ht_valid_entry (pr_handles p) h = Ok e" "object_of e = key s"
          and e': "ht_valid_entry (pr_handles p) h' = Ok e'" "object_of e' = key m"
        have "own (key s) = own (key m)" using mine(1) [OF e(1)] mine(1) [OF e'(1)] e(2) e'(2) by simp
        then show ?thesis using mine(2) [OF e(1)] mine(2) [OF e'(1)] e(2) e'(2) by (simp add: object_of_def)
      qed
    qed
  qed
qed (use ex owned in \<open>auto simp: execute_def\<close>)

lemma process_owned:
  assumes run: "kernel_run B H n k" and B: "B \<le> 2 ^ 32" and owned: "kernel_owned own k"
    and c: "handle_capacity \<le> B" "object_quota \<le> usize_max" and b: "create_bootstrap_process heap handle_capacity object_quota k = (r, k')"
  shows "\<exists>own'. kernel_owned own' k'"
proof -
  obtain lost where ok: "kernel_ok B n lost k" using kernel_run_ok [OF run B] by blast
  show ?thesis
  proof (cases r)
    case (Ok i)
    obtain p h p' where p: "kernel_tables k i = None" "ht_wf (pr_handles p)" "\<forall>e. \<not> ht_has (pr_handles p) e"
      and cr: "create_object_handle KindProcess (HR_READ OR HR_MANAGE) (p, k_objects k) = (Ok h, (p', k_objects k'))"
      and "kernel_tables k' = (kernel_tables k)(i \<mapsto> pr_handles p')"
      and step: "cap_step i Create (cap_state ((kernel_tables k)(i \<mapsto> pr_handles p)) (k_objects k)) (caps_of k')"
      by (rule bootstrap_table [OF ok B c b [unfolded Ok]])
    have iso: "isolated own ((kernel_tables k)(i \<mapsto> pr_handles p)) (endpoint_at (k_objects k))"
      by (rule isolated_new_table [where T = "kernel_tables k", OF _ p(1,2)]) (use p(3) owned in \<open>auto simp: kernel_owned_def\<close>)
    have live: "cap_live ((kernel_tables k)(i \<mapsto> pr_handles p), endpoint_at (k_objects k), live_at (k_objects k))"
      using kernel_cap_live [OF ok] empty_table_handles [OF p(3)] by (fastforce simp: cap_live_def caps_of_eq)
    have "om_holds (k_objects k') \<subseteq> om_holds (k_objects k)"
      using create_object_evolves [OF cr, of "{}"] kernel_ok_named [OF ok] by (simp add: evolves_def)
    then show ?thesis
      using owned kernel_holds_alive [OF ok]
      by (intro owned_step [OF step [unfolded cap_state_def] live iso]) (auto simp: kernel_owned_def)
  qed (use create_bootstrap_process_ok [OF ok B c, of heap] b owned in auto)
qed

lemma kernel_run_owned:
  assumes "kernel_run B H n k" and B: "B \<le> 2 ^ 32"
  shows "\<exists>own. kernel_owned own k"
  using assms(1)
proof (induction rule: kernel_run.induct)
  case (run_boot heap D P ranges k n)
  have "\<exists>own. isolated own (kernel_tables k) (endpoint_at (k_objects k))"
    using kernel_run_isolated [OF kernel_run.run_boot [OF run_boot] B] by (auto simp: kernel_isolated_def)
  moreover have "om_holds (k_objects k) = {}"
    using run_boot(1) by (auto simp: kernel_new_def result_simps om_with_capacity_def om_holds_def live_def List.map_filter_def)
  ultimately show ?case by (simp add: kernel_owned_def)
next
  case (run_process n k heap handle_capacity object_quota r k')
  then show ?case using process_owned [OF run_process(1) B _ run_process(3,4,2)] by blast
next
  case (run_call n k heap cx sc r k')
  then show ?case using call_owned [OF run_call(1) B _ run_call(3)] by blast
qed

text \<open>So the owner of a page that a process reaches is the process.\<close>

lemma process_pages_owned:
  assumes owned: "kernel_owned own k" and page: "page \<in> process_pages k i"
  obtains r where "page \<in> memory_pages k r" "own (key r) = i"
proof -
  obtain p e where p: "ptb_get (k_processes k) i = Ok p" "ht_has (pr_handles p) e"
    and pg: "page \<in> object_pages k \<lparr>or_id = hte_object e, or_generation = hte_object_generation e\<rparr>" (is "_ \<in> object_pages k ?r")
    using page by (auto simp: process_pages_def)
  have own: "own (key ?r) = i"
    using owned table_ownedD(3) [OF isolatedD(1) [where T = "kernel_tables k", OF _ kernel_tables_at [OF p(1)]] p(2)]
    by (auto simp: kernel_owned_def object_of_def)
  show ?thesis
  proof (cases "page \<in> memory_pages k ?r")
    case True
    then show ?thesis using own that by blast
  next
    case False
    then obtain memory x where m: "page \<in> memory_pages k memory" "(?r, memory, x) \<in> om_holds (k_objects k)"
      using pg by (auto simp: object_pages_def)
    then have "own (key memory) = own (key ?r)" using owned by (auto simp: kernel_owned_def)
    then show ?thesis using m(1) own that by simp
  qed
qed

lemma process_pages_disjoint:
  assumes run: "kernel_run B H n k" and B: "B \<le> 2 ^ 32" and page: "page \<in> process_pages k i" "page \<in> process_pages k j"
  shows "i = j"
proof -
  obtain own where owned: "kernel_owned own k" using kernel_run_owned [OF run B] by blast
  obtain r where r: "page \<in> memory_pages k r" "own (key r) = i" by (rule process_pages_owned [OF owned page(1)])
  obtain s where s: "page \<in> memory_pages k s" "own (key s) = j" by (rule process_pages_owned [OF owned page(2)])
  have "key r = key s" using memory_pages_allocated [OF run B r(1)] memory_pages_allocated [OF run B s(1)] by simp
  then show ?thesis using r(2) s(2) by simp
qed

end
