(* ===== verification/Integrity.thy ===== *)
theory Integrity
  imports Object_Reach Memory_Isolation
begin

text \<open>
  Integrity of the other processes.  A system call of a process stays within the objects that the process owns: the
  handle table of another process, the objects its handles refer to, the contents of their slots and the memory it
  can reach are after the call what they were before it.
\<close>

section \<open>The operations on handles\<close>

definition reaches :: "nat set \<Rightarrow> handle_table \<Rightarrow> bool" where
  "reaches S ht \<longleftrightarrow> (\<forall>slot \<in> set (ht_slots ht). \<forall>e. hs_entry slot = Some e \<longrightarrow> unat (hte_object e) \<in> S)"

lemma reaches_entry: "reaches S ht \<Longrightarrow> ht_entry ht h = Ok e \<Longrightarrow> unat (hte_object e) \<in> S"
  by (fastforce simp: reaches_def ht_entry_def ht_slot_def result_simps)

lemma reaches_valid: "reaches S ht \<Longrightarrow> ht_valid_entry ht h = Ok e \<Longrightarrow> unat (hte_object e) \<in> S"
  by (auto simp: ht_valid_entry_def result_simps split: if_split_asm intro: reaches_entry)

lemma reaches_update:
  "reaches S ht \<Longrightarrow> (\<And>e. hs_entry slot = Some e \<Longrightarrow> unat (hte_object e) \<in> S) \<Longrightarrow> reaches S (ht\<lparr>ht_slots := (ht_slots ht)[i := slot]\<rparr>)"
  by (auto simp: reaches_def dest!: set_update_subset_insert [THEN subsetD])

lemma reaches_put: "reaches S ht \<Longrightarrow> unat (hte_object e) \<in> S \<Longrightarrow> reaches S (ht_put_entry ht i (Some e))"
  unfolding ht_put_entry_def by (rule reaches_update) simp_all

lemma reaches_remove: "ht_remove_entry h ht = (r, ht') \<Longrightarrow> reaches S ht \<Longrightarrow> reaches S ht'"
  by (auto simp: ht_remove_entry_def elim!: outcome_elims intro: reaches_update)

lemma lookup_within:
  assumes "within S E om" and "reaches S ht" and "ht_lookup ht om h kind rights = Ok v"
  shows "unat (sn_id (hvw_object v)) \<in> S" "unat (or_id (view_ref v)) \<in> S"
proof -
  obtain e where e: "ht_valid_entry ht h = Ok e"
    "om_validate om (hte_object e) (hte_object_generation e) kind = Ok (hvw_object v)"
    using assms(3) by (auto simp: ht_lookup_def result_simps split: if_split_asm)
  have "sn_id (hvw_object v) = hte_object e" by (rule validate_id [OF assms(1) e(2)])
  then show "unat (sn_id (hvw_object v)) \<in> S" "unat (or_id (view_ref v)) \<in> S"
    using reaches_valid [OF assms(2) e(1)] by (simp_all add: view_ref_def)
qed

abbreviation both :: "nat set \<Rightarrow> object_entry option list \<Rightarrow> handle_table \<Rightarrow> object_manager \<Rightarrow> bool" where
  "both S E ht om \<equiv> reaches S ht \<and> within S E om"

lemma install_reserved_within:
  "ht_install_reserved rv object rights (ht, om) = (r, (ht', om')) \<Longrightarrow> both S E ht om \<Longrightarrow> unat (sn_id object) \<in> S \<Longrightarrow> both S E ht' om'"
  by (auto simp: ht_install_reserved_def elim!: outcome_elims split: if_split_asm intro: add_handle_within intro!: reaches_put)

lemma install_within: "ht_install object rights (ht, om) = (r, (ht', om')) \<Longrightarrow> both S E ht om \<Longrightarrow> unat (sn_id object) \<in> S \<Longrightarrow> both S E ht' om'"
  by (auto simp: ht_install_def elim!: outcome_elims dest: install_reserved_within)

lemma duplicate_within:
  assumes "ht_duplicate source rights (ht, om) = (r, (ht', om'))" and "both S E ht om"
  shows "within S E om'"
proof (cases "om' = om")
  case False
  obtain e s r1 ht1 where e: "ht_valid_entry ht source = Ok e"
    and s: "om_validate om (hte_object e) (hte_object_generation e) (hte_kind e) = Ok s"
    and m: "ht_install s rights (ht, om) = (r1, (ht1, om'))"
    using assms(1) False by (auto simp: ht_duplicate_def elim!: outcome_elims split: if_split_asm)
  have "unat (sn_id s) \<in> S" using validate_id [OF _ s] reaches_valid [OF _ e] assms(2) by fastforce
  then show ?thesis using install_within [OF m assms(2)] by simp
qed (use assms(2) in simp)

lemma close_within:
  assumes "ht_close h (ht, om, fa) = (r, (ht', om', fa'))" and "both S E ht om"
  shows "both S E ht' om'"
  using assms reaches_valid [of S ht h]
  by (auto simp: ht_close_def elim!: outcome_elims intro: reaches_remove)
    (blast intro: remove_handle_within reclaim_within)+

lemma close_all_within: "close_all hs (ht, om, fa) = (r, (ht', om', fa')) \<Longrightarrow> both S E ht om \<Longrightarrow> both S E ht' om'"
proof (induction hs arbitrary: ht om fa)
  case (Cons h hs)
  from Cons.prems(1) show ?case
    unfolding close_all.simps
    by (rule sbind_allE) (use close_within [OF _ Cons.prems(2)] Cons.IH in \<open>auto split: prod.split_asm\<close>)
qed simp

lemma revoke_within:
  assumes "ht_revoke_descendants heap root (ht, om, fa) = Some (r, (ht', om', fa'))" and "both S E ht om"
  shows "within S E om'"
  using assms by (auto simp: ht_revoke_descendants_def elim!: sbind_allE split: result.split_asm option.split_asm dest: close_all_within)

section \<open>The operations of processes\<close>

lemma pr_release_handles [simp]: "pr_handles (pr_release_object p) = pr_handles p"
  by (simp add: pr_release_object_def)

lemma pr_reserve_handles: "pr_reserve_object p = (r, p') \<Longrightarrow> pr_handles p' = pr_handles p"
  by (auto simp: pr_reserve_object_def elim!: apsndE)

lemma create_preflighted_within:
  assumes "create_preflighted_object_handle rights payload (p, om) = (r, (p', om'))"
    and b: "both S E (pr_handles p) om" and t: "inside S payload"
  shows "within S E om'"
proof -
  have committed: "within S E om1" if "om_commit_reserved entry payload om = (r1, om1)" for entry r1 om1
    using commit_within [OF that _ t] b by blast
  have installed: "unat (sn_id s) \<in> S \<and> within S E om2"
    if "om_commit_reserved entry payload om = (Ok s, om1)"
      "ht_install_reserved slot s rights (pr_handles p, om1) = (r2, (ht2, om2))" for entry s om1 slot r2 ht2 om2
    using commit_within [OF that(1) _ t] install_reserved_within [OF that(2)] b by blast
  show ?thesis
    using assms(1) b
    by (auto simp: create_preflighted_object_handle_def elim!: outcome_elims dest!: pr_reserve_handles
        split: result.split_asm prod.split_asm)
      (blast dest: committed installed destroy_within)+
qed

lemma create_object_within:
  assumes "create_object_handle kind rights (p, om) = (r, (p', om'))" and "both S E (pr_handles p) om"
  shows "within S E om'"
proof (cases "payload_for_kind kind")
  case (Ok q)
  then have "inside S q" by (cases kind) (auto simp: as_refs_def as_mappings_def as_new_def rs_new_def pts_empty_def live_def List.map_filter_def)
  then show ?thesis using assms Ok by (auto simp: create_object_handle_def dest: create_preflighted_within)
qed (use assms in \<open>auto simp: create_object_handle_def\<close>)

lemma map_handles_within:
  assumes "map_memory_object space memory base size_bytes offset rights (p, om) = (r, (p', om'))" and b: "both S E (pr_handles p) om"
  shows "within S E om'"
proof (cases "om' = om")
  case False
  obtain va vm where v: "ht_lookup (pr_handles p) om space KindAddressSpace HR_MANAGE = Ok va"
      "ht_lookup (pr_handles p) om memory KindMemoryObject rights = Ok vm"
    and m: "om_map_memory_object (view_ref va) (view_ref vm) base size_bytes offset rights om = (r, om')"
    using assms(1) False by (auto simp: map_memory_object_def elim!: outcome_elims)
  show ?thesis
    using b by (intro map_memory_within [OF m]) (use lookup_within(2) v b in blast)+
qed (use b in simp)

lemma unmap_handles_within:
  assumes "unmap_address_range space base size_bytes (p, om) = (r, (p', om'))" and b: "both S E (pr_handles p) om"
  shows "within S E om'"
  using assms by (auto simp: unmap_address_range_def elim!: outcome_elims dest: unmap_within lookup_within(2))

lemma flush_within:
  assumes "flush_address_space_tlb space (p, om, fa) = (r, (p', om', fa'))" and b: "both S E (pr_handles p) om"
  shows "within S E om'"
  using assms by (auto simp: flush_address_space_tlb_def elim!: outcome_elims dest: take_tlb_within lookup_within(2))

lemma recv_within:
  assumes "recv_channel_message heap channel (p, om) = (r, (p', om'))" and b: "both S E (pr_handles p) om"
  shows "within S E om'"
proof (cases "om' = om")
  case False
  obtain v r1 where v: "ht_lookup (pr_handles p) om channel KindChannelEndpoint HR_READ = Ok v"
    and m: "om_dequeue_channel_message (sn_id (hvw_object v)) (sn_generation (hvw_object v)) om = (r1, om')"
    using assms(1) False by (auto simp: recv_channel_message_def elim!: outcome_elims split: if_split_asm)
  show ?thesis using dequeue_within [OF m] lookup_within(1) [OF _ _ v] b by blast
qed (use b in simp)

lemma send_within:
  assumes "send_channel_message heap channel bytes handles (p, om) = (r, (p', om'))" and b: "both S E (pr_handles p) om"
  shows "within S E om'"
proof (cases "om' = om")
  case False
  obtain v peer message r1 where v: "ht_lookup (pr_handles p) om channel KindChannelEndpoint HR_WRITE = Ok v"
    and peer: "om_channel_peer om (sn_id (hvw_object v)) (sn_generation (hvw_object v)) = Ok peer"
    and m: "om_enqueue_channel_message (sn_id peer) (sn_generation peer) message om = (r1, om')"
    using assms(1) False
    by (auto simp: send_channel_message_def elim!: outcome_elims split: prod.split_asm result.split_asm)
  have "unat (sn_id peer) \<in> S" by (rule channel_peer_within [OF _ _ peer]) (use lookup_within(1) [OF _ _ v] b in blast)+
  then show ?thesis using enqueue_within [OF m] b by blast
qed (use b in simp)

lemma create_address_space_within:
  assumes "create_address_space_handle rights (p, om) = (r, (p', om'))" and "both S E (pr_handles p) om"
  shows "within S E om'"
  using create_object_within [of KindAddressSpace rights p om r p' om'] assms
  by (simp add: create_object_handle_def create_address_space_handle_def)

lemma create_memory_within:
  assumes "create_memory_object_handle size_bytes rights (p, om, fa) = (r, (p', om', fa'))" and b: "both S E (pr_handles p) om"
  shows "within S E om'"
proof -
  have committed: "within S E om1" if "om_commit_reserved entry (PMemoryObject m) om = (r1, om1)" for entry m r1 om1
    using commit_within [OF that] b by simp
  have installed: "unat (sn_id s) \<in> S \<and> within S E om2"
    if "om_commit_reserved entry (PMemoryObject m) om = (Ok s, om1)"
      "ht_install_reserved slot s rights (pr_handles p, om1) = (r2, (ht2, om2))" for entry m s om1 slot r2 ht2 om2
    using commit_within [OF that(1), of S E] install_reserved_within [OF that(2), of S E] b by simp
  show ?thesis
    using assms(1) b
    by (auto simp: create_memory_object_handle_def Let_def elim!: outcome_elims dest!: pr_reserve_handles
        split: result.split_asm prod.split_asm)
      (blast dest: committed installed destroy_memory_within)+
qed

lemma create_pair_handles_within:
  assumes "create_channel_pair_handles max_messages rights (p, om, fa) = (r, (p', om', fa'))" and b: "both S E (pr_handles p) om"
  shows "within S E om'"
proof -
  have pair: "within S E om1" if "om_create_channel_pair max_messages om = (r1, om1)" for r1 om1
    using create_pair_within [OF that] b by blast
  have first: "unat (sn_id s) \<in> S \<and> unat (sn_id s') \<in> S \<and> both S E ht2 om2"
    if "om_create_channel_pair max_messages om = (Ok (s, s'), om1)" "ht_install s rights (pr_handles p, om1) = (r2, (ht2, om2))"
    for s s' om1 r2 ht2 om2
    using create_pair_within [OF that(1), of S E] install_within [OF that(2), of S E] b by simp
  have second: "unat (sn_id s) \<in> S \<and> unat (sn_id s') \<in> S \<and> both S E ht3 om3"
    if "om_create_channel_pair max_messages om = (Ok (s, s'), om1)" "ht_install s rights (pr_handles p, om1) = (Ok h, (ht2, om2))"
      "ht_install s' rights (ht2, om2) = (r3, (ht3, om3))" for s s' om1 h ht2 om2 r3 ht3 om3
    using first [OF that(1,2)] install_within [OF that(3), of S E] by simp
  show ?thesis
    using assms(1) b
    by (auto simp: create_channel_pair_handles_def Let_def elim!: outcome_elims dest!: pr_reserve_handles
        split: result.split_asm prod.split_asm if_split_asm)
      (blast dest: pair first second destroy_within close_within)+
qed

section \<open>System calls\<close>

definition put_within :: "nat set \<Rightarrow> object_entry option list \<Rightarrow> process_id \<Rightarrow> kernel \<Rightarrow> kernel \<Rightarrow> bool" where
  "put_within S E i k k' \<longleftrightarrow> (\<exists>p' om' fa'. k' = k_put i k (p', om', fa') \<and> within S E om')"

lemma put_withinI: "within S E om' \<Longrightarrow> put_within S E i k (k_put i k (p', om', fa'))"
  unfolding put_within_def by blast

lemma dispatch_within:
  assumes "dispatch heap sc i k (p, om, fa) = Some (r, k')" and "both S E (pr_handles p) om"
  shows "put_within S E i k k'"
proof (cases sc)
  case (UnmapAddressRange a base size_bytes)
  then show ?thesis
    using assms by (auto simp: with_objects_def outcome_def elim!: apsndE split: prod.split_asm intro!: put_withinI dest: unmap_handles_within)
qed (use assms in \<open>auto simp: with_objects_def with_handles_def outcome_def elim!: apsndE split: prod.split_asm
      intro!: put_withinI dest: create_object_within create_memory_within create_address_space_within map_handles_within flush_within
        create_pair_handles_within send_within recv_within duplicate_within close_within revoke_within\<close>)

section \<open>The objects of a process\<close>

definition own_slots :: "owners \<Rightarrow> process_id \<Rightarrow> object_manager \<Rightarrow> nat set" where
  "own_slots own i om = {l. l < length (om_entries om) \<and> (\<forall>e. om_entries om ! l = Some e \<longrightarrow> own (key (oe_ref e)) = i)}"

lemma own_slotsI:
  assumes om: "om_ok C n T M L om" and l: "live_at om (or_id r) = Some (or_generation r)" and o: "own (key r) = i"
  shows "unat (or_id r) \<in> own_slots own i om"
proof -
  obtain e where e: "om_at om (or_id r) = Some e" "oe_generation e = or_generation r" using l by (auto simp: live_at_def)
  have "key (oe_ref e) = key r" using e om_ok_at(1) [OF om e(1)] by (simp add: oe_ref_def)
  then show ?thesis using om_slot [OF om e(1)] o unfolding own_slots_def by simp
qed

lemma payload_inside:
  assumes ok: "kernel_ok B n lost k" and owned: "kernel_owned own k" and l: "l < length (om_entries (k_objects k))"
    and e: "om_entries (k_objects k) ! l = Some e" and i: "own (key (oe_ref e)) = i"
  shows "inside (own_slots own i (k_objects k)) (oe_payload e)"
proof -
  let ?om = "k_objects k"
  obtain L where om: "om_ok (om_capacity ?om) n (lost + table_refs (ptb_processes (k_processes k))) {#} L ?om"
    using ok by (auto simp: kernel_ok_def)
  have "unat (of_nat l :: u64) = l" using l om_okD(3) [OF om] by (simp add: om_shape_def unat_of_nat_u64)
  then have at: "om_at ?om (oe_id e) = Some e"
    using om_named_entry(2) [OF kernel_ok_named [OF ok] e l] e l om_okD(3) [OF om] by (simp add: om_at_def om_shape_def)
  have "live_at ?om (or_id r) = Some (or_generation r) \<and> own (key r) = i" if "r \<in> targets (oe_payload e)" for r
  proof (cases "oe_payload e")
    case (PChannelEndpoint c)
    then have "endpoint_at ?om (oe_id e) = Some (oe_generation e, c)" using at by (auto simp: endpoint_at_iff)
    then have "endpoint_owned own (kernel_tables k) (endpoint_at ?om) (own (oe_id e, oe_generation e)) c"
      using owned by (auto simp: kernel_owned_def dest: isolatedD(2))
    then have "peer_owned own (endpoint_at ?om) i r" using i that PChannelEndpoint by (simp add: endpoint_owned_def oe_ref_def)
    then show ?thesis by (auto simp: peer_owned_def endpoint_at_iff live_at_def)
  next
    case (PAddressSpace a)
    then have "(oe_ref e, r, None) \<in> om_holds ?om" using that l e unfolding om_holds_iff by fastforce
    then show ?thesis using kernel_holds_live(2) [OF ok] owned i by (auto simp: kernel_owned_def)
  qed (use that in auto)
  then show ?thesis using own_slotsI [OF om] by blast
qed

lemma kernel_within:
  assumes ok: "kernel_ok B n lost k" and owned: "kernel_owned own k"
  shows "within (own_slots own i (k_objects k)) (om_entries (k_objects k)) (k_objects k)"
proof -
  let ?om = "k_objects k" and ?S = "own_slots own i (k_objects k)"
  obtain L where om: "om_ok (om_capacity ?om) n (lost + table_refs (ptb_processes (k_processes k))) {#} L ?om"
    using ok by (auto simp: kernel_ok_def)
  have "fits ?S (om_entries ?om) l (om_entries ?om ! l)" if l: "l < length (om_entries ?om)" for l
    unfolding fits_def
  proof (intro conjI impI allI)
    show "om_entries ?om ! l = None \<Longrightarrow> l \<in> ?S" using l by (simp add: own_slots_def)
    fix e assume e: "om_entries ?om ! l = Some e"
    show "oe_id e = of_nat l" by (rule om_named_entry(2) [OF kernel_ok_named [OF ok] e l])
    assume "l \<in> ?S"
    then have "own (key (oe_ref e)) = i" using e by (simp add: own_slots_def)
    then show "inside ?S (oe_payload e)" by (rule payload_inside [OF ok owned l e])
  qed simp
  then show ?thesis using om_okD(3) [OF om] by (simp add: within_def om_shape_def)
qed

lemma handle_owned:
  assumes ok: "kernel_ok B n lost k" and owned: "kernel_owned own k" and p: "ptb_get (k_processes k) i = Ok p" and e: "ht_has (pr_handles p) e"
  shows "own (object_of e) = i" "live_at (k_objects k) (hte_object e) = Some (hte_object_generation e)"
proof -
  have iso: "isolated own (kernel_tables k) (endpoint_at (k_objects k))" using owned by (simp add: kernel_owned_def)
  show "own (object_of e) = i"
    using table_ownedD(3) [OF isolatedD(1) [where T = "kernel_tables k", OF iso kernel_tables_at [OF p]] e] .
  have "e \<in> cap_handles (kernel_tables k) (endpoint_at (k_objects k))"
    by (rule cap_handlesI(1) [of "kernel_tables k", OF kernel_tables_at [OF p] e])
  then show "live_at (k_objects k) (hte_object e) = Some (hte_object_generation e)"
    using kernel_handles_named [OF ok] by (fastforce simp: names_iff hte_ref_def live_at_def)
qed

lemma kernel_reaches:
  assumes ok: "kernel_ok B n lost k" and owned: "kernel_owned own k" and p: "ptb_get (k_processes k) i = Ok p"
  shows "reaches (own_slots own i (k_objects k)) (pr_handles p)"
  unfolding reaches_def
proof (intro ballI allI impI)
  let ?om = "k_objects k"
  obtain L where om: "om_ok (om_capacity ?om) n (lost + table_refs (ptb_processes (k_processes k))) {#} L ?om"
    using ok by (auto simp: kernel_ok_def)
  fix slot e assume "slot \<in> set (ht_slots (pr_handles p))" "hs_entry slot = Some e"
  then have "ht_has (pr_handles p) e" by (auto simp: ht_has_def in_set_conv_nth)
  then show "unat (hte_object e) \<in> own_slots own i ?om"
    using own_slotsI [OF om, of "\<lparr>or_id = hte_object e, or_generation = hte_object_generation e\<rparr>" own i] handle_owned [OF ok owned p]
    by (simp add: object_of_def)
qed

section \<open>What a call leaves alone\<close>

lemma call_within:
  assumes ok: "kernel_ok B n lost k" and owned: "kernel_owned own k"
    and p: "ptb_get (k_processes k) (sc_process cx) = Ok p" and ex: "execute heap cx sc k = Some (r, k')"
  shows "put_within (own_slots own (sc_process cx) (k_objects k)) (om_entries (k_objects k)) (sc_process cx) k k'"
proof (rule dispatch_within)
  show "dispatch heap sc (sc_process cx) k (p, k_objects k, k_frames k) = Some (r, k')" using ex by (simp add: execute_at [OF p])
  show "both (own_slots own (sc_process cx) (k_objects k)) (om_entries (k_objects k)) (pr_handles p) (k_objects k)"
    by (intro conjI kernel_within [OF ok owned] kernel_reaches [OF ok owned p])
qed

lemma call_keeps_object:
  assumes ok: "kernel_ok B n lost k" and ok': "kernel_ok B n' lost' k'" and owned: "kernel_owned own k"
    and ex: "execute heap cx sc k = Some (r, k')"
    and x: "live_at (k_objects k) (or_id x) = Some (or_generation x)" "own (key x) \<noteq> sc_process cx"
  shows "om_at (k_objects k') (or_id x) = om_at (k_objects k) (or_id x)"
proof (cases "ptb_get (k_processes k) (sc_process cx)")
  case (Ok p)
  let ?om = "k_objects k" and ?S = "own_slots own (sc_process cx) (k_objects k)"
  obtain T L T' L' where om: "om_ok (om_capacity ?om) n T {#} L ?om" and om': "om_ok (om_capacity (k_objects k')) n' T' {#} L' (k_objects k')"
    using ok ok' by (auto simp: kernel_ok_def)
  obtain p' om1 fa1 where k': "k' = k_put (sc_process cx) k (p', om1, fa1)" and w1: "within ?S (om_entries ?om) om1"
    using call_within [OF ok owned Ok ex] unfolding put_within_def by blast
  have w: "within ?S (om_entries ?om) (k_objects k')" using w1 unfolding k' k_put_simps .
  obtain e where e: "om_at ?om (or_id x) = Some e" "oe_generation e = or_generation x" using x(1) by (auto simp: live_at_def)
  note slot = om_slot [OF om e(1)]
  have "key (oe_ref e) = key x" using e om_ok_at(1) [OF om e(1)] by (simp add: oe_ref_def)
  then have "unat (or_id x) \<notin> ?S" using slot x(2) by (simp add: own_slots_def)
  moreover have "fits ?S (om_entries ?om) (unat (or_id x)) (om_entries (k_objects k') ! unat (or_id x))"
    using w slot(2) unfolding within_def by blast
  ultimately have "om_entries (k_objects k') ! unat (or_id x) = om_entries ?om ! unat (or_id x)" unfolding fits_def by blast
  moreover have "length (om_entries (k_objects k')) = length (om_entries ?om)" using w unfolding within_def by blast
  ultimately show ?thesis using om_okD(3) [OF om] om_okD(3) [OF om'] unfolding om_at_def om_shape_def by simp
qed (use ex in \<open>auto simp: execute_def\<close>)

lemma call_keeps_process:
  assumes ex: "execute heap cx sc k = Some (r, k')" and j: "j \<noteq> sc_process cx"
    and ok: "kernel_ok B n lost k" and owned: "kernel_owned own k"
  shows "ptb_get (k_processes k') j = ptb_get (k_processes k) j"
proof (cases "ptb_get (k_processes k) (sc_process cx)")
  case (Ok p)
  obtain p' om1 fa1 where k': "k' = k_put (sc_process cx) k (p', om1, fa1)"
    using call_within [OF ok owned Ok ex] unfolding put_within_def by blast
  show ?thesis unfolding k' k_put_simps ptb_get_put_eq [OF Ok] using j by simp
qed (use ex in \<open>auto simp: execute_def\<close>)

lemma call_keeps_pages:
  assumes ok: "kernel_ok B n lost k" and ok': "kernel_ok B n' lost' k'" and owned: "kernel_owned own k"
    and ex: "execute heap cx sc k = Some (r, k')"
    and x: "live_at (k_objects k) (or_id x) = Some (or_generation x)" "own (key x) \<noteq> sc_process cx"
  shows "object_pages k' x = object_pages k x"
proof -
  note same = call_keeps_object [OF ok ok' owned ex]
  have holds: "(x, h) \<in> om_holds (k_objects k') \<longleftrightarrow> (x, h) \<in> om_holds (k_objects k)" for h
    using same [OF x] kernel_holds_at [OF ok] kernel_holds_at [OF ok'] by simp
  have pages: "memory_pages k' y = memory_pages k y"
    if "live_at (k_objects k) (or_id y) = Some (or_generation y)" "own (key y) \<noteq> sc_process cx" for y
    using same [OF that] by (simp add: memory_pages_def)
  have "memory_pages k' memory = memory_pages k memory" if "(x, memory, y) \<in> om_holds (k_objects k)" for memory y
    by (rule pages [OF kernel_holds_live(2) [OF ok that]]) (use that owned x(2) in \<open>auto simp: kernel_owned_def\<close>)
  then have "{memory_pages k' memory | memory y. (x, memory, y) \<in> om_holds (k_objects k')}
      = {memory_pages k memory | memory y. (x, memory, y) \<in> om_holds (k_objects k)}"
    unfolding holds by blast
  then show ?thesis by (simp add: object_pages_def pages [OF x])
qed

text \<open>What a process has: its handles, the objects they refer to, and the pages it can reach with their owners.\<close>

record process_view =
  pv_process :: "process kernel_result"
  pv_objects :: "(handle_table_entry \<times> object_entry option) set"
  pv_pages :: "(nat \<times> frame_state option) set"

definition view_of :: "kernel \<Rightarrow> process_id \<Rightarrow> process_view" where
  "view_of k j = \<lparr>pv_process = ptb_get (k_processes k) j,
     pv_objects = {(e, om_at (k_objects k) (hte_object e)) | p e. ptb_get (k_processes k) j = Ok p \<and> ht_has (pr_handles p) e},
     pv_pages = {(page, fa_view (k_frames k) page) | page. page \<in> process_pages k j}\<rparr>"

lemma call_keeps_view:
  assumes run: "kernel_run B H (n + B + 4) k" and run': "kernel_run B H n k'" and B: "B \<le> 2 ^ 32"
    and ex: "execute heap cx sc k = Some (r, k')" and j: "j \<noteq> sc_process cx"
  shows "view_of k' j = view_of k j"
proof -
  obtain own where owned: "kernel_owned own k" using kernel_run_owned [OF run B] by blast
  obtain lost where ok: "kernel_ok B (n + B + 4) lost k" using kernel_run_ok [OF run B] by blast
  obtain lost' where ok': "kernel_ok B n lost' k'" using kernel_run_ok [OF run' B] by blast
  note process = call_keeps_process [OF ex j ok owned]
  have theirs: "own (key x) \<noteq> sc_process cx" "live_at (k_objects k) (or_id x) = Some (or_generation x)"
    if "ptb_get (k_processes k) j = Ok p" "ht_has (pr_handles p) e" "x = \<lparr>or_id = hte_object e, or_generation = hte_object_generation e\<rparr>" for p e x
    using handle_owned [OF ok owned that(1,2)] that(3) j by (simp_all add: object_of_def)
  have objects: "om_at (k_objects k') (hte_object e) = om_at (k_objects k) (hte_object e)"
    if "ptb_get (k_processes k) j = Ok p" "ht_has (pr_handles p) e" for p e
    using call_keeps_object [OF ok ok' owned ex theirs(2,1) [OF that refl]] by simp
  have "object_pages k' \<lparr>or_id = hte_object e, or_generation = hte_object_generation e\<rparr>
      = object_pages k \<lparr>or_id = hte_object e, or_generation = hte_object_generation e\<rparr>"
    if "ptb_get (k_processes k) j = Ok p" "ht_has (pr_handles p) e" for p e
    by (rule call_keeps_pages [OF ok ok' owned ex theirs(2,1) [OF that refl]])
  then have pages: "process_pages k' j = process_pages k j" unfolding process_pages_def process by blast
  have "fa_view (k_frames k') page = fa_view (k_frames k) page" if page: "page \<in> process_pages k j" for page
  proof -
    obtain x where x: "page \<in> memory_pages k x" "own (key x) = j" by (rule process_pages_owned [OF owned page])
    have "live_at (k_objects k) (or_id x) = Some (or_generation x)" using x(1) by (auto simp: memory_pages_def live_at_def)
    then have "page \<in> memory_pages k' x"
      using x j call_keeps_object [OF ok ok' owned ex, of x] by (simp add: memory_pages_def)
    then show ?thesis using memory_pages_allocated [OF run B x(1)] memory_pages_allocated [OF run' B] by simp
  qed
  then have frames: "{(page, fa_view (k_frames k') page) | page. page \<in> process_pages k j}
      = {(page, fa_view (k_frames k) page) | page. page \<in> process_pages k j}" by metis
  have "{(e, om_at (k_objects k') (hte_object e)) | p e. ptb_get (k_processes k) j = Ok p \<and> ht_has (pr_handles p) e}
      = {(e, om_at (k_objects k) (hte_object e)) | p e. ptb_get (k_processes k) j = Ok p \<and> ht_has (pr_handles p) e}"
    using objects by metis
  then show ?thesis unfolding view_of_def process pages frames by (rule arg_cong [where f = "\<lambda>x. \<lparr>pv_process = _, pv_objects = x, pv_pages = _\<rparr>"])
qed

end
