(* ===== verification/Demo_Runs.thy ===== *)
theory Demo_Runs
  imports Kernel_Demo Integrity
begin

text \<open>
  Runs of the small kernel that the properties of the whole kernel are applied to.
\<close>

section \<open>Runs of the small kernel\<close>

lemmas demo_eval = demo_defs demo_range_def replicate_numeral base_defs object_defs handle_defs process_defs memory_defs

definition demo_booted_process :: process where
  "demo_booted_process = demo_process [demo_self, demo_free_slot 1, demo_free_slot 1, demo_free_slot 1] 3"

definition demo_owner :: process where
  "demo_owner = demo_process [demo_self, demo_memory_slot, demo_free_slot 1, demo_free_slot 1] 2"

definition demo_family_process :: "handle_slot \<Rightarrow> handle_slot \<Rightarrow> process" where
  "demo_family_process child grandchild = demo_process [demo_self, demo_memory_slot, child, grandchild] 2"

definition demo_channel_process :: "handle_slot \<Rightarrow> process" where
  "demo_channel_process slot = demo_process [demo_self, demo_slot 1 1 None KindChannelEndpoint 3,
     demo_slot 2 1 None KindChannelEndpoint 3, slot] 0"

lemma demo_processes:
  "ptb_get (k_processes demo_booted) (sc_process demo_context) = Ok demo_booted_process"
  "ptb_get (k_processes demo_kernel) (sc_process demo_context) = Ok demo_owner"
  "ptb_get (k_processes demo_dup2) (sc_process demo_context) = Ok (demo_family_process demo_child_slot demo_grandchild_slot)"
  "ptb_get (k_processes demo_orphaned) (sc_process demo_context) = Ok (demo_family_process (demo_free_slot 2) demo_grandchild_slot)"
  "ptb_get (k_processes demo_event) (sc_process demo_context) = Ok (demo_channel_process (demo_slot 3 1 None KindEvent 9))"
  "ptb_get (k_processes demo_sent) (sc_process demo_context) = Ok (demo_channel_process (demo_free_slot 2))"
  "ptb_get (k_processes demo_received) (sc_process demo_context) = Ok (demo_channel_process (demo_slot 3 2 None KindEvent 9))"
  "ptb_get (k_processes (demo_family 1 (demo_free_slot 2) (demo_free_slot 2))) (sc_process demo_context)
    = Ok (demo_family_process (demo_free_slot 2) (demo_free_slot 2))"
  unfolding demo_booted_def demo_booted_process_def demo_kernel_def demo_owner_def demo_memory_slot_def demo_family_def
    demo_family_process_def demo_dup2_def demo_orphaned_def demo_channel_def demo_channel_process_def demo_event_def
    demo_sent_def demo_received_def by (rule demo_get)+

lemma demo_next:
  assumes "execute demo_heap demo_context sc k = Some (r, k')" and "m = n + 8"
  shows "kernel_later 4 recv_heap (m, k) (n, k')"
proof -
  have "kernel_next 4 recv_heap (n + 4 + 4, k) (n, k')"
    by (rule next_call [OF _ assms(1)]) (simp add: recv_heap_def demo_heap_def)
  moreover have "n + 4 + 4 = m" using assms(2) by simp
  ultimately show ?thesis by (simp only: r_into_rtranclp)
qed

lemma demo_run_orphaned: "n < 2 ^ 57 \<Longrightarrow> kernel_run 4 recv_heap n demo_orphaned"
  by (rule demo_run_call [OF demo_run_dup2 demo_child_closed]) simp

text \<open>The family of the first handle is revoked: both descendants while the child is there, none once it is closed.\<close>

lemma demo_revoked: "execute demo_heap demo_context (RevokeDescendants demo_handle) demo_dup2
    = Some (Ok (OutcomeRevoked 2), demo_family 1 (demo_free_slot 2) (demo_free_slot 2))"
  by (simp add: demo_eval descends_from.simps cong: step_congs)

lemma demo_orphan_kept: "execute demo_heap demo_context (RevokeDescendants demo_handle) demo_orphaned
    = Some (Ok (OutcomeRevoked 0), demo_orphaned)"
  by (simp add: demo_eval descends_from.simps cong: step_congs)

text \<open>An event takes the slot of the closed child, under another handle value.\<close>

definition demo_reused_slots :: "handle_slot list" where
  "demo_reused_slots = [demo_self, demo_memory_slot, demo_slot 2 2 None KindEvent 1, demo_grandchild_slot]"

definition demo_reused :: kernel where
  "demo_reused = demo_state [demo_object 0 PProcess 1, demo_object 1 demo_memory_object 2,
     demo_object 2 (PEvent \<lparr>eo_state = Unsignaled\<rparr>) 1, None] demo_reused_slots 1 (Allocated (OwnerMemoryObject 1 1))"

lemma demo_reuse: "execute demo_heap demo_context (CreateObject KindEvent HR_READ) demo_orphaned
    = Some (Ok (OutcomeHandle 0x200000002), demo_reused)"
  by (simp add: demo_eval demo_reused_def demo_reused_slots_def cong: step_congs)

text \<open>Two processes, each with the handle to itself and perhaps one to a memory object of one page.\<close>

definition demo_pair :: "object_entry option \<Rightarrow> object_entry option \<Rightarrow> handle_slot \<Rightarrow> handle_slot \<Rightarrow> frame_state \<Rightarrow> frame_state \<Rightarrow> kernel" where
  "demo_pair first second slot slot' frame frame' = \<lparr>
     k_objects = \<lparr>om_entries = [demo_object 0 PProcess 1, demo_object 1 PProcess 1, first, second], om_generations = [1, 1, 1, 1], om_capacity = 4\<rparr>,
     k_processes = \<lparr>ptb_processes =
        [Some (demo_process [demo_self, slot, demo_free_slot 1, demo_free_slot 1] (if hs_entry slot = None then 3 else 2)),
         Some ((demo_process [demo_slot 1 1 None KindProcess 33, slot', demo_free_slot 1, demo_free_slot 1]
           (if hs_entry slot' = None then 3 else 2))\<lparr>pr_id := 1\<rparr>)],
       ptb_capacity = 2\<rparr>,
     k_frames = \<lparr>fa_frames = [\<lparr>fe_paddr = 4096, fe_generation = 1, fe_state = frame\<rparr>, \<lparr>fe_paddr = 8192, fe_generation = 1, fe_state = frame'\<rparr>]\<rparr>\<rparr>"

definition demo_page :: "object_id \<Rightarrow> u64 \<Rightarrow> object_entry option" where
  "demo_page i start = demo_object i (PMemoryObject \<lparr>mo_size_bytes = 4096, mo_mapping_policy = \<lparr>mp_max_rights = 7\<rparr>,
     mo_frame_range = \<lparr>mfr_start = start, mfr_end = start + 4096\<rparr>, mo_active_mappings = 0\<rparr>) 1"

definition demo_page_slot :: "object_id \<Rightarrow> handle_slot" where
  "demo_page_slot i = demo_slot i 1 None KindMemoryObject 1"

definition demo_two :: kernel where
  "demo_two = demo_pair None None (demo_free_slot 1) (demo_free_slot 1) Free Free"

definition demo_two_one :: kernel where
  "demo_two_one = demo_pair (demo_page 2 4096) None (demo_page_slot 2) (demo_free_slot 1) (Allocated (OwnerMemoryObject 2 1)) Free"

definition demo_two_full :: kernel where
  "demo_two_full = demo_pair (demo_page 2 4096) (demo_page 3 8192) (demo_page_slot 2) (demo_page_slot 3)
     (Allocated (OwnerMemoryObject 2 1)) (Allocated (OwnerMemoryObject 3 1))"

lemmas pair_eval = demo_eval demo_pair_def demo_page_def demo_page_slot_def demo_two_def demo_two_one_def demo_two_full_def

lemma demo_run_two:
  assumes "n < 2 ^ 58"
  shows "kernel_run 4 recv_heap n demo_two"
proof -
  let ?k = "demo_new\<lparr>k_processes := \<lparr>ptb_processes = [None, None], ptb_capacity = 2\<rparr>\<rparr>"
  let ?k1 = "demo_booted\<lparr>k_processes := \<lparr>ptb_processes = [Some (demo_process [demo_self, demo_free_slot 1, demo_free_slot 1, demo_free_slot 1] 3), None],
    ptb_capacity = 2\<rparr>\<rparr>"
  have "kernel_new demo_heap 4 2 [demo_range] = Ok ?k" by code_simp
  from run_boot [OF this, of 4 n recv_heap] have boot: "kernel_run 4 recv_heap n ?k"
    using demo_reserved_ok(3) assms by (simp add: usize_max_def)
  have first: "create_bootstrap_process demo_heap 4 4 ?k = (Ok 0, ?k1)"
    and second: "create_bootstrap_process demo_heap 4 4 ?k1 = (Ok 1, demo_two)"
    by (simp_all add: pair_eval cong: step_congs)
  have "kernel_run 4 recv_heap n ?k1" by (rule run_process [OF boot first]) (simp_all add: usize_max_def)
  then show ?thesis by (rule run_process [OF _ second]) (simp_all add: usize_max_def)
qed

text \<open>Each process takes a page.\<close>

lemma demo_first_page: "execute demo_heap demo_context (CreateMemoryObject 4096 HR_READ) demo_two = Some (Ok (OutcomeHandle 0x100000001), demo_two_one)"
  by (simp add: pair_eval cong: step_congs)

lemma demo_second_page: "execute demo_heap \<lparr>sc_process = 1\<rparr> (CreateMemoryObject 4096 HR_READ) demo_two_one
    = Some (Ok (OutcomeHandle 0x100000001), demo_two_full)"
  by (simp add: pair_eval cong: step_congs)

lemma demo_run_two_one: "n < 2 ^ 57 \<Longrightarrow> kernel_run 4 recv_heap n demo_two_one"
  by (rule demo_run_call [OF demo_run_two demo_first_page]) simp

lemma demo_run_two_full: "n < 2 ^ 56 \<Longrightarrow> kernel_run 4 recv_heap n demo_two_full"
proof -
  assume "n < 2 ^ 56"
  then have "kernel_run 4 recv_heap (n + 4 + 4) demo_two_one" by (intro demo_run_two_one) simp
  then show ?thesis by (rule run_call [OF _ _ demo_second_page]) (simp add: recv_heap_def demo_heap_def)
qed

lemma reaches_page:
  assumes "ptb_get (k_processes k) i = Ok p" and "slot \<in> set (ht_slots (pr_handles p))" and "hs_entry slot = Some e"
    and "om_at (k_objects k) (hte_object e) = Some c" and "oe_generation c = hte_object_generation e"
    and "oe_payload c = PMemoryObject m" and "page \<in> mfr_pages (mo_frame_range m)"
  shows "page \<in> process_pages k i"
proof -
  have "page \<in> object_pages k \<lparr>or_id = hte_object e, or_generation = hte_object_generation e\<rparr>"
    using assms(4-7) by (simp add: object_pages_def memory_pages_def)
  moreover have "ht_has (pr_handles p) e" using assms(2,3) by (auto simp: ht_has_def in_set_conv_nth)
  ultimately show ?thesis using assms(1) unfolding process_pages_def by blast
qed

lemma demo_two_pages: "1 \<in> process_pages demo_two_full 0" "2 \<in> process_pages demo_two_full 1"
proof -
  let ?m = "\<lambda>start. \<lparr>mo_size_bytes = 4096, mo_mapping_policy = \<lparr>mp_max_rights = 7\<rparr>,
     mo_frame_range = \<lparr>mfr_start = start, mfr_end = start + 4096\<rparr>, mo_active_mappings = 0\<rparr>"
  have at: "om_at (k_objects demo_two_full) 2 = demo_page 2 4096" "om_at (k_objects demo_two_full) 3 = demo_page 3 8192"
    by (simp_all add: demo_two_full_def demo_pair_def om_at_def)
  have "ptb_get (k_processes demo_two_full) 0 = Ok (demo_process [demo_self, demo_page_slot 2, demo_free_slot 1, demo_free_slot 1] 2)"
    "ptb_get (k_processes demo_two_full) 1
      = Ok ((demo_process [demo_slot 1 1 None KindProcess 33, demo_page_slot 3, demo_free_slot 1, demo_free_slot 1] 2)\<lparr>pr_id := 1\<rparr>)"
    by (simp_all add: pair_eval)
  note process = this
  show "1 \<in> process_pages demo_two_full 0"
    by (rule reaches_page [OF process(1), of "demo_page_slot 2" "the (hs_entry (demo_page_slot 2))" "the (demo_page 2 4096)" "?m 4096"])
      (simp_all add: at demo_process_def demo_page_def demo_object_def demo_page_slot_def demo_slot_def mfr_pages_def)
  show "2 \<in> process_pages demo_two_full 1"
    by (rule reaches_page [OF process(2), of "demo_page_slot 3" "the (hs_entry (demo_page_slot 3))" "the (demo_page 3 8192)" "?m 8192"])
      (simp_all add: at demo_process_def demo_page_def demo_object_def demo_page_slot_def demo_slot_def mfr_pages_def)
qed

end
