(* ===== verification/Ostd_Tests.thy ===== *)
theory Ostd_Tests
  imports Ostd_PageTable
begin

text \<open>
  The unit tests of \<^verbatim>\<open>ostd/src/mm/frame.rs\<close> and \<^verbatim>\<open>ostd/src/cpu.rs\<close> and the integration test
  \<^verbatim>\<open>ostd/tests/page_table.rs\<close>, translated statement by statement: a test is a computation that panics at the
  first assertion that does not hold or the first \<^verbatim>\<open>unwrap\<close> that fails, and passes when it is \<open>Ok ()\<close>.  That
  every test passes shows the model to agree with the code on the inputs the code is tested with.
\<close>

type_synonym test = "(unit, unit) result"

definition assert_eq :: "'a \<Rightarrow> 'a \<Rightarrow> test" where
  "assert_eq a b = assert_that (a = b)"

text \<open>\<open>unwrap\<close> of a constructor, and \<open>Layout::new\<close> of a byte.\<close>

definition layout_of_size_align :: "u64 \<Rightarrow> u64 \<Rightarrow> (unit, layout) result" where
  "layout_of_size_align sz align = expect_ok (layout_from_size_align sz align)"

definition layout_u8 :: layout where
  "layout_u8 = \<lparr>ly_size = 1, ly_align = 1\<rparr>"

definition range_of :: "paddr \<Rightarrow> paddr \<Rightarrow> (unit, frame_range) result" where
  "range_of start end' = expect_ok (frame_range_new start end')"

text \<open>A result, an entry of a map and a range of an allocator are the expected range.\<close>

definition gives :: "('e, frame_range) result \<Rightarrow> paddr \<times> paddr \<Rightarrow> test" where
  "gives r expected = rbind (expect_ok r) (\<lambda>allocated. assert_eq (as_range allocated) expected)"

definition range_at :: "normalized_memory_map \<Rightarrow> nat \<Rightarrow> paddr \<times> paddr \<Rightarrow> test" where
  "range_at m index expected = rbind (nmm_range m index) (\<lambda>r. gives (expect r :: (unit, frame_range) result) expected)"

definition allocator_range :: "early_memory_map_allocator \<Rightarrow> nat \<Rightarrow> paddr \<times> paddr \<Rightarrow> test" where
  "allocator_range a index expected = gives (ema_range a index) expected"

section \<open>The early frame allocator\<close>

definition frame_range_rejects_invalid_boundaries :: "paddr \<Rightarrow> paddr \<Rightarrow> frame_alloc_error \<Rightarrow> test" where
  "frame_range_rejects_invalid_boundaries start end' expected =
     assert_eq (frame_range_new start end') (Err expected)"

definition frame_allocator_rejects_invalid_requests_without_advancing :: "layout \<Rightarrow> frame_alloc_error \<Rightarrow> test" where
  "frame_allocator_rejects_invalid_requests_without_advancing l expected =
     rbind (range_of 0x1000 0x3000) (\<lambda>range.
     (let a = efa_new range in
     (let (r, a) = efa_allocate a l in
     rbind (assert_eq r (Err expected)) (\<lambda>_.
     assert_eq (efa_allocated a) (0x1000, 0x1000)))))"

definition frame_range_cases :: test where
  "frame_range_cases =
     rbind (frame_range_rejects_invalid_boundaries 0x1000 0x1000 EmptyRegion) (\<lambda>_.
     rbind (frame_range_rejects_invalid_boundaries 0x1001 0x3000 UnalignedRegion) (\<lambda>_.
     frame_range_rejects_invalid_boundaries 0x1000 0x3001 UnalignedRegion))"

definition frame_allocator_cases :: test where
  "frame_allocator_cases =
     rbind (layout_of_size_align 0x3000 PAGE_SIZE) (\<lambda>oversized.
     rbind (frame_allocator_rejects_invalid_requests_without_advancing oversized Exhausted) (\<lambda>_.
     rbind (layout_of_size_align 0 PAGE_SIZE) (\<lambda>zero_sized.
     frame_allocator_rejects_invalid_requests_without_advancing zero_sized InvalidLayout)))"

definition allocates_page_aligned_ranges_monotonically :: test where
  "allocates_page_aligned_ranges_monotonically =
     rbind (range_of 0x1000 0x5000) (\<lambda>range.
     (let a = efa_new range in
     (let (first, a) = efa_allocate a layout_u8 in
     rbind (gives first (0x1000, 0x2000)) (\<lambda>_.
     rbind (layout_of_size_align 0x1800 PAGE_SIZE) (\<lambda>l2.
     (let (second, a) = efa_allocate a l2 in
     rbind (gives second (0x2000, 0x4000)) (\<lambda>_.
     rbind (assert_eq (efa_allocated a) (0x1000, 0x4000)) (\<lambda>_.
     assert_eq (efa_remaining a) (Ok 0x1000 :: (unit, u64) result)))))))))"

definition honors_larger_alignment :: test where
  "honors_larger_alignment =
     rbind (range_of 0x1000 0x9000) (\<lambda>range.
     (let a = efa_new range in
     rbind (layout_of_size_align PAGE_SIZE 0x4000) (\<lambda>l1.
     (let (r, a) = efa_allocate a l1 in
     gives r (0x4000, 0x5000)))))"

definition memory_map_allocator_walks_ranges_in_order :: test where
  "memory_map_allocator_walks_ranges_in_order =
     rbind (range_of 0x1000 0x3000) (\<lambda>r0.
     rbind (range_of 0x8000 0xc000) (\<lambda>r1.
     (let a = ema_new [r0, r1] in
     rbind (layout_of_size_align 0x2000 PAGE_SIZE) (\<lambda>l1.
     (let (first, a) = ema_allocate a l1 in
     rbind (gives first (0x1000, 0x3000)) (\<lambda>_.
     (let (second, a) = ema_allocate a layout_u8 in
     rbind (gives second (0x8000, 0x9000)) (\<lambda>_.
     rbind (assert_eq (ema_allocated_in a 0) (Ok (0x1000, 0x3000))) (\<lambda>_.
     assert_eq (ema_allocated_in a 1) (Ok (0x8000, 0x9000)))))))))))"

definition memory_map_allocator_honors_alignment_per_range :: test where
  "memory_map_allocator_honors_alignment_per_range =
     rbind (range_of 0x1000 0x5000) (\<lambda>r0.
     rbind (range_of 0x8000 0xc000) (\<lambda>r1.
     (let a = ema_new [r0, r1] in
     rbind (layout_of_size_align PAGE_SIZE 0x8000) (\<lambda>l1.
     (let (first, a) = ema_allocate a l1 in
     rbind (gives first (0x8000, 0x9000)) (\<lambda>_.
     rbind (assert_eq (ema_allocated_in a 0) (Ok (0x1000, 0x1000))) (\<lambda>_.
     assert_eq (ema_allocated_in a 1) (Ok (0x8000, 0x9000)))))))))"

definition memory_map_allocator_exhaustion_does_not_advance_ranges :: test where
  "memory_map_allocator_exhaustion_does_not_advance_ranges =
     rbind (range_of 0x1000 0x2000) (\<lambda>r0.
     rbind (range_of 0x4000 0x5000) (\<lambda>r1.
     (let a = ema_new [r0, r1] in
     rbind (layout_of_size_align 0x3000 PAGE_SIZE) (\<lambda>l1.
     (let (r, a) = ema_allocate a l1 in
     rbind (assert_eq r (Err Exhausted)) (\<lambda>_.
     rbind (assert_eq (ema_allocated_in a 0) (Ok (0x1000, 0x1000))) (\<lambda>_.
     assert_eq (ema_allocated_in a 1) (Ok (0x4000, 0x4000)))))))))"

definition normalizes_only_usable_page_ranges :: test where
  "normalizes_only_usable_page_ranges =
     rbind (expect_ok (normalize_memory_regions 4
      [\<lparr>mr_start = 0x1003, mr_end = 0x3fff, mr_kind = Usable\<rparr>,
      \<lparr>mr_start = 0x4000, mr_end = 0x9000, mr_kind = Reserved_Region\<rparr>,
      \<lparr>mr_start = 0x9001, mr_end = 0xa000, mr_kind = Usable\<rparr>,
      \<lparr>mr_start = 0xa000, mr_end = 0xc000, mr_kind = Usable\<rparr>])) (\<lambda>m.
     rbind (assert_eq (nmm_len m) 2) (\<lambda>_.
     rbind (range_at m 0 (0x2000, 0x3000)) (\<lambda>_.
     rbind (range_at m 1 (0xa000, 0xc000)) (\<lambda>_.
     assert_eq (nmm_range m 2) (Ok None :: (unit, frame_range option) result)))))"

definition normalizing_empty_usable_result_is_allowed :: test where
  "normalizing_empty_usable_result_is_allowed =
     rbind (expect_ok (normalize_memory_regions 2
      [\<lparr>mr_start = 0x1001, mr_end = 0x1fff, mr_kind = Usable\<rparr>,
      \<lparr>mr_start = 0x2000, mr_end = 0x4000, mr_kind = Reserved_Region\<rparr>])) (\<lambda>m.
     assert_that (nmm_is_empty m))"

definition normalizing_reports_capacity_exhaustion :: test where
  "normalizing_reports_capacity_exhaustion =
     assert_eq (normalize_memory_regions 1
      [\<lparr>mr_start = 0x1000, mr_end = 0x2000, mr_kind = Usable\<rparr>,
      \<lparr>mr_start = 0x3000, mr_end = 0x4000, mr_kind = Usable\<rparr>]) (Err TooManyRegions)"

definition normalizing_subtracts_reserved_ranges :: test where
  "normalizing_subtracts_reserved_ranges =
     rbind (range_of 0x3000 0x5000) (\<lambda>r0.
     rbind (range_of 0x8000 0x9000) (\<lambda>r1.
     rbind (expect_ok (normalize_memory_regions_with_reserved 4
      [\<lparr>mr_start = 0x1000, mr_end = 0x9000, mr_kind = Usable\<rparr>]
      [r0, r1])) (\<lambda>m.
     rbind (assert_eq (nmm_len m) 2) (\<lambda>_.
     rbind (range_at m 0 (0x1000, 0x3000)) (\<lambda>_.
     range_at m 1 (0x5000, 0x8000))))))"

definition reserved_ranges_can_cover_usable_range_edges :: test where
  "reserved_ranges_can_cover_usable_range_edges =
     rbind (range_of 0x0000 0x3000) (\<lambda>r0.
     rbind (range_of 0x7000 0xa000) (\<lambda>r1.
     rbind (expect_ok (normalize_memory_regions_with_reserved 2
      [\<lparr>mr_start = 0x1000, mr_end = 0x9000, mr_kind = Usable\<rparr>]
      [r0, r1])) (\<lambda>m.
     rbind (assert_eq (nmm_len m) 1) (\<lambda>_.
     range_at m 0 (0x3000, 0x7000)))))"

definition reserved_ranges_can_remove_all_usable_memory :: test where
  "reserved_ranges_can_remove_all_usable_memory =
     rbind (range_of 0x0000 0x4000) (\<lambda>r0.
     rbind (expect_ok (normalize_memory_regions_with_reserved 2
      [\<lparr>mr_start = 0x1000, mr_end = 0x3000, mr_kind = Usable\<rparr>]
      [r0])) (\<lambda>m.
     assert_that (nmm_is_empty m)))"

definition reserved_ranges_can_be_unsorted_and_overlapping :: test where
  "reserved_ranges_can_be_unsorted_and_overlapping =
     rbind (range_of 0x7000 0x9000) (\<lambda>r0.
     rbind (range_of 0x3000 0x5000) (\<lambda>r1.
     rbind (range_of 0x4000 0x8000) (\<lambda>r2.
     rbind (expect_ok (normalize_memory_regions_with_reserved 4
      [\<lparr>mr_start = 0x1000, mr_end = 0xa000, mr_kind = Usable\<rparr>]
      [r0, r1, r2])) (\<lambda>m.
     rbind (assert_eq (nmm_len m) 2) (\<lambda>_.
     rbind (range_at m 0 (0x1000, 0x3000)) (\<lambda>_.
     range_at m 1 (0x9000, 0xa000)))))))"

definition reports_capacity_exhaustion_after_reserved_subtraction :: test where
  "reports_capacity_exhaustion_after_reserved_subtraction =
     rbind (range_of 0x3000 0x5000) (\<lambda>range.
     assert_eq (normalize_memory_regions_with_reserved 1
       [\<lparr>mr_start = 0x1000, mr_end = 0x9000, mr_kind = Usable\<rparr>] [range]) (Err TooManyRegions))"

definition normalized_map_can_create_allocator :: test where
  "normalized_map_can_create_allocator =
     rbind (expect_ok (normalize_memory_regions 4
      [\<lparr>mr_start = 0x1003, mr_end = 0x3fff, mr_kind = Usable\<rparr>,
      \<lparr>mr_start = 0x8000, mr_end = 0xa000, mr_kind = Usable\<rparr>])) (\<lambda>m.
     rbind (expect_ok (try_into_allocator m)) (\<lambda>a.
     rbind (assert_eq (ema_active a) 2) (\<lambda>_.
     rbind (allocator_range a 0 (0x2000, 0x3000)) (\<lambda>_.
     rbind (allocator_range a 1 (0x8000, 0xa000)) (\<lambda>_.
     (let (first, a) = ema_allocate a layout_u8 in
     rbind (gives first (0x2000, 0x3000)) (\<lambda>_.
     (let (second, a) = ema_allocate a layout_u8 in
     gives second (0x8000, 0x9000)))))))))"

definition empty_normalized_map_cannot_create_allocator :: test where
  "empty_normalized_map_cannot_create_allocator =
     (let m = nmm_empty 2 in assert_eq (try_into_allocator m) (Err Exhausted))"

definition early_frame_state_rejects_allocation_before_init :: test where
  "early_frame_state_rejects_allocation_before_init =
     (let s = efs_uninitialized in
     rbind (assert_that (\<not> efs_is_initialized s)) (\<lambda>_.
     (let (r, s) = efs_allocate s layout_u8 in
     assert_eq r (Err Uninitialized))))"

definition early_frame_state_initializes_from_regions_once :: test where
  "early_frame_state_initializes_from_regions_once =
     (let s = efs_uninitialized in
     rbind (range_of 0x3000 0x5000) (\<lambda>range.
     (let (first, s) = init_from_regions 4 s
        [\<lparr>mr_start = 0x1000, mr_end = 0x9000, mr_kind = Usable\<rparr>] [range] in
     rbind (expect_ok first) (\<lambda>_.
     rbind (assert_that (efs_is_initialized s)) (\<lambda>_.
     (let (second, s) = init_from_regions 4 s
        [\<lparr>mr_start = 0x1000, mr_end = 0x9000, mr_kind = Usable\<rparr>] [] in
     assert_eq second (Err AlreadyInitialized)))))))"

definition early_frame_state_allocates_only_after_reserved_ranges :: test where
  "early_frame_state_allocates_only_after_reserved_ranges =
     (let s = efs_uninitialized in
     rbind (range_of 0x1000 0x5000) (\<lambda>range.
     (let (r, s) = init_from_regions 4 s
        [\<lparr>mr_start = 0x1000, mr_end = 0x9000, mr_kind = Usable\<rparr>] [range] in
     rbind (expect_ok r) (\<lambda>_.
     (let (allocated, s) = efs_allocate s layout_u8 in
     gives allocated (0x5000, 0x6000))))))"

definition early_frame_state_reports_no_available_memory :: test where
  "early_frame_state_reports_no_available_memory =
     (let s = efs_uninitialized in
     rbind (range_of 0x1000 0x3000) (\<lambda>range.
     (let (r, s) = init_from_regions 2 s
        [\<lparr>mr_start = 0x1000, mr_end = 0x3000, mr_kind = Usable\<rparr>] [range] in
     rbind (assert_eq r (Err Exhausted)) (\<lambda>_.
     assert_that (\<not> efs_is_initialized s)))))"

section \<open>Processor topology\<close>

definition topology_rejects_empty_active_set :: test where
  "topology_rejects_empty_active_set =
     assert_eq (from_active 4 []) (Err EmptyTopology)"

definition topology_rejects_duplicate_active_cpu :: test where
  "topology_rejects_duplicate_active_cpu =
     assert_eq (from_active 4 [1, 1]) (Err DuplicateCpu)"

definition topology_rejects_more_active_cpus_than_storage :: test where
  "topology_rejects_more_active_cpus_than_storage =
     assert_eq (from_active 2 [1, 2, 3]) (Err TooManyCpus)"

definition all_active_expands_to_snapshot_cpus :: test where
  "all_active_expands_to_snapshot_cpus =
     rbind (expect_ok (from_active 4 [2, 4, 6])) (\<lambda>topology.
     rbind (expect_ok (expand topology AllActive)) (\<lambda>target.
     rbind (assert_eq (tcs_count target) 3) (\<lambda>_.
     rbind (assert_that (target_contains target 2)) (\<lambda>_.
     rbind (assert_that (target_contains target 4)) (\<lambda>_.
     rbind (assert_that (target_contains target 6)) (\<lambda>_.
     assert_that (\<not> target_contains target 0)))))))"

definition one_cpu_target_requires_active_cpu :: test where
  "one_cpu_target_requires_active_cpu =
     rbind (expect_ok (from_active 4 [3, 5])) (\<lambda>topology.
     rbind (expect_ok (expand topology (One 5))) (\<lambda>target.
     rbind (assert_eq (tcs_count target) 1) (\<lambda>_.
     rbind (assert_that (target_contains target 5)) (\<lambda>_.
     rbind (assert_that (\<not> target_contains target 3)) (\<lambda>_.
     assert_eq (expand topology (One 7)) (Err UnknownCpu))))))"

section \<open>Page-table intents\<close>

text \<open>The integration test \<^verbatim>\<open>ostd/tests/page_table.rs\<close>.\<close>

definition page_table_map_intent_records_checked_mapping_facts :: test where
  "page_table_map_intent_records_checked_mapping_facts =
     rbind (expect_ok (virtual_range_new 0x4000 0x2000)) (\<lambda>v.
     rbind (range_of 0x8000 0xa000) (\<lambda>f.
     (let rights = PT_READ OR PT_WRITE in
     rbind (expect_ok (intent_map v f rights)) (\<lambda>intent.
     rbind (assert_eq (intent_virtual_range intent) v) (\<lambda>_.
     assert_eq (pti_update intent) (MapUpdate v f rights))))))"

definition page_table_unmap_and_tlb_intents_record_checked_virtual_range :: test where
  "page_table_unmap_and_tlb_intents_record_checked_virtual_range =
     rbind (expect_ok (virtual_range_new 0x4000 0x2000)) (\<lambda>range.
     (let target = One 3; generation = 8; page_table = intent_unmap range; tlb = tlb_intent_new range target generation in
     rbind (assert_eq (pti_update page_table) (UnmapUpdate range)) (\<lambda>_.
     rbind (assert_eq (tli_range tlb) range) (\<lambda>_.
     rbind (assert_eq (tli_target tlb) target) (\<lambda>_.
     assert_eq (tli_generation tlb) generation)))))"

definition page_table_intents_reject_unaligned_or_empty_ranges :: test where
  "page_table_intents_reject_unaligned_or_empty_ranges =
     rbind (assert_eq (virtual_range_new 0x4000 0) (Err EmptyRange)) (\<lambda>_.
     rbind (assert_eq (virtual_range_new 0x4001 0x1000) (Err UnalignedRange)) (\<lambda>_.
     assert_eq (virtual_range_new (- 1 - 0xfff) 0x1000) (Err RangeOverflow)))"

definition page_table_map_intent_requires_matching_size_and_rights :: test where
  "page_table_map_intent_requires_matching_size_and_rights =
     rbind (expect_ok (virtual_range_new 0x4000 0x2000)) (\<lambda>v.
     rbind (range_of 0x8000 0x9000) (\<lambda>short.
     rbind (range_of 0x8000 0xa000) (\<lambda>f.
     rbind (assert_eq (intent_map v short PT_READ) (Err RangeSizeMismatch)) (\<lambda>_.
     assert_eq (intent_map v f 0) (Err RightsEmpty)))))"

section \<open>The tests pass\<close>

lemmas test_defs = assert_eq_def layout_of_size_align_def layout_u8_def range_of_def gives_def range_at_def allocator_range_def
  as_range_def efa_new_def efa_allocate_def efa_allocated_def efa_remaining_def ema_new_def ema_allocated_in_def ema_range_def
  nmm_is_empty_def nmm_range_def normalize_memory_regions_def efs_is_initialized_def early_frame_defs
  from_active_def expand_def target_contains_def target_cpus_def active_cpus_def List.map_filter_def
  virtual_range_new_def validate_page_range_def intent_map_def intent_virtual_range_def intent_unmap_def tlb_intent_new_def
  replicate_numeral frame_range_len_def PT_READ_def PT_WRITE_def

lemma frame_range_cases_pass: "frame_range_cases = Ok ()"
  by (simp add: frame_range_cases_def frame_range_rejects_invalid_boundaries_def test_defs)

lemma frame_allocator_cases_pass: "frame_allocator_cases = Ok ()"
  by (simp add: frame_allocator_cases_def frame_allocator_rejects_invalid_requests_without_advancing_def test_defs)

lemma allocates_page_aligned_ranges_monotonically_passes: "allocates_page_aligned_ranges_monotonically = Ok ()"
  by (simp add: allocates_page_aligned_ranges_monotonically_def test_defs)

lemma honors_larger_alignment_passes: "honors_larger_alignment = Ok ()"
  by (simp add: honors_larger_alignment_def test_defs)

lemma memory_map_allocator_walks_ranges_in_order_passes: "memory_map_allocator_walks_ranges_in_order = Ok ()"
  by (simp add: memory_map_allocator_walks_ranges_in_order_def test_defs)

lemma memory_map_allocator_honors_alignment_per_range_passes: "memory_map_allocator_honors_alignment_per_range = Ok ()"
  by (simp add: memory_map_allocator_honors_alignment_per_range_def test_defs)

lemma memory_map_allocator_exhaustion_does_not_advance_ranges_passes: "memory_map_allocator_exhaustion_does_not_advance_ranges = Ok ()"
  by (simp add: memory_map_allocator_exhaustion_does_not_advance_ranges_def test_defs)

lemma normalizes_only_usable_page_ranges_passes: "normalizes_only_usable_page_ranges = Ok ()"
  by (simp add: normalizes_only_usable_page_ranges_def test_defs)

lemma normalizing_empty_usable_result_is_allowed_passes: "normalizing_empty_usable_result_is_allowed = Ok ()"
  by (simp add: normalizing_empty_usable_result_is_allowed_def test_defs)

lemma normalizing_reports_capacity_exhaustion_passes: "normalizing_reports_capacity_exhaustion = Ok ()"
  by (simp add: normalizing_reports_capacity_exhaustion_def test_defs)

lemma normalizing_subtracts_reserved_ranges_passes: "normalizing_subtracts_reserved_ranges = Ok ()"
  by (simp add: normalizing_subtracts_reserved_ranges_def test_defs)

lemma reserved_ranges_can_cover_usable_range_edges_passes: "reserved_ranges_can_cover_usable_range_edges = Ok ()"
  by (simp add: reserved_ranges_can_cover_usable_range_edges_def test_defs)

lemma reserved_ranges_can_remove_all_usable_memory_passes: "reserved_ranges_can_remove_all_usable_memory = Ok ()"
  by (simp add: reserved_ranges_can_remove_all_usable_memory_def test_defs)

lemma reserved_ranges_can_be_unsorted_and_overlapping_passes: "reserved_ranges_can_be_unsorted_and_overlapping = Ok ()"
  by (simp add: reserved_ranges_can_be_unsorted_and_overlapping_def test_defs)

lemma reports_capacity_exhaustion_after_reserved_subtraction_passes: "reports_capacity_exhaustion_after_reserved_subtraction = Ok ()"
  by (simp add: reports_capacity_exhaustion_after_reserved_subtraction_def test_defs)

lemma normalized_map_can_create_allocator_passes: "normalized_map_can_create_allocator = Ok ()"
  by (simp add: normalized_map_can_create_allocator_def test_defs)

lemma empty_normalized_map_cannot_create_allocator_passes: "empty_normalized_map_cannot_create_allocator = Ok ()"
  by (simp add: empty_normalized_map_cannot_create_allocator_def test_defs)

lemma early_frame_state_rejects_allocation_before_init_passes: "early_frame_state_rejects_allocation_before_init = Ok ()"
  by (simp add: early_frame_state_rejects_allocation_before_init_def test_defs)

lemma early_frame_state_initializes_from_regions_once_passes: "early_frame_state_initializes_from_regions_once = Ok ()"
  by (simp add: early_frame_state_initializes_from_regions_once_def test_defs)

lemma early_frame_state_allocates_only_after_reserved_ranges_passes: "early_frame_state_allocates_only_after_reserved_ranges = Ok ()"
  by (simp add: early_frame_state_allocates_only_after_reserved_ranges_def test_defs)

lemma early_frame_state_reports_no_available_memory_passes: "early_frame_state_reports_no_available_memory = Ok ()"
  by (simp add: early_frame_state_reports_no_available_memory_def test_defs)

lemma topology_rejects_empty_active_set_passes: "topology_rejects_empty_active_set = Ok ()"
  by (simp add: topology_rejects_empty_active_set_def test_defs)

lemma topology_rejects_duplicate_active_cpu_passes: "topology_rejects_duplicate_active_cpu = Ok ()"
  by (simp add: topology_rejects_duplicate_active_cpu_def test_defs)

lemma topology_rejects_more_active_cpus_than_storage_passes: "topology_rejects_more_active_cpus_than_storage = Ok ()"
  by (simp add: topology_rejects_more_active_cpus_than_storage_def test_defs)

lemma all_active_expands_to_snapshot_cpus_passes: "all_active_expands_to_snapshot_cpus = Ok ()"
  by (simp add: all_active_expands_to_snapshot_cpus_def test_defs)

lemma one_cpu_target_requires_active_cpu_passes: "one_cpu_target_requires_active_cpu = Ok ()"
  by (simp add: one_cpu_target_requires_active_cpu_def test_defs)

lemma page_table_map_intent_records_checked_mapping_facts_passes: "page_table_map_intent_records_checked_mapping_facts = Ok ()"
  by (simp add: page_table_map_intent_records_checked_mapping_facts_def test_defs)

lemma page_table_unmap_and_tlb_intents_record_checked_virtual_range_passes: "page_table_unmap_and_tlb_intents_record_checked_virtual_range = Ok ()"
  by (simp add: page_table_unmap_and_tlb_intents_record_checked_virtual_range_def test_defs)

lemma page_table_intents_reject_unaligned_or_empty_ranges_passes: "page_table_intents_reject_unaligned_or_empty_ranges = Ok ()"
  by (simp add: page_table_intents_reject_unaligned_or_empty_ranges_def test_defs)

lemma page_table_map_intent_requires_matching_size_and_rights_passes: "page_table_map_intent_requires_matching_size_and_rights = Ok ()"
  by (simp add: page_table_map_intent_requires_matching_size_and_rights_def test_defs)

end
