(* ===== verification/Kernel_Tests.thy ===== *)
theory Kernel_Tests
  imports Kernel_Demo Ostd_Tests Qemu_Runner
begin

text \<open>
  The unit test of \<^verbatim>\<open>kernel/src/object/mod.rs\<close>, the integration tests \<^verbatim>\<open>kernel/tests/memory_frame.rs\<close> of the frame
  allocator and the unit test of \<^verbatim>\<open>tools/qemu-runner/src/main.rs\<close>, translated like those of the hardware layer.
  The host heap of a test always has room.
\<close>

definition test_heap :: heap where
  "test_heap = (\<lambda>site n. True)"

definition test_range :: "u64 \<Rightarrow> u64 \<Rightarrow> (unit, memory_frame_range) result" where
  "test_range start end' = expect_ok (mfr_new start end')"

fun is_ok :: "('e, 'a) result \<Rightarrow> bool" where
  "is_ok (Ok a) = True"
| "is_ok _ = False"

section \<open>The frame allocator\<close>

definition test_allocator :: "(unit, frame_allocator) result" where
  "test_allocator =
     rbind (test_range 0x1000 0x3000) (\<lambda>r0.
     rbind (test_range 0x8000 0x9000) (\<lambda>r1.
     expect_ok (fa_from_available_ranges test_heap [r0, r1])))"

definition runtime_frame_allocator_imports_available_ranges_as_free_metadata :: test where
  "runtime_frame_allocator_imports_available_ranges_as_free_metadata =
     rbind test_allocator (\<lambda>fa.
     rbind (assert_eq (fa_capacity fa) 3) (\<lambda>_.
     assert_eq (fa_free_count fa) 3))"

definition reserving_frame_publishes_owner_and_physical_address :: test where
  "reserving_frame_publishes_owner_and_physical_address =
     rbind test_allocator (\<lambda>fa.
     let (r, fa) = fa_reserve_one OwnerKernel fa in
     rbind (expect_ok r) (\<lambda>frame.
     rbind (assert_eq (fref_paddr frame) 0x1000) (\<lambda>_.
     rbind (assert_eq (fa_free_count fa) 2) (\<lambda>_.
     assert_eq (fa_state fa (fref_id frame)) (Ok (Allocated OwnerKernel))))))"

definition contiguous_reservation_publishes_one_owner_range :: test where
  "contiguous_reservation_publishes_one_owner_range =
     rbind test_allocator (\<lambda>fa.
     let (r, fa) = fa_reserve_contiguous (OwnerMemoryObject 3 1) 0x2000 fa in
     rbind (expect_ok r) (\<lambda>range.
     rbind (test_range 0x1000 0x3000) (\<lambda>expected.
     rbind (assert_eq range expected) (\<lambda>_.
     rbind (assert_eq (fa_free_count fa) 1) (\<lambda>_.
     rbind (assert_eq (fa_state fa 0) (Ok (Allocated (OwnerMemoryObject 3 1)))) (\<lambda>_.
     assert_eq (fa_state fa 1) (Ok (Allocated (OwnerMemoryObject 3 1)))))))))"

definition contiguous_reservation_is_based_on_physical_order :: test where
  "contiguous_reservation_is_based_on_physical_order =
     rbind (test_range 0x8000 0x9000) (\<lambda>r0.
     rbind (test_range 0x1000 0x3000) (\<lambda>r1.
     rbind (expect_ok (fa_from_available_ranges test_heap [r0, r1])) (\<lambda>fa.
     let (r, fa) = fa_reserve_contiguous (OwnerMemoryObject 5 1) 0x2000 fa in
     rbind (test_range 0x1000 0x3000) (\<lambda>expected. assert_eq r (Ok expected)))))"

definition contiguous_reservation_failure_leaves_allocator_unchanged :: test where
  "contiguous_reservation_failure_leaves_allocator_unchanged =
     rbind test_allocator (\<lambda>fa.
     let (r, fa) = fa_reserve_one OwnerKernel fa in
     rbind (expect_ok r) (\<lambda>first.
     let (r, fa) = fa_reserve_contiguous (OwnerMemoryObject 4 1) 0x2000 fa in
     rbind (assert_eq r (Err NoMemory)) (\<lambda>_.
     rbind (assert_eq (fa_free_count fa) 2) (\<lambda>_.
     assert_eq (fa_state fa (fref_id first)) (Ok (Allocated OwnerKernel))))))"

definition exhaustion_does_not_mutate_allocator_state :: test where
  "exhaustion_does_not_mutate_allocator_state =
     rbind test_allocator (\<lambda>fa.
     let (r, fa) = fa_reserve_one OwnerKernel fa in
     rbind (expect_ok r) (\<lambda>first.
     let (r, fa) = fa_reserve_one OwnerKernel fa in
     rbind (expect_ok r) (\<lambda>second.
     let (r, fa) = fa_reserve_one OwnerKernel fa in
     rbind (expect_ok r) (\<lambda>third.
     let (r, fa) = fa_reserve_one OwnerKernel fa in
     rbind (assert_eq r (Err NoMemory)) (\<lambda>_.
     rbind (assert_eq (fa_free_count fa) 0) (\<lambda>_.
     rbind (assert_eq (fa_state fa (fref_id first)) (Ok (Allocated (fref_owner first)))) (\<lambda>_.
     rbind (assert_eq (fa_state fa (fref_id second)) (Ok (Allocated (fref_owner second)))) (\<lambda>_.
     assert_eq (fa_state fa (fref_id third)) (Ok (Allocated (fref_owner third)))))))))))"

definition double_free_preserves_free_state_after_generation_advance :: test where
  "double_free_preserves_free_state_after_generation_advance =
     rbind test_allocator (\<lambda>fa.
     let (r, fa) = fa_reserve_one (OwnerProcess 7) fa in
     rbind (expect_ok r) (\<lambda>frame.
     let (r, fa) = fa_free frame fa in
     rbind (assert_eq r (Ok ())) (\<lambda>_.
     let (r, fa) = fa_free frame fa in
     rbind (assert_eq r (Err StaleHandle)) (\<lambda>_.
     assert_eq (fa_state fa (fref_id frame)) (Ok Free)))))"

definition freed_frame_rejects_stale_reference_after_generation_advance :: test where
  "freed_frame_rejects_stale_reference_after_generation_advance =
     rbind test_allocator (\<lambda>fa.
     let (r, fa) = fa_reserve_one (OwnerMemoryObject 9 1) fa in
     rbind (expect_ok r) (\<lambda>frame.
     let (r, fa) = fa_free frame fa in
     rbind (assert_eq r (Ok ())) (\<lambda>_.
     let (r, fa) = fa_free frame fa in
     rbind (assert_eq r (Err StaleHandle)) (\<lambda>_.
     rbind (assert_eq (fa_state fa (fref_id frame)) (Ok Free)) (\<lambda>_.
     assert_eq (fa_free_count fa) 3)))))"

definition memory_object_range_release_requires_matching_object_generation :: test where
  "memory_object_range_release_requires_matching_object_generation =
     rbind test_allocator (\<lambda>fa.
     let owner = OwnerMemoryObject 7 1; (r, fa) = fa_reserve_contiguous owner 0x2000 fa in
     rbind (expect_ok r) (\<lambda>range.
     let (r, fa) = fa_free_range range (OwnerMemoryObject 7 2) fa in
     rbind (assert_eq r (Err MissingRights)) (\<lambda>_.
     rbind (assert_eq (fa_free_count fa) 1) (\<lambda>_.
     assert_eq (fa_state fa 0) (Ok (Allocated owner))))))"

definition invalid_frame_ranges_are_rejected_before_metadata_publication :: test where
  "invalid_frame_ranges_are_rejected_before_metadata_publication =
     rbind (assert_eq (mfr_new 0x1001 0x2000) (Err InvalidArgument)) (\<lambda>_.
     rbind (assert_eq (mfr_new 0x2000 0x2000) (Err InvalidArgument)) (\<lambda>_.
     rbind (assert_eq (map_ok fa_capacity (fa_from_available_ranges test_heap [])) (Err NoMemory)) (\<lambda>_.
     assert_eq MEM_PAGE_SIZE 4096)))"

definition overlapping_available_ranges_are_rejected_before_metadata_publication :: test where
  "overlapping_available_ranges_are_rejected_before_metadata_publication =
     rbind (test_range 0x1000 0x3000) (\<lambda>r0.
     rbind (test_range 0x2000 0x4000) (\<lambda>r1.
     assert_eq (map_ok fa_capacity (fa_from_available_ranges test_heap [r0, r1])) (Err InvalidArgument)))"

section \<open>The object manager\<close>

definition generic_destroy_rejects_unpublished_reclaimable_memory_object :: test where
  "generic_destroy_rejects_unpublished_reclaimable_memory_object =
     rbind (expect_ok (om_with_capacity test_heap 1)) (\<lambda>om.
     rbind (expect_ok (om_reserve_entry om)) (\<lambda>reservation.
     let owner = OwnerMemoryObject (reservation_object_id reservation) (oer_generation reservation) in
     rbind (test_range 0x1000 0x2000) (\<lambda>range.
     rbind (expect_ok (memory_object_new 0x1000 \<lparr>mp_max_rights = HR_READ OR HR_WRITE\<rparr> range)) (\<lambda>memory.
     let (r, om) = om_commit_reserved reservation (PMemoryObject memory) om in
     rbind (expect_ok r) (\<lambda>object.
     rbind (assert_eq owner (OwnerMemoryObject (sn_id object) (sn_generation object))) (\<lambda>_.
     let (r, om) = om_destroy (sn_id object) (sn_generation object) om in
     rbind (assert_eq r (Err WouldBlock)) (\<lambda>_.
     assert_that (is_ok (om_validate om (sn_id object) (sn_generation object) KindMemoryObject)))))))))"

section \<open>The runner\<close>

definition qemu_command_uses_multicore_topology :: test where
  "qemu_command_uses_multicore_topology =
     (let args = snd (qemu_command ''target/aarch64-unknown-none/debug/kernel'') in
     rbind (expect (List.find (\<lambda>window. window ! 0 = ''-smp'') (windows 2 args))) (\<lambda>smp.
     assert_eq (smp ! 1) QEMU_CPUS))"

section \<open>The tests pass\<close>

lemma test_allocator_eq:
  "test_allocator = Ok \<lparr>fa_frames = [
     \<lparr>fe_paddr = 0x1000, fe_generation = 1, fe_state = Free\<rparr>, \<lparr>fe_paddr = 0x2000, fe_generation = 1, fe_state = Free\<rparr>,
     \<lparr>fe_paddr = 0x8000, fe_generation = 1, fe_state = Free\<rparr>]\<rparr>"
  by code_simp

lemma test_imports:
  "fa_from_available_ranges test_heap [\<lparr>mfr_start = 0x8000, mfr_end = 0x9000\<rparr>, \<lparr>mfr_start = 0x1000, mfr_end = 0x3000\<rparr>]
    = Ok \<lparr>fa_frames = [
     \<lparr>fe_paddr = 0x1000, fe_generation = 1, fe_state = Free\<rparr>, \<lparr>fe_paddr = 0x2000, fe_generation = 1, fe_state = Free\<rparr>,
     \<lparr>fe_paddr = 0x8000, fe_generation = 1, fe_state = Free\<rparr>]\<rparr>"
  "fa_from_available_ranges test_heap [\<lparr>mfr_start = 0x1000, mfr_end = 0x3000\<rparr>, \<lparr>mfr_start = 0x2000, mfr_end = 0x4000\<rparr>]
    = Err InvalidArgument"
  "fa_from_available_ranges test_heap [] = Err NoMemory"
  by code_simp+

lemmas kernel_test_defs = test_range_def test_allocator_eq test_imports assert_eq_def fa_capacity_def fa_free_count_def
  fa_reserve_one_def fa_free_def fa_state_def replicate_numeral base_defs object_defs memory_defs

lemma runtime_frame_allocator_imports_available_ranges_as_free_metadata_passes: "runtime_frame_allocator_imports_available_ranges_as_free_metadata = Ok ()"
  by (simp add: runtime_frame_allocator_imports_available_ranges_as_free_metadata_def kernel_test_defs cong: step_congs)

lemma reserving_frame_publishes_owner_and_physical_address_passes: "reserving_frame_publishes_owner_and_physical_address = Ok ()"
  by (simp add: reserving_frame_publishes_owner_and_physical_address_def kernel_test_defs cong: step_congs)

lemma contiguous_reservation_publishes_one_owner_range_passes: "contiguous_reservation_publishes_one_owner_range = Ok ()"
  by (simp add: contiguous_reservation_publishes_one_owner_range_def kernel_test_defs cong: step_congs)

lemma contiguous_reservation_is_based_on_physical_order_passes: "contiguous_reservation_is_based_on_physical_order = Ok ()"
  by (simp add: contiguous_reservation_is_based_on_physical_order_def kernel_test_defs cong: step_congs)

lemma contiguous_reservation_failure_leaves_allocator_unchanged_passes: "contiguous_reservation_failure_leaves_allocator_unchanged = Ok ()"
  by (simp add: contiguous_reservation_failure_leaves_allocator_unchanged_def kernel_test_defs cong: step_congs)

lemma exhaustion_does_not_mutate_allocator_state_passes: "exhaustion_does_not_mutate_allocator_state = Ok ()"
  by (simp add: exhaustion_does_not_mutate_allocator_state_def kernel_test_defs cong: step_congs)

lemma double_free_preserves_free_state_after_generation_advance_passes: "double_free_preserves_free_state_after_generation_advance = Ok ()"
  by (simp add: double_free_preserves_free_state_after_generation_advance_def kernel_test_defs cong: step_congs)

lemma freed_frame_rejects_stale_reference_after_generation_advance_passes: "freed_frame_rejects_stale_reference_after_generation_advance = Ok ()"
  by (simp add: freed_frame_rejects_stale_reference_after_generation_advance_def kernel_test_defs cong: step_congs)

lemma memory_object_range_release_requires_matching_object_generation_passes: "memory_object_range_release_requires_matching_object_generation = Ok ()"
  by (simp add: memory_object_range_release_requires_matching_object_generation_def kernel_test_defs cong: step_congs)

lemma invalid_frame_ranges_are_rejected_before_metadata_publication_passes: "invalid_frame_ranges_are_rejected_before_metadata_publication = Ok ()"
  by (simp add: invalid_frame_ranges_are_rejected_before_metadata_publication_def kernel_test_defs cong: step_congs)

lemma overlapping_available_ranges_are_rejected_before_metadata_publication_passes: "overlapping_available_ranges_are_rejected_before_metadata_publication = Ok ()"
  by (simp add: overlapping_available_ranges_are_rejected_before_metadata_publication_def kernel_test_defs cong: step_congs)

lemma generic_destroy_rejects_unpublished_reclaimable_memory_object_passes: "generic_destroy_rejects_unpublished_reclaimable_memory_object = Ok ()"
  by (simp add: generic_destroy_rejects_unpublished_reclaimable_memory_object_def test_heap_def kernel_test_defs cong: step_congs)

lemma qemu_command_uses_multicore_topology_passes: "qemu_command_uses_multicore_topology = Ok ()"
  by code_simp

end
