(* ===== verification/Spec2Isabelle.thy ===== *)
theory Spec2Isabelle
  imports Ostd_Aarch64 Ostd_X86 Kernel_Boot Demo_Runs Kernel_Tests
begin

text \<open>
  A verification library of the Ousia kernel: the kernel crate (\<^verbatim>\<open>src/kernel/src\<close>), the hardware layer below it
  (\<^verbatim>\<open>src/ostd/src\<close>), the binary that puts the two together (\<^verbatim>\<open>src/kernel-bin/src/entry.rs\<close>) and the host tool that
  runs it (\<^verbatim>\<open>src/tools/qemu-runner\<close>).

  \<^bold>\<open>The program.\<close>  A \<^verbatim>\<open>Kernel\<close> owns an object manager, a process table and a frame allocator.  A process has a
  handle table and an object budget.  A handle names a slot of the table of its process and a generation of
  that slot; the slot holds an entry that names an object, its generation and its kind, and the rights.
  Objects are events, threads, processes, channel endpoints, memory objects and address spaces.  A system
  call looks its handles up in the caller's table, works on the objects, and returns an outcome or an error:
  memory objects take contiguous frames and give them back when their last handle and mapping are gone;
  address spaces map memory objects and queue TLB work for ranges unmapped; channel endpoints come in pairs
  and carry bytes and handles, which leave the sender's table and enter the receiver's.

  \<^bold>\<open>Theories and sources.\<close>
  \<^item> \<open>Prelude\<close>: results with a value for a panic, state passing, checked and wrapping machine arithmetic, the
    answers of the heap, sums over slots, and the lemmas on lists and words that all share.
  \<^item> \<open>KTypes\<close>: \<^verbatim>\<open>error/mod.rs\<close>, handle values, rights and entries of \<^verbatim>\<open>handle/mod.rs\<close>, kinds of \<^verbatim>\<open>object/mod.rs\<close>.
  \<^item> \<open>Memory_Frame\<close>: \<^verbatim>\<open>memory/frame.rs\<close>, the physical frame allocator.
  \<^item> \<open>Vm\<close>: \<^verbatim>\<open>vm/mod.rs\<close>, memory objects, range sets, address spaces with both phases of map and unmap, the queue of
    TLB work; it uses \<open>Ostd_PageTable\<close>, \<^verbatim>\<open>ostd/src/mm/page_table.rs\<close>.
  \<^item> \<open>Channel\<close>: messages and endpoints of \<^verbatim>\<open>object/mod.rs\<close>; \<open>Object\<close>: the object manager of the same file.
  \<^item> \<open>Handle\<close>: the handle table; \<open>Process\<close>: \<^verbatim>\<open>process/mod.rs\<close>; \<open>Syscall\<close>: \<^verbatim>\<open>syscall/mod.rs\<close>.
  \<^item> \<open>Kernel_Boot\<close>: the boot scenario of \<^verbatim>\<open>kernel-bin/src/entry.rs\<close>, and \<^verbatim>\<open>ostd/src/mm/heap.rs\<close>.
  \<^item> \<open>Ostd_Frame\<close>, \<open>Ostd_Cpu\<close>: \<^verbatim>\<open>ostd/src/mm/frame.rs\<close> and \<^verbatim>\<open>cpu.rs\<close>; \<open>Ostd_Console\<close>: both UART drivers;
    \<open>Aarch64\<close>: a machine for the instructions used, \<open>Ostd_Aarch64\<close>: the assembly of \<^verbatim>\<open>boot/aarch64.rs\<close> and
    \<^verbatim>\<open>arch/aarch64/exception.rs\<close> on it, with the Rust functions it calls; \<open>Ostd_X86\<close>: the stub of \<^verbatim>\<open>boot/x86_64.rs\<close>;
    \<open>Qemu_Runner\<close>: the host tool.
  \<^item> \<open>Ostd_Tests\<close>, \<open>Kernel_Tests\<close>: the unit tests in the source files, \<^verbatim>\<open>ostd/tests/page_table.rs\<close> and
    \<^verbatim>\<open>kernel/tests/memory_frame.rs\<close>, each proved to pass on the model.

  A struct is a record with a prefix per type, an enum a datatype, \<^verbatim>\<open>u64\<close> and \<^verbatim>\<open>u32\<close> are words, \<^verbatim>\<open>usize\<close> is a natural
  number whose arithmetic panics beyond \<open>usize_max\<close>.  \<^verbatim>\<open>KernelResult\<close> is \<open>Ok\<close> or \<open>Err\<close> with a third value
  \<open>Panic\<close>, for every index, \<^verbatim>\<open>expect\<close> and overflow of the source.  A method that mutates takes and returns the
  parts of the state that it borrows.  Whether an allocation succeeds is a parameter, \<open>heap\<close>, by site and size.

  \<^bold>\<open>Contracts and lemmas.\<close>
  \<^item> \<open>Slot_Arena\<close>, \<open>Fifo_Spec\<close>, \<open>Bag_Spec\<close>: locales for slots reused with generations, for a queue and for a bag,
    interpreted on the frame allocator, the handle table and the object manager, on the TLB queue, and on the
    channel endpoint; the frame allocator also interprets the contract of a lessor of frames, the consoles that
    of a byte port.
  \<^item> \<open>Object_Refs\<close>, \<open>Object_Inv\<close>, \<open>Handle_Inv\<close>, \<open>Process_Inv\<close>, \<open>Kernel_Inv\<close>: the invariant of each layer and what
    every operation keeps of it.  The invariant counts: the handles of an object are those of all tables and
    waiting messages, the mappings of a memory object those of all address spaces, the frames allocated
    those of live memory objects.
  \<^item> \<open>Handle_Names\<close>: handle tables only take steps that fill a free slot or clear one and raise its generation;
    \<open>Handle_Lineage\<close>: the walk through parents; \<open>Channel_Transfer\<close>: handles in messages; \<open>Process_Budget\<close>: costs;
    \<open>Kernel_Reach\<close>: what every reachable kernel satisfies.
  \<^item> \<open>Ownership\<close>, \<open>Isolation\<close>: every object has one owner, the only process with handles to it; so the lineages stay
    free of cycles through any traffic on channels, and every system call returns.
  \<^item> \<open>Capability_Machine\<close>: the abstract specification of the kernel as an object-capability system, a step relation
    on handle tables, endpoints and live objects with six kinds of action; \<open>Capability_Refinement\<close>: every system
    call is such a step, so what holds for the steps holds for the kernel.
  \<^item> \<open>Object_Names\<close>: an object id with its generation is a name that is never given twice, and what every
    operation may do to the mappings; \<open>Authority\<close>: authority over an object that exists never grows.
  \<^item> \<open>Memory_Isolation\<close>: an address space holds memory of its own owner only, so no page is in the reach of two
    processes; \<open>Object_Reach\<close>: an operation on an object stays within the objects that refer to each other;
    \<open>Integrity\<close>: so a system call leaves every other process alone.
  \<^item> \<open>Kernel_Demo\<close>, \<open>Demo_Runs\<close>: a small kernel and its runs, to which the properties are applied.

  \<^bold>\<open>Bounds.\<close>  \<open>kernel_run B H n k\<close> says that \<open>k\<close> is reached from a new kernel by creating processes with tables of
  at most \<open>B\<close> slots and by system calls of any process under heaps that satisfy \<open>H\<close>, with \<open>n\<close> as the number of
  steps still counted for: each call uses up \<open>B + 4\<close>, and the start has less than \<open>usize_max\<close> in all.
  So counters of 64 bits cannot overflow within the run, which is the only use of the bound; with tables of
  a million slots it allows \<open>2 ^ 40\<close> calls.  \<open>B\<close> is at most \<open>2 ^ 32\<close>, since a handle value has 32 bits of index.  Loops
  that may not end (the lineage walk, the waits for a device, the assembly machine) are partial functions,
  and that they end is proved where it is claimed.

  \<^bold>\<open>Not modelled.\<close>  \<^verbatim>\<open>kernel_main\<close> and the way \<^verbatim>\<open>entry.rs\<close> makes its kernel, since its call of \<^verbatim>\<open>Kernel::new\<close> lacks
  the frame ranges and does not compile (the calls that follow are modelled on a given kernel); the integration tests
  of the kernel crate other than those of the frame allocator; the third-party heap allocator, command-line parser and
  QEMU, which are parameters; the endless wait loops of the Rust code, which have no state; the second stack pointer of
  AArch64, which the exception entry never reads; the choice of the architecture by conditional compilation, and the
  formatting of the diagnostic text beyond what the consoles print.
\<close>

section \<open>Properties of the whole kernel\<close>

text \<open>C2 (refinement). Every system call of a reachable kernel is a step of the abstract capability machine: the action that its arguments name when it succeeds, none when it fails, except for a revocation and a receive that fail half-way.\<close>

theorem system_calls_refine_the_capability_machine:
  assumes "kernel_run B H (n + B + 4) k" and "B \<le> 2 ^ 32" and "execute heap cx sc k = Some (r, k')"
  shows "\<exists>a. cap_step (sc_process cx) a (caps_of k) (caps_of k')
    \<and> (case r of Ok _ \<Rightarrow> a = action_of sc
       | Err _ \<Rightarrow> a = Idle \<or> a = action_of sc \<and> (case sc of RevokeDescendants _ \<Rightarrow> True | ChannelRecv _ \<Rightarrow> True | _ \<Rightarrow> False)
       | Panic \<Rightarrow> False)"
proof -
  obtain lost where ok: "kernel_ok B (n + B + 4) lost k" using kernel_run_ok [OF assms(1,2)] by blast
  from execute_step [OF ok assms(3)] obtain a where "allowed sc r a" "cap_step (sc_process cx) a (caps_of k) (caps_of k')" by blast
  then show ?thesis by (cases r) auto
qed

theorem system_calls_refine_the_capability_machine_witness:
  "cap_step (sc_process demo_context) (Duplicate demo_handle 17) (caps_of demo_kernel) (caps_of demo_dup)"
  using system_calls_refine_the_capability_machine [OF _ _ demo_duplicated, of 4 recv_heap 0] demo_run by auto

text \<open>C3 (safety). Authority over an existing object never grows: a handle that a later kernel holds to an object that is live now, in a table or in a waiting message, has at most the rights of some handle of now to the object, and a later mapping of the object is a mapping of now or has at most the rights of such a handle.\<close>

theorem authority_never_grows:
  assumes "kernel_run B H n k" and "B \<le> 2 ^ 32" and "kernel_later B H (n, k) (m, k')"
    and "om_at (k_objects k) i = Some x" and "memory = \<lparr>or_id = i, or_generation = oe_generation x\<rparr>"
  shows "(\<forall>d \<in> kernel_handles k'. object_of d = (i, oe_generation x)
        \<longrightarrow> (\<exists>e \<in> kernel_handles k. object_of e = (i, oe_generation x) \<and> rights_contain (hte_rights e) (hte_rights d)))
    \<and> (\<forall>rights. (memory, rights) \<in> om_mappings (k_objects k') \<longrightarrow> (memory, rights) \<in> om_mappings (k_objects k)
        \<or> (\<exists>e \<in> kernel_handles k. object_of e = (i, oe_generation x) \<and> rights_contain (hte_rights e) rights))"
proof (intro conjI ballI allI impI)
  fix d assume "d \<in> kernel_handles k'" and "object_of d = (i, oe_generation x)"
  then show "\<exists>e \<in> kernel_handles k. object_of e = (i, oe_generation x) \<and> rights_contain (hte_rights e) (hte_rights d)"
    using later_authority [OF assms(3,1,2,4)] by (metis attenuates_def)
next
  fix rights assume "(memory, rights) \<in> om_mappings (k_objects k')"
  from later_mappings [OF assms(3,1,2) _ _ this] show "(memory, rights) \<in> om_mappings (k_objects k)
      \<or> (\<exists>e \<in> kernel_handles k. object_of e = (i, oe_generation x) \<and> rights_contain (hte_rights e) rights)"
    using assms(4,5) by simp
qed

theorem authority_never_grows_witness:
  "\<exists>e \<in> kernel_handles demo_space. object_of e = (1, 1) \<and> rights_contain (hte_rights e) HR_READ"
proof -
  obtain r where call: "execute demo_heap demo_context (MapMemoryObject 0x100000002 demo_handle 0x1000 0x1000 0 HR_READ) demo_space
    = Some (r, demo_map_kernel)" using demo_map_call by blast
  have run: "kernel_run 4 recv_heap 8 demo_space" by (rule demo_run_call [OF demo_run demo_space_created]) simp_all
  have later: "kernel_later 4 recv_heap (8, demo_space) (0, demo_map_kernel)" by (rule demo_next [OF call]) simp
  obtain x where x: "om_at (k_objects demo_space) 1 = Some x" "oe_generation x = 1"
    by (simp add: demo_space_def demo_vm_def demo_at demo_object_def)
  have none: "om_mappings (k_objects demo_space) = {}"
    by (simp add: om_mappings_def om_holds_def oe_ref_def as_refs_def demo_eval live_def as_mappings_def)
  have mapped: "(\<lparr>or_id = 1, or_generation = oe_generation x\<rparr>, HR_READ) \<in> om_mappings (k_objects demo_map_kernel)"
    using x(2) by (simp add: om_mappings_def om_holds_def oe_ref_def as_refs_def demo_eval live_def as_mappings_def)
  show ?thesis using authority_never_grows [OF run _ later x(1) refl] mapped none x(2) by auto
qed

text \<open>C4 (safety). Memory is isolated: no page of physical memory is in the reach of two processes, whether through handles to memory objects or through address spaces that map the page or have yet to flush it from the TLBs.\<close>

theorem memory_is_isolated:
  assumes "kernel_run B H n k" and "B \<le> 2 ^ 32" and "i \<noteq> j"
  shows "process_pages k i \<inter> process_pages k j = {}"
  using process_pages_disjoint [OF assms(1,2)] assms(3) by blast

theorem memory_is_isolated_witness:
  "1 \<in> process_pages demo_two_full 0 \<and> 1 \<notin> process_pages demo_two_full 1 \<and> 2 \<in> process_pages demo_two_full 1"
  using memory_is_isolated [OF demo_run_two_full [of 0], of 0 1] demo_two_pages by auto

text \<open>C5 (safety). A system call leaves every other process alone: its handle table and budget, every object that its handles refer to with the messages that wait there, the pages it can reach and their owners are after the call what they were before it.\<close>

theorem system_calls_leave_other_processes_alone:
  assumes "kernel_run B H (n + B + 4) k" and "H heap" and "B \<le> 2 ^ 32" and "execute heap cx sc k = Some (r, k')" and "j \<noteq> sc_process cx"
  shows "view_of k' j = view_of k j"
  by (rule call_keeps_view [OF assms(1) run_call [OF assms(1,2,4)] assms(3-5)])

theorem system_calls_leave_other_processes_alone_witness:
  "view_of demo_two_full 0 = view_of demo_two_one 0 \<and> demo_two_full \<noteq> demo_two_one"
proof -
  have "view_of demo_two_full 0 = view_of demo_two_one 0"
    by (rule system_calls_leave_other_processes_alone [where B = 4 and n = 0 and H = recv_heap, OF _ _ _ demo_second_page])
      (simp_all add: demo_run_two_one recv_heap_def demo_heap_def)
  moreover have "demo_two_full \<noteq> demo_two_one" by (simp add: demo_two_full_def demo_two_one_def demo_pair_def demo_page_def demo_object_def)
  ultimately show ?thesis by simp
qed

text \<open>C1 (safety). Every page range that an address space of a reachable kernel maps or has yet to flush from the TLBs belongs to a live memory object: the object has the recorded generation, its mapping count is exactly the number of such ranges of it in all address spaces, and all its frames are still allocated to it.  So no sequence of system calls leaves a mapping of freed memory.\<close>

theorem mapped_memory_is_live:
  assumes run: "kernel_run B H n k" and B: "B \<le> 2 ^ 32"
    and a: "om_at (k_objects k) i = Some e" "oe_payload e = PAddressSpace a" and r: "r \<in># as_refs a"
  shows "\<exists>d m. om_at (k_objects k) (or_id r) = Some d \<and> oe_generation d = or_generation r \<and> oe_payload d = PMemoryObject m
    \<and> mo_active_mappings m = count (om_maps (k_objects k)) r \<and> 0 < mo_active_mappings m
    \<and> (\<forall>p \<in> mfr_pages (mo_frame_range m). fa_view (k_frames k) p = Some (Allocated (OwnerMemoryObject (or_id r) (or_generation r))))"
proof (rule kernel_run_objects [OF run B])
  fix lost L
  assume om: "om_ok (om_capacity (k_objects k)) n (lost + table_refs (ptb_processes (k_processes k))) {#} L (k_objects k)"
    and fa: "fa_ok n L (k_frames k)"
  let ?om = "k_objects k"
  have r: "r \<in># om_maps ?om" using mset_subset_eqD [OF as_refs_counted [OF a om_okD(3) [OF om]] r] .
  then have "names_memory ?om r" by (rule om_ok_names(4) [OF om])
  then obtain d m where d: "om_at ?om (or_id r) = Some d" "oe_generation d = or_generation r" "oe_payload d = PMemoryObject m"
    by (auto simp: names_memory_def names_iff kind_memory)
  have "mo_active_mappings m = count (om_maps ?om) r"
    using om_okD(5) [OF om] d by (cases r) (auto simp: maps_ok_def)
  moreover have "(OwnerMemoryObject (or_id r) (or_generation r), mo_frame_range m) \<in> L"
    using om_lease_unique [OF om d(1)] d by simp
  then have "\<forall>p \<in> mfr_pages (mo_frame_range m). fa_view (k_frames k) p = Some (Allocated (OwnerMemoryObject (or_id r) (or_generation r)))"
    using fa by (auto simp: fa_ok_def frames.leased_def)
  ultimately show ?thesis using d r by auto
qed

theorem mapped_memory_is_live_witness:
  "\<exists>d m. om_at (k_objects demo_map_kernel) 1 = Some d \<and> oe_payload d = PMemoryObject m
    \<and> mo_active_mappings m = count (om_maps (k_objects demo_map_kernel)) \<lparr>or_id = 1, or_generation = 1\<rparr>"
proof -
  define e where "e = the (demo_object 2 (demo_address_space (Some \<lparr>vm_base = 4096, vm_size_bytes = 4096,
    vm_memory = \<lparr>or_id = 1, or_generation = 1\<rparr>, vm_memory_offset = 0, vm_rights = 1\<rparr>) 1) 1)"
  have e: "om_at (k_objects demo_map_kernel) 2 = Some e"
    by (simp add: demo_map_kernel_def demo_vm_def demo_at e_def demo_object_def)
  obtain a where a: "oe_payload e = PAddressSpace a" "\<lparr>or_id = 1, or_generation = 1\<rparr> \<in># as_refs a"
    by (auto simp: e_def demo_object_def demo_address_space_def as_refs_def as_mappings_def)
  show ?thesis
    using mapped_memory_is_live [OF demo_run_map [of 0] _ e a] by auto
qed

text \<open>C6 (invariant). In a reachable kernel the handle count of an object is exactly the number of handles to it in all handle tables and in all waiting messages, if receives never ran out of memory.\<close>

theorem reference_counts_are_exact:
  assumes run: "kernel_run B H n k" and B: "B \<le> 2 ^ 32" and H: "\<forall>heap. H heap \<longrightarrow> recv_heap heap"
    and e: "om_at (k_objects k) i = Some e"
  shows "oe_handle_count e
    = count (table_refs (ptb_processes (k_processes k)) + om_refs (k_objects k)) (i, oe_generation e, payload_kind (oe_payload e))"
proof (rule kernel_run_objects [OF run B])
  fix lost L
  assume om: "om_ok (om_capacity (k_objects k)) n (lost + table_refs (ptb_processes (k_processes k))) {#} L (k_objects k)"
    and "(\<forall>heap. H heap \<longrightarrow> recv_heap heap) \<longrightarrow> lost = {#}"
  then show ?thesis using refs_okD(3) [OF om_okD(4) [OF om] e] H by simp
qed

theorem reference_counts_are_exact_witness:
  "count (table_refs (ptb_processes (k_processes demo_kernel)) + om_refs (k_objects demo_kernel)) (1, 1, KindMemoryObject) = 1"
  using reference_counts_are_exact [OF demo_run [of 0], of 1] by (simp add: demo_eval om_at_def)

text \<open>C7 (invariant). Every handle in a table or in a waiting message names a live object of the same generation and kind, which counts it.\<close>

theorem handles_name_live_objects:
  assumes run: "kernel_run B H n k" and B: "B \<le> 2 ^ 32"
    and r: "(i, g, kind) \<in># table_refs (ptb_processes (k_processes k)) + om_refs (k_objects k)"
  shows "\<exists>e. om_at (k_objects k) i = Some e \<and> oe_generation e = g \<and> payload_kind (oe_payload e) = kind \<and> oe_state e = Live
    \<and> 0 < oe_handle_count e"
proof (rule kernel_run_objects [OF run B])
  fix lost L
  assume om: "om_ok (om_capacity (k_objects k)) n (lost + table_refs (ptb_processes (k_processes k))) {#} L (k_objects k)"
  have "names (k_objects k) (i, g, kind)" using om_ok_names(1,2) [OF om, of "(i, g, kind)"] r by auto
  then obtain e where e: "om_at (k_objects k) i = Some e" "oe_generation e = g" "payload_kind (oe_payload e) = kind"
    by (auto simp: names_iff)
  moreover have "0 < oe_handle_count e" using refs_okD(3) [OF om_okD(4) [OF om] e(1)] e r by auto
  ultimately show ?thesis using om_ok_at(3) [OF om e(1)] by blast
qed

theorem handles_name_live_objects_witness: "\<exists>e. om_at (k_objects demo_kernel) 1 = Some e \<and> oe_state e = Live"
proof -
  have "(1, 1, KindMemoryObject) \<in># table_refs (ptb_processes (k_processes demo_kernel)) + om_refs (k_objects demo_kernel)"
    by (simp add: demo_eval table_refs_def ht_refs_def ht_entries_def live_def hte_ref_def)
  then show ?thesis using handles_name_live_objects [OF demo_run [of 0]] by fastforce
qed

text \<open>C8 (refinement). The frame allocator and the object table agree: a frame is allocated to an owner exactly when the owner is a live memory object of that generation whose range has the frame.  No frame leaks and none has two owners.\<close>

theorem frames_belong_to_live_memory_objects:
  assumes run: "kernel_run B H n k" and B: "B \<le> 2 ^ 32"
  shows "fa_view (k_frames k) p = Some (Allocated owner)
    \<longleftrightarrow> (\<exists>i e m. om_at (k_objects k) i = Some e \<and> oe_payload e = PMemoryObject m
      \<and> owner = OwnerMemoryObject i (oe_generation e) \<and> p \<in> mfr_pages (mo_frame_range m))"
proof (rule kernel_run_objects [OF run B])
  fix lost L
  assume om: "om_ok (om_capacity (k_objects k)) n (lost + table_refs (ptb_processes (k_processes k))) {#} L (k_objects k)"
    and fa: "fa_ok n L (k_frames k)"
  have leased: "frames.leased (k_frames k) L" using fa by (simp add: fa_ok_def)
  have "fa_view (k_frames k) p = Some (Allocated owner) \<longleftrightarrow> (\<exists>r. (owner, r) \<in> L \<and> p \<in> mfr_pages r)"
    using leased frames.leased_page [OF leased, of p owner] by (auto simp: frames.leased_def)
  then show ?thesis by (auto simp: memory_lease_iff [OF om])
qed

theorem frames_belong_to_live_memory_objects_witness:
  "\<exists>i e m. om_at (k_objects demo_kernel) i = Some e \<and> oe_payload e = PMemoryObject m \<and> 1 \<in> mfr_pages (mo_frame_range m)"
proof -
  have "fa_view (k_frames demo_kernel) 1 = Some (Allocated (OwnerMemoryObject 1 1))"
    by (simp add: demo_eval fa_view_def fe_page_def)
  then show ?thesis using frames_belong_to_live_memory_objects [OF demo_run [of 0], of 1 "OwnerMemoryObject 1 1"] by auto
qed

text \<open>C9 (safety). Processes are isolated: a process never has a handle to an object that another process has a handle to, and no message that waits at an endpoint of one process carries a handle to an object of another, whatever was created, duplicated, sent and received.\<close>

theorem processes_are_isolated:
  assumes run: "kernel_run B H n k" and B: "B \<le> 2 ^ 32"
    and p: "ptb_get (k_processes k) i = Ok p" "ht_valid_entry (pr_handles p) h = Ok e"
    and q: "ptb_get (k_processes k) j = Ok q" "ht_valid_entry (pr_handles q) h' = Ok d" and ij: "i \<noteq> j"
  shows "object_of e \<noteq> object_of d
    \<and> (\<forall>x c w. om_at (k_objects k) (hte_object e) = Some x \<longrightarrow> oe_payload x = PChannelEndpoint c \<longrightarrow> waits c w \<longrightarrow> object_of w \<noteq> object_of d)"
proof -
  obtain own where iso: "isolated own (kernel_tables k) (endpoint_at (k_objects k))"
    using kernel_run_isolated [OF run B] by (auto simp: kernel_isolated_def)
  have own: "own (object_of e) = i" "own (object_of d) = j"
    using table_ownedD(5) [OF isolatedD(1) [OF iso kernel_tables_at]] p q by blast+
  have "own (object_of w) = i" if x: "om_at (k_objects k) (hte_object e) = Some x" "oe_payload x = PChannelEndpoint c" "waits c w" for x c w
  proof (rule kernel_run_handles [OF run B p(1)])
    fix C D X L assume "ho_ok C D n X L (pr_handles p, k_objects k)"
    from ht_valid_entry_names [OF this p(2)] x have "endpoint_at (k_objects k) (hte_object e) = Some (hte_object_generation e, c)"
      by (auto simp: names_iff endpoint_at_iff)
    from isolatedD(2) [OF iso this] own(1) x(3) show ?thesis
      by (auto simp: endpoint_owned_def waiting_owned_def object_of_def)
  qed
  then show ?thesis using own ij by metis
qed

theorem processes_are_isolated_witness:
  "\<exists>e d p q. ptb_get (k_processes demo_two) 0 = Ok p \<and> ptb_get (k_processes demo_two) 1 = Ok q \<and> object_of e \<noteq> object_of d
    \<and> ht_valid_entry (pr_handles p) 0x100000000 = Ok e \<and> ht_valid_entry (pr_handles q) 0x100000000 = Ok d"
proof -
  obtain p e where p: "ptb_get (k_processes demo_two) 0 = Ok p" "ht_valid_entry (pr_handles p) 0x100000000 = Ok e"
    by (simp add: pair_eval)
  obtain q d where q: "ptb_get (k_processes demo_two) 1 = Ok q" "ht_valid_entry (pr_handles q) 0x100000000 = Ok d"
    by (simp add: pair_eval)
  show ?thesis using processes_are_isolated [OF demo_run_two [of 0] _ p q] p q by auto
qed

text \<open>C10 (safety). No system call panics on a reachable kernel: no index is out of range, no counter overflows, whatever the process, the call and the answers of the heap.\<close>

theorem system_calls_never_panic:
  assumes run: "kernel_run B H (n + B + 4) k" and B: "B \<le> 2 ^ 32"
  shows "execute heap cx sc k \<noteq> Some (Panic, k')"
proof -
  obtain lost where ok: "kernel_ok B (n + B + 4) lost k" using kernel_run_ok [OF run B] by blast
  show ?thesis by (cases rule: execute_cases [OF ok, of heap cx sc]) auto
qed

theorem system_calls_never_panic_witness:
  "execute demo_heap demo_context demo_create demo_kernel \<noteq> Some (Panic, demo_kernel)"
  by (rule system_calls_never_panic [of 4 recv_heap 0]) (simp_all add: demo_run)

text \<open>C11 (functional). A lookup gives a view of the object exactly when the handle is current, has the rights and names an object of the kind; each of its errors is characterised, and it never panics.\<close>

theorem lookup_handle_accepts_exactly:
  assumes run: "kernel_run B H n k" and B: "B \<le> 2 ^ 32" and p: "ptb_get (k_processes k) i = Ok p"
  shows "case lookup_handle k i h kind rights of
      Ok v \<Rightarrow> \<exists>e d. ht_valid_entry (pr_handles p) h = Ok e \<and> rights_contain (hte_rights e) rights \<and> hte_kind e = kind
        \<and> om_at (k_objects k) (hte_object e) = Some d \<and> oe_generation d = hte_object_generation e \<and> payload_kind (oe_payload d) = kind
        \<and> v = \<lparr>hvw_handle = h, hvw_entry = e, hvw_object = snapshot_of d\<rparr>
    | Err MissingRights \<Rightarrow> \<exists>e. ht_valid_entry (pr_handles p) h = Ok e \<and> \<not> rights_contain (hte_rights e) rights
    | Err WrongObjectType \<Rightarrow> \<exists>e. ht_valid_entry (pr_handles p) h = Ok e \<and> rights_contain (hte_rights e) rights \<and> hte_kind e \<noteq> kind
    | Err err \<Rightarrow> ht_valid_entry (pr_handles p) h = Err err
    | Panic \<Rightarrow> False"
proof (rule kernel_run_process [OF run B p])
  fix C X assume "proc_ok C (om_capacity (k_objects k)) n X (p, k_objects k, k_frames k)"
  then obtain L where ok: "ho_ok C (om_capacity (k_objects k)) n X L (pr_handles p, k_objects k)"
    by (auto simp: po_ok_def elim!: proc_okE)
  have eq: "lookup_handle k i h kind rights = ht_lookup (pr_handles p) (k_objects k) h kind rights"
    using p by (simp add: lookup_handle_def)
  obtain H where H: "ht_ok C n H (pr_handles p)" by (rule ho_okE [OF ok])
  show ?thesis
  proof (cases rule: ht_lookup_cases [OF ok, of h kind rights])
    case (1 v e)
    then show ?thesis unfolding eq by (cases v) auto
  next
    case (2 err)
    then have "err \<in> {InvalidHandle, StaleHandle}" by (cases rule: ht_valid_entry_cases [OF H, of h]) auto
    then show ?thesis unfolding eq using 2 by auto
  qed (simp_all add: eq)
qed

theorem lookup_handle_accepts_exactly_witness:
  "\<exists>d. om_at (k_objects demo_kernel) 1 = Some d \<and> oe_generation d = 1"
proof -
  obtain v where v: "lookup_handle demo_kernel (sc_process demo_context) demo_handle KindMemoryObject HR_READ = Ok v"
    "hte_object (hvw_entry v) = 1" "hte_object_generation (hvw_entry v) = 1"
    by (simp add: demo_eval cong: step_congs)
  show ?thesis
    using lookup_handle_accepts_exactly [OF demo_run [of 0] _ demo_processes(2), where h = demo_handle and kind = KindMemoryObject and rights = HR_READ] v
    by auto
qed

text \<open>C12 (functional). The creation of a memory object succeeds exactly when the size is a positive number of whole pages, the process has budget and a free handle slot, the object table has a free slot, and there is a run of free pages; the error names the first of these that is missing, and then nothing changes. On success the process has a handle with the rights asked for to a new memory object of the size, whose pages were free and are now allocated to it.\<close>

theorem memory_objects_are_created_exactly:
  assumes run: "kernel_run B H (n + B + 4) k" and B: "B \<le> 2 ^ 32" and p: "ptb_get (k_processes k) (sc_process cx) = Ok p"
  shows "case memory_creation_error size_bytes (p, k_objects k, k_frames k) of
      Some e \<Rightarrow> execute heap cx (CreateMemoryObject size_bytes rights) k = Some (Err e, k)
    | None \<Rightarrow> \<exists>h k' p' e c m. execute heap cx (CreateMemoryObject size_bytes rights) k = Some (Ok (OutcomeHandle h), k')
        \<and> ptb_get (k_processes k') (sc_process cx) = Ok p' \<and> ht_entry (pr_handles p') h = Ok e
        \<and> hte_rights e = rights \<and> hte_parent e = None
        \<and> om_at (k_objects k) (hte_object e) = None \<and> om_at (k_objects k') (hte_object e) = Some c
        \<and> oe_generation c = hte_object_generation e \<and> oe_payload c = PMemoryObject m \<and> mo_size_bytes m = size_bytes
        \<and> unat (mfr_end (mo_frame_range m)) = unat (mfr_start (mo_frame_range m)) + unat size_bytes
        \<and> (\<forall>page \<in> mfr_pages (mo_frame_range m). fa_view (k_frames k) page = Some Free
            \<and> fa_view (k_frames k') page = Some (Allocated (OwnerMemoryObject (hte_object e) (hte_object_generation e))))"
proof (rule kernel_run_process [OF run B p])
  fix C X assume ok: "proc_ok C (om_capacity (k_objects k)) (n + B + 4) X (p, k_objects k, k_frames k)"
  obtain L where "fa_ok (n + B + 4) L (k_frames k)" by (rule proc_okE [OF ok])
  then have wf: "fa_wf (k_frames k)" by (simp add: fa_ok_def)
  have ex: "execute heap cx (CreateMemoryObject size_bytes rights) k
      = Some (outcome OutcomeHandle (sc_process cx) k (create_memory_object_handle size_bytes rights (p, k_objects k, k_frames k)))"
    by (simp add: execute_at [OF p])
  show ?thesis
  proof (cases rule: create_memory_object_cases [OF ok, of size_bytes rights])
    case (1 L i r sl p1 h ht' om' fa' e)
    let ?k' = "k_put (sc_process cx) k (p1\<lparr>pr_handles := ht'\<rparr>, om', fa')"
    have entry: "ht_entry ht' h = Ok e" using 1(9-11) by (simp add: ht_entry_def ht_slot_def vec_get_def)
    obtain T L' where om: "om_ok (om_capacity (k_objects k)) (n + B + 4) T {#} (insert (OwnerMemoryObject i (om_gen (k_objects k) i), r) L) om'"
      using 1(4) by (auto elim: ho_okE)
    obtain c m where c: "om_at om' i = Some c" "oe_payload c = PMemoryObject m" "oe_generation c = om_gen (k_objects k) i" "r = mo_frame_range m"
      using memory_lease_iff [OF om, of "OwnerMemoryObject i (om_gen (k_objects k) i)" r] by auto
    have ref: "hte_object e = i" "hte_object_generation e = om_gen (k_objects k) i" using 1(6) by (simp_all add: hte_ref_def)
    have "memory_ok m" using om_ok_at(4) [OF om c(1)] c(2) by simp
    moreover note res = frames.reserve_Ok [OF wf 1(12)]
    ultimately have size: "mo_size_bytes m = size_bytes" using c(4) by (simp add: memory_ok_def word_unat_eq_iff)
    have pages: "\<forall>page \<in> mfr_pages r. fa_view (k_frames k) page = Some Free
        \<and> fa_view fa' page = Some (Allocated (OwnerMemoryObject i (om_gen (k_objects k) i)))"
      using res by (simp add: view_set_def)
    have "execute heap cx (CreateMemoryObject size_bytes rights) k = Some (Ok (OutcomeHandle h), ?k')"
      by (simp add: ex 1(1) outcome_def)
    moreover have "ptb_get (k_processes ?k') (sc_process cx) = Ok (p1\<lparr>pr_handles := ht'\<rparr>)" using ptb_get_put [OF p] by simp
    ultimately show ?thesis
      using entry ref size pages c 1(3,5,7,8) res
      by (auto intro!: exI [of _ h] exI [of _ ?k'] exI [of _ "p1\<lparr>pr_handles := ht'\<rparr>"] exI [of _ e] exI [of _ c] exI [of _ m])
  next
    case (2 err)
    then show ?thesis using k_put_same [OF p] by (simp add: ex outcome_def)
  qed
qed

theorem memory_objects_are_created_exactly_witness:
  "\<exists>e. ht_entry (pr_handles demo_owner) demo_handle = Ok e \<and> hte_rights e = HR_READ OR HR_DUPLICATE
    \<and> execute demo_heap demo_context (CreateMemoryObject 4095 HR_READ) demo_booted = Some (Err InvalidArgument, demo_booted)"
proof -
  have run: "kernel_run 4 recv_heap (0 + 4 + 4) demo_booted" by (rule demo_run_booted) simp
  note created = memory_objects_are_created_exactly [OF run _ demo_processes(1)]
  have none: "memory_creation_error 4096 (demo_booted_process, k_objects demo_booted, k_frames demo_booted) = None"
  proof -
    have "free_run (fa_view (k_frames demo_booted)) 1 1" by (simp add: free_run_def demo_eval fa_view_def fe_page_def)
    then show ?thesis by (auto simp: memory_creation_error_def demo_booted_process_def demo_eval intro: exI [of _ 1])
  qed
  have some: "memory_creation_error 4095 (demo_booted_process, k_objects demo_booted, k_frames demo_booted) = Some InvalidArgument"
    by (simp add: memory_creation_error_def)
  show ?thesis
    using created [where size_bytes = 4096 and heap = demo_heap and rights = "HR_READ OR HR_DUPLICATE"] none
      created [where size_bytes = 4095 and heap = demo_heap and rights = HR_READ] some
      demo_created demo_processes(2) by (auto simp: demo_create_def)
qed

text \<open>C13 (functional). A revocation empties exactly the slots whose handles descend from the revoked one through parents that are all still valid, keeps every other slot, and returns their number.\<close>

theorem revocation_closes_exactly_the_descendants:
  assumes run: "kernel_run B H n k" and B: "B \<le> 2 ^ 32" and p: "ptb_get (k_processes k) (sc_process cx) = Ok p"
    and revoke: "execute heap cx (RevokeDescendants root) k = Some (Ok r, k')"
    and p': "ptb_get (k_processes k') (sc_process cx) = Ok p'"
  shows "\<exists>e. ht_valid_entry (pr_handles p) root = Ok e
    \<and> r = OutcomeRevoked (card {i. i < length (ht_slots (pr_handles p)) \<and> revoked (pr_handles p) root e i})
    \<and> length (ht_slots (pr_handles p')) = length (ht_slots (pr_handles p))
    \<and> (\<forall>i < length (ht_slots (pr_handles p)). hs_entry (ht_slots (pr_handles p') ! i)
        = (if revoked (pr_handles p) root e i then None else hs_entry (ht_slots (pr_handles p) ! i)))"
  using revoke p
proof (rule execute_revoke_OkE)
  fix c ht' om' fa'
  assume rv: "ht_revoke_descendants heap root (pr_handles p, k_objects k, k_frames k) = Some (Ok c, (ht', om', fa'))"
    and r: "r = OutcomeRevoked c" and "ptb_get (k_processes k') (sc_process cx) = Ok (p\<lparr>pr_handles := ht'\<rparr>)"
  then have ht': "pr_handles p' = ht'" using p' by simp
  obtain e where e: "ht_valid_entry (pr_handles p) root = Ok e" by (rule ht_revoke_root [OF rv])
  show ?thesis using ht_revoke_spec [OF kernel_run_lineage [OF run B p] e rv] e r ht' by auto
qed

theorem revocation_closes_exactly_the_descendants_witness:
  "\<exists>e. ht_valid_entry (pr_handles (demo_family_process demo_child_slot demo_grandchild_slot)) demo_handle = Ok e
    \<and> 2 = card {i. i < 4 \<and> revoked (pr_handles (demo_family_process demo_child_slot demo_grandchild_slot)) demo_handle e i}"
proof -
  have run: "kernel_run 4 recv_heap 0 demo_dup2" by (rule demo_run_dup2) simp
  have four: "length (ht_slots (pr_handles (demo_family_process demo_child_slot demo_grandchild_slot))) = 4"
    by (simp add: demo_family_process_def demo_process_def)
  show ?thesis
    using revocation_closes_exactly_the_descendants [OF run _ demo_processes(3) demo_revoked demo_processes(8)] four by auto
qed

text \<open>C14 (functional). Closing the last handle of an unmapped memory object destroys it and frees its frames; any other close of a handle to a memory object only lowers the handle count.\<close>

theorem last_close_frees_memory:
  assumes run: "kernel_run B H (n + B + 4) k" and B: "B \<le> 2 ^ 32"
    and p: "ptb_get (k_processes k) (sc_process cx) = Ok p" and e: "ht_valid_entry (pr_handles p) h = Ok e"
    and d: "om_at (k_objects k) (hte_object e) = Some d" "oe_payload d = PMemoryObject m"
  shows "\<exists>k'. execute heap cx (CloseHandle h) k = Some (Ok OutcomeClosed, k')
    \<and> (if oe_handle_count d = 1 \<and> mo_active_mappings m = 0
       then om_at (k_objects k') = (om_at (k_objects k))(hte_object e := None)
         \<and> fa_view (k_frames k') = view_set (fa_view (k_frames k)) (mo_frame_range m) Free
       else om_at (k_objects k') = (om_at (k_objects k))(hte_object e \<mapsto> d\<lparr>oe_handle_count := oe_handle_count d - 1\<rparr>)
         \<and> k_frames k' = k_frames k)"
proof (rule kernel_run_process [OF run B p])
  fix C X assume "proc_ok C (om_capacity (k_objects k)) (n + B + 4) X (p, k_objects k, k_frames k)"
  then have "proc_ok C (om_capacity (k_objects k)) (Suc 0) X (p, k_objects k, k_frames k)"
    by (rule proc_ok_mono) simp
  then have "sys_ok C (om_capacity (k_objects k)) (Suc 0) X (pr_handles p, k_objects k, k_frames k)"
    by (simp add: proc_ok_def)
  then show ?thesis
    by (rule ht_close_memory [OF _ e d]) (auto simp: execute_at [OF p] outcome_def with_handles_def split: if_splits)
qed

theorem last_close_frees_memory_witness:
  "\<exists>k'. execute demo_heap demo_context (CloseHandle demo_handle) demo_kernel = Some (Ok OutcomeClosed, k')
    \<and> om_at (k_objects k') 1 = None"
proof -
  define d where "d = the (demo_object 1 demo_memory_object 1)"
  have run: "kernel_run 4 recv_heap (0 + 4 + 4) demo_kernel" by (rule demo_run) simp
  obtain e where e: "ht_valid_entry (pr_handles demo_owner) demo_handle = Ok e" "hte_object e = 1"
    by (simp add: demo_eval demo_owner_def)
  have d: "om_at (k_objects demo_kernel) (hte_object e) = Some d"
    using e(2) by (simp add: demo_kernel_def demo_at d_def demo_object_def)
  obtain m where m: "oe_payload d = PMemoryObject m" "mo_active_mappings m = 0" "oe_handle_count d = 1"
    by (simp add: d_def demo_object_def demo_memory_object_def)
  show ?thesis using last_close_frees_memory [OF run _ demo_processes(2) e(1) d m(1), of demo_heap] e(2) m by auto
qed

text \<open>C15 (functional). A message sent into an empty channel is received with the same bytes, and each handle sent becomes an entry of the receiver's table for the same object with the same rights and parent, under the handle value that the receive returns, which resolves to it while the generation of its slot is below \<open>2 ^ 32\<close> and is stale otherwise; the handles sent no longer resolve for the sender.\<close>

theorem messages_carry_handles:
  assumes run: "kernel_run B H (n + B + 4 + B + 4) k" and B: "B \<le> 2 ^ 32" and heap: "H heap"
    and p: "ptb_get (k_processes k) (sc_process cx) = Ok p"
    and send: "execute heap cx (ChannelSend channel bytes handles) k = Some (Ok sent, k1)"
    and p1: "ptb_get (k_processes k1) (sc_process cx) = Ok p1"
    and q1: "ptb_get (k_processes k1) (sc_process cx') = Ok q1"
    and recv: "execute heap' cx' (ChannelRecv channel') k1 = Some (Ok (OutcomeMessage buffer byte_len received), k2)"
    and q2: "ptb_get (k_processes k2) (sc_process cx') = Ok q2"
    and v: "lookup_handle k (sc_process cx) channel KindChannelEndpoint HR_WRITE = Ok v"
    and peer: "om_channel_peer (k_objects k) (sn_id (hvw_object v)) (sn_generation (hvw_object v)) = Ok peer"
    and empty: "om_at (k_objects k) (sn_id peer) = Some d" "oe_payload d = PChannelEndpoint c" "endpoint_bag c = {#}"
    and v': "lookup_handle k1 (sc_process cx') channel' KindChannelEndpoint HR_READ = Ok v'" "sn_id (hvw_object v') = sn_id peer"
  shows "take byte_len buffer = bytes
    \<and> list_all2 (\<lambda>h h'. \<exists>e g. ht_valid_entry (pr_handles p) h = Ok e \<and> rights_contain (hte_rights e) HR_TRANSFER
        \<and> ht_entry (pr_handles q2) h' = Ok (e\<lparr>hte_entry_generation := g\<rparr>)
        \<and> ht_valid_entry (pr_handles q2) h' = (if unat g < 2 ^ 32 then Ok (e\<lparr>hte_entry_generation := g\<rparr>) else Err StaleHandle))
        handles received
    \<and> (\<forall>h \<in> set handles. \<forall>e. ht_valid_entry (pr_handles p1) h \<noteq> Ok e)"
proof -
  obtain C D X L where po: "po_ok C D (n + B + 4 + B + 4) X L (p, k_objects k)" by (rule kernel_run_po [OF run B p])
  obtain p' om' where s: "send_channel_message heap channel bytes handles (p, k_objects k) = (Ok (), (p', om'))"
    "k1 = k_put (sc_process cx) k (p', om', k_frames k)"
    using send by (auto simp: execute_at [OF p] with_objects_def elim!: outcome_OkE apsndE)
  have p1': "p1 = p'" using p1 s(2) ptb_get_put [OF p] by simp
  have om': "om' = k_objects k1" using s(2) by simp
  have run1: "kernel_run B H (n + B + 4) k1" by (rule run_call [OF run heap send])
  obtain C' D' X' L' where po': "po_ok C' D' (n + B + 4) X' L' (q1, k_objects k1)" by (rule kernel_run_po [OF run1 B q1])
  obtain rm q' om2 where t: "recv_channel_message heap' channel' (q1, k_objects k1) = (Ok rm, (q', om2))"
    "OutcomeMessage buffer byte_len received = OutcomeMessage (rm_bytes rm) (rm_byte_len rm) (rm_handles rm)"
    "k2 = k_put (sc_process cx') k1 (q', om2, k_frames k1)"
    using recv by (auto simp: execute_at [OF q1] with_objects_def elim!: outcome_OkE apsndE)
  have q2': "q2 = q'" using q2 t(3) ptb_get_put [OF q1] by simp
  have look: "ht_lookup (pr_handles p) (k_objects k) channel KindChannelEndpoint HR_WRITE = Ok v"
    "ht_lookup (pr_handles q1) (k_objects k1) channel' KindChannelEndpoint HR_READ = Ok v'"
    using v v'(1) p q1 by (simp_all add: lookup_handle_def)
  note del = message_delivery [OF po s(1) look(1) peer empty, unfolded om', OF po' look(2) v'(2) t(1)]
  have "take byte_len buffer = bytes"
    using del(1) t(2) by (auto simp: received_bytes_def split: if_splits)
  moreover have "\<exists>e g. ht_valid_entry (pr_handles p) h = Ok e \<and> rights_contain (hte_rights e) HR_TRANSFER
      \<and> ht_entry (pr_handles q') h' = Ok (e\<lparr>hte_entry_generation := g\<rparr>)
      \<and> ht_valid_entry (pr_handles q') h' = (if unat g < 2 ^ 32 then Ok (e\<lparr>hte_entry_generation := g\<rparr>) else Err StaleHandle)"
    if "\<exists>e. ht_valid_entry (pr_handles p) h = Ok e \<and> rights_contain (hte_rights e) HR_TRANSFER
      \<and> (\<exists>d. regenerated e d \<and> holds (pr_handles q') h' d)" for h h'
    using that by (fastforce simp: regenerated_def holds_def)
  ultimately show ?thesis using del(3) t(2) p1' q2' list_all2_mono [OF del(2)] by simp
qed

theorem messages_carry_handles_witness:
  "\<exists>e. ht_valid_entry (pr_handles (demo_channel_process (demo_slot 3 2 None KindEvent 9))) 0x200000003 = Ok e \<and> hte_object e = 3"
proof -
  define d where "d = the (demo_object 2 (demo_endpoint 1 0 None) 1)"
  have run: "kernel_run 4 recv_heap (0 + 4 + 4 + 4 + 4) demo_event" by (rule demo_run_event) simp
  have heap: "recv_heap demo_heap" by (simp add: recv_heap_def demo_heap_def)
  obtain v where v: "lookup_handle demo_event (sc_process demo_context) 0x100000001 KindChannelEndpoint HR_WRITE = Ok v"
    "sn_id (hvw_object v) = 1" "sn_generation (hvw_object v) = 1" by (simp add: demo_eval cong: step_congs)
  obtain peer where peer: "om_channel_peer (k_objects demo_event) (sn_id (hvw_object v)) (sn_generation (hvw_object v)) = Ok peer"
    "sn_id peer = 2" using v(2,3) by (simp add: demo_eval cong: step_congs)
  obtain c where c: "oe_payload d = PChannelEndpoint c" "endpoint_bag c = {#}"
    by (simp add: d_def demo_object_def demo_endpoint_def endpoint_bag_def)
  have d: "om_at (k_objects demo_event) (sn_id peer) = Some d"
    using peer(2) by (simp add: demo_event_def demo_channel_def demo_at d_def demo_object_def)
  obtain v' where v': "lookup_handle demo_sent (sc_process demo_context) 0x100000002 KindChannelEndpoint HR_READ = Ok v'"
    "sn_id (hvw_object v') = sn_id peer" using peer(2) by (simp add: demo_eval cong: step_congs)
  show ?thesis
    using messages_carry_handles [OF run _ heap demo_processes(5) demo_send
        demo_processes(6) demo_processes(6) demo_recv
        demo_processes(7) v(1) peer(1) d c v']
    by (simp add: demo_eval demo_channel_process_def)
qed

text \<open>C16 (safety). A duplicate refers to the same object with the rights asked for, which the source had along with the right to duplicate, records its source as parent, and leaves every other handle as it was.  It is in the table under the handle value returned, which resolves to it while the generation of its slot is below \<open>2 ^ 32\<close> and is stale otherwise.\<close>

theorem duplicates_never_amplify:
  assumes run: "kernel_run B H (n + B + 4) k" and B: "B \<le> 2 ^ 32" and p: "ptb_get (k_processes k) (sc_process cx) = Ok p"
    and dup: "execute heap cx (DuplicateHandle source rights) k = Some (Ok r, k')"
  shows "\<exists>e d h p'. ht_valid_entry (pr_handles p) source = Ok e \<and> rights_contain (hte_rights e) HR_DUPLICATE
    \<and> rights_contain (hte_rights e) rights \<and> r = OutcomeHandle h \<and> ptb_get (k_processes k') (sc_process cx) = Ok p'
    \<and> hte_ref d = hte_ref e \<and> hte_rights d = rights
    \<and> hte_parent d = Some \<lparr>hl_handle = source, hl_object = hte_object e, hl_object_generation = hte_object_generation e\<rparr>
    \<and> ht_entry (pr_handles p') h = Ok d
    \<and> ht_valid_entry (pr_handles p') h = (if unat (hte_entry_generation d) < 2 ^ 32 then Ok d else Err StaleHandle)
    \<and> (\<forall>h' e'. ht_valid_entry (pr_handles p) h' = Ok e' \<longrightarrow> ht_valid_entry (pr_handles p') h' = Ok e')"
proof (rule kernel_run_process [OF run B p])
  fix C X assume "proc_ok C (om_capacity (k_objects k)) (n + B + 4) X (p, k_objects k, k_frames k)" and wf: "ht_wf (pr_handles p)"
  then obtain L where ok: "ho_ok C (om_capacity (k_objects k)) (n + B + 4) X L (pr_handles p, k_objects k)"
    by (auto simp: po_ok_def elim!: proc_okE)
  obtain h ht' om' where d: "ht_duplicate source rights (pr_handles p, k_objects k) = (Ok h, (ht', om'))" "r = OutcomeHandle h"
    "k' = k_put (sc_process cx) k (p\<lparr>pr_handles := ht'\<rparr>, om', k_frames k)"
    using dup by (auto simp: execute_at [OF p] with_handles_def elim!: outcome_OkE apsndE)
  have p': "ptb_get (k_processes k') (sc_process cx) = Ok (p\<lparr>pr_handles := ht'\<rparr>)"
    using d(3) ptb_get_put [OF p] by simp
  show ?thesis
  proof (rule ht_duplicate_cases [OF ok d(1)])
    fix e i d' assume e: "ht_valid_entry (pr_handles p) source = Ok e" "rights_contain (hte_rights e) HR_DUPLICATE"
      "rights_contain (hte_rights e) rights" and f: "ht_fillable (pr_handles p) i d'"
      and ht': "ht' = ht_put_entry (pr_handles p) i (Some d')" "h = hv_new (as_u64 i) (hs_generation (ht_slots (pr_handles p) ! i))"
      and d': "hte_rights d' = rights" "hte_ref d' = hte_ref e"
        "hte_parent d' = Some \<lparr>hl_handle = source, hl_object = hte_object e, hl_object_generation = hte_object_generation e\<rparr>"
    have "holds ht' h d'" using holds_new [OF wf f] by (simp add: ht')
    then have "ht_entry ht' h = Ok d'" "ht_valid_entry ht' h = (if unat (hte_entry_generation d') < 2 ^ 32 then Ok d' else Err StaleHandle)"
      "\<forall>h' e'. ht_valid_entry (pr_handles p) h' = Ok e' \<longrightarrow> ht_valid_entry ht' h' = Ok e'"
      using ht_valid_fill(2) [OF wf f] by (auto simp: ht' holds_def)
    then show ?thesis
      using e d' d(2) p' by (intro exI [of _ e] exI [of _ d'] exI [of _ h] exI [of _ "p\<lparr>pr_handles := ht'\<rparr>"]) simp
  qed
qed

theorem duplicates_never_amplify_witness:
  "\<exists>e. ht_valid_entry (pr_handles demo_owner) demo_handle = Ok e \<and> rights_contain (hte_rights e) 17"
  using duplicates_never_amplify [OF _ _ demo_processes(2) demo_duplicated, of 4 recv_heap 0] demo_run by auto

text \<open>C17 (bounds). A handle that was just installed resolves to its entry exactly when the generation of its slot is below \<open>2 ^ 32\<close>; from then on every handle installed in the slot is stale at once.\<close>

theorem new_handles_resolve_exactly:
  assumes wf: "ht_wf ht" and ins: "ht_install object rights (ht, om) = (Ok h, (ht', om'))"
    and g: "g = unat (hs_generation (ht_slots ht ! unat (hv_index h)))"
  shows "case ht_valid_entry ht' h of
      Ok e \<Rightarrow> g < 2 ^ 32 \<and> hte_object e = sn_id object \<and> hte_object_generation e = sn_generation object
        \<and> hte_rights e = rights \<and> hte_parent e = None
    | Err e \<Rightarrow> e = StaleHandle \<and> 2 ^ 32 \<le> g
    | Panic \<Rightarrow> False"
proof (rule ht_install_value [OF ins])
  fix i e assume f: "ht_fillable ht i e" "ht' = ht_put_entry ht i (Some e)" and h: "h = hv_new (as_u64 i) (hs_generation (ht_slots ht ! i))"
    and e: "hte_object e = sn_id object" "hte_object_generation e = sn_generation object" "hte_rights e = rights" "hte_parent e = None"
  have "i < 2 ^ 32" using f(1) wf by (auto simp: ht_fillable_def ht_wf_def)
  then have "unat (hv_index h) = i" by (simp add: h hv_index_new as_u64_def unat_of_nat_u64 usize_max_def)
  with ht_valid_new [OF wf f(1)] show ?thesis using e by (auto simp: f(2) h g)
qed

text \<open>A slot of generation \<open>2 ^ 32\<close>: the table hands out a handle that it refuses.\<close>

definition demo_worn_table :: handle_table where
  "demo_worn_table = \<lparr>ht_slots = [\<lparr>hs_entry = None, hs_generation = 0x100000000\<rparr>], ht_capacity = 1\<rparr>"

theorem new_handles_resolve_exactly_witness:
  "\<exists>object ht' om'. ht_install object HR_READ (demo_worn_table, k_objects demo_kernel) = (Ok 0, (ht', om'))
    \<and> ht_valid_entry ht' 0 = Err StaleHandle"
proof -
  define object where "object = snapshot_of (the (demo_object 1 demo_memory_object 1))"
  have "fst (ht_install object HR_READ (demo_worn_table, k_objects demo_kernel)) = Ok 0"
    by (simp add: object_def demo_worn_table_def demo_eval cong: step_congs)
  then obtain ht' om' where ins: "ht_install object HR_READ (demo_worn_table, k_objects demo_kernel) = (Ok 0, (ht', om'))"
    by (cases "ht_install object HR_READ (demo_worn_table, k_objects demo_kernel)") auto
  have "ht_wf demo_worn_table" by (simp add: demo_worn_table_def ht_wf_def)
  from new_handles_resolve_exactly [OF this ins refl]
  have "ht_valid_entry ht' 0 = Err StaleHandle"
    by (simp add: demo_worn_table_def hv_index_def split: result.splits)
  then show ?thesis using ins by blast
qed

text \<open>C18 (error). A system call that fails leaves the kernel as it was, budgets included, except a revocation, the creation of a channel pair and a receive that runs out of memory.\<close>

theorem failed_calls_change_nothing:
  assumes run: "kernel_run B H (n + B + 4) k" and B: "B \<le> 2 ^ 32"
    and err: "execute heap cx sc k = Some (Err e, k')"
    and sc: "case sc of RevokeDescendants _ \<Rightarrow> False | CreateChannelPair _ _ \<Rightarrow> False | ChannelRecv _ \<Rightarrow> e \<noteq> NoMemory | _ \<Rightarrow> True"
  shows "k' = k"
proof -
  obtain lost where ok: "kernel_ok B (n + B + 4) lost k" using kernel_run_ok [OF run B] by blast
  show ?thesis
  proof (cases rule: execute_cases [OF ok, of heap cx sc])
    case (3 r s p lost')
    then have "failure_keeps sc e (p, k_objects k, k_frames k) s" using err by simp
    then have "s = (p, k_objects k, k_frames k)" using sc by (cases sc) auto
    then show ?thesis using 3(1,5) err k_put_same by simp
  qed (use err in auto)
qed

theorem failed_calls_change_nothing_witness:
  "\<exists>k'. execute demo_heap demo_context (DuplicateHandle 0x100000003 HR_READ) demo_kernel = Some (Err InvalidHandle, k') \<and> k' = demo_kernel"
proof -
  have "map_option fst (execute demo_heap demo_context (DuplicateHandle 0x100000003 HR_READ) demo_kernel) = Some (Err InvalidHandle)"
    by (simp add: demo_eval cong: step_congs)
  then obtain k' where k': "execute demo_heap demo_context (DuplicateHandle 0x100000003 HR_READ) demo_kernel = Some (Err InvalidHandle, k')"
    by auto
  show ?thesis using failed_calls_change_nothing [OF _ _ k', of 4 recv_heap 0] k' by (simp add: demo_run)
qed

text \<open>C19 (safety). A handle value that was valid and has been closed, moved or revoked never resolves again, over any sequence of calls of all processes.\<close>

theorem released_handles_never_resolve:
  assumes run: "kernel_run B H n k" and B: "B \<le> 2 ^ 32"
    and "kernel_later B H (n, k) (n', k')" and "kernel_later B H (n', k') (n'', k'')"
    and "ptb_get (k_processes k) i = Ok p" and "ptb_get (k_processes k') i = Ok p'" and "ptb_get (k_processes k'') i = Ok p''"
    and "ht_valid_entry (pr_handles p) h = Ok e" and "\<And>e. ht_valid_entry (pr_handles p') h \<noteq> Ok e"
  shows "ht_valid_entry (pr_handles p'') h \<noteq> Ok d"
proof -
  have run': "kernel_run B H n' k'" by (rule kernel_later_run [OF assms(3) run])
  have "ht_steps (pr_handles p) (pr_handles p')"
    using kernel_later_steps [OF assms(3) run B assms(5)] assms(6) by auto
  moreover have "ht_steps (pr_handles p') (pr_handles p'')"
    using kernel_later_steps [OF assms(4) run' B assms(6)] assms(7) by auto
  moreover have "ht_wf (pr_handles p)" by (rule kernel_run_process [OF run B assms(5)])
  ultimately show ?thesis using released_handle_never_valid assms(8,9) by blast
qed

theorem released_handles_never_resolve_witness:
  "\<nexists>d. ht_valid_entry \<lparr>ht_slots = demo_reused_slots, ht_capacity = 4\<rparr> demo_child = Ok d"
proof -
  have run: "kernel_run 4 recv_heap 16 demo_dup2" by (rule demo_run_dup2) simp
  have later: "kernel_later 4 recv_heap (16, demo_dup2) (8, demo_orphaned)"
    "kernel_later 4 recv_heap (8, demo_orphaned) (0, demo_reused)"
    by (simp_all add: demo_next [OF demo_child_closed] demo_next [OF demo_reuse])
  have reused: "ptb_get (k_processes demo_reused) (sc_process demo_context) = Ok (demo_process demo_reused_slots 1)"
    unfolding demo_reused_def by (rule demo_get)
  have closed: "\<And>e. ht_valid_entry (pr_handles (demo_family_process (demo_free_slot 2) demo_grandchild_slot)) demo_child \<noteq> Ok e"
    by (simp add: demo_eval demo_family_process_def)
  obtain e where e: "ht_valid_entry (pr_handles (demo_family_process demo_child_slot demo_grandchild_slot)) demo_child = Ok e"
    by (simp add: demo_eval demo_family_process_def)
  show ?thesis
    using released_handles_never_resolve [OF run _ later demo_processes(3)
        demo_processes(4) reused e closed]
    by (simp add: demo_process_def)
qed

text \<open>C20 (termination). Every system call returns, a revocation included: its walk through the parents of a handle ends, since in a reachable kernel no handle is its own ancestor, whatever was duplicated, sent and received.\<close>

theorem system_calls_return:
  assumes run: "kernel_run B H (n + B + 4) k" and B: "B \<le> 2 ^ 32"
  shows "\<exists>r k'. execute heap cx sc k = Some (r, k')"
proof -
  obtain lost where ok: "kernel_ok B (n + B + 4) lost k" using kernel_run_ok [OF run B] by blast
  show ?thesis
  proof (cases "ptb_get (k_processes k) (sc_process cx)")
    case (Ok p)
    note p = Ok
    show ?thesis
    proof (cases "\<exists>root. sc = RevokeDescendants root")
      case True
      then obtain root where sc: "sc = RevokeDescendants root" ..
      obtain x where "ht_revoke_descendants heap root (pr_handles p, k_objects k, k_frames k) = Some x"
        using ht_revoke_returns [OF kernel_run_lineage [OF run B p]] by blast
      then show ?thesis by (cases x) (auto simp: sc execute_at [OF p] outcome_def with_handles_def)
    qed (cases rule: execute_cases [OF ok, of heap cx sc]; auto)
  qed (simp_all add: execute_def)
qed

theorem system_calls_return_witness:
  "\<exists>r k'. execute demo_heap demo_context (RevokeDescendants demo_handle) demo_dup2 = Some (r, k')"
  by (rule system_calls_return [of 4 recv_heap 0]) (simp_all add: demo_run_dup2)

text \<open>C21 (equivalence). The loop that follows parents computes exactly the inductive descent relation.\<close>

theorem descends_from_decides_descent:
  assumes run: "kernel_run B H n k" and B: "B \<le> 2 ^ 32" and p: "ptb_get (k_processes k) i = Ok p"
    and e: "ht_valid_entry (pr_handles p) h = Ok e"
  shows "descends_from (pr_handles p) e root root_entry = Some (Ok (descendant (pr_handles p) root root_entry e))"
proof -
  note wf = kernel_run_lineage(1) [OF run B p]
  obtain rank where r: "ranked (pr_handles p) rank" using kernel_run_lineage(2) [OF run B p] by (auto simp: lineage_ok_def)
  show ?thesis by (rule descends_from_lineage [OF wf r ht_valid_entry_slot(1,2) [OF wf e]])
qed

theorem descends_from_decides_descent_witness:
  "\<exists>e d. ht_valid_entry (pr_handles (demo_family_process demo_child_slot demo_grandchild_slot)) demo_grandchild = Ok e
    \<and> descends_from (pr_handles (demo_family_process demo_child_slot demo_grandchild_slot)) e demo_handle d = Some (Ok True)
    \<and> descendant (pr_handles (demo_family_process demo_child_slot demo_grandchild_slot)) demo_handle d e"
proof -
  have run: "kernel_run 4 recv_heap 0 demo_dup2" by (rule demo_run_dup2) simp
  let ?ht = "pr_handles (demo_family_process demo_child_slot demo_grandchild_slot)"
  define e d where "e = the (hs_entry demo_grandchild_slot)" and "d = the (hs_entry demo_memory_slot)"
  then have e: "ht_valid_entry ?ht demo_grandchild = Ok e" "descends_from ?ht e demo_handle d = Some (Ok True)"
    by (simp_all add: demo_eval demo_family_process_def descends_from.simps)
  show ?thesis using descends_from_decides_descent [OF run _ demo_processes(3) e(1), of demo_handle d] e by auto
qed

text \<open>C22 (bounds). A successful call lowers the object budget of its process by exactly the number of objects it creates, and closing or revoking handles gives nothing back.\<close>

theorem calls_cost_exactly:
  assumes run: "kernel_run B H n k" and B: "B \<le> 2 ^ 32" and p: "ptb_get (k_processes k) (sc_process cx) = Ok p"
    and call: "execute heap cx sc k = Some (Ok r, k')"
  shows "\<exists>p'. ptb_get (k_processes k') (sc_process cx) = Ok p' \<and> remaining p = remaining p' + call_cost sc"
proof -
  have "put_cost (call_cost sc) (sc_process cx) p k k'" using dispatch_cost call by (simp add: execute_at [OF p])
  then show ?thesis using ptb_get_put [OF p] by (auto simp: put_cost_def k_put_def)
qed

theorem calls_cost_exactly_witness: "remaining demo_booted_process = remaining demo_owner + 1"
  using calls_cost_exactly [OF demo_run_booted [of 0] _ demo_processes(1) demo_created] demo_processes(2)
  by (simp add: demo_create_def)

text \<open>C23 (type). Every object of a reachable kernel sits in the slot of its id with the slot generation, is live, and its payload satisfies the invariant of its kind.\<close>

theorem kernel_objects_are_well_formed:
  assumes run: "kernel_run B H n k" and B: "B \<le> 2 ^ 32" and e: "om_at (k_objects k) i = Some e"
  shows "oe_id e = i \<and> oe_generation e = om_gen (k_objects k) i \<and> oe_state e = Live
    \<and> (case oe_payload e of
         PMemoryObject m \<Rightarrow> memory_ok m
       | PAddressSpace a \<Rightarrow> as_wf a
       | PChannelEndpoint c \<Rightarrow> endpoint_wf c
       | _ \<Rightarrow> True)"
proof (rule kernel_run_objects [OF run B])
  fix lost L
  assume om: "om_ok (om_capacity (k_objects k)) n (lost + table_refs (ptb_processes (k_processes k))) {#} L (k_objects k)"
  show ?thesis using om_ok_at [OF om e] by (cases "oe_payload e") simp_all
qed

theorem kernel_objects_are_well_formed_witness:
  "\<exists>e. om_at (k_objects demo_kernel) 1 = Some e \<and> oe_id e = 1"
  using kernel_objects_are_well_formed [OF demo_run [of 0], of 1] by (simp add: demo_eval om_at_def)

text \<open>C24 (error). A receive that finds no memory for its handles has already taken the message out of the channel: the message and the handles in it are gone.\<close>

theorem failed_receive_loses_the_message:
  assumes run: "kernel_run B H (n + B + 4) k" and B: "B \<le> 2 ^ 32" and p: "ptb_get (k_processes k) (sc_process cx) = Ok p"
    and v: "lookup_handle k (sc_process cx) channel KindChannelEndpoint HR_READ = Ok v"
    and d: "om_at (k_objects k) (sn_id (hvw_object v)) = Some d" "oe_payload d = PChannelEndpoint c"
    and m: "endpoint_dequeue c = Ok (m, c')" "cm_handle_count m \<le> ht_capacity (pr_handles p) - ht_live_count (pr_handles p)"
    and no_memory: "\<not> heap SiteRecvHandles (cm_handle_count m)"
  shows "\<exists>k'. execute heap cx (ChannelRecv channel) k = Some (Err NoMemory, k')
    \<and> om_at (k_objects k') (sn_id (hvw_object v)) = Some (d\<lparr>oe_payload := PChannelEndpoint c'\<rparr>)
    \<and> endpoint_bag c = add_mset m (endpoint_bag c') \<and> k_processes k' = k_processes k"
proof -
  obtain C D X L where po: "po_ok C D (n + B + 4) X L (p, k_objects k)" by (rule kernel_run_po [OF run B p])
  then obtain H where om: "om_ok D (n + B + 4) (X + H) {#} L (k_objects k)" and ht: "ht_ok C (n + B + 4) H (pr_handles p)"
    by (auto simp: po_ok_def elim!: ho_okE)
  have ho: "ho_ok C D (n + B + 4) X L (pr_handles p, k_objects k)" using po by (simp add: po_ok_def)
  have look: "ht_lookup (pr_handles p) (k_objects k) channel KindChannelEndpoint HR_READ = Ok v"
    using v p by (simp add: lookup_handle_def)
  have wf: "endpoint_wf c" using om_ok_at(4) [OF om d(1)] d(2) by simp
  have gen: "oe_generation d = sn_generation (hvw_object v)"
    using look d(1) by (cases rule: ht_lookup_cases [OF ho, of channel KindChannelEndpoint HR_READ]) auto
  have live: "om_live_payload (k_objects k) (sn_id (hvw_object v)) (sn_generation (hvw_object v)) = Ok (PChannelEndpoint c)"
    using om_entry_at(3) [OF om d(1)] d(2) gen by simp
  have count: "endpoint_next_handle_count c = Ok (cm_handle_count m)" and bag: "endpoint_bag c = add_mset m (endpoint_bag c')"
    using m(1) by (cases rule: endpoint_dequeue_cases [OF wf]; simp)+
  have room: "(usize_sub (ht_capacity (pr_handles p)) (ht_live_count (pr_handles p)) :: usize kernel_result)
      = Ok (ht_capacity (pr_handles p) - ht_live_count (pr_handles p))"
    using ht_ok_size [OF ht] ht_okD(2,4) [OF ht] by (simp add: usize_sub_def ht_live_count_eq)
  let ?om = "om_put_payload (k_objects k) (sn_id (hvw_object v)) (PChannelEndpoint c')"
  have "recv_channel_message heap channel (p, k_objects k) = (Err NoMemory, (p, ?om))"
    using look live count room m no_memory
    by (simp add: recv_channel_message_def om_next_channel_message_handle_count_def om_channel_endpoint_def
        om_dequeue_channel_message_def try_reserve_exact_def ensure_def)
  then have "execute heap cx (ChannelRecv channel) k = Some (Err NoMemory, k_put (sc_process cx) k (p, ?om, k_frames k))"
    by (simp add: execute_at [OF p] with_objects_def outcome_def)
  moreover have "k_processes (k_put (sc_process cx) k (p, ?om, k_frames k)) = k_processes k"
    using arg_cong [OF k_put_same [OF p], of k_processes] by simp
  moreover have "om_at ?om (sn_id (hvw_object v)) = Some (d\<lparr>oe_payload := PChannelEndpoint c'\<rparr>)"
    using om_put_payload_eq [OF d(1)] om_at_put [OF om_okD(3) [OF om] om_at_bound [OF d(1)]] by simp
  ultimately show ?thesis using bag by simp
qed

theorem failed_receive_loses_the_message_witness:
  "\<exists>k'. execute (\<lambda>_ _. False) demo_context (ChannelRecv 0x100000002) demo_sent = Some (Err NoMemory, k')
    \<and> k_processes k' = k_processes demo_sent"
proof -
  define d where "d = the (demo_object 2 (demo_endpoint 1 1 (Some demo_message)) 1)"
  have run: "kernel_run 4 recv_heap (0 + 4 + 4) demo_sent" by (rule demo_run_sent) simp
  obtain v where v: "lookup_handle demo_sent (sc_process demo_context) 0x100000002 KindChannelEndpoint HR_READ = Ok v"
    "sn_id (hvw_object v) = 2" by (simp add: demo_eval cong: step_congs)
  have d: "om_at (k_objects demo_sent) (sn_id (hvw_object v)) = Some d"
    using v(2) by (simp add: demo_sent_def demo_channel_def demo_at d_def demo_object_def)
  obtain c c' where c: "oe_payload d = PChannelEndpoint c" "endpoint_dequeue c = Ok (demo_message, c')"
    by (simp add: d_def demo_eval cong: step_congs)
  have room: "cm_handle_count demo_message \<le> ht_capacity (pr_handles (demo_channel_process (demo_free_slot 2)))
      - ht_live_count (pr_handles (demo_channel_process (demo_free_slot 2)))"
    by (simp add: demo_eval demo_channel_process_def)
  show ?thesis
    using failed_receive_loses_the_message [OF run _ demo_processes(6) v(1) d c room, of "\<lambda>_ _. False"]
    by auto
qed

text \<open>C25 (safety). A handle whose parent has been closed is not revoked with its ancestors: a revocation of any other handle keeps it.\<close>

theorem orphans_survive_revocation:
  assumes run: "kernel_run B H n k" and B: "B \<le> 2 ^ 32" and p: "ptb_get (k_processes k) (sc_process cx) = Ok p"
    and revoke: "execute heap cx (RevokeDescendants root) k = Some (Ok r, k')"
    and p': "ptb_get (k_processes k') (sc_process cx) = Ok p'"
    and orphan: "i < length (ht_slots (pr_handles p))" "hs_entry (ht_slots (pr_handles p) ! i) = Some e"
      "hte_parent e = Some parent" "hl_handle parent \<noteq> root" "ht_valid_entry (pr_handles p) (hl_handle parent) = Err err"
  shows "hs_entry (ht_slots (pr_handles p') ! i) = Some e"
  using revoke p
proof (rule execute_revoke_OkE)
  fix c ht' om' fa'
  assume rv: "ht_revoke_descendants heap root (pr_handles p, k_objects k, k_frames k) = Some (Ok c, (ht', om', fa'))"
    and "ptb_get (k_processes k') (sc_process cx) = Ok (p\<lparr>pr_handles := ht'\<rparr>)"
  then have ht': "pr_handles p' = ht'" using p' by simp
  obtain re where re: "ht_valid_entry (pr_handles p) root = Ok re" by (rule ht_revoke_root [OF rv])
  have "\<not> revoked (pr_handles p) root re i" using orphan by (auto simp: revoked_def descendant_iff [of _ _ _ e])
  then show ?thesis using ht_revoke_spec(3) [OF kernel_run_lineage [OF run B p] re rv orphan(1)] orphan(2) ht' by simp
qed

theorem orphans_survive_revocation_witness:
  "hs_entry (ht_slots (pr_handles (demo_family_process (demo_free_slot 2) demo_grandchild_slot)) ! 3) = hs_entry demo_grandchild_slot"
proof -
  have run: "kernel_run 4 recv_heap 0 demo_orphaned" by (rule demo_run_orphaned) simp
  let ?p = "demo_family_process (demo_free_slot 2) demo_grandchild_slot"
  have orphan: "3 < length (ht_slots (pr_handles ?p))" "hs_entry (ht_slots (pr_handles ?p) ! 3) = Some (the (hs_entry demo_grandchild_slot))"
    "hte_parent (the (hs_entry demo_grandchild_slot)) = Some (the (demo_parent demo_child))" "hl_handle (the (demo_parent demo_child)) \<noteq> demo_handle"
    "ht_valid_entry (pr_handles ?p) (hl_handle (the (demo_parent demo_child))) = Err InvalidHandle"
    by (simp_all add: demo_eval demo_family_process_def)
  show ?thesis
    using orphans_survive_revocation [OF run _ demo_processes(4) demo_orphan_kept demo_processes(4) orphan]
    by (simp add: demo_grandchild_slot_def demo_slot_def)
qed

end
